(* ===== verification/Prelude.thy ===== *)
theory Prelude
  imports Main "HOL-Library.Word" "HOL-Library.Monad_Syntax"
begin

text \<open>
  Shared vocabulary of the development: the machine-integer types of the code, the
  convention for undefined behaviour, the theorem collections the component theories
  fill, and generic facts about lists, words and the option monad.

  A C++ operation that can dereference a dangling pointer (or read past a buffer without
  a check) is a function into \<open>'a option\<close>: \<open>None\<close> is undefined behaviour or a loop that
  does not end, and \<open>Some\<close> is a normal return. Exceptions the code raises and catches
  are values of a sum type where a handler distinguishes them.
\<close>

type_synonym u8 = "8 word"
type_synonym u32 = "32 word"
type_synonym u64 = "64 word"

text \<open>Addresses of heap objects (\<open>common::Order*\<close>).\<close>
type_synonym addr = nat

named_theorems frame_simps "fields an operation leaves alone"
named_theorems inv_intros "preservation of the partition invariant"

subsection \<open>The option monad\<close>

lemma bind_SomeD: "Option.bind m f = Some y \<Longrightarrow> \<exists>x. m = Some x \<and> f x = Some y"
  by (cases m) auto

lemma bind_Some_iff: "Option.bind m f = Some y \<longleftrightarrow> (\<exists>x. m = Some x \<and> f x = Some y)"
  by (cases m) auto

subsection \<open>Lists\<close>

lemma remove1_notin: "distinct xs \<Longrightarrow> x \<notin> set (remove1 x xs)"
  by simp

lemma remove1_eq_Nil: "remove1 x xs = [] \<Longrightarrow> x \<in> set xs \<Longrightarrow> xs = [x]"
  by (cases xs) (auto split: if_splits)

lemma distinct_remove1_concat:
  "distinct (concat xss) \<Longrightarrow> xs \<in> set xss \<Longrightarrow> distinct xs"
  by (induction xss) auto

text \<open>\<open>std::find_if\<close> from the front, the first element that satisfies the test.\<close>

lemma find_SomeD: "find P xs = Some x \<Longrightarrow> x \<in> set xs \<and> P x"
  by (induction xs) (auto split: if_splits)

text \<open>A test that holds of everything before an element that passes it.\<close>

lemma in_takeWhile_sorted:
  assumes "sorted_wrt R xs" and "\<And>x y. R x y \<Longrightarrow> P y \<Longrightarrow> P x" and "x \<in> set xs" and "P x"
  shows "x \<in> set (takeWhile P xs)"
  using assms by (induction xs) auto

subsection \<open>Unsigned words\<close>

lemma unat_min: "unat (min a b) = min (unat a) (unat (b :: 'a::len word))"
  by (simp add: min_def word_le_nat_alt)

lemma unat_sub_min: "unat (a - min a b) = unat a - min (unat a) (unat (b :: 'a::len word))"
  by (metis min.cobounded1 unat_min unat_sub)

lemma unat_sub_min2: "unat (b - min a b) = unat b - min (unat a) (unat (b :: 'a::len word))"
  by (metis min.cobounded2 unat_min unat_sub)

lemma unat_pos_iff: "0 < unat x \<longleftrightarrow> x \<noteq> (0 :: 'a::len word)"
  by (metis neq0_conv unat_eq_0)

lemma word_pos_iff: "0 < x \<longleftrightarrow> x \<noteq> (0 :: 'a::len word)"
  by (simp add: word_gt_0)

lemma sub_min_eq_0_iff: "a - min a b = 0 \<longleftrightarrow> a \<le> (b :: 'a::len word)"
  by (simp add: min_def) (metis eq_iff_diff_eq_0 linorder_le_cases order_antisym)

lemma sub_min_eq_0_iff2: "b - min a b = 0 \<longleftrightarrow> b \<le> (a :: 'a::len word)"
  by (simp add: min_def) (metis eq_iff_diff_eq_0 linorder_le_cases order_antisym)

subsection \<open>The contract of a keyed store\<close>

text \<open>
  Shared by the order manager and the database tables: an insertion keeps the first value of
  a key, a removal forgets the key, and neither touches another key. \<open>fits\<close> says which values
  a key can have (an order carries its own id).
\<close>

locale keyed_store =
  fixes get :: "'s \<Rightarrow> 'k \<Rightarrow> 'v option"
    and put :: "'k \<Rightarrow> 'v \<Rightarrow> 's \<Rightarrow> 's"
    and del :: "'k \<Rightarrow> 's \<Rightarrow> 's"
    and inv :: "'s \<Rightarrow> bool"
    and fits :: "'k \<Rightarrow> 'v \<Rightarrow> bool"
  assumes inv_put: "inv s \<Longrightarrow> fits k v \<Longrightarrow> inv (put k v s)"
    and inv_del: "inv s \<Longrightarrow> inv (del k s)"
    and get_put: "inv s \<Longrightarrow> fits k v \<Longrightarrow>
          get (put k v s) j = (if j = k \<and> get s k = None then Some v else get s j)"
    and get_del: "inv s \<Longrightarrow> get (del k s) j = (if j = k then None else get s j)"
begin

lemma first_put_wins:
  "inv s \<Longrightarrow> fits k v \<Longrightarrow> fits k w \<Longrightarrow> get (put k w (put k v s)) = get (put k v s)"
  by (auto simp: get_put inv_put fun_eq_iff)

lemma put_del: "inv s \<Longrightarrow> fits k v \<Longrightarrow> get (put k v (del k s)) = (get s)(k \<mapsto> v)"
  by (auto simp: get_put get_del inv_del fun_eq_iff)

lemma del_put:
  "inv s \<Longrightarrow> fits k v \<Longrightarrow> get s k = None \<Longrightarrow> get (del k (put k v s)) = get s"
  by (auto simp: get_put get_del inv_put fun_eq_iff)

lemma put_other: "inv s \<Longrightarrow> fits k v \<Longrightarrow> j \<noteq> k \<Longrightarrow> get (put k v s) j = get s j"
  by (simp add: get_put)

lemma put_commute:
  "inv s \<Longrightarrow> fits k v \<Longrightarrow> fits j w \<Longrightarrow> j \<noteq> k \<Longrightarrow>
     get (put j w (put k v s)) = get (put k v (put j w s))"
  by (auto simp: get_put inv_put fun_eq_iff)

end

end
