(* ===== verification/CppDouble.thy ===== *)
theory CppDouble
  imports Prelude Complex_Main
begin

text \<open>
  \<open>common::Price = double\<close>. A finite binary64 value is a rational; the type below allows
  every rational, so a statement about all its values holds in particular for the
  representable ones. Both zeros are \<open>Fin 0\<close> (they compare equal in C++). Comparisons are
  those of IEEE 754: any comparison with a NaN is false. Arithmetic is the exact
  operation followed by \<open>rnd64\<close>, rounding to nearest with ties to even, with gradual
  underflow and overflow to an infinity.
\<close>

datatype dbl = Fin rat | PInf | NInf | NaN

fun dlt :: "dbl \<Rightarrow> dbl \<Rightarrow> bool" where
  "dlt (Fin a) (Fin b) = (a < b)"
| "dlt (Fin _) PInf = True"
| "dlt NInf (Fin _) = True"
| "dlt NInf PInf = True"
| "dlt _ _ = False"

fun dle :: "dbl \<Rightarrow> dbl \<Rightarrow> bool" where
  "dle (Fin a) (Fin b) = (a \<le> b)"
| "dle (Fin _) PInf = True"
| "dle NInf (Fin _) = True"
| "dle NInf PInf = True"
| "dle PInf PInf = True"
| "dle NInf NInf = True"
| "dle _ _ = False"

text \<open>\<open>std::less<double>\<close> is \<open>dlt\<close>; \<open>std::greater<>\<close> swaps the arguments.\<close>

definition dgt :: "dbl \<Rightarrow> dbl \<Rightarrow> bool" where
  "dgt a b = dlt b a"

definition dge :: "dbl \<Rightarrow> dbl \<Rightarrow> bool" where
  "dge a b = dle b a"

definition isNaN :: "dbl \<Rightarrow> bool" where
  "isNaN a \<longleftrightarrow> a = NaN"

subsection \<open>Rounding\<close>

text \<open>The position of the leading bit of a positive integer.\<close>

function ilog :: "int \<Rightarrow> int" where
  "ilog n = (if n < 2 then 0 else 1 + ilog (n div 2))"
  by auto
termination by (relation "measure nat") auto

declare ilog.simps [simp del]

definition pow2 :: "int \<Rightarrow> rat" where
  "pow2 k = (if 0 \<le> k then 2 ^ nat k else 1 / 2 ^ nat (- k))"

text \<open>The exponent of the leading bit of a positive rational.\<close>

definition ilog2 :: "rat \<Rightarrow> int" where
  "ilog2 q = (let (n, d) = quotient_of q;
                  k = ilog n - ilog d
              in if q < pow2 k then k - 1 else if pow2 (k + 1) \<le> q then k + 1 else k)"

definition round_half_even :: "rat \<Rightarrow> int" where
  "round_half_even q =
     (let f = \<lfloor>q\<rfloor>; r = q - of_int f
      in if r < 1 / 2 then f else if 1 / 2 < r then f + 1
         else if even f then f else f + 1)"

text \<open>A result whose leading bit is at 1024 or above is too large.\<close>

definition rnd64 :: "rat \<Rightarrow> dbl" where
  "rnd64 q =
     (if q = 0 then Fin 0
      else let e = max (ilog2 \<bar>q\<bar> - 52) (- 1074);
               m = round_half_even (\<bar>q\<bar> / pow2 e)
           in if 1024 \<le> ilog m + e then (if q < 0 then NInf else PInf)
              else let r = of_int m * pow2 e in Fin (if q < 0 then - r else r))"

subsection \<open>Arithmetic the code uses\<close>

fun dneg :: "dbl \<Rightarrow> dbl" where
  "dneg (Fin a) = Fin (- a)"
| "dneg PInf = NInf"
| "dneg NInf = PInf"
| "dneg NaN = NaN"

fun dabs :: "dbl \<Rightarrow> dbl" where
  "dabs (Fin a) = Fin \<bar>a\<bar>"
| "dabs NaN = NaN"
| "dabs _ = PInf"

fun dadd :: "dbl \<Rightarrow> dbl \<Rightarrow> dbl" where
  "dadd (Fin a) (Fin b) = rnd64 (a + b)"
| "dadd NaN _ = NaN"
| "dadd _ NaN = NaN"
| "dadd PInf NInf = NaN"
| "dadd NInf PInf = NaN"
| "dadd PInf _ = PInf"
| "dadd _ PInf = PInf"
| "dadd NInf _ = NInf"
| "dadd _ NInf = NInf"

definition dsub :: "dbl \<Rightarrow> dbl \<Rightarrow> dbl" where
  "dsub a b = dadd a (dneg b)"

text \<open>Division; a zero divisor counts as positive zero (the code never divides by a zero).\<close>

fun ddiv :: "dbl \<Rightarrow> dbl \<Rightarrow> dbl" where
  "ddiv (Fin a) (Fin b) =
     (if b = 0 then if a = 0 then NaN else if a < 0 then NInf else PInf
      else rnd64 (a / b))"
| "ddiv NaN _ = NaN"
| "ddiv _ NaN = NaN"
| "ddiv (Fin _) _ = Fin 0"
| "ddiv PInf (Fin b) = (if b < 0 then NInf else PInf)"
| "ddiv NInf (Fin b) = (if b < 0 then PInf else NInf)"
| "ddiv _ _ = NaN"

subsection \<open>The order on doubles\<close>

lemma dlt_irrefl [simp]: "\<not> dlt a a"
  by (cases a) auto

lemma dlt_trans: "dlt a b \<Longrightarrow> dlt b c \<Longrightarrow> dlt a c"
  by (cases a; cases b; cases c) auto

lemma dlt_NaN [simp]: "\<not> dlt NaN a" "\<not> dlt a NaN"
  by (cases a; simp)+

lemma dle_NaN [simp]: "\<not> dle NaN a" "\<not> dle a NaN"
  by (cases a; simp)+

lemma dlt_total: "a \<noteq> NaN \<Longrightarrow> b \<noteq> NaN \<Longrightarrow> dlt a b \<or> a = b \<or> dlt b a"
  by (cases a; cases b) auto

lemma not_dlt_iff: "a \<noteq> NaN \<Longrightarrow> b \<noteq> NaN \<Longrightarrow> \<not> dlt a b \<longleftrightarrow> dle b a"
  by (cases a; cases b) auto

lemma dle_refl: "a \<noteq> NaN \<Longrightarrow> dle a a"
  by (cases a) auto

lemma dle_trans: "dle a b \<Longrightarrow> dle b c \<Longrightarrow> dle a c"
  by (cases a; cases b; cases c) auto

lemma dlt_imp_dle: "dlt a b \<Longrightarrow> dle a b"
  by (cases a; cases b) auto

lemma dlt_dle_trans: "dlt a b \<Longrightarrow> dle b c \<Longrightarrow> dlt a c"
  by (cases a; cases b; cases c) auto

lemma dle_dlt_trans: "dle a b \<Longrightarrow> dlt b c \<Longrightarrow> dlt a c"
  by (cases a; cases b; cases c) auto

lemma dlt_asym: "dlt a b \<Longrightarrow> \<not> dlt b a"
  by (cases a; cases b) auto

end
