(* ===== verification/CppMap.thy ===== *)
theory CppMap
  imports CppDouble
begin

text \<open>
  \<open>std::map<K, V, Compare>\<close> as the list of its nodes in iteration order, with the
  comparator as an argument. A search walks past the keys that compare before the wanted
  one (\<open>lower_bound\<close>); the key it stops at is the same key when neither compares before the
  other. For a comparator that is a strict weak order this is the map of the C++ standard.
  For \<open>double\<close> keys with NaN it is what the red-black tree of libstdc++ does: a NaN search
  key descends to the first node, and a NaN node absorbs every later key.
\<close>

subsection \<open>Operations\<close>

text \<open>\<open>m[k]\<close> followed by an in-place change \<open>f\<close>; \<open>d\<close> is the value-initialised element.\<close>

fun map_upd :: "('k \<Rightarrow> 'k \<Rightarrow> bool) \<Rightarrow> 'k \<Rightarrow> 'v \<Rightarrow> ('v \<Rightarrow> 'v) \<Rightarrow> ('k \<times> 'v) list \<Rightarrow> ('k \<times> 'v) list"
  where
  "map_upd lt k d f [] = [(k, f d)]"
| "map_upd lt k d f ((k', v) # m) =
     (if lt k' k then (k', v) # map_upd lt k d f m
      else if lt k k' then (k, f d) # (k', v) # m
      else (k', f v) # m)"

fun map_find :: "('k \<Rightarrow> 'k \<Rightarrow> bool) \<Rightarrow> 'k \<Rightarrow> ('k \<times> 'v) list \<Rightarrow> 'v option" where
  "map_find lt k [] = None"
| "map_find lt k ((k', v) # m) =
     (if lt k' k then map_find lt k m else if lt k k' then None else Some v)"

fun map_erase :: "('k \<Rightarrow> 'k \<Rightarrow> bool) \<Rightarrow> 'k \<Rightarrow> ('k \<times> 'v) list \<Rightarrow> ('k \<times> 'v) list" where
  "map_erase lt k [] = []"
| "map_erase lt k ((k', v) # m) =
     (if lt k' k then (k', v) # map_erase lt k m else if lt k k' then (k', v) # m else m)"

abbreviation map_set :: "('k \<Rightarrow> 'k \<Rightarrow> bool) \<Rightarrow> 'k \<Rightarrow> 'v \<Rightarrow> ('k \<times> 'v) list \<Rightarrow> ('k \<times> 'v) list" where
  "map_set lt k v \<equiv> map_upd lt k v (\<lambda>_. v)"

abbreviation keys_sorted :: "('k \<Rightarrow> 'k \<Rightarrow> bool) \<Rightarrow> ('k \<times> 'v) list \<Rightarrow> bool" where
  "keys_sorted lt m \<equiv> sorted_wrt lt (map fst m)"

lemma fst_set_map_upd: "fst ` set (map_upd lt k d f m) \<subseteq> insert k (fst ` set m)"
  by (induction lt k d f m rule: map_upd.induct) auto

lemma fst_set_map_erase: "fst ` set (map_erase lt k m) \<subseteq> fst ` set m"
  by (induction lt k m rule: map_erase.induct) auto

lemma set_map_erase: "set (map_erase lt k m) \<subseteq> set m"
  by (induction lt k m rule: map_erase.induct) auto

subsection \<open>What a comparator promises\<close>

text \<open>Transitivity alone keeps the nodes in order; the NaN of \<open>double\<close> does not break it.\<close>

locale strict_order =
  fixes lt :: "'k \<Rightarrow> 'k \<Rightarrow> bool"
  assumes irrefl: "\<not> lt a a"
    and trans: "lt a b \<Longrightarrow> lt b c \<Longrightarrow> lt a c"
begin

lemma asym: "lt a b \<Longrightarrow> \<not> lt b a"
  using irrefl trans by blast

lemma sorted_map_upd: "keys_sorted lt m \<Longrightarrow> keys_sorted lt (map_upd lt k d f m)"
proof (induction m)
  case Nil
  then show ?case by simp
next
  case (Cons p m)
  obtain k' v where p: "p = (k', v)" by fastforce
  have tail: "keys_sorted lt m" and hd: "\<forall>j\<in>fst ` set m. lt k' j"
    using Cons.prems by (auto simp: p)
  show ?case
  proof (cases "lt k' k")
    case True
    then have "\<forall>j\<in>fst ` set (map_upd lt k d f m). lt k' j"
      using hd fst_set_map_upd [of lt k d f m] by blast
    then show ?thesis using True Cons.IH [OF tail] by (auto simp: p)
  next
    case False
    then show ?thesis using tail hd trans by (auto simp: p)
  qed
qed

lemma sorted_map_erase: "keys_sorted lt m \<Longrightarrow> keys_sorted lt (map_erase lt k m)"
proof (induction m)
  case (Cons p m)
  then show ?case
    using fst_set_map_erase [of lt k m] by (cases p) (auto, force)
qed simp

lemma sorted_head_notin:
  assumes "keys_sorted lt ((j, v) # m)" and "lt k j \<or> k = j"
  shows "k \<notin> fst ` set m"
proof
  assume "k \<in> fst ` set m"
  then have "lt j k" using assms(1) by auto
  then show False using assms(2) irrefl trans by blast
qed

text \<open>The node an update touches holds a key equivalent to the one asked for.\<close>

lemma map_upd_member:
  "(j, w) \<in> set (map_upd lt k d f m) \<Longrightarrow>
     (j, w) \<in> set m \<or> (\<exists>v. w = f v \<and> ((j, v) \<in> set m \<or> v = d) \<and> \<not> lt j k \<and> \<not> lt k j)"
proof (induction m)
  case Nil
  then show ?case using irrefl by auto
next
  case (Cons p m)
  then show ?case using irrefl by (cases p) (auto split: if_splits)
qed

end

text \<open>On the keys that satisfy \<open>ok\<close> the comparator is a total order: the map is a finite map.\<close>

locale key_order = strict_order +
  fixes ok :: "'k \<Rightarrow> bool"
  assumes total: "ok a \<Longrightarrow> ok b \<Longrightarrow> \<not> lt a b \<Longrightarrow> \<not> lt b a \<Longrightarrow> a = b"
begin

lemma map_find_sorted:
  assumes "keys_sorted lt m" and "ok k" and "\<forall>j\<in>fst ` set m. ok j"
  shows "map_find lt k m = map_of m k"
  using assms
proof (induction m)
  case (Cons p m)
  obtain j v where p: "p = (j, v)" by fastforce
  have IH: "map_find lt k m = map_of m k" using Cons by simp
  have after: "lt k j \<Longrightarrow> map_of m k = None"
    using Cons.prems(1) sorted_head_notin [of j v m k] by (simp add: p map_of_eq_None_iff)
  consider "lt j k" | "\<not> lt j k" "lt k j" | "j = k"
    using total [of j k] Cons.prems(2,3) by (auto simp: p)
  then show ?case
  proof cases
    case 1
    then have "k \<noteq> j" using irrefl by blast
    then show ?thesis using 1 IH by (simp add: p)
  next
    case 2
    then have "k \<noteq> j" using irrefl by blast
    then show ?thesis using 2 after by (simp add: p)
  next
    case 3
    then show ?thesis using irrefl by (simp add: p)
  qed
qed simp

lemma map_of_map_upd:
  assumes "keys_sorted lt m" and "ok k" and "\<forall>j\<in>fst ` set m. ok j"
  shows "map_of (map_upd lt k d f m) =
           (map_of m)(k \<mapsto> f (case map_of m k of None \<Rightarrow> d | Some v \<Rightarrow> v))"
  using assms
proof (induction m)
  case (Cons p m)
  obtain j v where p: "p = (j, v)" by fastforce
  have IH: "map_of (map_upd lt k d f m) =
      (map_of m)(k \<mapsto> f (case map_of m k of None \<Rightarrow> d | Some v \<Rightarrow> v))"
    by (intro Cons.IH) (use Cons.prems in auto)
  have after: "lt k j \<Longrightarrow> map_of m k = None"
    using Cons.prems(1) sorted_head_notin [of j v m k] by (simp add: p map_of_eq_None_iff)
  consider "lt j k" | "\<not> lt j k" "lt k j" | "j = k"
    using total [of j k] Cons.prems(2,3) by (auto simp: p)
  then show ?case
  proof cases
    case 1
    then have "k \<noteq> j" using irrefl by blast
    then show ?thesis using 1 IH by (auto simp: p fun_eq_iff)
  next
    case 2
    then have "k \<noteq> j" using irrefl by blast
    then show ?thesis using 2 after by (auto simp: p fun_eq_iff)
  next
    case 3
    then show ?thesis using irrefl by (auto simp: p fun_eq_iff)
  qed
qed simp

lemma map_of_map_erase:
  assumes "keys_sorted lt m" and "ok k" and "\<forall>j\<in>fst ` set m. ok j"
  shows "map_of (map_erase lt k m) = (map_of m)(k := None)"
  using assms
proof (induction m)
  case (Cons p m)
  obtain j v where p: "p = (j, v)" by fastforce
  have IH: "map_of (map_erase lt k m) = (map_of m)(k := None)"
    by (intro Cons.IH) (use Cons.prems in auto)
  have after: "lt k j \<or> k = j \<Longrightarrow> map_of m k = None"
    using Cons.prems(1) sorted_head_notin [of j v m k] by (simp add: p map_of_eq_None_iff)
  consider "lt j k" | "\<not> lt j k" "lt k j" | "j = k"
    using total [of j k] Cons.prems(2,3) by (auto simp: p)
  then show ?case
  proof cases
    case 1
    then have "k \<noteq> j" using irrefl by blast
    then show ?thesis using 1 IH by (auto simp: p fun_eq_iff)
  next
    case 2
    then have "k \<noteq> j" using irrefl by blast
    then show ?thesis using 2 after by (simp add: p fun_eq_iff)
  next
    case 3
    then show ?thesis using irrefl after by (simp add: p fun_eq_iff)
  qed
qed simp

end

text \<open>Every \<open>std::map\<close> on a linearly ordered key type, and those on \<open>double\<close> keys but NaN.\<close>

interpretation linorder_map: key_order "(<) :: 'a::linorder \<Rightarrow> 'a \<Rightarrow> bool" "\<lambda>_. True"
  by unfold_locales auto

interpretation ask_map: key_order dlt "\<lambda>p. p \<noteq> NaN"
  by unfold_locales (auto dest: dlt_trans dlt_total)

interpretation bid_map: key_order dgt "\<lambda>p. p \<noteq> NaN"
  by unfold_locales (auto simp: dgt_def dest: dlt_trans dlt_total)

end
