(* ===== verification/CommonTypes.thy ===== *)
theory CommonTypes
  imports CppMap "HOL-Library.Char_ord" "HOL-Library.List_Lexorder"
begin

text \<open>
  The shared data model: \<open>common/include/common\<close> (Instrument.h, Types.h, Order.h, Trade.h)
  and \<open>common_trading/CommandType.h\<close>. Enums are datatypes in declaration order with their
  underlying value as \<open>*_index\<close>; the name tables and the two directions of every
  serialisation are translated as the loops they are.
\<close>

subsection \<open>Exceptions of the standard library\<close>

datatype exn = InvalidArgument | OutOfRange | RuntimeError

fun bind_exn :: "exn + 'a \<Rightarrow> ('a \<Rightarrow> exn + 'b) \<Rightarrow> exn + 'b" where
  "bind_exn (Inl e) f = Inl e"
| "bind_exn (Inr x) f = f x"

text \<open>\<open>try { ... } catch (const std::exception&) { return std::nullopt; }\<close>\<close>

fun catch_exn :: "exn + 'a \<Rightarrow> 'a option" where
  "catch_exn (Inl e) = None"
| "catch_exn (Inr x) = Some x"

subsection \<open>Instruments\<close>

datatype instrument =
  EURUSD | USDJPY | GBPUSD | USDCAD | USDINR | EURINR | GBPINR | AUDUSD | USDMXN

fun instrument_index :: "instrument \<Rightarrow> nat" where
  "instrument_index EURUSD = 0"
| "instrument_index USDJPY = 1"
| "instrument_index GBPUSD = 2"
| "instrument_index USDCAD = 3"
| "instrument_index USDINR = 4"
| "instrument_index EURINR = 5"
| "instrument_index GBPINR = 6"
| "instrument_index AUDUSD = 7"
| "instrument_index USDMXN = 8"

text \<open>The enumerators in declaration order; \<open>Instrument::COUNT\<close> is their number.\<close>

definition instruments :: "instrument list" where
  "instruments = [EURUSD, USDJPY, GBPUSD, USDCAD, USDINR, EURINR, GBPINR, AUDUSD, USDMXN]"

definition instrument_COUNT :: nat where
  "instrument_COUNT = length instruments"

definition symbol_names :: "string list" where
  "symbol_names = [''EURUSD'', ''USDJPY'', ''GBPUSD'', ''USDCAD'', ''USDINR'',
                   ''EURINR'', ''GBPINR'', ''AUDUSD'', ''USDMXN'']"

text \<open>Enum values are the keys of \<open>std::map<common::Symbol, ...>\<close>, ordered by value.\<close>

instantiation instrument :: linorder
begin

definition less_instrument :: "instrument \<Rightarrow> instrument \<Rightarrow> bool" where
  "less_instrument a b \<longleftrightarrow> instrument_index a < instrument_index b"

definition less_eq_instrument :: "instrument \<Rightarrow> instrument \<Rightarrow> bool" where
  "less_eq_instrument a b \<longleftrightarrow> instrument_index a \<le> instrument_index b"

lemma instrument_index_inject: "instrument_index a = instrument_index b \<Longrightarrow> a = b"
  by (cases a; cases b) simp_all

instance
  by standard (auto simp: less_instrument_def less_eq_instrument_def dest: instrument_index_inject)

end

text \<open>The loop of every \<open>from_string\<close>: the first index whose name equals the argument.\<close>

fun name_index :: "string list \<Rightarrow> string \<Rightarrow> nat option" where
  "name_index [] name = None"
| "name_index (n # ns) name = (if n = name then Some 0 else map_option Suc (name_index ns name))"

definition enum_from_string :: "'a list \<Rightarrow> string list \<Rightarrow> string \<Rightarrow> exn + 'a" where
  "enum_from_string vals names name =
     (case name_index names name of Some i \<Rightarrow> Inr (vals ! i) | None \<Rightarrow> Inl InvalidArgument)"

definition instrument_to_string :: "instrument \<Rightarrow> string" where
  "instrument_to_string s = symbol_names ! instrument_index s"

definition instrument_from_string :: "string \<Rightarrow> exn + instrument" where
  "instrument_from_string name = enum_from_string instruments symbol_names name"

subsection \<open>Order enums\<close>

datatype order_side = Buy | Sell

datatype order_type = Limit | Market | Stop | StopLimit

datatype order_status = New | PartiallyFilled | Filled | Cancelled | Rejected

datatype time_in_force = DAY | GTC | IOC | FOK | MOO | MOC

fun order_side_index :: "order_side \<Rightarrow> nat" where
  "order_side_index Buy = 0"
| "order_side_index Sell = 1"

fun order_type_index :: "order_type \<Rightarrow> nat" where
  "order_type_index Limit = 0"
| "order_type_index Market = 1"
| "order_type_index Stop = 2"
| "order_type_index StopLimit = 3"

fun order_status_index :: "order_status \<Rightarrow> nat" where
  "order_status_index New = 0"
| "order_status_index PartiallyFilled = 1"
| "order_status_index Filled = 2"
| "order_status_index Cancelled = 3"
| "order_status_index Rejected = 4"

fun time_in_force_index :: "time_in_force \<Rightarrow> nat" where
  "time_in_force_index DAY = 0"
| "time_in_force_index GTC = 1"
| "time_in_force_index IOC = 2"
| "time_in_force_index FOK = 3"
| "time_in_force_index MOO = 4"
| "time_in_force_index MOC = 5"

definition order_side_names :: "string list" where
  "order_side_names = [''Buy'', ''Sell'']"

definition order_type_names :: "string list" where
  "order_type_names = [''Limit'', ''Market'']"

definition order_status_names :: "string list" where
  "order_status_names = [''New'', ''PartiallyFilled'', ''Filled'', ''Cancelled'', ''Rejected'']"

definition time_in_force_names :: "string list" where
  "time_in_force_names = [''DAY'', ''GTC'', ''IOC'', ''FOK'', ''MOO'', ''MOC'']"

text \<open>\<open>names[static_cast<size_t>(v)]\<close>: an index past the table is undefined behaviour.\<close>

definition name_at :: "string list \<Rightarrow> nat \<Rightarrow> string option" where
  "name_at names i = (if i < length names then Some (names ! i) else None)"

definition order_side_to_string :: "order_side \<Rightarrow> string option" where
  "order_side_to_string v = name_at order_side_names (order_side_index v)"

definition order_type_to_string :: "order_type \<Rightarrow> string option" where
  "order_type_to_string v = name_at order_type_names (order_type_index v)"

definition order_status_to_string :: "order_status \<Rightarrow> string option" where
  "order_status_to_string v = name_at order_status_names (order_status_index v)"

definition time_in_force_to_string :: "time_in_force \<Rightarrow> string option" where
  "time_in_force_to_string v = name_at time_in_force_names (time_in_force_index v)"

definition from_string_OrderSide :: "string \<Rightarrow> exn + order_side" where
  "from_string_OrderSide name = enum_from_string [Buy, Sell] order_side_names name"

definition from_string_OrderType :: "string \<Rightarrow> exn + order_type" where
  "from_string_OrderType name =
     enum_from_string [Limit, Market, Stop, StopLimit] order_type_names name"

definition from_string_OrderStatus :: "string \<Rightarrow> exn + order_status" where
  "from_string_OrderStatus name =
     enum_from_string [New, PartiallyFilled, Filled, Cancelled, Rejected] order_status_names name"

definition from_string_TimeInForce :: "string \<Rightarrow> exn + time_in_force" where
  "from_string_TimeInForce name =
     enum_from_string [DAY, GTC, IOC, FOK, MOO, MOC] time_in_force_names name"

subsection \<open>Orders and trades\<close>

text \<open>\<open>common::Timestamp\<close>: nanoseconds since the epoch of \<open>system_clock\<close>.\<close>
type_synonym timestamp = int

record order =
  mClientOrderId :: string
  mCoreOrderId :: u64
  mSymbol :: instrument
  mClientId :: string
  mSenderCompID :: string
  mOrderSide :: order_side
  mOrderType :: order_type
  mTimeInForce :: time_in_force
  mOriginalQuantity :: u64
  mRemainingQuantity :: u64
  mPrice :: dbl
  mTimestamp :: timestamp
  mOrderStatus :: order_status

text \<open>The constructor: nothing is filled yet and the status is New.\<close>

definition mk_order ::
  "string \<Rightarrow> u64 \<Rightarrow> instrument \<Rightarrow> string \<Rightarrow> string \<Rightarrow> order_side \<Rightarrow> order_type \<Rightarrow>
   time_in_force \<Rightarrow> u64 \<Rightarrow> dbl \<Rightarrow> timestamp \<Rightarrow> order" where
  "mk_order clientOrderId coreOrderId symbol client senderCompID side type timeInForce
      quantity price ts =
     \<lparr>mClientOrderId = clientOrderId, mCoreOrderId = coreOrderId, mSymbol = symbol,
      mClientId = client, mSenderCompID = senderCompID, mOrderSide = side,
      mOrderType = type, mTimeInForce = timeInForce, mOriginalQuantity = quantity,
      mRemainingQuantity = quantity, mPrice = price, mTimestamp = ts, mOrderStatus = New\<rparr>"

definition setRemainingQuantity :: "u64 \<Rightarrow> order \<Rightarrow> order" where
  "setRemainingQuantity qty o1 = o1\<lparr>mRemainingQuantity := qty\<rparr>"

definition setStatus :: "order_status \<Rightarrow> order \<Rightarrow> order" where
  "setStatus status o1 = o1\<lparr>mOrderStatus := status\<rparr>"

definition setPrice :: "dbl \<Rightarrow> order \<Rightarrow> order" where
  "setPrice price o1 = o1\<lparr>mPrice := price\<rparr>"

definition setOriginalQuantity :: "u64 \<Rightarrow> order \<Rightarrow> order" where
  "setOriginalQuantity qty o1 = o1\<lparr>mOriginalQuantity := qty, mRemainingQuantity := qty\<rparr>"

lemmas order_setters = setRemainingQuantity_def setStatus_def setPrice_def setOriginalQuantity_def

record trade =
  mTradeId :: u64
  mOrderSymbol :: instrument
  mBuyOrderId :: u64
  mSellOrderId :: u64
  mQuantity :: u64
  mTradePrice :: dbl
  mTradeTimestamp :: timestamp

subsection \<open>Commands\<close>

datatype command_type = NewOrder_t | CancelOrder_t | ModifyOrder_t

text \<open>
  The class hierarchy of \<open>exchange_routing\<close>: \<open>Command\<close> with its client and timestamp, and
  the three subclasses. A \<open>NewOrder\<close> owns its order.
\<close>

datatype command =
    NewOrder (cmd_client: string) (cmd_timestamp: timestamp) (cmd_order: order)
  | CancelOrder (cmd_client: string) (cmd_timestamp: timestamp) (cmd_orderId: u64)
  | ModifyOrder (cmd_client: string) (cmd_timestamp: timestamp) (cmd_orderId: u64)
      (cmd_newPrice: dbl) (cmd_newQuantity: u64)

fun getType :: "command \<Rightarrow> command_type" where
  "getType (NewOrder _ _ _) = NewOrder_t"
| "getType (CancelOrder _ _ _) = CancelOrder_t"
| "getType (ModifyOrder _ _ _ _ _) = ModifyOrder_t"

fun command_type_index :: "command_type \<Rightarrow> nat" where
  "command_type_index NewOrder_t = 0"
| "command_type_index CancelOrder_t = 1"
| "command_type_index ModifyOrder_t = 2"

definition command_type_names :: "string list" where
  "command_type_names = [''NewOrder'', ''CancelOrder'', ''ModifyOrder'']"

definition command_type_to_string :: "command_type \<Rightarrow> string option" where
  "command_type_to_string t = name_at command_type_names (command_type_index t)"

definition command_type_from_string :: "string \<Rightarrow> exn + command_type" where
  "command_type_from_string name =
     enum_from_string [NewOrder_t, CancelOrder_t, ModifyOrder_t] command_type_names name"

subsection \<open>Serialisation round trips\<close>

lemmas enum_string_defs =
  name_at_def enum_from_string_def instrument_to_string_def instrument_from_string_def
  instruments_def symbol_names_def order_side_to_string_def order_type_to_string_def
  order_status_to_string_def time_in_force_to_string_def from_string_OrderSide_def
  from_string_OrderType_def from_string_OrderStatus_def from_string_TimeInForce_def
  order_side_names_def order_type_names_def order_status_names_def time_in_force_names_def

lemma instrument_round_trip [simp]: "instrument_from_string (instrument_to_string i) = Inr i"
  by (cases i) (simp_all add: enum_string_defs)

lemma instrument_to_string_inject [simp]:
  "instrument_to_string a = instrument_to_string b \<longleftrightarrow> a = b"
  by (metis instrument_round_trip sum.inject(2))

lemma order_side_round_trip:
  "order_side_to_string v = Some s \<Longrightarrow> from_string_OrderSide s = Inr v"
  by (cases v) (auto simp: enum_string_defs)

lemma order_type_round_trip:
  "order_type_to_string v = Some s \<Longrightarrow> from_string_OrderType s = Inr v"
  by (cases v) (auto simp: enum_string_defs)

lemma order_status_round_trip:
  "order_status_to_string v = Some s \<Longrightarrow> from_string_OrderStatus s = Inr v"
  by (cases v) (auto simp: enum_string_defs)

lemma time_in_force_round_trip:
  "time_in_force_to_string v = Some s \<Longrightarrow> from_string_TimeInForce s = Inr v"
  by (cases v) (auto simp: enum_string_defs)

lemma name_index_SomeD: "name_index ns n = Some i \<Longrightarrow> i < length ns \<and> ns ! i = n"
  by (induction ns arbitrary: i) (auto split: if_splits)

lemma order_type_to_string_eq:
  "order_type_to_string v = (case v of Limit \<Rightarrow> Some ''Limit'' | Market \<Rightarrow> Some ''Market'' | _ \<Rightarrow> None)"
  by (cases v) (simp_all add: enum_string_defs)

end
