(* ===== verification/OrderManager.thy ===== *)
theory OrderManager
  imports CommonTypes
begin

text \<open>
  \<open>exchange_state/OrderManager\<close>: the map from order id to the \<open>unique_ptr\<close> that owns the
  order. Orders live in a heap of addresses; a \<open>unique_ptr\<close> that goes out of scope frees its
  cell, and reading a freed or null address is \<open>None\<close>. Raw pointers handed out by the manager
  are addresses.
\<close>

subsection \<open>The heap\<close>

type_synonym heap = "addr \<Rightarrow> order option"

text \<open>A setter through a raw pointer.\<close>

definition heap_upd :: "addr \<Rightarrow> (order \<Rightarrow> order) \<Rightarrow> heap \<Rightarrow> heap option" where
  "heap_upd a f h = do { ord \<leftarrow> h a; Some (h(a \<mapsto> f ord)) }"

subsection \<open>State and operations\<close>

text \<open>\<open>next_addr\<close> is the address the next allocation returns.\<close>

record order_manager =
  heap :: heap
  next_addr :: addr
  mOrderMap :: "u64 \<Rightarrow> addr option"

definition empty_manager :: order_manager where
  "empty_manager = \<lparr>heap = Map.empty, next_addr = 1, mOrderMap = Map.empty\<rparr>"

text \<open>\<open>std::make_unique<Order>(...)\<close>.\<close>

definition make_unique :: "order \<Rightarrow> order_manager \<Rightarrow> addr \<times> order_manager" where
  "make_unique ord m =
     (next_addr m, m\<lparr>heap := (heap m)(next_addr m \<mapsto> ord), next_addr := next_addr m + 1\<rparr>)"

text \<open>
  The argument is a \<open>unique_ptr\<close> taken by value: when the order is not stored, it is
  destroyed on return.
\<close>

definition addOrder :: "addr \<Rightarrow> order_manager \<Rightarrow> (bool \<times> order_manager) option" where
  "addOrder a m = do {
     ord \<leftarrow> heap m a;
     Some (if mOrderMap m (mCoreOrderId ord) \<noteq> None
           then (False, m\<lparr>heap := (heap m)(a := None)\<rparr>)
           else (True, m\<lparr>mOrderMap := (mOrderMap m)(mCoreOrderId ord \<mapsto> a)\<rparr>))
   }"

definition getOrderById :: "u64 \<Rightarrow> order_manager \<Rightarrow> addr option" where
  "getOrderById i m = mOrderMap m i"

text \<open>
  The walk over the hash map; \<open>iter\<close> is its iteration order, the ids it visits.
\<close>

fun find_client :: "string \<Rightarrow> u64 list \<Rightarrow> order_manager \<Rightarrow> addr option option" where
  "find_client c [] m = Some None"
| "find_client c (i # is) m = do {
     a \<leftarrow> mOrderMap m i;
     ord \<leftarrow> heap m a;
     if mClientOrderId ord = c then Some (Some a) else find_client c is m
   }"

definition getOrderByClientOrderId ::
  "(order_manager \<Rightarrow> u64 list) \<Rightarrow> string \<Rightarrow> order_manager \<Rightarrow> addr option option" where
  "getOrderByClientOrderId iter clOrdId m = find_client clOrdId (iter m) m"

definition removeOrderById :: "u64 \<Rightarrow> order_manager \<Rightarrow> bool \<times> order_manager" where
  "removeOrderById i m = (case mOrderMap m i of
      None \<Rightarrow> (False, m)
    | Some a \<Rightarrow> (True, m\<lparr>heap := (heap m)(a := None), mOrderMap := (mOrderMap m)(i := None)\<rparr>))"

definition containsOrderById :: "u64 \<Rightarrow> order_manager \<Rightarrow> bool" where
  "containsOrderById i m \<longleftrightarrow> mOrderMap m i \<noteq> None"

definition manager_size :: "order_manager \<Rightarrow> nat" where
  "manager_size m = card (dom (mOrderMap m))"

text \<open>What iterating \<open>getOrders()\<close> promises: every id once, in some order.\<close>

definition iterates :: "(order_manager \<Rightarrow> u64 list) \<Rightarrow> bool" where
  "iterates iter \<longleftrightarrow>
     (\<forall>m. finite (dom (mOrderMap m)) \<longrightarrow> distinct (iter m) \<and> set (iter m) = dom (mOrderMap m))"

subsection \<open>Ownership\<close>

text \<open>
  Every id owns a live cell whose order carries that id (so no two ids own one cell), and
  fresh addresses are unused.
\<close>

definition manager_inv :: "order_manager \<Rightarrow> bool" where
  "manager_inv m \<longleftrightarrow>
     (\<forall>i a. mOrderMap m i = Some a \<longrightarrow> (\<exists>ord. heap m a = Some ord \<and> mCoreOrderId ord = i)) \<and>
     (\<forall>a ord. heap m a = Some ord \<longrightarrow> a < next_addr m) \<and>
     finite (dom (mOrderMap m))"

text \<open>The orders the manager holds, by id: its abstract state.\<close>

definition held :: "order_manager \<Rightarrow> u64 \<Rightarrow> order option" where
  "held m i = Option.bind (mOrderMap m i) (heap m)"

definition add_new :: "order \<Rightarrow> order_manager \<Rightarrow> order_manager" where
  "add_new ord m =
     (let (a, m1) = make_unique ord m
      in case addOrder a m1 of None \<Rightarrow> m1 | Some (_, m2) \<Rightarrow> m2)"

lemma manager_inv_empty [simp]: "manager_inv empty_manager"
  by (simp add: manager_inv_def empty_manager_def)

lemma manager_invD:
  assumes "manager_inv m" and "mOrderMap m i = Some a"
  obtains ord where "heap m a = Some ord" and "mCoreOrderId ord = i"
  using assms by (auto simp: manager_inv_def)

lemma manager_inv_inj:
  "manager_inv m \<Longrightarrow> mOrderMap m i = Some a \<Longrightarrow> mOrderMap m j = Some a \<Longrightarrow> i = j"
  by (metis manager_invD option.inject)

lemma make_unique_simps [simp]:
  "fst (make_unique ord m) = next_addr m"
  "heap (snd (make_unique ord m)) = (heap m)(next_addr m \<mapsto> ord)"
  "mOrderMap (snd (make_unique ord m)) = mOrderMap m"
  "next_addr (snd (make_unique ord m)) = next_addr m + 1"
  by (simp_all add: make_unique_def)

lemma manager_inv_fresh: "manager_inv m \<Longrightarrow> heap m (next_addr m) = None"
  by (metis manager_inv_def not_Some_eq order_less_irrefl)

lemma manager_inv_fresh_map: "manager_inv m \<Longrightarrow> mOrderMap m i \<noteq> Some (next_addr m)"
  using manager_inv_fresh by (fastforce simp: manager_inv_def)

lemma manager_inv_make [inv_intros]:
  assumes "manager_inv m" shows "manager_inv (snd (make_unique ord m))"
  using assms manager_inv_fresh_map [OF assms]
  by (fastforce simp: manager_inv_def less_Suc_eq)

lemma manager_inv_add [inv_intros]:
  assumes inv: "manager_inv m" and own: "\<forall>i. mOrderMap m i \<noteq> Some a"
    and add: "addOrder a m = Some (b, m')"
  shows "manager_inv m'"
proof -
  obtain ord where ord: "heap m a = Some ord" using add by (auto simp: addOrder_def bind_Some_iff)
  show ?thesis
  proof (cases "mOrderMap m (mCoreOrderId ord) = None")
    case True
    then have "m' = m\<lparr>mOrderMap := (mOrderMap m)(mCoreOrderId ord \<mapsto> a)\<rparr>"
      using add ord by (simp add: addOrder_def)
    then show ?thesis using inv ord by (auto simp: manager_inv_def)
  next
    case False
    then have "m' = m\<lparr>heap := (heap m)(a := None)\<rparr>"
      using add ord by (auto simp: addOrder_def)
    then show ?thesis using inv own by (fastforce simp: manager_inv_def)
  qed
qed

lemma manager_inv_remove [inv_intros]:
  assumes "manager_inv m" shows "manager_inv (snd (removeOrderById i m))"
proof (cases "mOrderMap m i")
  case (Some a)
  have "b \<noteq> a" if "mOrderMap m j = Some b" "j \<noteq> i" for j b
    using manager_inv_inj [OF assms] that Some by blast
  then show ?thesis using assms Some by (fastforce simp: manager_inv_def removeOrderById_def)
qed (simp add: assms removeOrderById_def)

lemma manager_inv_set [inv_intros]:
  assumes "manager_inv m" and "heap m a = Some ord" and "mCoreOrderId ord' = mCoreOrderId ord"
  shows "manager_inv (m\<lparr>heap := (heap m)(a \<mapsto> ord')\<rparr>)"
  using assms by (fastforce simp: manager_inv_def)

lemma held_SomeD: "manager_inv m \<Longrightarrow> held m i = Some ord \<Longrightarrow> mCoreOrderId ord = i"
  by (force simp: held_def manager_inv_def bind_Some_iff)

lemma held_None_iff: "manager_inv m \<Longrightarrow> held m i = None \<longleftrightarrow> \<not> containsOrderById i m"
  by (cases "mOrderMap m i") (auto simp: held_def containsOrderById_def elim: manager_invD)

lemma addOrder_fresh:
  "addOrder (next_addr m) (snd (make_unique ord m)) \<noteq> None"
  by (simp add: addOrder_def)

lemma held_add_new:
  assumes "manager_inv m"
  shows "held (add_new ord m) j =
     (if j = mCoreOrderId ord \<and> held m j = None then Some ord else held m j)"
proof -
  have fresh: "a \<noteq> next_addr m" if "mOrderMap m k = Some a" for k a
    using manager_inv_fresh_map [OF assms, of k] that by auto
  have "held m j = None \<longleftrightarrow> mOrderMap m j = None"
    using held_None_iff [OF assms] by (simp add: containsOrderById_def)
  then show ?thesis
    by (cases "mOrderMap m j")
      (auto simp: add_new_def make_unique_def addOrder_def held_def dest: fresh)
qed

lemma manager_inv_add_new:
  assumes "manager_inv m" shows "manager_inv (add_new ord m)"
proof -
  obtain b m' where add: "addOrder (next_addr m) (snd (make_unique ord m)) = Some (b, m')"
    using addOrder_fresh by fastforce
  have own: "\<forall>i. mOrderMap (snd (make_unique ord m)) i \<noteq> Some (next_addr m)"
    using manager_inv_fresh_map [OF assms] by simp
  have "manager_inv m'" by (rule manager_inv_add [OF manager_inv_make [OF assms] own add])
  moreover obtain m1 where "make_unique ord m = (next_addr m, m1)"
    by (simp add: make_unique_def)
  ultimately show ?thesis using add by (simp add: add_new_def)
qed

lemma held_remove:
  assumes "manager_inv m"
  shows "held (snd (removeOrderById i m)) j = (if j = i then None else held m j)"
proof (cases "mOrderMap m i")
  case (Some a)
  then have "b \<noteq> a" if "mOrderMap m j = Some b" "j \<noteq> i" for b
    using manager_inv_inj [OF assms] that by blast
  then show ?thesis
    using Some by (cases "mOrderMap m j") (auto simp: held_def removeOrderById_def)
qed (auto simp: held_def removeOrderById_def)

text \<open>The manager is a keyed store of orders.\<close>

interpretation manager: keyed_store held "\<lambda>_. add_new" "\<lambda>i m. snd (removeOrderById i m)"
  manager_inv "\<lambda>i ord. mCoreOrderId ord = i"
  by unfold_locales
    (auto simp: held_add_new held_remove manager_inv_add_new manager_inv_remove)

lemma find_client_spec:
  assumes "manager_inv m" and "set is \<subseteq> dom (mOrderMap m)"
  shows "\<exists>r. find_client c is m = Some r \<and>
     (case r of None \<Rightarrow> (\<forall>i\<in>set is. \<forall>ord. held m i = Some ord \<longrightarrow> mClientOrderId ord \<noteq> c)
      | Some a \<Rightarrow> (\<exists>i\<in>set is. \<exists>ord. mOrderMap m i = Some a \<and> heap m a = Some ord \<and>
                    mClientOrderId ord = c))"
  using assms(2)
proof (induction "is")
  case (Cons i "is")
  then obtain a where a: "mOrderMap m i = Some a" by auto
  then obtain ord where ord: "heap m a = Some ord" using assms(1) by (auto elim: manager_invD)
  show ?case
  proof (cases "mClientOrderId ord = c")
    case True
    then show ?thesis using a ord by (auto intro!: bexI [of _ i])
  next
    case False
    then show ?thesis using Cons a ord by (auto simp: held_def split: option.splits)
  qed
qed simp

end
