(* ===== verification/CppText.thy ===== *)
theory CppText
  imports CommonTypes
begin

text \<open>
  What the code uses of \<open>std::string\<close> and the number conversions: a string is a list of
  bytes, \<open>find\<close>, \<open>rfind\<close> and \<open>substr\<close> on it, \<open>std::to_string\<close> and stream output of unsigned
  values, and \<open>std::stoul\<close>, \<open>std::stoull\<close>, \<open>std::stoi\<close> with their exceptions (base 10 on
  LP64, where \<open>unsigned long\<close> has 64 bits).
\<close>

subsection \<open>Bytes\<close>

definition byte :: "char \<Rightarrow> nat" where
  "byte c = of_char c"

definition SOH :: char where
  "SOH = char_of (1::nat)"

definition isdigit :: "char \<Rightarrow> bool" where
  "isdigit c \<longleftrightarrow> 48 \<le> byte c \<and> byte c \<le> 57"

definition isspace :: "char \<Rightarrow> bool" where
  "isspace c \<longleftrightarrow> byte c = 32 \<or> 9 \<le> byte c \<and> byte c \<le> 13"

lemma byte_less: "byte c < 256"
  by (simp add: byte_def)

lemma byte_char_of: "n < 256 \<Longrightarrow> byte (char_of n) = n"
  unfolding byte_def by simp

subsection \<open>Printing unsigned numbers\<close>

definition digit_char :: "nat \<Rightarrow> char" where
  "digit_char d = char_of (48 + d)"

fun dec :: "nat \<Rightarrow> string" where
  "dec n = (if n < 10 then [digit_char n] else dec (n div 10) @ [digit_char (n mod 10)])"

declare dec.simps [simp del]

text \<open>\<open>std::to_string\<close> of an unsigned value.\<close>

definition to_string_u :: "'a::len word \<Rightarrow> string" where
  "to_string_u w = dec (unat w)"

subsection \<open>Reading unsigned numbers\<close>

definition digit_val :: "char \<Rightarrow> nat" where
  "digit_val c = byte c - 48"

fun digits_val :: "nat \<Rightarrow> string \<Rightarrow> nat" where
  "digits_val acc [] = acc"
| "digits_val acc (c # cs) = digits_val (10 * acc + digit_val c) cs"

text \<open>An optional sign, as \<open>strtoul\<close> and \<open>strtol\<close> accept it: (negative, rest).\<close>

definition take_sign :: "string \<Rightarrow> bool \<times> string" where
  "take_sign s = (case s of
      c # cs \<Rightarrow> if byte c = 45 then (True, cs) else if byte c = 43 then (False, cs) else (False, s)
    | [] \<Rightarrow> (False, s))"

text \<open>The value of the longest digit prefix after white space and sign.\<close>

definition parse_integer :: "string \<Rightarrow> (bool \<times> nat) option" where
  "parse_integer s =
     (let (neg, rest) = take_sign (dropWhile isspace s); ds = takeWhile isdigit rest
      in if ds = [] then None else Some (neg, digits_val 0 ds))"

definition stoul :: "string \<Rightarrow> exn + u64" where
  "stoul s = (case parse_integer s of
      None \<Rightarrow> Inl InvalidArgument
    | Some (neg, n) \<Rightarrow>
        if 2 ^ 64 \<le> int n then Inl OutOfRange
        else Inr (if neg then - of_nat n else of_nat n))"

definition stoi :: "string \<Rightarrow> exn + int" where
  "stoi s = (case parse_integer s of
      None \<Rightarrow> Inl InvalidArgument
    | Some (neg, n) \<Rightarrow>
        let v = (if neg then - int n else int n)
        in if v < - (2 ^ 31) \<or> 2 ^ 31 \<le> v then Inl OutOfRange else Inr v)"

subsection \<open>Searching\<close>

text \<open>\<open>s.find(pat, from)\<close>; \<open>None\<close> is \<open>npos\<close>.\<close>

fun starts_with :: "string \<Rightarrow> string \<Rightarrow> bool" where
  "starts_with [] s = True"
| "starts_with (p # ps) [] = False"
| "starts_with (p # ps) (c # cs) = (p = c \<and> starts_with ps cs)"

fun find_from_start :: "string \<Rightarrow> string \<Rightarrow> nat option" where
  "find_from_start pat [] = (if pat = [] then Some 0 else None)"
| "find_from_start pat (c # cs) =
     (if starts_with pat (c # cs) then Some 0 else map_option Suc (find_from_start pat cs))"

definition find :: "string \<Rightarrow> string \<Rightarrow> nat \<Rightarrow> nat option" where
  "find s pat from =
     (if length s < from then None
      else map_option (\<lambda>i. from + i) (find_from_start pat (drop from s)))"

definition find_char :: "string \<Rightarrow> char \<Rightarrow> nat \<Rightarrow> nat option" where
  "find_char s c from = find s [c] from"

text \<open>\<open>s.substr(pos, n)\<close> throws when \<open>pos\<close> is past the end.\<close>

definition substr :: "string \<Rightarrow> nat \<Rightarrow> nat \<Rightarrow> exn + string" where
  "substr s pos n = (if length s < pos then Inl OutOfRange else Inr (take n (drop pos s)))"

subsection \<open>Facts\<close>

lemma isdigit_digit_char [simp]: "d < 10 \<Longrightarrow> isdigit (digit_char d)"
  by (simp add: isdigit_def digit_char_def byte_char_of)

lemma digit_val_digit_char [simp]: "d < 10 \<Longrightarrow> digit_val (digit_char d) = d"
  by (simp add: digit_val_def digit_char_def byte_char_of)

lemma dec_not_Nil [simp]: "dec n \<noteq> []"
  by (subst dec.simps) simp

lemma dec_digits: "\<forall>c\<in>set (dec n). isdigit c"
proof (induction n rule: less_induct)
  case (less n)
  show ?case
    by (subst dec.simps) (use less.IH [of "n div 10"] in auto)
qed

lemma digits_val_append: "digits_val a (xs @ ys) = digits_val (digits_val a xs) ys"
  by (induction xs arbitrary: a) auto

lemma digits_val_dec: "digits_val 0 (dec n) = n"
proof (induction n rule: less_induct)
  case (less n)
  show ?case
  proof (cases "n < 10")
    case True
    then show ?thesis by (subst dec.simps) simp
  next
    case False
    then have "digits_val 0 (dec n) = 10 * digits_val 0 (dec (n div 10)) + n mod 10"
      by (subst dec.simps) (simp add: digits_val_append)
    also have "\<dots> = n" using False less.IH [of "n div 10"] by simp
    finally show ?thesis .
  qed
qed

lemma isdigit_not_space: "isdigit c \<Longrightarrow> \<not> isspace c"
  by (auto simp: isdigit_def isspace_def)

lemma parse_integer_digits:
  assumes "\<forall>c\<in>set ds. isdigit c" and "ds \<noteq> []" and "rest = [] \<or> \<not> isdigit (hd rest)"
  shows "parse_integer (ds @ rest) = Some (False, digits_val 0 ds)"
proof -
  obtain c cs where ds: "ds = c # cs" using assms(2) by (cases ds) auto
  have c: "isdigit c" using assms(1) by (simp add: ds)
  have drop: "dropWhile isspace (ds @ rest) = ds @ rest"
    using isdigit_not_space [OF c] by (simp add: ds)
  have sign: "take_sign (ds @ rest) = (False, ds @ rest)"
    using c by (auto simp: ds take_sign_def isdigit_def)
  have "takeWhile isdigit (ds @ rest) = ds"
    using assms(1,3) by (cases rest) (auto simp: takeWhile_append)
  then show ?thesis using assms(2) by (simp add: parse_integer_def drop sign)
qed

lemma parse_integer_dec: "parse_integer (dec n) = Some (False, n)"
  using parse_integer_digits [of "dec n" "[]"] by (simp add: dec_digits digits_val_dec)

lemma stoul_to_string [simp]: "stoul (to_string_u (w :: u64)) = Inr w"
  using unsigned_less [of w, where 'a = nat]
  by (simp add: stoul_def to_string_u_def parse_integer_dec not_le [symmetric])

lemma find_from_start_SomeD:
  "find_from_start pat s = Some i \<Longrightarrow> i + length pat \<le> length s \<and> starts_with pat (drop i s)"
proof (induction s arbitrary: i)
  case (Cons c cs)
  have "starts_with pat s' \<Longrightarrow> length pat \<le> length s'" for s'
    by (induction pat s' rule: starts_with.induct) auto
  then show ?case using Cons by (force split: if_splits)
qed (auto split: if_splits)

lemma find_char_app:
  "c \<notin> set xs \<Longrightarrow> find_from_start [c] (xs @ c # ys) = Some (length xs)"
  by (induction xs) auto

lemma find_from_start_char_None: "c \<notin> set xs \<Longrightarrow> find_from_start [c] xs = None"
  by (induction xs) auto

end
