(* ===== verification/FixMessages.thy ===== *)
theory FixMessages
  imports CppText
begin

text \<open>
  The FIX message structs of \<open>common/include/common_fix\<close> the engine produces:
  \<open>ExecutionReport\<close> and the two market-data messages, with the protocol enums of
  \<open>Protocol.h\<close>.
\<close>

subsection \<open>Protocol enums and characters\<close>

datatype md_entry_type = Bid | Offer | TradeEntry

datatype md_update_action = MDNew | MDChange | MDDelete

fun md_entry_type_char :: "md_entry_type \<Rightarrow> char" where
  "md_entry_type_char Bid = CHR ''0''"
| "md_entry_type_char Offer = CHR ''1''"
| "md_entry_type_char TradeEntry = CHR ''2''"

fun md_update_action_char :: "md_update_action \<Rightarrow> char" where
  "md_update_action_char MDNew = CHR ''0''"
| "md_update_action_char MDChange = CHR ''1''"
| "md_update_action_char MDDelete = CHR ''2''"

subsection \<open>Execution reports\<close>

record execution_report =
  mRSenderCompId :: u32
  mRTargetCompId :: u32
  mMessageSequenceNumber :: u64
  mExchangeOrderId :: u64
  mRClientOrderId :: string
  mExecutionId :: string
  mStatus :: order_status
  mText :: string
  mRSymbol :: instrument
  mSide :: order_side
  mOrderQuantity :: u64
  mCumulativeQuantity :: u64
  mLeavesQuantity :: u64
  mLastPrice :: dbl
  mLastQuantity :: u64
  mTransactionTime :: timestamp

subsection \<open>Market data\<close>

text \<open>
  \<open>targetSessionID\<close> is not initialised by the struct: \<open>None\<close> is the indeterminate value of
  a refresh no one has addressed yet.
\<close>

record md_incremental_entry =
  i_updateAction :: md_update_action
  i_entryType :: md_entry_type
  i_price :: dbl
  i_size :: u64
  i_entryTime :: timestamp
  i_entryPosition :: u32

record md_incremental_refresh =
  i_targetSessionID :: "u32 option"
  i_mdReqID :: string
  i_symbol :: instrument
  i_entries :: "md_incremental_entry list"

record md_entry =
  s_entryType :: md_entry_type
  s_price :: dbl
  s_size :: u64
  s_entryTime :: timestamp
  s_entryPosition :: u32

record md_snapshot =
  s_targetSessionID :: u32
  s_mdReqID :: string
  s_symbol :: instrument
  s_entries :: "md_entry list"

end
