(* ===== verification/OrderBook.thy ===== *)
theory OrderBook
  imports OrderManager FixMessages
begin

text \<open>
  \<open>exchange_matching/OrderBook\<close>: two maps from price to a queue of raw order pointers, bids
  with \<open>std::greater\<close> and asks with \<open>std::less\<close>, so that the first level is the best one.
  Every operation that reads an order through a pointer reads the heap and is \<open>None\<close> when
  the cell is gone. A publication is the refresh or snapshot handed to the publisher.
\<close>

subsection \<open>State\<close>

type_synonym levels = "(dbl \<times> addr list) list"

record order_book =
  mBidMap :: levels
  mAskMap :: levels
  mBookSymbol :: instrument

definition empty_book :: "instrument \<Rightarrow> order_book" where
  "empty_book symbol = \<lparr>mBidMap = [], mAskMap = [], mBookSymbol = symbol\<rparr>"

subsection \<open>Insertion\<close>

definition book_refresh ::
  "instrument \<Rightarrow> md_update_action \<Rightarrow> order \<Rightarrow> timestamp \<Rightarrow> md_incremental_refresh" where
  "book_refresh symbol action ord ts =
     \<lparr>i_targetSessionID = None, i_mdReqID = '''', i_symbol = symbol,
      i_entries = [\<lparr>i_updateAction = action,
         i_entryType = (if mOrderSide ord = Buy then Bid else Offer),
         i_price = mPrice ord, i_size = mRemainingQuantity ord,
         i_entryTime = ts, i_entryPosition = 0\<rparr>]\<rparr>"

definition insertOrder ::
  "addr \<Rightarrow> heap \<Rightarrow> order_book \<Rightarrow> (order_book \<times> md_incremental_refresh) option" where
  "insertOrder a h b = do {
     ord \<leftarrow> h a;
     let b' = (if mOrderSide ord = Buy
               then b\<lparr>mBidMap := map_upd dgt (mPrice ord) [] (\<lambda>l. l @ [a]) (mBidMap b)\<rparr>
               else b\<lparr>mAskMap := map_upd dlt (mPrice ord) [] (\<lambda>l. l @ [a]) (mAskMap b)\<rparr>);
     Some (b', book_refresh (mBookSymbol b) MDNew ord (mTimestamp ord))
   }"

subsection \<open>Cancellation\<close>

text \<open>\<open>std::ranges::find_if\<close> over the orders of one level.\<close>

fun find_order :: "u64 \<Rightarrow> heap \<Rightarrow> addr list \<Rightarrow> addr option option" where
  "find_order i h [] = Some None"
| "find_order i h (a # as) = do {
     ord \<leftarrow> h a;
     if mCoreOrderId ord = i then Some (Some a) else find_order i h as
   }"

text \<open>The loop over one side: the order found, and the side without it.\<close>

fun side_cancel :: "u64 \<Rightarrow> heap \<Rightarrow> levels \<Rightarrow> (addr option \<times> levels) option" where
  "side_cancel i h [] = Some (None, [])"
| "side_cancel i h ((p, orders) # m) = do {
     found \<leftarrow> find_order i h orders;
     case found of
       Some a \<Rightarrow>
         let orders' = remove1 a orders
         in Some (Some a, if orders' = [] then m else (p, orders') # m)
     | None \<Rightarrow> do {
         (r, m') \<leftarrow> side_cancel i h m;
         Some (r, (p, orders) # m')
       }
   }"

definition cancelOrder ::
  "u64 \<Rightarrow> timestamp \<Rightarrow> heap \<Rightarrow> order_book \<Rightarrow>
   (bool \<times> order_book \<times> md_incremental_refresh list) option" where
  "cancelOrder i now h b = do {
     (r, bids) \<leftarrow> side_cancel i h (mBidMap b);
     let b1 = b\<lparr>mBidMap := bids\<rparr>;
     (cancelled, b2) \<leftarrow>
       (case r of
          Some a \<Rightarrow> Some (Some a, b1)
        | None \<Rightarrow> do {
            (r', asks) \<leftarrow> side_cancel i h (mAskMap b1);
            Some (r', b1\<lparr>mAskMap := asks\<rparr>)
          });
     case cancelled of
       None \<Rightarrow> Some (False, b2, [])
     | Some a \<Rightarrow> do {
         ord \<leftarrow> h a;
         Some (True, b2, [book_refresh (mBookSymbol b2) MDDelete ord now])
       }
   }"

subsection \<open>Snapshots\<close>

text \<open>The sum of the level, in \<open>uint64_t\<close>.\<close>

fun level_total :: "heap \<Rightarrow> u64 \<Rightarrow> addr list \<Rightarrow> u64 option" where
  "level_total h totalQty [] = Some totalQty"
| "level_total h totalQty (a # as) = do {
     ord \<leftarrow> h a;
     level_total h (totalQty + mRemainingQuantity ord) as
   }"

text \<open>One side of the snapshot; an empty level is skipped without using a position.\<close>

fun side_entries :: "md_entry_type \<Rightarrow> heap \<Rightarrow> u32 \<Rightarrow> levels \<Rightarrow> md_entry list option" where
  "side_entries t h position [] = Some []"
| "side_entries t h position ((p, orders) # m) =
     (if orders = [] then side_entries t h position m
      else do {
        totalQty \<leftarrow> level_total h 0 orders;
        front \<leftarrow> h (hd orders);
        rest \<leftarrow> side_entries t h (position + 1) m;
        Some (\<lparr>s_entryType = t, s_price = p, s_size = totalQty,
               s_entryTime = mTimestamp front, s_entryPosition = position\<rparr> # rest)
      })"

definition book_snapshot :: "u64 \<Rightarrow> heap \<Rightarrow> order_book \<Rightarrow> md_snapshot option" where
  "book_snapshot sessionId h b = do {
     bids \<leftarrow> side_entries Bid h 1 (mBidMap b);
     asks \<leftarrow> side_entries Offer h 1 (mAskMap b);
     Some \<lparr>s_targetSessionID = ucast sessionId, s_mdReqID = '''', s_symbol = mBookSymbol b,
           s_entries = bids @ asks\<rparr>
   }"

subsection \<open>Well-formed books\<close>

definition addrs :: "levels \<Rightarrow> addr list" where
  "addrs m = concat (map snd m)"

text \<open>
  An order that rests at a level: alive, on its side, with quantity left, owned by the
  manager under its id, and at a price neither better nor worse than the level's key.
\<close>

definition rests ::
  "(dbl \<Rightarrow> dbl \<Rightarrow> bool) \<Rightarrow> order_side \<Rightarrow> heap \<Rightarrow> (u64 \<Rightarrow> addr option) \<Rightarrow> dbl \<Rightarrow> addr \<Rightarrow> bool" where
  "rests lt sd h own p a \<longleftrightarrow>
     (\<exists>ord. h a = Some ord \<and> mOrderSide ord = sd \<and> mRemainingQuantity ord \<noteq> 0 \<and>
        own (mCoreOrderId ord) = Some a \<and> \<not> lt p (mPrice ord) \<and> \<not> lt (mPrice ord) p)"

definition side_ok ::
  "(dbl \<Rightarrow> dbl \<Rightarrow> bool) \<Rightarrow> order_side \<Rightarrow> heap \<Rightarrow> (u64 \<Rightarrow> addr option) \<Rightarrow> levels \<Rightarrow> bool" where
  "side_ok lt sd h own m \<longleftrightarrow>
     keys_sorted lt m \<and> distinct (addrs m) \<and>
     (\<forall>(p, l)\<in>set m. l \<noteq> [] \<and> (\<forall>a\<in>set l. rests lt sd h own p a))"

definition book_ok :: "heap \<Rightarrow> (u64 \<Rightarrow> addr option) \<Rightarrow> order_book \<Rightarrow> bool" where
  "book_ok h own b \<longleftrightarrow>
     side_ok dgt Buy h own (mBidMap b) \<and> side_ok dlt Sell h own (mAskMap b)"

definition book_addrs :: "order_book \<Rightarrow> addr set" where
  "book_addrs b = set (addrs (mBidMap b)) \<union> set (addrs (mAskMap b))"

text \<open>A side without one order: the specification of a cancellation.\<close>

definition levels_remove :: "addr \<Rightarrow> levels \<Rightarrow> levels" where
  "levels_remove a m =
     filter (\<lambda>(p, l). l \<noteq> []) (map (\<lambda>(p, l). (p, remove1 a l)) m)"

lemma addrs_simps [simp]:
  "addrs [] = []" "addrs ((p, l) # m) = l @ addrs m" "addrs (m @ m') = addrs m @ addrs m'"
  by (simp_all add: addrs_def)

lemma set_addrs: "a \<in> set (addrs m) \<longleftrightarrow> (\<exists>p l. (p, l) \<in> set m \<and> a \<in> set l)"
  by (force simp: addrs_def)

lemma side_okD:
  assumes "side_ok lt sd h own m" and "a \<in> set (addrs m)"
  obtains ord where "h a = Some ord" and "mOrderSide ord = sd"
    and "mRemainingQuantity ord \<noteq> 0" and "own (mCoreOrderId ord) = Some a"
  using assms by (fastforce simp: side_ok_def set_addrs rests_def)

lemma side_ok_tail: "side_ok lt sd h own (pl # m) \<Longrightarrow> side_ok lt sd h own m"
  by (cases pl) (simp add: side_ok_def)

text \<open>What a side depends on: the cells of its orders and who owns them.\<close>

lemma side_ok_cong:
  assumes "side_ok lt sd h own m"
    and "\<And>a. a \<in> set (addrs m) \<Longrightarrow> h' a = h a"
    and "\<And>i a. a \<in> set (addrs m) \<Longrightarrow> own i = Some a \<Longrightarrow> own' i = Some a"
  shows "side_ok lt sd h' own' m"
proof -
  have "rests lt sd h' own' p a" if "(p, l) \<in> set m" "a \<in> set l" "rests lt sd h own p a" for p l a
  proof -
    have "a \<in> set (addrs m)" using that by (auto simp: set_addrs)
    then show ?thesis using that(3) assms(2,3) by (auto simp: rests_def)
  qed
  then show ?thesis using assms(1) by (fastforce simp: side_ok_def)
qed

lemma set_addrs_upd:
  "set (addrs (map_upd lt k [] (\<lambda>l. l @ [a]) m)) = insert a (set (addrs m))"
  by (induction lt k "[] :: addr list" "\<lambda>l. l @ [a]" m rule: map_upd.induct) auto

lemma distinct_addrs_upd:
  "distinct (addrs (map_upd lt k [] (\<lambda>l. l @ [a]) m)) \<longleftrightarrow>
     a \<notin> set (addrs m) \<and> distinct (addrs m)"
  by (induction lt k "[] :: addr list" "\<lambda>l. l @ [a]" m rule: map_upd.induct)
    (auto simp: set_addrs_upd)

lemma levels_remove_Cons [simp]:
  "levels_remove a ((p, l) # m) =
     (if remove1 a l = [] then levels_remove a m else (p, remove1 a l) # levels_remove a m)"
  by (simp add: levels_remove_def)

lemma levels_remove_notin:
  "a \<notin> set (addrs m) \<Longrightarrow> \<forall>(p, l)\<in>set m. l \<noteq> [] \<Longrightarrow> levels_remove a m = m"
  by (induction m) (auto simp: levels_remove_def remove1_idem)

lemma set_levels_remove:
  "(p, l) \<in> set (levels_remove a m) \<Longrightarrow>
     l \<noteq> [] \<and> (\<exists>l'. (p, l') \<in> set m \<and> l = remove1 a l')"
  by (auto simp: levels_remove_def)

lemma in_set_remove1D: "x \<in> set (remove1 a l) \<Longrightarrow> x \<in> set l"
  using notin_set_remove1 by fastforce

lemma addrs_levels_remove: "set (addrs (levels_remove a m)) \<subseteq> set (addrs m)"
  by (fastforce simp: set_addrs dest!: set_levels_remove dest: in_set_remove1D)

lemma distinct_levels_remove:
  "distinct (addrs m) \<Longrightarrow>
     distinct (addrs (levels_remove a m)) \<and> a \<notin> set (addrs (levels_remove a m))"
proof (induction m)
  case (Cons pl m)
  obtain p l where pl: "pl = (p, l)" by fastforce
  have "set (remove1 a l) \<subseteq> set l" by (simp add: set_remove1_subset)
  then show ?case using Cons addrs_levels_remove [of a m] by (auto simp: pl)
qed (simp add: levels_remove_def)

lemma levels_remove_upd:
  assumes "a \<notin> set (addrs m)" and "\<forall>(p, l)\<in>set m. l \<noteq> []"
  shows "levels_remove a (map_upd lt k [] (\<lambda>l. l @ [a]) m) = m"
  using assms
proof (induction m)
  case (Cons pl m)
  obtain p l where pl: "pl = (p, l)" by fastforce
  have "levels_remove a m = m" using Cons.prems by (intro levels_remove_notin) (auto simp: pl)
  then show ?case using Cons by (auto simp: pl remove1_append remove1_idem)
qed (simp add: levels_remove_def)

subsection \<open>What the operations do on well-formed sides\<close>

lemma side_ok_insert:
  assumes ord: "strict_order lt" and ok: "side_ok lt sd h own m"
    and a: "rests lt sd h own k a" "a \<notin> set (addrs m)" and h: "h a = Some x" "mPrice x = k"
  shows "side_ok lt sd h own (map_upd lt k [] (\<lambda>l. l @ [a]) m)"
proof -
  have "l \<noteq> [] \<and> (\<forall>b\<in>set l. rests lt sd h own p b)"
    if "(p, l) \<in> set (map_upd lt k [] (\<lambda>l. l @ [a]) m)" for p l
  proof -
    note member = strict_order.map_upd_member [OF ord that]
    consider "(p, l) \<in> set m"
      | v where "l = v @ [a]" "(p, v) \<in> set m \<or> v = []" "\<not> lt p k" "\<not> lt k p"
      using member by blast
    then show ?thesis
      by cases (use ok a h in \<open>auto simp: side_ok_def rests_def\<close>)
  qed
  then show ?thesis
    using ok a(2) strict_order.sorted_map_upd [OF ord]
    by (auto simp: side_ok_def distinct_addrs_upd)
qed

lemma find_order_spec:
  assumes "\<forall>a\<in>set l. \<exists>ord. h a = Some ord \<and> own (mCoreOrderId ord) = Some a"
  shows "find_order i h l = Some (if own i \<in> Some ` set l \<and>
           (\<exists>a ord. own i = Some a \<and> h a = Some ord \<and> mCoreOrderId ord = i)
         then own i else None)"
  using assms by (induction l) (auto split: if_splits)

text \<open>
  The cancellation loop removes exactly the order the manager holds under the id, or finds
  that it is not on this side.
\<close>

lemma side_cancel_spec:
  assumes ok: "side_ok lt sd h own m"
    and own: "\<forall>a. own i = Some a \<longrightarrow> (\<exists>ord. h a = Some ord \<and> mCoreOrderId ord = i)"
  shows "side_cancel i h m = Some
     (case own i of
        None \<Rightarrow> (None, m)
      | Some a \<Rightarrow> if a \<in> set (addrs m) then (Some a, levels_remove a m) else (None, m))"
  using ok
proof (induction m)
  case (Cons pl m)
  obtain p l where pl: "pl = (p, l)" by fastforce
  have l: "l \<noteq> []" "\<forall>a\<in>set l. \<exists>ord. h a = Some ord \<and> own (mCoreOrderId ord) = Some a"
    using Cons.prems by (auto simp: pl side_ok_def rests_def)
  have m: "\<forall>(p, l)\<in>set m. l \<noteq> []" and disj: "set l \<inter> set (addrs m) = {}"
    using Cons.prems by (auto simp: pl side_ok_def)
  note IH = Cons.IH [OF side_ok_tail [OF Cons.prems]]
  note find = find_order_spec [OF l(2), of i]
  show ?case
  proof (cases "own i")
    case None
    then show ?thesis using IH find by (simp add: pl)
  next
    case (Some a)
    then have live: "\<exists>ord. h a = Some ord \<and> mCoreOrderId ord = i" using own by simp
    show ?thesis
    proof (cases "a \<in> set l")
      case True
      then have "a \<notin> set (addrs m)" using disj by auto
      then have "levels_remove a m = m" using m by (rule levels_remove_notin)
      then show ?thesis using True Some live find by (auto simp: pl Let_def)
    next
      case False
      then have "find_order i h l = Some None" using Some find by auto
      then show ?thesis using False Some IH l(1) by (auto simp: pl remove1_idem)
    qed
  qed
qed (simp split: option.split)

lemma side_ok_remove:
  assumes ok: "side_ok lt sd h own m"
  shows "side_ok lt sd h own (levels_remove a m)"
proof -
  have "keys_sorted lt (levels_remove a m)"
  proof -
    have "sorted_wrt (\<lambda>x y. lt (fst x) (fst y)) (map (\<lambda>(p, l). (p, remove1 a l)) m)"
      using ok by (simp add: side_ok_def sorted_wrt_map split_beta)
    then have "sorted_wrt (\<lambda>x y. lt (fst x) (fst y)) (levels_remove a m)"
      unfolding levels_remove_def by (rule sorted_wrt_filter)
    then show ?thesis by (simp add: sorted_wrt_map)
  qed
  then show ?thesis
    using ok distinct_levels_remove [of m a]
    by (fastforce simp: side_ok_def dest!: set_levels_remove dest: in_set_remove1D)
qed

subsection \<open>The book\<close>

definition book_remove :: "addr \<Rightarrow> order_book \<Rightarrow> order_book" where
  "book_remove a b =
     b\<lparr>mBidMap := levels_remove a (mBidMap b), mAskMap := levels_remove a (mAskMap b)\<rparr>"

lemma book_ok_sides:
  "book_ok h own b \<Longrightarrow> side_ok dgt Buy h own (mBidMap b)"
  "book_ok h own b \<Longrightarrow> side_ok dlt Sell h own (mAskMap b)"
  by (simp_all add: book_ok_def)

lemma strict_orders: "strict_order dlt" "strict_order dgt"
  by (rule ask_map.strict_order_axioms bid_map.strict_order_axioms)+

lemma book_okD:
  assumes "book_ok h own b" and "a \<in> book_addrs b"
  obtains ord where "h a = Some ord" and "mRemainingQuantity ord \<noteq> 0"
    and "own (mCoreOrderId ord) = Some a"
  using assms by (auto simp: book_ok_def book_addrs_def elim: side_okD)

lemma side_ok_nonempty: "side_ok lt sd h own m \<Longrightarrow> \<forall>(p, l)\<in>set m. l \<noteq> []"
  by (auto simp: side_ok_def)

text \<open>An address is on the side its order says, so on one side only.\<close>

lemma book_side_iff:
  assumes "book_ok h own b" and "h a = Some ord" and "a \<in> book_addrs b"
  shows "a \<in> set (addrs (mBidMap b)) \<longleftrightarrow> mOrderSide ord = Buy"
    and "a \<in> set (addrs (mAskMap b)) \<longleftrightarrow> mOrderSide ord = Sell"
  using assms by (force simp: book_addrs_def dest: book_ok_sides elim: side_okD)+

lemma cancelOrder_spec:
  assumes ok: "book_ok h own b"
    and own: "\<forall>a. own i = Some a \<longrightarrow> (\<exists>ord. h a = Some ord \<and> mCoreOrderId ord = i)"
  shows "cancelOrder i now h b = Some
     (case own i of
        None \<Rightarrow> (False, b, [])
      | Some a \<Rightarrow>
          if a \<in> book_addrs b
          then (True, book_remove a b, [book_refresh (mBookSymbol b) MDDelete (the (h a)) now])
          else (False, b, []))"
proof (cases "own i")
  case None
  then show ?thesis
    using book_ok_sides [OF ok] own by (simp add: cancelOrder_def side_cancel_spec)
next
  case (Some a)
  then obtain ord where a: "h a = Some ord" using own by auto
  note bids = side_cancel_spec [OF book_ok_sides(1) [OF ok] own]
  note asks = side_cancel_spec [OF book_ok_sides(2) [OF ok] own]
  show ?thesis
  proof (cases "a \<in> book_addrs b")
    case False
    then show ?thesis using Some bids asks by (simp add: cancelOrder_def book_addrs_def)
  next
    case True
    note side = book_side_iff [OF ok a True]
    have id: "mOrderSide ord = Buy \<Longrightarrow> levels_remove a (mAskMap b) = mAskMap b"
      "mOrderSide ord = Sell \<Longrightarrow> levels_remove a (mBidMap b) = mBidMap b"
      using side side_ok_nonempty [OF book_ok_sides(1) [OF ok]]
        side_ok_nonempty [OF book_ok_sides(2) [OF ok]]
      by (auto intro!: levels_remove_notin)
    show ?thesis
      by (cases "mOrderSide ord")
        (use True Some bids asks side a id in \<open>simp_all add: cancelOrder_def book_remove_def\<close>)
  qed
qed

lemma book_ok_remove: "book_ok h own b \<Longrightarrow> book_ok h own (book_remove a b)"
  by (simp add: book_ok_def book_remove_def side_ok_remove)

lemma remove1_Nil_subset: "remove1 a l = [] \<Longrightarrow> x \<in> set l \<Longrightarrow> x = a"
  by (cases l) (auto split: if_splits)

lemma book_addrs_remove:
  assumes "book_ok h own b" shows "book_addrs (book_remove a b) = book_addrs b - {a}"
proof -
  have "set (addrs (levels_remove a m)) = set (addrs m) - {a}" if "distinct (addrs m)" for m
    using that
  proof (induction m)
    case (Cons pl m)
    then show ?case by (cases pl) (auto simp: set_remove1_eq dest: remove1_Nil_subset)
  qed (simp add: levels_remove_def)
  then show ?thesis
    using assms by (auto simp: book_addrs_def book_remove_def book_ok_def side_ok_def)
qed

lemma book_ok_cong:
  assumes "book_ok h own b"
    and "\<And>a. a \<in> book_addrs b \<Longrightarrow> h' a = h a"
    and "\<And>i a. a \<in> book_addrs b \<Longrightarrow> own i = Some a \<Longrightarrow> own' i = Some a"
  shows "book_ok h' own' b"
  using assms by (auto simp: book_ok_def book_addrs_def intro: side_ok_cong)

lemma insertOrder_ok:
  assumes ok: "book_ok h own b" and a: "h a = Some ord" "a \<notin> book_addrs b"
    and own: "own (mCoreOrderId ord) = Some a" and qty: "mRemainingQuantity ord \<noteq> 0"
  shows "\<exists>b'. insertOrder a h b = Some (b', book_refresh (mBookSymbol b) MDNew ord (mTimestamp ord))
     \<and> book_ok h own b' \<and> book_addrs b' = insert a (book_addrs b)
     \<and> mBookSymbol b' = mBookSymbol b \<and> book_remove a b' = b"
proof -
  have rests: "rests dgt Buy h own (mPrice ord) a" if "mOrderSide ord = Buy"
    using that a own qty by (simp add: rests_def dgt_def)
  have rests': "rests dlt Sell h own (mPrice ord) a" if "mOrderSide ord = Sell"
    using that a own qty by (simp add: rests_def)
  have notin: "a \<notin> set (addrs (mBidMap b))" "a \<notin> set (addrs (mAskMap b))"
    using a(2) by (simp_all add: book_addrs_def)
  note ne = side_ok_nonempty [OF book_ok_sides(1) [OF ok]]
    side_ok_nonempty [OF book_ok_sides(2) [OF ok]]
  note ids = levels_remove_notin [OF notin(1) ne(1)] levels_remove_notin [OF notin(2) ne(2)]
    levels_remove_upd [OF notin(1) ne(1)] levels_remove_upd [OF notin(2) ne(2)]
  show ?thesis
  proof (cases "mOrderSide ord")
    case Buy
    then show ?thesis
      using a(1) side_ok_insert [OF strict_orders(2) book_ok_sides(1) [OF ok] rests notin(1) a(1)]
        book_ok_sides(2) [OF ok] ids
      by (simp add: insertOrder_def book_ok_def book_addrs_def set_addrs_upd book_remove_def)
  next
    case Sell
    then show ?thesis
      using a(1) side_ok_insert [OF strict_orders(1) book_ok_sides(2) [OF ok] rests' notin(2) a(1)]
        book_ok_sides(1) [OF ok] ids
      by (simp add: insertOrder_def book_ok_def book_addrs_def set_addrs_upd book_remove_def)
  qed
qed

subsection \<open>What a snapshot says\<close>

definition order_at :: "heap \<Rightarrow> addr \<Rightarrow> order" where
  "order_at h a = the (h a)"

definition level_quantity :: "heap \<Rightarrow> addr list \<Rightarrow> u64" where
  "level_quantity h l = sum_list (map (\<lambda>a. mRemainingQuantity (order_at h a)) l)"

lemma level_total_spec:
  "\<forall>a\<in>set l. h a \<noteq> None \<Longrightarrow> level_total h t l = Some (t + level_quantity h l)"
  by (induction l arbitrary: t) (auto simp: level_quantity_def order_at_def)

text \<open>One entry per level, best first, with the total of the level and its position.\<close>

definition entry_of_level ::
  "md_entry_type \<Rightarrow> heap \<Rightarrow> nat \<Rightarrow> dbl \<times> addr list \<Rightarrow> md_entry" where
  "entry_of_level t h n pl =
     \<lparr>s_entryType = t, s_price = fst pl, s_size = level_quantity h (snd pl),
      s_entryTime = mTimestamp (order_at h (hd (snd pl))), s_entryPosition = of_nat (n + 1)\<rparr>"

lemma side_entries_spec:
  assumes "\<forall>(p, l)\<in>set m. l \<noteq> [] \<and> (\<forall>a\<in>set l. h a \<noteq> None)"
  shows "side_entries t h (of_nat (k + 1)) m =
     Some (map (\<lambda>(n, pl). entry_of_level t h n pl) (zip [k..<k + length m] m))"
  using assms
proof (induction m arbitrary: k)
  case (Cons pl m)
  obtain p l where pl: "pl = (p, l)" by fastforce
  have l: "l \<noteq> []" "\<forall>a\<in>set l. h a \<noteq> None" using Cons.prems by (auto simp: pl)
  then obtain x where x: "h (hd l) = Some x" by (meson hd_in_set option.exhaust)
  have upt: "zip [k..<k + length (pl # m)] (pl # m) =
      (k, pl) # zip [Suc k..<Suc k + length m] m"
    by (subst upt_conv_Cons) (simp_all del: upt_Suc)
  have IH: "side_entries t h (of_nat (Suc k + 1)) m =
     Some (map (\<lambda>(n, pl). entry_of_level t h n pl) (zip [Suc k..<Suc k + length m] m))"
    by (rule Cons.IH) (use Cons.prems in auto)
  have "(of_nat (k + 1) + 1 :: u32) = of_nat (Suc k + 1)" by simp
  then show ?case
    unfolding upt unfolding pl using l(1) x IH level_total_spec [OF l(2), of 0]
    by (simp add: entry_of_level_def order_at_def del: of_nat_Suc of_nat_add upt_Suc)
qed simp

end
