(* ===== verification/Persistence.thy ===== *)
theory Persistence
  imports CppText "HOL-Library.Product_Lexorder"
begin

text \<open>
  \<open>exchange_persistence\<close>: the tables of \<open>Query.h\<close>, the statements of the repositories on
  them, and the queue of \<open>DatabaseWorker\<close>. A table is the list of its rows in key order
  (an \<open>INTEGER PRIMARY KEY\<close> is the rowid, the order of a scan), \<open>None\<close> before its
  \<open>CREATE TABLE\<close>. A statement that throws inside the task's try block leaves the table
  alone. Numbers are bound as 64-bit signed integers, a NaN as NULL (which reads back as
  zero), and \<open>getText()\<close> hands out a C string, cut at its first NUL.
\<close>

subsection \<open>Column values\<close>

definition to_int64 :: "u64 \<Rightarrow> int" where
  "to_int64 w = sint w"

definition from_int64 :: "int \<Rightarrow> u64" where
  "from_int64 i = word_of_int i"

definition bind_double :: "dbl \<Rightarrow> dbl option" where
  "bind_double d = (if isNaN d then None else Some d)"

definition getDouble :: "dbl option \<Rightarrow> dbl" where
  "getDouble c = (case c of None \<Rightarrow> Fin 0 | Some d \<Rightarrow> d)"

definition getText :: "string \<Rightarrow> string" where
  "getText s = takeWhile (\<lambda>c. byte c \<noteq> 0) s"

subsection \<open>Rows and tables\<close>

record order_row =
  r_client_order_id :: string
  r_client_id :: string
  r_sender_comp_id :: string
  r_symbol :: string
  r_side :: string
  r_type :: string
  r_time_in_force :: string
  r_price :: "dbl option"
  r_original_quantity :: int
  r_remaining_quantity :: int
  r_status :: string
  r_timestamp :: int

record trade_row =
  t_symbol :: string
  t_buy_order_id :: int
  t_sell_order_id :: int
  t_quantity :: int
  t_price :: "dbl option"
  t_timestamp :: int

record candle =
  c_symbol :: string
  c_timestamp :: int
  c_open :: dbl
  c_high :: dbl
  c_low :: dbl
  c_close :: dbl
  c_volume :: u64

record candle_row =
  k_open :: "dbl option"
  k_high :: "dbl option"
  k_low :: "dbl option"
  k_close :: "dbl option"
  k_volume :: int

text \<open>\<open>clients\<close> has a text key: its scan order is the order of insertion.\<close>

record db =
  tbl_orders :: "(int \<times> order_row) list option"
  tbl_trades :: "(int \<times> trade_row) list option"
  tbl_trade_id :: "(int \<times> unit) list option"
  tbl_clients :: "(string \<times> bool) list option"
  tbl_sequences :: "(string \<times> (u32 \<times> u32)) list option"
  tbl_candles :: "((string \<times> int \<times> int) \<times> candle_row) list option"

definition empty_db :: db where
  "empty_db = \<lparr>tbl_orders = None, tbl_trades = None, tbl_trade_id = None, tbl_clients = None,
     tbl_sequences = None, tbl_candles = None\<rparr>"

definition create_if_missing :: "'t list option \<Rightarrow> 't list option" where
  "create_if_missing t = (case t of None \<Rightarrow> Some [] | Some rows \<Rightarrow> Some rows)"

text \<open>\<open>INSERT\<close> on a primary key: a duplicate key is a constraint error.\<close>

definition insert_row ::
  "'k::linorder \<Rightarrow> 'v \<Rightarrow> ('k \<times> 'v) list option \<Rightarrow> exn + ('k \<times> 'v) list option" where
  "insert_row k v t = (case t of
      None \<Rightarrow> Inl RuntimeError
    | Some rows \<Rightarrow>
        (case map_find (<) k rows of
           Some _ \<Rightarrow> Inl RuntimeError
         | None \<Rightarrow> Inr (Some (map_set (<) k v rows))))"

text \<open>\<open>INSERT OR REPLACE\<close> and \<open>ON CONFLICT DO UPDATE\<close>.\<close>

definition upsert_row ::
  "'k::linorder \<Rightarrow> 'v \<Rightarrow> ('k \<times> 'v) list option \<Rightarrow> exn + ('k \<times> 'v) list option" where
  "upsert_row k v t = (case t of
      None \<Rightarrow> Inl RuntimeError
    | Some rows \<Rightarrow> Inr (Some (map_set (<) k v rows)))"

definition delete_row ::
  "'k::linorder \<Rightarrow> ('k \<times> 'v) list option \<Rightarrow> exn + ('k \<times> 'v) list option" where
  "delete_row k t = (case t of
      None \<Rightarrow> Inl RuntimeError | Some rows \<Rightarrow> Inr (Some (map_erase (<) k rows)))"

definition update_row ::
  "'k::linorder \<Rightarrow> ('v \<Rightarrow> 'v) \<Rightarrow> ('k \<times> 'v) list option \<Rightarrow> exn + ('k \<times> 'v) list option" where
  "update_row k f t = (case t of
      None \<Rightarrow> Inl RuntimeError
    | Some rows \<Rightarrow>
        Inr (Some (map (\<lambda>(j, v). (j, if j = k then f v else v)) rows)))"

text \<open>\<open>try { ... } catch (const std::exception&) { log }\<close> around a statement.\<close>

definition logged :: "'t \<Rightarrow> exn + 't \<Rightarrow> 't" where
  "logged t r = (case r of Inl _ \<Rightarrow> t | Inr t' \<Rightarrow> t')"

subsection \<open>OrderRepository\<close>

text \<open>The row of an order; \<open>None\<close> is the read past a name table by \<open>to_string\<close>.\<close>

definition row_of_order :: "order \<Rightarrow> order_row option" where
  "row_of_order ord = do {
     side \<leftarrow> order_side_to_string (mOrderSide ord);
     type \<leftarrow> order_type_to_string (mOrderType ord);
     tif \<leftarrow> time_in_force_to_string (mTimeInForce ord);
     status \<leftarrow> order_status_to_string (mOrderStatus ord);
     Some \<lparr>r_client_order_id = mClientOrderId ord, r_client_id = mClientId ord,
        r_sender_comp_id = mSenderCompID ord, r_symbol = instrument_to_string (mSymbol ord),
        r_side = side, r_type = type, r_time_in_force = tif,
        r_price = bind_double (mPrice ord),
        r_original_quantity = to_int64 (mOriginalQuantity ord),
        r_remaining_quantity = to_int64 (mRemainingQuantity ord),
        r_status = status, r_timestamp = mTimestamp ord\<rparr>
   }"

definition exec_saveOrder :: "order \<Rightarrow> db \<Rightarrow> db option" where
  "exec_saveOrder ord d = do {
     row \<leftarrow> row_of_order ord;
     Some (d\<lparr>tbl_orders := logged (tbl_orders d)
               (insert_row (to_int64 (mCoreOrderId ord)) row (tbl_orders d))\<rparr>)
   }"

definition exec_removeOrder :: "u64 \<Rightarrow> db \<Rightarrow> db" where
  "exec_removeOrder orderId d =
     d\<lparr>tbl_orders := logged (tbl_orders d) (delete_row (to_int64 orderId) (tbl_orders d))\<rparr>"

definition exec_updateOrder :: "order \<Rightarrow> db \<Rightarrow> db option" where
  "exec_updateOrder ord d = do {
     status \<leftarrow> order_status_to_string (mOrderStatus ord);
     Some (d\<lparr>tbl_orders := logged (tbl_orders d)
        (update_row (to_int64 (mCoreOrderId ord))
           (\<lambda>r. r\<lparr>r_remaining_quantity := to_int64 (mRemainingQuantity ord),
                  r_status := status\<rparr>)
           (tbl_orders d))\<rparr>)
   }"

definition order_of_row :: "int \<Rightarrow> order_row \<Rightarrow> exn + order" where
  "order_of_row key r =
     bind_exn (instrument_from_string (getText (r_symbol r))) (\<lambda>symbol.
     bind_exn (from_string_OrderSide (getText (r_side r))) (\<lambda>side.
     bind_exn (from_string_OrderType (getText (r_type r))) (\<lambda>type.
     bind_exn (from_string_TimeInForce (getText (r_time_in_force r))) (\<lambda>tif.
     bind_exn (from_string_OrderStatus (getText (r_status r))) (\<lambda>status.
       Inr (setStatus status (setRemainingQuantity (from_int64 (r_remaining_quantity r))
         (mk_order (getText (r_client_order_id r)) (from_int64 key) symbol
            (getText (r_client_id r)) (getText (r_sender_comp_id r)) side type tif
            (from_int64 (r_original_quantity r)) (getDouble (r_price r)) (r_timestamp r)))))))))"

text \<open>The WHERE clause of the load query.\<close>

definition load_where :: "instrument \<Rightarrow> order_row \<Rightarrow> bool" where
  "load_where i r \<longleftrightarrow> r_symbol r = instrument_to_string i \<and>
     (r_status r = ''New'' \<or> r_status r = ''PartiallyFilled'')"

text \<open>The loop over the result rows; an exception ends it, keeping what was read.\<close>

fun load_rows :: "instrument \<Rightarrow> (int \<times> order_row) list \<Rightarrow> order list" where
  "load_rows i [] = []"
| "load_rows i ((key, r) # rows) =
     (if load_where i r
      then (case order_of_row key r of Inl _ \<Rightarrow> [] | Inr ord \<Rightarrow> ord # load_rows i rows)
      else load_rows i rows)"

definition loadOrdersForInstrument :: "instrument \<Rightarrow> db \<Rightarrow> order list" where
  "loadOrdersForInstrument i d =
     (case tbl_orders d of None \<Rightarrow> [] | Some rows \<Rightarrow> load_rows i rows)"

subsection \<open>TradeRepository\<close>

definition row_of_trade :: "trade \<Rightarrow> trade_row" where
  "row_of_trade t =
     \<lparr>t_symbol = instrument_to_string (mOrderSymbol t),
      t_buy_order_id = to_int64 (mBuyOrderId t), t_sell_order_id = to_int64 (mSellOrderId t),
      t_quantity = to_int64 (mQuantity t), t_price = bind_double (mTradePrice t),
      t_timestamp = mTradeTimestamp t\<rparr>"

definition exec_addTrade :: "trade \<Rightarrow> db \<Rightarrow> db" where
  "exec_addTrade t d =
     d\<lparr>tbl_trades := logged (tbl_trades d)
         (insert_row (to_int64 (mTradeId t)) (row_of_trade t) (tbl_trades d))\<rparr>"

subsection \<open>TradeIDRepository\<close>

text \<open>The first row of \<open>SELECT id FROM trade_id\<close>; the callback does not run on an error.\<close>

definition exec_getCurrentTradeID :: "db \<Rightarrow> u64 option" where
  "exec_getCurrentTradeID d = (case tbl_trade_id d of
      None \<Rightarrow> None
    | Some [] \<Rightarrow> Some 0
    | Some ((i, _) # _) \<Rightarrow> Some (from_int64 i))"

definition exec_setCurrentTradeID :: "u64 \<Rightarrow> db \<Rightarrow> db" where
  "exec_setCurrentTradeID tradeID d = (case exec_getCurrentTradeID d of
      None \<Rightarrow> d
    | Some current \<Rightarrow>
        if tradeID > current
        then d\<lparr>tbl_trade_id := logged (tbl_trade_id d)
                 (upsert_row (to_int64 tradeID) () (tbl_trade_id d))\<rparr>
        else d)"

definition truncate_table :: "'t list option \<Rightarrow> 't list option" where
  "truncate_table t = map_option (\<lambda>_. []) t"

text \<open>\<open>SELECT MAX(core_order_id) FROM orders\<close>: NULL (read as 0) on an empty table.\<close>

definition exec_maxOrderId :: "db \<Rightarrow> u64 option" where
  "exec_maxOrderId d = (case tbl_orders d of
      None \<Rightarrow> None
    | Some [] \<Rightarrow> Some 0
    | Some rows \<Rightarrow> Some (from_int64 (fst (last rows))))"

subsection \<open>AuthRepository\<close>

text \<open>Outside any try block: an error ends the process (\<open>None\<close>).\<close>

definition exec_insertNewClient :: "string \<Rightarrow> bool \<Rightarrow> db \<Rightarrow> db option" where
  "exec_insertNewClient senderCompId isActive d = (case tbl_clients d of
      None \<Rightarrow> None
    | Some rows \<Rightarrow>
        if senderCompId \<in> fst ` set rows then Some d
        else Some (d\<lparr>tbl_clients := Some (rows @ [(senderCompId, isActive)])\<rparr>))"

definition exec_removeAllClients :: "db \<Rightarrow> db option" where
  "exec_removeAllClients d =
     (case tbl_clients d of None \<Rightarrow> None | Some _ \<Rightarrow> Some (d\<lparr>tbl_clients := Some []\<rparr>))"

definition exec_loadValidClients :: "db \<Rightarrow> string list" where
  "exec_loadValidClients d = (case tbl_clients d of
      None \<Rightarrow> []
    | Some rows \<Rightarrow> map (getText \<circ> fst) (filter snd rows))"

subsection \<open>SequenceRepository\<close>

definition seq_defaultValues :: "u32 \<times> u32" where
  "seq_defaultValues = (0, 1)"

definition exec_getSequenceNumbers :: "string \<Rightarrow> db \<Rightarrow> u32 \<times> u32" where
  "exec_getSequenceNumbers compId d = (case tbl_sequences d of
      None \<Rightarrow> seq_defaultValues
    | Some rows \<Rightarrow> (case map_find (<) compId rows of None \<Rightarrow> seq_defaultValues | Some v \<Rightarrow> v))"

definition exec_updateSequenceNumbers :: "string \<Rightarrow> u32 \<Rightarrow> u32 \<Rightarrow> db \<Rightarrow> db" where
  "exec_updateSequenceNumbers compId inSeq outSeq d =
     d\<lparr>tbl_sequences := logged (tbl_sequences d)
         (upsert_row compId (inSeq, outSeq) (tbl_sequences d))\<rparr>"

subsection \<open>MarketHistoryRepository\<close>

definition exec_addCandle :: "int \<Rightarrow> candle \<Rightarrow> db \<Rightarrow> db" where
  "exec_addCandle interval c d =
     d\<lparr>tbl_candles := logged (tbl_candles d)
         (upsert_row (c_symbol c, interval, c_timestamp c)
            \<lparr>k_open = bind_double (c_open c), k_high = bind_double (c_high c),
             k_low = bind_double (c_low c), k_close = bind_double (c_close c),
             k_volume = to_int64 (c_volume c)\<rparr> (tbl_candles d))\<rparr>"

subsection \<open>DatabaseWorker\<close>

text \<open>
  The queued closures: what they captured at \<open>enqueue\<close>, by value. \<open>Sync\<close> is the promise of
  \<open>sync()\<close>.
\<close>

datatype db_task =
    InitOrders | SaveOrder order | RemoveOrder u64 | UpdateOrder order
  | LoadOrders instrument | MaxOrderId
  | InitTrades | AddTrade trade
  | InitTradeID | GetTradeID | SetTradeID u64 | TruncateTradeID
  | InitClients | LoadClients | InsertClient string bool | RemoveAllClients
  | InitSequences | GetSequences string | UpdateSequences string u32 u32
  | InitCandles | AddCandle int candle
  | Sync

text \<open>What a task's callback or promise receives; \<open>NoReply\<close> when there is none to call.\<close>

datatype db_reply =
    NoReply | OrdersReply "order list" | IdReply u64 | ClientsReply "string list"
  | SequencesReply "u32 \<times> u32" | Done

fun exec_task :: "db_task \<Rightarrow> db \<Rightarrow> (db \<times> db_reply) option" where
  "exec_task InitOrders d =
     Some (d\<lparr>tbl_orders := create_if_missing (tbl_orders d)\<rparr>, NoReply)"
| "exec_task (SaveOrder ord) d = map_option (\<lambda>d. (d, NoReply)) (exec_saveOrder ord d)"
| "exec_task (RemoveOrder i) d = Some (exec_removeOrder i d, NoReply)"
| "exec_task (UpdateOrder ord) d = map_option (\<lambda>d. (d, NoReply)) (exec_updateOrder ord d)"
| "exec_task (LoadOrders i) d = Some (d, OrdersReply (loadOrdersForInstrument i d))"
| "exec_task MaxOrderId d =
     Some (d, case exec_maxOrderId d of None \<Rightarrow> Done | Some i \<Rightarrow> IdReply i)"
| "exec_task InitTrades d =
     Some (d\<lparr>tbl_trades := create_if_missing (tbl_trades d)\<rparr>, NoReply)"
| "exec_task (AddTrade t) d = Some (exec_addTrade t d, NoReply)"
| "exec_task InitTradeID d =
     Some (d\<lparr>tbl_trade_id := create_if_missing (tbl_trade_id d)\<rparr>, NoReply)"
| "exec_task GetTradeID d =
     Some (d, case exec_getCurrentTradeID d of None \<Rightarrow> NoReply | Some i \<Rightarrow> IdReply i)"
| "exec_task (SetTradeID i) d = Some (exec_setCurrentTradeID i d, NoReply)"
| "exec_task TruncateTradeID d =
     Some (d\<lparr>tbl_trade_id := truncate_table (tbl_trade_id d)\<rparr>, NoReply)"
| "exec_task InitClients d =
     Some (d\<lparr>tbl_clients := create_if_missing (tbl_clients d)\<rparr>, NoReply)"
| "exec_task LoadClients d = Some (d, ClientsReply (exec_loadValidClients d))"
| "exec_task (InsertClient c a) d =
     map_option (\<lambda>d. (d, NoReply)) (exec_insertNewClient c a d)"
| "exec_task RemoveAllClients d = map_option (\<lambda>d. (d, NoReply)) (exec_removeAllClients d)"
| "exec_task InitSequences d =
     Some (d\<lparr>tbl_sequences := create_if_missing (tbl_sequences d)\<rparr>, NoReply)"
| "exec_task (GetSequences c) d = Some (d, SequencesReply (exec_getSequenceNumbers c d))"
| "exec_task (UpdateSequences c i j) d = Some (exec_updateSequenceNumbers c i j d, NoReply)"
| "exec_task InitCandles d =
     Some (d\<lparr>tbl_candles := create_if_missing (tbl_candles d)\<rparr>, NoReply)"
| "exec_task (AddCandle i c) d = Some (exec_addCandle i c d, NoReply)"
| "exec_task Sync d = Some (d, Done)"

record db_worker =
  mTasks :: "db_task list"
  mDatabase :: db

definition enqueue_task :: "db_task \<Rightarrow> db_worker \<Rightarrow> db_worker" where
  "enqueue_task t w = w\<lparr>mTasks := mTasks w @ [t]\<rparr>"

definition getQueueSize :: "db_worker \<Rightarrow> nat" where
  "getQueueSize w = length (mTasks w)"

text \<open>One turn of \<open>workerLoop\<close>; with nothing queued it only waits.\<close>

definition worker_turn :: "db_worker \<Rightarrow> (db_worker \<times> db_reply list) option" where
  "worker_turn w = (case mTasks w of
      [] \<Rightarrow> Some (w, [])
    | t # ts \<Rightarrow> do {
        (d, r) \<leftarrow> exec_task t (mDatabase w);
        Some (w\<lparr>mTasks := ts, mDatabase := d\<rparr>, [r])
      })"

text \<open>
  The loop tests the stop request before every turn, so after \<open>n\<close> turns the destructor
  leaves the rest of the queue unexecuted.
\<close>

fun workerLoop :: "nat \<Rightarrow> db_worker \<Rightarrow> (db_worker \<times> db_reply list) option" where
  "workerLoop 0 w = Some (w, [])"
| "workerLoop (Suc n) w = do {
     (w1, r) \<leftarrow> worker_turn w;
     (w2, rs) \<leftarrow> workerLoop n w1;
     Some (w2, r @ rs)
   }"

text \<open>The whole queue, in order.\<close>

fun exec_tasks :: "db_task list \<Rightarrow> db \<Rightarrow> db option" where
  "exec_tasks [] d = Some d"
| "exec_tasks (t # ts) d = do { (d1, _) \<leftarrow> exec_task t d; exec_tasks ts d1 }"

subsection \<open>Facts\<close>

lemma from_to_int64 [simp]: "from_int64 (to_int64 w) = w"
  by (simp add: from_int64_def to_int64_def)

lemma to_int64_inject [simp]: "to_int64 v = to_int64 w \<longleftrightarrow> v = w"
  by (metis from_to_int64)

lemma map_of_update_rows:
  "map_of (map (\<lambda>(j, v). (j, if j = k then f v else v)) rows) i =
     (if i = k then map_option f (map_of rows i) else map_of rows i)"
  by (induction rows) auto

lemma keys_update_rows:
  "map fst (map (\<lambda>(j, v). (j, if j = k then f v else v)) rows) = map fst rows"
  by (induction rows) auto

text \<open>A created table with its rows in key order, and the row of a key.\<close>

definition table_ok :: "('k::linorder \<times> 'v) list option \<Rightarrow> bool" where
  "table_ok t \<longleftrightarrow> (case t of None \<Rightarrow> False | Some rows \<Rightarrow> keys_sorted (<) rows)"

definition row_at :: "('k::linorder \<times> 'v) list option \<Rightarrow> 'k \<Rightarrow> 'v option" where
  "row_at t k = (case t of None \<Rightarrow> None | Some rows \<Rightarrow> map_of rows k)"

definition try_insert ::
  "'k::linorder \<Rightarrow> 'v \<Rightarrow> ('k \<times> 'v) list option \<Rightarrow> ('k \<times> 'v) list option" where
  "try_insert k v t = logged t (insert_row k v t)"

definition try_delete ::
  "'k::linorder \<Rightarrow> ('k \<times> 'v) list option \<Rightarrow> ('k \<times> 'v) list option" where
  "try_delete k t = logged t (delete_row k t)"

interpretation table: keyed_store row_at try_insert try_delete
  "table_ok :: ('k::linorder \<times> 'v) list option \<Rightarrow> bool" "\<lambda>_ _. True"
proof unfold_locales
  fix t :: "('k \<times> 'v) list option" and k j :: 'k and v :: 'v
  assume "table_ok t"
  then obtain rows where t: "t = Some rows" "keys_sorted (<) rows"
    by (auto simp: table_ok_def split: option.splits)
  note find = linorder_map.map_find_sorted [OF t(2)]
  show "table_ok (try_insert k v t)"
    using t linorder_map.sorted_map_upd [OF t(2)]
    by (auto simp: try_insert_def insert_row_def logged_def table_ok_def split: option.splits)
  show "table_ok (try_delete k t)"
    using t linorder_map.sorted_map_erase [OF t(2)]
    by (simp add: try_delete_def delete_row_def logged_def table_ok_def)
  show "row_at (try_insert k v t) j = (if j = k \<and> row_at t k = None then Some v else row_at t j)"
    using t by (auto simp: try_insert_def insert_row_def logged_def row_at_def find
        linorder_map.map_of_map_upd [OF t(2)] split: option.splits)
  show "row_at (try_delete k t) j = (if j = k then None else row_at t j)"
    using t by (simp add: try_delete_def delete_row_def logged_def row_at_def
        linorder_map.map_of_map_erase [OF t(2)])
qed

subsection \<open>The order table as a map of orders\<close>

text \<open>What survives a save and a load: printable enums, no NUL in a string, a price but NaN.\<close>

definition storable :: "order \<Rightarrow> bool" where
  "storable ord \<longleftrightarrow>
     (mOrderType ord = Limit \<or> mOrderType ord = Market) \<and> mPrice ord \<noteq> NaN \<and>
     (\<forall>s\<in>{mClientOrderId ord, mClientId ord, mSenderCompID ord}. \<forall>c\<in>set s. byte c \<noteq> 0)"

definition active :: "order \<Rightarrow> bool" where
  "active ord \<longleftrightarrow> mOrderStatus ord = New \<or> mOrderStatus ord = PartiallyFilled"

text \<open>
  The table holds exactly the orders of \<open>M\<close>. Rows are unique per order id; what \<open>M\<close> says
  of an id is what a restart sees of it.
\<close>

definition repo_rel :: "(u64 \<Rightarrow> order option) \<Rightarrow> db \<Rightarrow> bool" where
  "repo_rel M d \<longleftrightarrow>
     table_ok (tbl_orders d) \<and>
     (\<forall>k r. row_at (tbl_orders d) k = Some r \<longrightarrow> (\<exists>i. k = to_int64 i)) \<and>
     (\<forall>i. row_at (tbl_orders d) (to_int64 i) = Option.bind (M i) row_of_order) \<and>
     (\<forall>i ord. M i = Some ord \<longrightarrow> storable ord \<and> mCoreOrderId ord = i)"

lemma getText_id: "\<forall>c\<in>set s. byte c \<noteq> 0 \<Longrightarrow> getText s = s"
  by (simp add: getText_def)

lemma getText_names [simp]:
  "getText (instrument_to_string i) = instrument_to_string i"
  "order_side_to_string sd = Some s \<Longrightarrow> getText s = s"
  "order_type_to_string ty = Some s \<Longrightarrow> getText s = s"
  "order_status_to_string st = Some s \<Longrightarrow> getText s = s"
  "time_in_force_to_string tif = Some s \<Longrightarrow> getText s = s"
proof -
  show "getText (instrument_to_string i) = instrument_to_string i"
    by (cases i) (auto simp: enum_string_defs getText_def byte_def)
  show "order_side_to_string sd = Some s \<Longrightarrow> getText s = s"
    by (cases sd) (auto simp: enum_string_defs getText_def byte_def)
  show "order_type_to_string ty = Some s \<Longrightarrow> getText s = s"
    by (cases ty) (auto simp: enum_string_defs getText_def byte_def)
  show "order_status_to_string st = Some s \<Longrightarrow> getText s = s"
    by (cases st) (auto simp: enum_string_defs getText_def byte_def)
  show "time_in_force_to_string tif = Some s \<Longrightarrow> getText s = s"
    by (cases tif) (auto simp: enum_string_defs getText_def byte_def)
qed

lemma storable_row: "storable ord \<Longrightarrow> \<exists>r. row_of_order ord = Some r"
  by (cases "mOrderSide ord"; cases "mTimeInForce ord"; cases "mOrderStatus ord")
    (auto simp: storable_def row_of_order_def enum_string_defs)

lemma order_row_round_trip:
  assumes "storable ord" and "row_of_order ord = Some r"
  shows "order_of_row (to_int64 (mCoreOrderId ord)) r = Inr ord"
  using assms
  by (auto simp: storable_def row_of_order_def order_of_row_def bind_Some_iff getText_id
      bind_double_def isNaN_def getDouble_def mk_order_def order_setters
      order_side_round_trip order_type_round_trip order_status_round_trip
      time_in_force_round_trip)

lemma load_where_row:
  assumes "row_of_order ord = Some r"
  shows "load_where i r \<longleftrightarrow> mSymbol ord = i \<and> active ord"
  using assms
  by (cases "mOrderStatus ord")
    (auto simp: row_of_order_def bind_Some_iff load_where_def active_def enum_string_defs(1)
      order_status_to_string_def order_status_names_def)

definition row_in :: "(int \<times> order_row) list \<Rightarrow> order \<Rightarrow> bool" where
  "row_in rows ord \<longleftrightarrow>
     (\<exists>r. row_of_order ord = Some r \<and> (to_int64 (mCoreOrderId ord), r) \<in> set rows)"

lemma set_load_rows:
  assumes "\<forall>(k, r)\<in>set rows. \<exists>ord. storable ord \<and> row_of_order ord = Some r \<and>
             k = to_int64 (mCoreOrderId ord)"
  shows "set (load_rows i rows) =
     {ord. mSymbol ord = i \<and> active ord \<and> storable ord \<and> row_in rows ord}"
  using assms
proof (induction rows)
  case Nil
  then show ?case by (simp add: row_in_def)
next
  case (Cons kr rows)
  obtain k r where kr: "kr = (k, r)" by fastforce
  then obtain ord where ord: "storable ord" "row_of_order ord = Some r"
      "k = to_int64 (mCoreOrderId ord)"
    using Cons.prems by auto
  have same: "ord' = ord"
    if "storable ord'" "row_of_order ord' = Some r" "to_int64 (mCoreOrderId ord') = k" for ord'
  proof -
    have "order_of_row k r = Inr ord'"
      using order_row_round_trip [OF that(1,2)] by (simp only: that(3))
    moreover have "order_of_row k r = Inr ord"
      using order_row_round_trip [OF ord(1,2)] by (simp only: ord(3))
    ultimately show "ord' = ord" by simp
  qed
  have IH: "set (load_rows i rows) =
     {ord. mSymbol ord = i \<and> active ord \<and> storable ord \<and> row_in rows ord}"
    using Cons by simp
  have split: "row_in (kr # rows) x \<longleftrightarrow> x = ord \<or> row_in rows x" if "storable x" for x
    using that same [of x] ord(2,3) by (auto simp: kr row_in_def)
  have "load_where i r \<longleftrightarrow> mSymbol ord = i \<and> active ord"
    by (rule load_where_row [OF ord(2)])
  then have "set (load_rows i (kr # rows)) =
      {x. x = ord \<and> mSymbol x = i \<and> active x} \<union> set (load_rows i rows)"
    using order_row_round_trip [OF ord(1,2)] by (auto simp: kr ord(3))
  also have "\<dots> = {x. mSymbol x = i \<and> active x \<and> storable x \<and> row_in (kr # rows) x}"
    unfolding IH using ord(1) split by fast
  finally show ?case .
qed

subsection \<open>The tasks refine updates of a finite map\<close>

text \<open>What each task means for the orders by id; only four of them touch it.\<close>

fun abs_task :: "db_task \<Rightarrow> (u64 \<Rightarrow> order option) \<Rightarrow> (u64 \<Rightarrow> order option)" where
  "abs_task (SaveOrder ord) M =
     (if M (mCoreOrderId ord) = None then M(mCoreOrderId ord \<mapsto> ord) else M)"
| "abs_task (RemoveOrder i) M = M(i := None)"
| "abs_task (UpdateOrder ord) M =
     M(mCoreOrderId ord := map_option
         (\<lambda>o1. o1\<lparr>mRemainingQuantity := mRemainingQuantity ord, mOrderStatus := mOrderStatus ord\<rparr>)
         (M (mCoreOrderId ord)))"
| "abs_task _ M = M"

text \<open>The tasks a partition queues; a saved order must survive the round trip.\<close>

fun order_task :: "db_task \<Rightarrow> bool" where
  "order_task (SaveOrder ord) = storable ord"
| "order_task (RemoveOrder i) = True"
| "order_task (UpdateOrder ord) = True"
| "order_task (AddTrade t) = True"
| "order_task _ = False"

lemma repo_rel_cong: "tbl_orders d' = tbl_orders d \<Longrightarrow> repo_rel M d' = repo_rel M d"
  by (simp add: repo_rel_def)

lemma repo_rel_SomeD:
  "repo_rel M d \<Longrightarrow> M i = Some ord \<Longrightarrow> storable ord \<and> mCoreOrderId ord = i"
  by (simp add: repo_rel_def)

lemma repo_rel_None_iff: "repo_rel M d \<Longrightarrow> row_at (tbl_orders d) (to_int64 i) = None \<longleftrightarrow> M i = None"
  using storable_row by (cases "M i") (fastforce simp: repo_rel_def)+

lemma repo_rel_save:
  assumes rel: "repo_rel M d" and ord: "storable ord"
  shows "\<exists>d'. exec_saveOrder ord d = Some d' \<and> repo_rel (abs_task (SaveOrder ord) M) d'"
proof -
  obtain r where r: "row_of_order ord = Some r" using storable_row [OF ord] by blast
  let ?k = "to_int64 (mCoreOrderId ord)"
  let ?d = "d\<lparr>tbl_orders := try_insert ?k r (tbl_orders d)\<rparr>"
  have ok: "table_ok (tbl_orders d)" using rel by (simp add: repo_rel_def)
  have "exec_saveOrder ord d = Some ?d" by (simp add: exec_saveOrder_def r try_insert_def)
  moreover have "repo_rel (abs_task (SaveOrder ord) M) ?d"
  proof (cases "M (mCoreOrderId ord)")
    case None
    then have "row_at (tbl_orders d) ?k = None" using repo_rel_None_iff [OF rel] by simp
    then show ?thesis
      using rel ord r None table.inv_put [OF ok, of ?k r] table.get_put [OF ok, of ?k r]
      by (auto simp: repo_rel_def)
  next
    case (Some o1)
    then have "row_at (tbl_orders d) ?k \<noteq> None" using repo_rel_None_iff [OF rel] by simp
    then show ?thesis
      using rel Some table.inv_put [OF ok, of ?k r] table.get_put [OF ok, of ?k r]
      by (auto simp: repo_rel_def)
  qed
  ultimately show ?thesis by blast
qed

lemma repo_rel_remove:
  assumes rel: "repo_rel M d"
  shows "repo_rel (abs_task (RemoveOrder i) M) (exec_removeOrder i d)"
proof -
  have ok: "table_ok (tbl_orders d)" using rel by (simp add: repo_rel_def)
  have "exec_removeOrder i d = d\<lparr>tbl_orders := try_delete (to_int64 i) (tbl_orders d)\<rparr>"
    by (simp add: exec_removeOrder_def try_delete_def)
  then show ?thesis
    using rel table.inv_del [OF ok, of "to_int64 i"] table.get_del [OF ok, of "to_int64 i"]
    by (auto simp: repo_rel_def split: if_splits)
qed

lemma storable_update [simp]:
  "storable (ord\<lparr>mRemainingQuantity := q, mOrderStatus := st\<rparr>) = storable ord"
  by (simp add: storable_def)

lemma row_of_order_update:
  assumes "row_of_order ord = Some r" and "order_status_to_string st = Some s"
  shows "row_of_order (ord\<lparr>mRemainingQuantity := q, mOrderStatus := st\<rparr>) =
           Some (r\<lparr>r_remaining_quantity := to_int64 q, r_status := s\<rparr>)"
  using assms by (auto simp: row_of_order_def bind_Some_iff)

lemma repo_rel_update:
  assumes rel: "repo_rel M d"
  shows "\<exists>d'. exec_updateOrder ord d = Some d' \<and> repo_rel (abs_task (UpdateOrder ord) M) d'"
proof -
  obtain s where s: "order_status_to_string (mOrderStatus ord) = Some s"
    by (cases "mOrderStatus ord") (simp_all add: enum_string_defs)
  let ?k = "to_int64 (mCoreOrderId ord)"
  let ?f = "\<lambda>r. r\<lparr>r_remaining_quantity := to_int64 (mRemainingQuantity ord), r_status := s\<rparr>"
  obtain rows where rows: "tbl_orders d = Some rows" "keys_sorted (<) rows"
    using rel by (auto simp: repo_rel_def table_ok_def split: option.splits)
  let ?rows = "map (\<lambda>(j, v). (j, if j = ?k then ?f v else v)) rows"
  let ?d = "d\<lparr>tbl_orders := Some ?rows\<rparr>"
  have "exec_updateOrder ord d = Some ?d"
    by (simp add: exec_updateOrder_def s rows update_row_def logged_def)
  moreover have ok: "table_ok (tbl_orders ?d)"
    using rows(2) keys_update_rows [of ?k ?f rows] by (simp add: table_ok_def del: map_map)
  have at: "row_at (tbl_orders ?d) j =
      (if j = ?k then map_option ?f (row_at (tbl_orders d) j) else row_at (tbl_orders d) j)" for j
    by (simp add: row_at_def rows map_of_update_rows)
  have "repo_rel (abs_task (UpdateOrder ord) M) ?d"
    unfolding repo_rel_def
  proof (intro conjI allI impI)
    fix k r assume "row_at (tbl_orders ?d) k = Some r"
    then show "\<exists>i. k = to_int64 i" unfolding at using rel by (auto simp: repo_rel_def split: if_splits)
  next
    fix i
    have row: "row_at (tbl_orders d) (to_int64 i) = Option.bind (M i) row_of_order"
      using rel by (simp add: repo_rel_def)
    show "row_at (tbl_orders ?d) (to_int64 i) =
        Option.bind (abs_task (UpdateOrder ord) M i) row_of_order"
    proof (cases "i = mCoreOrderId ord \<and> M i \<noteq> None")
      case True
      then obtain o1 where o1: "M i = Some o1" by auto
      then obtain r where r: "row_of_order o1 = Some r"
        using storable_row repo_rel_SomeD [OF rel o1] by blast
      then show ?thesis
        unfolding at row using True o1 row_of_order_update [OF r s, of "mRemainingQuantity ord"] by simp
    next
      case False
      then show ?thesis unfolding at row by auto
    qed
  next
    fix i o2 assume "abs_task (UpdateOrder ord) M i = Some o2"
    then obtain o1 where "M i = Some o1" "o2 = o1 \<or> o2 = o1\<lparr>mRemainingQuantity :=
        mRemainingQuantity ord, mOrderStatus := mOrderStatus ord\<rparr>"
      by (auto split: if_splits)
    then show "storable o2" "mCoreOrderId o2 = i"
      using repo_rel_SomeD [OF rel, of i o1] by auto
  qed (rule ok)
  ultimately show ?thesis by blast
qed

theorem exec_tasks_refine:
  assumes "repo_rel M d" and "\<forall>t\<in>set ts. order_task t"
  shows "\<exists>d'. exec_tasks ts d = Some d' \<and> repo_rel (fold abs_task ts M) d'"
  using assms
proof (induction ts arbitrary: M d)
  case (Cons t ts)
  obtain d1 r where d1: "exec_task t d = Some (d1, r)" "repo_rel (abs_task t M) d1"
  proof (cases t)
    case (SaveOrder ord)
    then show thesis using repo_rel_save [OF Cons.prems(1), of ord] Cons.prems(2) that by auto
  next
    case (RemoveOrder i)
    then show thesis using repo_rel_remove [OF Cons.prems(1), of i] that by simp
  next
    case (UpdateOrder ord)
    then show thesis using repo_rel_update [OF Cons.prems(1), of ord] that by auto
  next
    case (AddTrade tr)
    then show thesis
      using Cons.prems(1) that repo_rel_cong [of "exec_addTrade tr d" d M] by (simp add: exec_addTrade_def)
  qed (use Cons.prems(2) in simp_all)
  then show ?case using Cons.IH [OF d1(2)] Cons.prems(2) by auto
qed simp

text \<open>What a restart reads: exactly the live orders of the instrument.\<close>

lemma load_refines:
  assumes rel: "repo_rel M d"
  shows "set (loadOrdersForInstrument i d) =
     {ord. M (mCoreOrderId ord) = Some ord \<and> mSymbol ord = i \<and> active ord}"
proof -
  obtain rows where rows: "tbl_orders d = Some rows" "keys_sorted (<) rows"
    using rel by (auto simp: repo_rel_def table_ok_def split: option.splits)
  have distinct: "distinct (map fst rows)"
    using rows(2) strict_sorted_iff by blast
  have row: "\<exists>ord. M j = Some ord \<and> row_of_order ord = Some r \<and> k = to_int64 j"
    if "(k, r) \<in> set rows" "k = to_int64 j" for k r j
    using rel that distinct rows(1)
    by (auto simp: repo_rel_def row_at_def bind_Some_iff dest!: map_of_is_SomeI [OF distinct])
  have key: "\<exists>j. k = to_int64 j" if "(k, r) \<in> set rows" for k r
    using rel that rows(1) map_of_is_SomeI [OF distinct that] by (auto simp: repo_rel_def row_at_def)
  have rows_ok: "\<forall>(k, r)\<in>set rows. \<exists>ord. storable ord \<and> row_of_order ord = Some r \<and>
      k = to_int64 (mCoreOrderId ord)"
  proof clarify
    fix k r assume kr: "(k, r) \<in> set rows"
    then obtain j where j: "k = to_int64 j" using key by blast
    obtain ord where ord: "M j = Some ord" "row_of_order ord = Some r" using row [OF kr j] by blast
    have "storable ord \<and> mCoreOrderId ord = j" by (rule repo_rel_SomeD [OF rel ord(1)])
    then show "\<exists>ord. storable ord \<and> row_of_order ord = Some r \<and> k = to_int64 (mCoreOrderId ord)"
      using ord(2) j by auto
  qed
  have "row_in rows ord \<and> storable ord \<longleftrightarrow> M (mCoreOrderId ord) = Some ord" for ord
  proof
    assume "row_in rows ord \<and> storable ord"
    then obtain r where r: "row_of_order ord = Some r" "(to_int64 (mCoreOrderId ord), r) \<in> set rows"
        "storable ord"
      by (auto simp: row_in_def)
    then obtain o1 where o1: "M (mCoreOrderId ord) = Some o1" "row_of_order o1 = Some r"
      using row by blast
    then have "order_of_row (to_int64 (mCoreOrderId ord)) r = Inr o1"
      using order_row_round_trip [of o1 r] repo_rel_SomeD [OF rel o1(1)] by simp
    then show "M (mCoreOrderId ord) = Some ord"
      using order_row_round_trip [OF r(3,1)] o1(1) by simp
  next
    assume M: "M (mCoreOrderId ord) = Some ord"
    then have st: "storable ord" using repo_rel_SomeD [OF rel] by blast
    then obtain r where r: "row_of_order ord = Some r" using storable_row by blast
    have "row_at (tbl_orders d) (to_int64 (mCoreOrderId ord)) =
        Option.bind (M (mCoreOrderId ord)) row_of_order"
      using rel unfolding repo_rel_def by blast
    then have "map_of rows (to_int64 (mCoreOrderId ord)) = Some r"
      by (simp add: M r row_at_def rows(1))
    then have "(to_int64 (mCoreOrderId ord), r) \<in> set rows" by (rule map_of_SomeD)
    then show "row_in rows ord \<and> storable ord" using st r unfolding row_in_def by blast
  qed
  then show ?thesis
    using set_load_rows [OF rows_ok, of i] by (auto simp: loadOrdersForInstrument_def rows(1))
qed

end
