(* ===== verification/IdGenerators.thy ===== *)
theory IdGenerators
  imports Persistence
begin

text \<open>
  \<open>exchange_state\<close>: \<open>OrderIDGenerator\<close> and \<open>TradeIDGenerator\<close>, atomic 64-bit counters that
  start from what the database holds. The constructors wait for their query, so the reply
  of the task is the value they continue with.
\<close>

subsection \<open>Counters\<close>

definition nextId :: "u64 \<Rightarrow> u64 \<times> u64" where
  "nextId mCurrentId = (let i = mCurrentId + 1 in (i, i))"

text \<open>The constructor of \<open>OrderIDGenerator\<close>: \<open>None\<close> is a generator without a database.\<close>

definition init_order_ids :: "db option \<Rightarrow> u64" where
  "init_order_ids d = (case d of
      None \<Rightarrow> 0
    | Some d \<Rightarrow> (case exec_maxOrderId d of None \<Rightarrow> 0 | Some i \<Rightarrow> i))"

text \<open>
  The constructor of \<open>TradeIDGenerator\<close>; \<open>None\<close> is the wait that never ends because the
  query failed and its callback did not run.
\<close>

definition init_trade_ids :: "db \<Rightarrow> u64 option" where
  "init_trade_ids d = exec_getCurrentTradeID d"

text \<open>The destructor of \<open>TradeIDGenerator\<close> queues this task.\<close>

definition saveState :: "u64 \<Rightarrow> db_task" where
  "saveState mCurrentId = SetTradeID mCurrentId"

text \<open>\<open>n\<close> calls of \<open>nextId\<close>.\<close>

fun take_ids :: "nat \<Rightarrow> u64 \<Rightarrow> u64 list \<times> u64" where
  "take_ids 0 c = ([], c)"
| "take_ids (Suc n) c =
     (let (i, c1) = nextId c; (is, c2) = take_ids n c1 in (i # is, c2))"

subsection \<open>Facts\<close>

lemma take_ids_eq: "take_ids n c = (map (\<lambda>k. c + of_nat (Suc k)) [0..<n], c + of_nat n)"
proof (induction n arbitrary: c)
  case (Suc n)
  have "map (\<lambda>k. c + of_nat (Suc k)) [0..<Suc n] =
      (c + 1) # map (\<lambda>k. c + 1 + of_nat (Suc k)) [0..<n]"
    by (subst upt_conv_Cons) (auto simp: map_Suc_upt [symmetric] algebra_simps comp_def
        simp del: upt_Suc)
  then show ?case by (simp add: nextId_def Let_def Suc algebra_simps del: upt_Suc)
qed simp

text \<open>No counter value comes twice before all of them came.\<close>

lemma take_ids_distinct: "n \<le> 2 ^ 64 \<Longrightarrow> distinct (fst (take_ids n c))"
proof -
  assume n: "n \<le> 2 ^ 64"
  have "inj_on (\<lambda>k. c + of_nat (Suc k)) {0..<n}"
  proof (rule inj_onI)
    fix x y assume "x \<in> {0..<n}" "y \<in> {0..<n}" and eq: "c + of_nat (Suc x) = c + of_nat (Suc y)"
    then have "x < 2 ^ 64" "y < 2 ^ 64" using n by auto
    moreover have "(of_nat x :: u64) = of_nat y" using eq by simp
    ultimately show "x = y" 
      using of_nat_inverse [of x "of_nat x :: u64"] of_nat_inverse [of y "of_nat x :: u64"]
      by simp
  qed
  then show ?thesis by (simp add: take_ids_eq distinct_map)
qed

end
