(* ===== verification/Matcher.thy ===== *)
theory Matcher
  imports OrderBook IdGenerators
begin

text \<open>
  \<open>exchange_matching/Matcher\<close>: the two nested loops of \<open>matchTable\<close> on the opposite side of
  the book, with every read and write of the incoming and the resting order through its
  pointer, in source order. The clock is a function from the number of earlier readings to
  the time read.
\<close>

subsection \<open>One trade\<close>

record match_state =
  m_heap :: heap
  m_tid :: u64
  m_ticks :: nat
  m_trades :: "trade list"

text \<open>The body of the inner loop; the flag says that the resting order was popped.\<close>

definition match_step ::
  "(nat \<Rightarrow> timestamp) \<Rightarrow> addr \<Rightarrow> addr \<Rightarrow> match_state \<Rightarrow> (match_state \<times> bool) option" where
  "match_step clk a b s = do {
     inc \<leftarrow> m_heap s a;
     res \<leftarrow> m_heap s b;
     let tradeQuantity = min (mRemainingQuantity inc) (mRemainingQuantity res);
     let buyId = (if mOrderSide inc = Buy then mCoreOrderId inc else mCoreOrderId res);
     let sellId = (if mOrderSide inc = Buy then mCoreOrderId res else mCoreOrderId inc);
     let (newId, tid) = nextId (m_tid s);
     let t = \<lparr>mTradeId = newId, mOrderSymbol = mSymbol inc, mBuyOrderId = buyId,
              mSellOrderId = sellId, mQuantity = tradeQuantity, mTradePrice = mPrice res,
              mTradeTimestamp = clk (m_ticks s)\<rparr>;
     let take = (\<lambda>ord. setRemainingQuantity (mRemainingQuantity ord - tradeQuantity) ord);
     h1 \<leftarrow> heap_upd a take (m_heap s);
     h2 \<leftarrow> heap_upd b take h1;
     h3 \<leftarrow> heap_upd a (setStatus PartiallyFilled) h2;
     res' \<leftarrow> h3 b;
     let filled = (mRemainingQuantity res' = 0);
     h4 \<leftarrow> heap_upd b (setStatus (if filled then Filled else PartiallyFilled)) h3;
     Some (s\<lparr>m_heap := h4, m_tid := tid, m_ticks := m_ticks s + 1,
             m_trades := m_trades s @ [t]\<rparr>, filled)
   }"

subsection \<open>The loops\<close>

text \<open>
  The inner loop over one level. An iteration that does not pop leaves the level as it is, so
  the loop ends only if the quantity of the incoming order ran out: not structurally.
\<close>

partial_function (option) match_level ::
  "(nat \<Rightarrow> timestamp) \<Rightarrow> addr \<Rightarrow> addr list \<Rightarrow> match_state \<Rightarrow> (addr list \<times> match_state) option"
  where
  [code]: "match_level clk a l s =
     (case l of
        [] \<Rightarrow> Some ([], s)
      | b # l' \<Rightarrow> do {
          inc \<leftarrow> m_heap s a;
          if 0 < mRemainingQuantity inc
          then do {
            (s', popped) \<leftarrow> match_step clk a b s;
            match_level clk a (if popped then l' else l) s'
          }
          else Some (l, s)
        })"

text \<open>
  The limit test of the outer loop: a limit order stops at the first level that is worse
  than its price; every other order type takes any level.
\<close>

definition crosses :: "order \<Rightarrow> dbl \<Rightarrow> bool" where
  "crosses inc key \<longleftrightarrow>
     \<not> (mOrderType inc = Limit \<and>
        (if mOrderSide inc = Buy then dlt (mPrice inc) key else dgt (mPrice inc) key))"

fun match_levels ::
  "(nat \<Rightarrow> timestamp) \<Rightarrow> addr \<Rightarrow> levels \<Rightarrow> match_state \<Rightarrow> (levels \<times> match_state) option" where
  "match_levels clk a [] s = Some ([], s)"
| "match_levels clk a ((p, l) # m) s = do {
     inc \<leftarrow> m_heap s a;
     if mRemainingQuantity inc > 0 \<and> crosses inc p
     then do {
       (l', s1) \<leftarrow> match_level clk a l s;
       (m', s2) \<leftarrow> match_levels clk a m s1;
       Some (if l' = [] then m' else (p, l') # m', s2)
     }
     else Some ((p, l) # m, s)
   }"

definition final_status :: "order \<Rightarrow> order" where
  "final_status inc =
     (if mRemainingQuantity inc = 0 then setStatus Filled inc
      else if mOrderType inc = Market then
        if mOriginalQuantity inc = mRemainingQuantity inc then setStatus Cancelled inc else inc
      else inc)"

definition matchTable ::
  "(nat \<Rightarrow> timestamp) \<Rightarrow> addr \<Rightarrow> levels \<Rightarrow> match_state \<Rightarrow> (levels \<times> match_state) option" where
  "matchTable clk a m s = do {
     (m', s1) \<leftarrow> match_levels clk a m s;
     h \<leftarrow> heap_upd a final_status (m_heap s1);
     Some (m', s1\<lparr>m_heap := h\<rparr>)
   }"

text \<open>The result is the trade vector, the book and the state after the call.\<close>

definition match ::
  "(nat \<Rightarrow> timestamp) \<Rightarrow> addr \<Rightarrow> order_book \<Rightarrow> heap \<Rightarrow> u64 \<Rightarrow> nat \<Rightarrow>
   (trade list \<times> order_book \<times> match_state) option" where
  "match clk a b h tid ticks = do {
     inc \<leftarrow> h a;
     let s = \<lparr>m_heap = h, m_tid = tid, m_ticks = ticks, m_trades = []\<rparr>;
     if mOrderSide inc = Buy
     then do {
       (asks, s') \<leftarrow> matchTable clk a (mAskMap b) s;
       Some (m_trades s', b\<lparr>mAskMap := asks\<rparr>, s')
     }
     else do {
       (bids, s') \<leftarrow> matchTable clk a (mBidMap b) s;
       Some (m_trades s', b\<lparr>mBidMap := bids\<rparr>, s')
     }
   }"

subsection \<open>Specification: price-time priority\<close>

text \<open>
  What a quantity \<open>q\<close> takes from a queue of resting orders: each in turn gives as much as it
  has until nothing is left to take.
\<close>

fun fills :: "heap \<Rightarrow> u64 \<Rightarrow> addr list \<Rightarrow> (addr \<times> u64) list" where
  "fills h q [] = []"
| "fills h q (b # bs) =
     (if q = 0 then []
      else let f = min q (mRemainingQuantity (order_at h b)) in (b, f) # fills h (q - f) bs)"

fun unfilled :: "heap \<Rightarrow> u64 \<Rightarrow> addr list \<Rightarrow> u64" where
  "unfilled h q [] = q"
| "unfilled h q (b # bs) =
     (if q = 0 then 0 else unfilled h (q - min q (mRemainingQuantity (order_at h b))) bs)"

text \<open>The orders an incoming order can take, in priority order: best level first, then arrival.\<close>

definition eligible :: "order \<Rightarrow> levels \<Rightarrow> addr list" where
  "eligible inc m = addrs (takeWhile (\<lambda>(p, l). crosses inc p) m)"

definition fill :: "u64 \<Rightarrow> order \<Rightarrow> order" where
  "fill f ord =
     (let r = mRemainingQuantity ord - f
      in ord\<lparr>mRemainingQuantity := r, mOrderStatus := (if r = 0 then Filled else PartiallyFilled)\<rparr>)"

definition apply_fills :: "(addr \<times> u64) list \<Rightarrow> heap \<Rightarrow> heap" where
  "apply_fills fs h = (\<lambda>x. case map_of fs x of None \<Rightarrow> h x | Some f \<Rightarrow> map_option (fill f) (h x))"

definition taker_after :: "order \<Rightarrow> (addr \<times> u64) list \<Rightarrow> u64 \<Rightarrow> order" where
  "taker_after inc fs r =
     (if fs = [] then inc
      else inc\<lparr>mRemainingQuantity := r, mOrderStatus := PartiallyFilled\<rparr>)"

text \<open>A resting order leaves the book when it gave all it had.\<close>

definition emptied :: "heap \<Rightarrow> (addr \<times> u64) list \<Rightarrow> addr \<Rightarrow> bool" where
  "emptied h fs b \<longleftrightarrow> map_of fs b = Some (mRemainingQuantity (order_at h b))"

definition levels_filter :: "(addr \<Rightarrow> bool) \<Rightarrow> levels \<Rightarrow> levels" where
  "levels_filter P m = filter (\<lambda>(p, l). l \<noteq> []) (map (\<lambda>(p, l). (p, filter P l)) m)"

fun trades_of ::
  "(nat \<Rightarrow> timestamp) \<Rightarrow> heap \<Rightarrow> order \<Rightarrow> u64 \<Rightarrow> nat \<Rightarrow> (addr \<times> u64) list \<Rightarrow> trade list" where
  "trades_of clk h inc tid ticks [] = []"
| "trades_of clk h inc tid ticks ((b, f) # fs) =
     (let res = order_at h b in
      \<lparr>mTradeId = tid + 1, mOrderSymbol = mSymbol inc,
       mBuyOrderId = (if mOrderSide inc = Buy then mCoreOrderId inc else mCoreOrderId res),
       mSellOrderId = (if mOrderSide inc = Buy then mCoreOrderId res else mCoreOrderId inc),
       mQuantity = f, mTradePrice = mPrice res, mTradeTimestamp = clk ticks\<rparr>)
     # trades_of clk h inc (tid + 1) (ticks + 1) fs"

subsection \<open>Facts about the specification\<close>

lemma fills_cong:
  "(\<And>b. b \<in> set l \<Longrightarrow> mRemainingQuantity (order_at h' b) = mRemainingQuantity (order_at h b)) \<Longrightarrow>
     fills h' q l = fills h q l \<and> unfilled h' q l = unfilled h q l"
  by (induction l arbitrary: q) auto

lemma fills_zero [simp]: "fills h 0 l = []" "unfilled h 0 l = 0"
  by (cases l; simp)+

lemma fills_append:
  "fills h q (l @ l') = fills h q l @ fills h (unfilled h q l) l'"
  "unfilled h q (l @ l') = unfilled h (unfilled h q l) l'"
  by (induction l arbitrary: q) (auto simp: Let_def)

lemma fst_fills: "\<exists>n. map fst (fills h q l) = take n l"
proof (induction l arbitrary: q)
  case (Cons b l)
  show ?case
  proof (cases "q = 0")
    case True
    then show ?thesis by (auto intro!: exI [of _ 0])
  next
    case False
    obtain n where "map fst (fills h (q - min q (mRemainingQuantity (order_at h b))) l) = take n l"
      using Cons by blast
    then show ?thesis using False by (auto simp: Let_def intro!: exI [of _ "Suc n"])
  qed
qed simp

lemma fst_set_fills: "fst ` set (fills h q l) \<subseteq> set l"
  by (metis fst_fills image_set set_take_subset)

lemma distinct_fst_fills: "distinct l \<Longrightarrow> distinct (map fst (fills h q l))"
  by (metis fst_fills distinct_take)

lemma map_of_fills_notin: "b \<notin> set l \<Longrightarrow> map_of (fills h q l) b = None"
  using fst_set_fills [of h q l] by (auto simp: map_of_eq_None_iff)

lemma fills_Nil_unfilled: "fills h q l = [] \<Longrightarrow> unfilled h q l = q"
  by (cases l) (auto simp: Let_def split: if_splits)

lemma fills_positive:
  assumes "\<forall>b\<in>set l. mRemainingQuantity (order_at h b) \<noteq> 0" and "(b, f) \<in> set (fills h q l)"
  shows "f \<noteq> 0 \<and> f \<le> mRemainingQuantity (order_at h b)"
  using assms
  by (induction l arbitrary: q) (auto simp: Let_def min_def split: if_splits)

text \<open>Nothing is lost: what is taken and what is left add up, without wrap-around.\<close>

lemma fills_total: "sum_list (map (unat \<circ> snd) (fills h q l)) + unat (unfilled h q l) = unat q"
proof (induction l arbitrary: q)
  case (Cons b l)
  let ?f = "min q (mRemainingQuantity (order_at h b))"
  have "unat ?f + unat (q - ?f) = unat q"
    by (metis add_diff_inverse_nat linorder_not_le min.cobounded1 unat_sub word_le_nat_alt)
  then show ?case using Cons [of "q - ?f"] by (simp add: Let_def)
qed simp

text \<open>What is left of the taker is positive only when every eligible order gave all it had.\<close>

lemma unfilled_nonzero:
  assumes "unfilled h q l \<noteq> 0" and "b \<in> set l" and "distinct l"
  shows "map_of (fills h q l) b = Some (mRemainingQuantity (order_at h b))"
  using assms
proof (induction l arbitrary: q)
  case (Cons c l)
  let ?r = "mRemainingQuantity (order_at h c)"
  have q: "q \<noteq> 0" using Cons.prems(1) by auto
  then have "q - min q ?r \<noteq> 0" using Cons.prems(1) by auto
  then have "?r < q" by (metis diff_self linorder_not_le min.absorb1)
  then have "min q ?r = ?r" by simp
  then show ?case using Cons q by (auto simp: Let_def)
qed simp

lemma apply_fills_Nil [simp]: "apply_fills [] h = h"
  by (simp add: apply_fills_def)

lemma apply_fills_other: "b \<notin> fst ` set fs \<Longrightarrow> apply_fills fs h b = h b"
  by (simp add: apply_fills_def map_of_eq_None_iff [symmetric])

lemma trades_of_cong:
  "(\<And>b f. (b, f) \<in> set fs \<Longrightarrow> mCoreOrderId (order_at h' b) = mCoreOrderId (order_at h b) \<and>
        mPrice (order_at h' b) = mPrice (order_at h b)) \<Longrightarrow>
   mSymbol inc' = mSymbol inc \<Longrightarrow> mOrderSide inc' = mOrderSide inc \<Longrightarrow>
   mCoreOrderId inc' = mCoreOrderId inc \<Longrightarrow>
     trades_of clk h' inc' tid ticks fs = trades_of clk h inc tid ticks fs"
  by (induction clk h inc tid ticks fs rule: trades_of.induct) (auto simp: Let_def)

lemma trades_of_append:
  "trades_of clk h inc tid ticks (fs @ gs) =
     trades_of clk h inc tid ticks fs
     @ trades_of clk h inc (tid + of_nat (length fs)) (ticks + length fs) gs"
  by (induction clk h inc tid ticks fs rule: trades_of.induct) (auto simp: Let_def algebra_simps)

lemma levels_filter_simps [simp]:
  "levels_filter P [] = []"
  "levels_filter P ((p, l) # m) =
     (if filter P l = [] then levels_filter P m else (p, filter P l) # levels_filter P m)"
  by (simp_all add: levels_filter_def)

lemma levels_filter_cong:
  "(\<And>b. b \<in> set (addrs m) \<Longrightarrow> P b = Q b) \<Longrightarrow> levels_filter P m = levels_filter Q m"
  by (induction m) (auto cong: filter_cong)

lemma levels_filter_True:
  "\<forall>(p, l)\<in>set m. l \<noteq> [] \<Longrightarrow> \<forall>b\<in>set (addrs m). P b \<Longrightarrow> levels_filter P m = m"
  by (induction m) (auto simp: filter_id_conv)

lemma addrs_levels_filter: "addrs (levels_filter P m) = filter P (addrs m)"
  by (induction m) auto

lemma set_levels_filter:
  "(p, l) \<in> set (levels_filter P m) \<Longrightarrow> l \<noteq> [] \<and> (\<exists>l'. (p, l') \<in> set m \<and> l = filter P l')"
  by (auto simp: levels_filter_def)

subsection \<open>The loops implement the specification\<close>

text \<open>What a trade does to the two orders when they are different objects.\<close>

lemma match_step_spec:
  assumes a: "m_heap s a = Some inc" and b: "m_heap s b = Some res" and ne: "a \<noteq> b"
  defines "f \<equiv> min (mRemainingQuantity inc) (mRemainingQuantity res)"
  shows "match_step clk a b s = Some
     (s\<lparr>m_heap := (m_heap s)
           (a \<mapsto> inc\<lparr>mRemainingQuantity := mRemainingQuantity inc - f,
                     mOrderStatus := PartiallyFilled\<rparr>,
            b \<mapsto> fill f res),
        m_tid := m_tid s + 1, m_ticks := m_ticks s + 1,
        m_trades := m_trades s @ trades_of clk (m_heap s) inc (m_tid s) (m_ticks s) [(b, f)]\<rparr>,
      mRemainingQuantity res - f = 0)"
  using a b ne
  by (simp add: match_step_def heap_upd_def nextId_def Let_def order_setters fill_def f_def
      order_at_def fun_upd_twist)

lemma taker_after_simps [simp]:
  "mOrderType (taker_after inc fs r) = mOrderType inc"
  "mOrderSide (taker_after inc fs r) = mOrderSide inc"
  "mPrice (taker_after inc fs r) = mPrice inc"
  "mSymbol (taker_after inc fs r) = mSymbol inc"
  "mCoreOrderId (taker_after inc fs r) = mCoreOrderId inc"
  "mOriginalQuantity (taker_after inc fs r) = mOriginalQuantity inc"
  "mSenderCompID (taker_after inc fs r) = mSenderCompID inc"
  by (simp_all add: taker_after_def)

text \<open>The state after the loops ran through the fills \<open>fs\<close>.\<close>

definition matched ::
  "(nat \<Rightarrow> timestamp) \<Rightarrow> addr \<Rightarrow> order \<Rightarrow> (addr \<times> u64) list \<Rightarrow> u64 \<Rightarrow> match_state \<Rightarrow> match_state"
  where
  "matched clk a inc fs r s =
     s\<lparr>m_heap := (apply_fills fs (m_heap s))(a \<mapsto> taker_after inc fs r),
       m_tid := m_tid s + of_nat (length fs), m_ticks := m_ticks s + length fs,
       m_trades := m_trades s @ trades_of clk (m_heap s) inc (m_tid s) (m_ticks s) fs\<rparr>"

lemma matched_Nil [simp]: "m_heap s a = Some inc \<Longrightarrow> matched clk a inc [] r s = s"
  by (simp add: matched_def taker_after_def fun_upd_idem)

lemma matched_append:
  assumes a: "a \<notin> fst ` set (fs @ gs)" and r: "fs \<noteq> [] \<or> gs \<noteq> [] \<or> r' = r"
    and disj: "fst ` set fs \<inter> fst ` set gs = {}"
    and r0: "fs = [] \<Longrightarrow> r = mRemainingQuantity inc" and r1: "gs = [] \<Longrightarrow> r' = r"
  shows "matched clk a (taker_after inc fs r) gs r' (matched clk a inc fs r s) =
           matched clk a inc (fs @ gs) r' s"
proof -
  let ?h = "m_heap s" and ?h1 = "(apply_fills fs (m_heap s))(a \<mapsto> taker_after inc fs r)"
  have same: "?h1 b = ?h b" if "b \<in> fst ` set gs" for b
  proof -
    have "b \<notin> fst ` set fs" and "b \<noteq> a" using that a disj by auto
    then show ?thesis by (simp add: apply_fills_other)
  qed
  have heap: "(apply_fills gs ?h1)(a \<mapsto> x) = (apply_fills (fs @ gs) ?h)(a \<mapsto> x)" for x
  proof
    fix b
    show "((apply_fills gs ?h1)(a \<mapsto> x)) b = ((apply_fills (fs @ gs) ?h)(a \<mapsto> x)) b"
    proof (cases "b \<in> fst ` set gs")
      case True
      then have "map_of fs b = None" using disj by (auto simp: map_of_eq_None_iff)
      then show ?thesis
        using same [OF True]
        by (simp add: apply_fills_def map_add_def split: option.split)
    next
      case False
      then have "map_of gs b = None" by (simp add: map_of_eq_None_iff)
      then show ?thesis by (simp add: apply_fills_def map_add_def split: option.split)
    qed
  qed
  have trades: "trades_of clk ?h1 (taker_after inc fs r) tid ticks gs =
      trades_of clk ?h inc tid ticks gs" for tid ticks
  proof (rule trades_of_cong)
    fix b f assume "(b, f) \<in> set gs"
    then have "b \<in> fst ` set gs" by force
    then show "mCoreOrderId (order_at ?h1 b) = mCoreOrderId (order_at ?h b) \<and>
        mPrice (order_at ?h1 b) = mPrice (order_at ?h b)"
      unfolding order_at_def using same by simp
  qed simp_all
  have taker: "taker_after (taker_after inc fs r) gs r' = taker_after inc (fs @ gs) r'"
    using r1 by (cases fs; cases gs) (auto simp: taker_after_def)
  show ?thesis
    by (simp add: matched_def heap trades taker trades_of_append algebra_simps)
qed

lemma match_level_spec:
  assumes "m_heap s a = Some inc" and "a \<notin> set l" and "distinct l"
    and "\<forall>b\<in>set l. m_heap s b \<noteq> None"
  defines "fs \<equiv> fills (m_heap s) (mRemainingQuantity inc) l"
  shows "match_level clk a l s = Some
     (filter (\<lambda>b. \<not> emptied (m_heap s) fs b) l,
      matched clk a inc fs (unfilled (m_heap s) (mRemainingQuantity inc) l) s)"
  using assms(1-4) unfolding fs_def
proof (induction l arbitrary: s inc)
  case Nil
  then show ?case by (subst match_level.simps) simp
next
  case (Cons b l)
  let ?h = "m_heap s" and ?q = "mRemainingQuantity inc"
  obtain res where res: "?h b = Some res" using Cons.prems by auto
  have ab: "a \<noteq> b" using Cons.prems by auto
  let ?f = "min ?q (mRemainingQuantity res)"
  show ?case
  proof (cases "?q = 0")
    case True
    then show ?thesis
      using Cons.prems by (subst match_level.simps) (simp add: emptied_def)
  next
    case False
    let ?s1 = "matched clk a inc [(b, ?f)] (?q - ?f) s"
    let ?inc1 = "taker_after inc [(b, ?f)] (?q - ?f)"
    have s1: "match_step clk a b s = Some (?s1, mRemainingQuantity res - ?f = 0)"
      using match_step_spec [of s a inc b res clk] Cons.prems(1) res ab
      by (simp add: matched_def apply_fills_def taker_after_def fun_eq_iff split: if_splits)
    have inc1: "m_heap ?s1 a = Some ?inc1" "mRemainingQuantity ?inc1 = ?q - ?f"
      by (simp_all add: matched_def taker_after_def)
    have same: "m_heap ?s1 x = ?h x" if "x \<in> set l" for x
    proof -
      have "x \<noteq> a" "x \<noteq> b" using that Cons.prems by auto
      then show ?thesis by (simp add: matched_def apply_fills_other)
    qed
    have spec: "fills ?h ?q (b # l) = (b, ?f) # fills ?h (?q - ?f) l"
      "unfilled ?h ?q (b # l) = unfilled ?h (?q - ?f) l"
      using False res by (simp_all add: Let_def order_at_def)
    have unfold: "match_level clk a (b # l) s =
        match_level clk a (if mRemainingQuantity res - ?f = 0 then l else b # l) ?s1"
      using Cons.prems(1) False s1 by (subst match_level.simps) (simp add: word_pos_iff)
    show ?thesis
    proof (cases "mRemainingQuantity res \<le> ?q")
      case True
      then have f: "?f = mRemainingQuantity res" by simp
      let ?fs = "fills ?h (?q - ?f) l" and ?r = "unfilled ?h (?q - ?f) l"
      have fs: "fills (m_heap ?s1) (?q - ?f) l = ?fs" "unfilled (m_heap ?s1) (?q - ?f) l = ?r"
        using fills_cong [of l "m_heap ?s1" ?h "?q - ?f"] same by (simp_all add: order_at_def)
      have "match_level clk a l ?s1 =
          Some (filter (\<lambda>b. \<not> emptied (m_heap ?s1) ?fs b) l, matched clk a ?inc1 ?fs ?r ?s1)"
        using Cons.IH [OF inc1(1)] Cons.prems same by (simp add: inc1(2) fs)
      moreover have "matched clk a ?inc1 ?fs ?r ?s1 = matched clk a inc ([(b, ?f)] @ ?fs) ?r s"
        using Cons.prems fst_set_fills [of ?h "?q - ?f" l]
        by (intro matched_append) (auto dest: fills_Nil_unfilled)
      moreover have "filter (\<lambda>b. \<not> emptied (m_heap ?s1) ?fs b) l =
          filter (\<lambda>x. \<not> emptied ?h ((b, ?f) # ?fs) x) (b # l)"
        using Cons.prems f res same
        by (auto simp: emptied_def order_at_def intro!: filter_cong)
      ultimately show ?thesis unfolding spec unfold by (simp add: f)
    next
      case more: False
      then have f: "?f = ?q" and left: "mRemainingQuantity res - ?f \<noteq> 0" by auto
      have "match_level clk a (b # l) ?s1 = Some (b # l, ?s1)"
        using inc1 f by (subst match_level.simps) simp
      moreover have "filter (\<lambda>x. \<not> emptied ?h [(b, ?f)] x) (b # l) = b # l"
        using more f res Cons.prems by (auto simp: emptied_def order_at_def filter_id_conv)
      ultimately show ?thesis unfolding spec unfold using left by (simp add: f)
    qed
  qed
qed

lemma crosses_taker_after [simp]: "crosses (taker_after inc fs r) p = crosses inc p"
  by (simp add: crosses_def)

lemma eligible_simps [simp]:
  "eligible inc [] = []"
  "eligible inc ((p, l) # m) = (if crosses inc p then l @ eligible inc m else [])"
  "eligible (taker_after inc fs r) m = eligible inc m"
  by (simp_all add: eligible_def)

lemma set_eligible: "set (eligible inc m) \<subseteq> set (addrs m)"
  by (induction m) auto

lemma distinct_eligible: "distinct (addrs m) \<Longrightarrow> distinct (eligible inc m)"
proof (induction m)
  case (Cons pl m)
  then show ?case using set_eligible [of inc m] by (cases pl) auto
qed simp

lemma emptied_append:
  assumes "b \<notin> fst ` set gs" shows "emptied h (fs @ gs) b = emptied h fs b"
  using assms
  by (simp add: emptied_def map_add_def map_of_eq_None_iff [symmetric] split: option.split)

lemma emptied_append2:
  assumes "b \<notin> fst ` set fs" shows "emptied h (fs @ gs) b = emptied h gs b"
  using assms
  by (simp add: emptied_def map_add_def map_of_eq_None_iff [symmetric] split: option.split)

lemma emptied_Nil [simp]: "\<not> emptied h [] b"
  by (simp add: emptied_def)

lemma match_levels_spec:
  assumes "m_heap s a = Some inc" and "a \<notin> set (addrs m)" and "distinct (addrs m)"
    and "\<forall>b\<in>set (addrs m). m_heap s b \<noteq> None" and "\<forall>(p, l)\<in>set m. l \<noteq> []"
  shows "match_levels clk a m s = Some
     (levels_filter
        (\<lambda>b. \<not> emptied (m_heap s) (fills (m_heap s) (mRemainingQuantity inc) (eligible inc m)) b) m,
      matched clk a inc (fills (m_heap s) (mRemainingQuantity inc) (eligible inc m))
        (unfilled (m_heap s) (mRemainingQuantity inc) (eligible inc m)) s)"
  using assms
proof (induction m arbitrary: s inc)
  case Nil
  then show ?case by simp
next
  case (Cons pl m)
  obtain p l where pl: "pl = (p, l)" by fastforce
  let ?h = "m_heap s" and ?q = "mRemainingQuantity inc"
  show ?case
  proof (cases "0 < ?q \<and> crosses inc p")
    case False
    then have "fills ?h ?q (eligible inc (pl # m)) = []"
      "unfilled ?h ?q (eligible inc (pl # m)) = ?q"
      by (auto simp: pl word_pos_iff)
    moreover have "levels_filter (\<lambda>b. True) (pl # m) = pl # m"
      using Cons.prems(5) by (intro levels_filter_True) auto
    ultimately show ?thesis using Cons.prems(1) False by (auto simp: pl)
  next
    case True
    let ?fs = "fills ?h ?q l" and ?r = "unfilled ?h ?q l"
    let ?s1 = "matched clk a inc ?fs ?r s" and ?inc1 = "taker_after inc ?fs ?r"
    let ?gs = "fills ?h ?r (eligible inc m)" and ?r' = "unfilled ?h ?r (eligible inc m)"
    have l: "match_level clk a l s = Some (filter (\<lambda>b. \<not> emptied ?h ?fs b) l, ?s1)"
      using Cons.prems by (intro match_level_spec) (auto simp: pl)
    have inc1: "m_heap ?s1 a = Some ?inc1" "mRemainingQuantity ?inc1 = ?r"
      using fills_Nil_unfilled [of ?h ?q l] by (auto simp: matched_def taker_after_def)
    have disj: "set l \<inter> set (addrs m) = {}" "a \<notin> set l" "a \<notin> set (addrs m)"
      using Cons.prems by (auto simp: pl)
    note fs_in = fst_set_fills [of ?h ?q l] and gs_in = fst_set_fills [of ?h ?r "eligible inc m"]
    have same: "m_heap ?s1 x = ?h x" if "x \<in> set (addrs m)" for x
    proof -
      have "x \<noteq> a" "x \<notin> fst ` set ?fs" using that disj fs_in by auto
      then show ?thesis by (simp add: matched_def apply_fills_other)
    qed
    have gs: "fills (m_heap ?s1) ?r (eligible inc m) = ?gs"
      "unfilled (m_heap ?s1) ?r (eligible inc m) = ?r'"
      using fills_cong [of "eligible inc m" "m_heap ?s1" ?h ?r] same set_eligible [of inc m]
      by (auto simp: order_at_def subset_iff)
    have "match_levels clk a m ?s1 = Some
        (levels_filter (\<lambda>b. \<not> emptied (m_heap ?s1) ?gs b) m, matched clk a ?inc1 ?gs ?r' ?s1)"
      using Cons.IH [OF inc1(1)] Cons.prems same by (simp add: inc1(2) gs pl)
    moreover have "matched clk a ?inc1 ?gs ?r' ?s1 = matched clk a inc (?fs @ ?gs) ?r' s"
      using disj fs_in gs_in set_eligible [of inc m]
      by (intro matched_append) (auto dest: fills_Nil_unfilled)
    moreover have "levels_filter (\<lambda>b. \<not> emptied (m_heap ?s1) ?gs b) m =
        levels_filter (\<lambda>b. \<not> emptied ?h (?fs @ ?gs) b) m"
    proof (rule levels_filter_cong)
      fix b assume b: "b \<in> set (addrs m)"
      then have "b \<notin> fst ` set ?fs" using disj(1) fs_in by auto
      then have "emptied ?h (?fs @ ?gs) b = emptied ?h ?gs b" by (rule emptied_append2)
      moreover have "emptied (m_heap ?s1) ?gs b = emptied ?h ?gs b"
        using same [OF b] by (simp add: emptied_def order_at_def)
      ultimately show "(\<not> emptied (m_heap ?s1) ?gs b) = (\<not> emptied ?h (?fs @ ?gs) b)" by simp
    qed
    moreover have "filter (\<lambda>b. \<not> emptied ?h ?fs b) l =
        filter (\<lambda>b. \<not> emptied ?h (?fs @ ?gs) b) l"
    proof (rule filter_cong [OF refl])
      fix b assume "b \<in> set l"
      then have "b \<notin> fst ` set ?gs" using disj(1) gs_in set_eligible [of inc m] by auto
      then show "(\<not> emptied ?h ?fs b) = (\<not> emptied ?h (?fs @ ?gs) b)"
        by (simp add: emptied_append)
    qed
    ultimately show ?thesis
      using True Cons.prems(1) l by (simp add: pl fills_append)
  qed
qed

subsection \<open>The matcher\<close>

definition opposite :: "order \<Rightarrow> order_book \<Rightarrow> levels" where
  "opposite inc b = (if mOrderSide inc = Buy then mAskMap b else mBidMap b)"

definition set_opposite :: "order \<Rightarrow> levels \<Rightarrow> order_book \<Rightarrow> order_book" where
  "set_opposite inc m b =
     (if mOrderSide inc = Buy then b\<lparr>mAskMap := m\<rparr> else b\<lparr>mBidMap := m\<rparr>)"

text \<open>The fills an incoming order gets from a book, and what is left of it.\<close>

definition book_fills :: "heap \<Rightarrow> order \<Rightarrow> order_book \<Rightarrow> (addr \<times> u64) list" where
  "book_fills h inc b = fills h (mRemainingQuantity inc) (eligible inc (opposite inc b))"

definition book_unfilled :: "heap \<Rightarrow> order \<Rightarrow> order_book \<Rightarrow> u64" where
  "book_unfilled h inc b = unfilled h (mRemainingQuantity inc) (eligible inc (opposite inc b))"

definition book_after :: "heap \<Rightarrow> order \<Rightarrow> order_book \<Rightarrow> order_book" where
  "book_after h inc b =
     set_opposite inc
       (levels_filter (\<lambda>x. \<not> emptied h (book_fills h inc b) x) (opposite inc b)) b"

definition taker_final :: "heap \<Rightarrow> order \<Rightarrow> order_book \<Rightarrow> order" where
  "taker_final h inc b =
     final_status (taker_after inc (book_fills h inc b) (book_unfilled h inc b))"

definition heap_after :: "heap \<Rightarrow> addr \<Rightarrow> order \<Rightarrow> order_book \<Rightarrow> heap" where
  "heap_after h a inc b = (apply_fills (book_fills h inc b) h)(a \<mapsto> taker_final h inc b)"

lemma opposite_ok:
  assumes "book_ok h own b"
  shows "distinct (addrs (opposite inc b))" "\<forall>(p, l)\<in>set (opposite inc b). l \<noteq> []"
    "\<forall>x\<in>set (addrs (opposite inc b)). h x \<noteq> None"
    "set (addrs (opposite inc b)) \<subseteq> book_addrs b"
proof -
  show "distinct (addrs (opposite inc b))" "\<forall>(p, l)\<in>set (opposite inc b). l \<noteq> []"
    using assms by (auto simp: opposite_def book_ok_def side_ok_def)
  show "set (addrs (opposite inc b)) \<subseteq> book_addrs b"
    by (auto simp: opposite_def book_addrs_def)
  then show "\<forall>x\<in>set (addrs (opposite inc b)). h x \<noteq> None"
    using assms by (auto elim!: book_okD)
qed

theorem match_spec:
  assumes ok: "book_ok h own b" and a: "h a = Some inc" "a \<notin> book_addrs b"
  shows "match clk a b h tid ticks =
     (let ts = trades_of clk h inc tid ticks (book_fills h inc b);
          n = length (book_fills h inc b)
      in Some (ts, book_after h inc b,
           \<lparr>m_heap = heap_after h a inc b, m_tid = tid + of_nat n, m_ticks = ticks + n,
            m_trades = ts\<rparr>))"
proof -
  let ?s = "\<lparr>m_heap = h, m_tid = tid, m_ticks = ticks, m_trades = []\<rparr>"
  let ?fs = "book_fills h inc b"
  have "match_levels clk a (opposite inc b) ?s = Some
      (levels_filter (\<lambda>x. \<not> emptied h ?fs x) (opposite inc b),
       matched clk a inc ?fs (book_unfilled h inc b) ?s)"
    using match_levels_spec [of ?s a inc "opposite inc b" clk] opposite_ok [OF ok, of inc] a
    by (auto simp: book_fills_def book_unfilled_def)
  then have "matchTable clk a (opposite inc b) ?s = Some
      (levels_filter (\<lambda>x. \<not> emptied h ?fs x) (opposite inc b),
       (matched clk a inc ?fs (book_unfilled h inc b) ?s)
         \<lparr>m_heap := heap_after h a inc b\<rparr>)"
    by (simp add: matchTable_def heap_upd_def matched_def heap_after_def taker_final_def)
  then show ?thesis
    using a(1)
    by (auto simp: match_def opposite_def book_after_def set_opposite_def matched_def Let_def)
qed

subsection \<open>What a match leaves behind\<close>

lemma fill_simps [simp]:
  "mCoreOrderId (fill f ord) = mCoreOrderId ord" "mOrderSide (fill f ord) = mOrderSide ord"
  "mPrice (fill f ord) = mPrice ord" "mOriginalQuantity (fill f ord) = mOriginalQuantity ord"
  "mRemainingQuantity (fill f ord) = mRemainingQuantity ord - f"
  "mSenderCompID (fill f ord) = mSenderCompID ord" "mOrderType (fill f ord) = mOrderType ord"
  by (simp_all add: fill_def Let_def)

lemma final_status_simps [simp]:
  "mCoreOrderId (final_status ord) = mCoreOrderId ord"
  "mOrderSide (final_status ord) = mOrderSide ord"
  "mPrice (final_status ord) = mPrice ord"
  "mRemainingQuantity (final_status ord) = mRemainingQuantity ord"
  "mOriginalQuantity (final_status ord) = mOriginalQuantity ord"
  "mOrderType (final_status ord) = mOrderType ord"
  "mSenderCompID (final_status ord) = mSenderCompID ord"
  by (simp_all add: final_status_def order_setters)

lemma fills_le: "(b, f) \<in> set (fills h q l) \<Longrightarrow> f \<le> mRemainingQuantity (order_at h b)"
  by (induction l arbitrary: q) (auto simp: Let_def split: if_splits)

lemma taker_remaining [simp]:
  "mRemainingQuantity (taker_final h inc b) = book_unfilled h inc b"
  by (auto simp: taker_final_def taker_after_def book_fills_def book_unfilled_def
      dest: fills_Nil_unfilled)

lemma taker_final_simps [simp]:
  "mCoreOrderId (taker_final h inc b) = mCoreOrderId inc"
  "mOrderSide (taker_final h inc b) = mOrderSide inc"
  "mPrice (taker_final h inc b) = mPrice inc"
  "mOrderType (taker_final h inc b) = mOrderType inc"
  "mOriginalQuantity (taker_final h inc b) = mOriginalQuantity inc"
  "mSenderCompID (taker_final h inc b) = mSenderCompID inc"
  by (simp_all add: taker_final_def)

lemma heap_after_taker [simp]: "heap_after h a inc b a = Some (taker_final h inc b)"
  by (simp add: heap_after_def)

lemma heap_after_other:
  "x \<noteq> a \<Longrightarrow> heap_after h a inc b x =
     (case map_of (book_fills h inc b) x of None \<Rightarrow> h x | Some f \<Rightarrow> map_option (fill f) (h x))"
  by (simp add: heap_after_def apply_fills_def)

lemma heap_after_ids:
  assumes "h a = Some inc"
  shows "map_option mCoreOrderId (heap_after h a inc b x) = map_option mCoreOrderId (h x)"
  using assms
  by (cases "x = a"; cases "h x") (auto simp: heap_after_other split: option.splits)

lemma side_ok_filter:
  assumes ok: "side_ok lt sd h own m"
    and keep: "\<And>p x. x \<in> set (addrs m) \<Longrightarrow> P x \<Longrightarrow> rests lt sd h own p x \<Longrightarrow> rests lt sd h' own p x"
  shows "side_ok lt sd h' own (levels_filter P m)"
proof -
  have "sorted_wrt (\<lambda>x y. lt (fst x) (fst y)) (map (\<lambda>(p, l). (p, filter P l)) m)"
    using ok by (simp add: side_ok_def sorted_wrt_map split_beta)
  then have "sorted_wrt (\<lambda>x y. lt (fst x) (fst y)) (levels_filter P m)"
    unfolding levels_filter_def by (rule sorted_wrt_filter)
  then have "keys_sorted lt (levels_filter P m)" by (simp add: sorted_wrt_map)
  moreover have "l \<noteq> [] \<and> (\<forall>x\<in>set l. rests lt sd h' own p x)"
    if pl: "(p, l) \<in> set (levels_filter P m)" for p l
  proof -
    obtain l' where l': "(p, l') \<in> set m" "l = filter P l'" "l \<noteq> []"
      using pl by (auto dest: set_levels_filter)
    then have "rests lt sd h own p x \<and> x \<in> set (addrs m)" if "x \<in> set l'" for x
      using ok that by (force simp: side_ok_def set_addrs)
    then show ?thesis using l' keep by auto
  qed
  ultimately show ?thesis
    using ok by (auto simp: side_ok_def addrs_levels_filter)
qed

lemma book_fills_in: "fst ` set (book_fills h inc b) \<subseteq> set (addrs (opposite inc b))"
  using fst_set_fills set_eligible unfolding book_fills_def by (metis subset_trans)

lemma book_fills_distinct: "book_ok h own b \<Longrightarrow> distinct (map fst (book_fills h inc b))"
  using distinct_fst_fills distinct_eligible opposite_ok(1) unfolding book_fills_def by metis

lemma rests_heap_after:
  assumes r: "rests lt sd h own p x" and x: "x \<noteq> a" "\<not> emptied h (book_fills h inc b) x"
  shows "rests lt sd (heap_after h a inc b) own p x"
proof -
  obtain ord where ord: "h x = Some ord" "mRemainingQuantity ord \<noteq> 0"
    using r by (auto simp: rests_def)
  show ?thesis
  proof (cases "map_of (book_fills h inc b) x")
    case None
    then show ?thesis using r x by (simp add: rests_def heap_after_other)
  next
    case (Some f)
    then have "f \<noteq> mRemainingQuantity ord" using x ord by (simp add: emptied_def order_at_def)
    then have "mRemainingQuantity ord - f \<noteq> 0" by simp
    then show ?thesis using r ord Some x by (auto simp: rests_def heap_after_other)
  qed
qed

lemma book_after_sides:
  "mOrderSide inc = Buy \<Longrightarrow> book_after h inc b =
     b\<lparr>mAskMap := levels_filter (\<lambda>x. \<not> emptied h (book_fills h inc b) x) (mAskMap b)\<rparr>"
  "mOrderSide inc = Sell \<Longrightarrow> book_after h inc b =
     b\<lparr>mBidMap := levels_filter (\<lambda>x. \<not> emptied h (book_fills h inc b) x) (mBidMap b)\<rparr>"
  by (simp_all add: book_after_def set_opposite_def opposite_def)

lemma book_after_addrs: "book_addrs (book_after h inc b) \<subseteq> book_addrs b"
  by (cases "mOrderSide inc") (auto simp: book_after_sides book_addrs_def addrs_levels_filter)

lemma book_after_symbol [simp]: "mBookSymbol (book_after h inc b) = mBookSymbol b"
  by (cases "mOrderSide inc") (simp_all add: book_after_sides)

lemma book_ok_after:
  assumes ok: "book_ok h own b" and a: "a \<notin> book_addrs b"
  shows "book_ok (heap_after h a inc b) own (book_after h inc b)"
proof -
  let ?fs = "book_fills h inc b" and ?h = "heap_after h a inc b"
  have a': "a \<notin> set (addrs (mBidMap b))" "a \<notin> set (addrs (mAskMap b))"
    using a by (auto simp: book_addrs_def)
  note sides = book_ok_sides [OF ok]
  have own_side: "side_ok lt sd ?h own m"
    if "side_ok lt sd h own m" "a \<notin> set (addrs m)" "set (addrs m) \<inter> fst ` set ?fs = {}" for lt sd m
    using that(1)
  proof (rule side_ok_cong)
    fix x assume "x \<in> set (addrs m)"
    then have "x \<noteq> a" "map_of ?fs x = None" using that(2,3) by (auto simp: map_of_eq_None_iff)
    then show "?h x = h x" by (simp add: heap_after_other)
  qed
  have disj: "set (addrs (mBidMap b)) \<inter> set (addrs (mAskMap b)) = {}"
    using sides by (fastforce elim: side_okD)
  have filter: "side_ok lt sd ?h own (levels_filter (\<lambda>x. \<not> emptied h ?fs x) m)"
    if "side_ok lt sd h own m" "a \<notin> set (addrs m)" for lt sd m
    using that by (intro side_ok_filter [of lt sd h]) (auto intro: rests_heap_after)
  show ?thesis
  proof (cases "mOrderSide inc")
    case Buy
    then have "set (addrs (mBidMap b)) \<inter> fst ` set ?fs = {}"
      using disj book_fills_in [of h inc b] by (auto simp: opposite_def)
    then show ?thesis
      using own_side [OF sides(1) a'(1)] filter [OF sides(2) a'(2)] Buy
      by (simp add: book_after_sides book_ok_def)
  next
    case Sell
    then have "set (addrs (mAskMap b)) \<inter> fst ` set ?fs = {}"
      using disj book_fills_in [of h inc b] by (auto simp: opposite_def)
    then show ?thesis
      using own_side [OF sides(2) a'(2)] filter [OF sides(1) a'(1)] Sell
      by (simp add: book_after_sides book_ok_def)
  qed
qed

text \<open>When the taker is not filled, every order left on the other side is out of its reach.\<close>

lemma uncrossed_after:
  assumes ok: "book_ok h own b" and left: "book_unfilled h inc b \<noteq> 0"
    and pl: "(p, l) \<in> set (opposite inc (book_after h inc b))"
  shows "\<not> crosses inc p"
proof
  assume c: "crosses inc p"
  let ?m = "opposite inc b" and ?fs = "book_fills h inc b"
  have "opposite inc (book_after h inc b) = levels_filter (\<lambda>x. \<not> emptied h ?fs x) ?m"
    by (simp add: book_after_def set_opposite_def opposite_def)
  then obtain l' where l': "(p, l') \<in> set ?m" "l = filter (\<lambda>x. \<not> emptied h ?fs x) l'" "l \<noteq> []"
    using pl set_levels_filter by fastforce
  have "l' \<noteq> []" using l' by auto
  have "(p, l') \<in> set (takeWhile (\<lambda>(p, l). crosses inc p) ?m)"
  proof (rule in_takeWhile_sorted)
    show "sorted_wrt (\<lambda>x y. (if mOrderSide inc = Buy then dlt else dgt) (fst x) (fst y)) ?m"
      using ok by (simp add: opposite_def book_ok_def side_ok_def sorted_wrt_map)
  qed (use c l' dlt_trans in \<open>auto simp: crosses_def dgt_def split: if_splits\<close>)
  then have "set l' \<subseteq> set (eligible inc ?m)" by (force simp: eligible_def addrs_def)
  then have "emptied h ?fs x" if "x \<in> set l'" for x
    using unfilled_nonzero [OF left [unfolded book_unfilled_def]] that
      distinct_eligible [OF opposite_ok(1) [OF ok]]
    unfolding emptied_def book_fills_def by blast
  then show False using l' by (auto simp: filter_empty_conv)
qed

end
