(* ===== verification/RiskManager.thy ===== *)
theory RiskManager
  imports Matcher Persistence
begin

text \<open>
  \<open>exchange_risk/RiskManager\<close>: the gate every new order passes before it is matched (sanity
  of quantity and price, deviation from the opposite top of book, self-match over every
  crossing level), and the post-trade hook that stores the trade.
\<close>

subsection \<open>The gate\<close>

definition MAX_PRICE_DEVIATION :: dbl where
  "MAX_PRICE_DEVIATION = rnd64 (1 / 10)"

text \<open>The inner loop of \<open>checkForSelfMatch\<close>.\<close>

fun level_self_match :: "order \<Rightarrow> heap \<Rightarrow> addr list \<Rightarrow> bool option" where
  "level_self_match ord h [] = Some False"
| "level_self_match ord h (a # as) = do {
     resting \<leftarrow> h a;
     if mSenderCompID resting = mSenderCompID ord then Some True
     else level_self_match ord h as
   }"

text \<open>The crossing test of the gate, \<open>>=\<close> or \<open><=\<close> on the two prices.\<close>

definition gate_crosses :: "order \<Rightarrow> dbl \<Rightarrow> bool" where
  "gate_crosses ord price \<longleftrightarrow>
     (if mOrderSide ord = Buy then dge (mPrice ord) price else dle (mPrice ord) price)"

fun checkForSelfMatch :: "order \<Rightarrow> heap \<Rightarrow> levels \<Rightarrow> bool option" where
  "checkForSelfMatch ord h [] = Some False"
| "checkForSelfMatch ord h ((price, priceLevel) # m) =
     (if mOrderType ord = Limit \<and> \<not> gate_crosses ord price then Some False
      else do {
        found \<leftarrow> level_self_match ord h priceLevel;
        if found then Some True else checkForSelfMatch ord h m
      })"

text \<open>The best price of the opposite side, 0 when it is empty.\<close>

definition topOfBookPrice :: "order \<Rightarrow> order_book \<Rightarrow> dbl" where
  "topOfBookPrice ord b =
     (if mOrderSide ord = Buy \<and> mAskMap b \<noteq> [] then fst (hd (mAskMap b))
      else if mOrderSide ord = Sell \<and> mBidMap b \<noteq> [] then fst (hd (mBidMap b))
      else Fin 0)"

definition fat_finger :: "order \<Rightarrow> order_book \<Rightarrow> bool" where
  "fat_finger ord b \<longleftrightarrow>
     mOrderType ord = Limit \<and>
     (let top = topOfBookPrice ord b
      in dgt top (Fin 0) \<and>
         dgt (ddiv (dabs (dsub (mPrice ord) top)) top) MAX_PRICE_DEVIATION)"

definition preCheck :: "order \<Rightarrow> heap \<Rightarrow> order_book \<Rightarrow> bool option" where
  "preCheck ord h b =
     (if mOriginalQuantity ord = 0 \<or> mOrderType ord = Limit \<and> dle (mPrice ord) (Fin 0)
      then Some False
      else if fat_finger ord b then Some False
      else do {
        self \<leftarrow> (if mOrderSide ord = Buy then checkForSelfMatch ord h (mAskMap b)
                else checkForSelfMatch ord h (mBidMap b));
        Some (\<not> self)
      })"

subsection \<open>Post-trade\<close>

definition postTradeUpdate :: "trade \<Rightarrow> db_task list" where
  "postTradeUpdate t = [AddTrade t]"

definition postTradeUpdate_all :: "trade list \<Rightarrow> db_task list" where
  "postTradeUpdate_all ts = concat (map postTradeUpdate ts)"

subsection \<open>What the gate guarantees\<close>

lemma level_self_match_spec:
  "\<forall>a\<in>set l. h a \<noteq> None \<Longrightarrow>
     level_self_match ord h l =
       Some (\<exists>a\<in>set l. mSenderCompID (order_at h a) = mSenderCompID ord)"
  by (induction l) (auto simp: order_at_def)

text \<open>The orders on the levels the gate looks at.\<close>

definition gate_eligible :: "order \<Rightarrow> levels \<Rightarrow> addr list" where
  "gate_eligible ord m =
     addrs (takeWhile (\<lambda>(p, l). mOrderType ord = Limit \<longrightarrow> gate_crosses ord p) m)"

lemma checkForSelfMatch_spec:
  "\<forall>a\<in>set (addrs m). h a \<noteq> None \<Longrightarrow>
     checkForSelfMatch ord h m =
       Some (\<exists>a\<in>set (gate_eligible ord m). mSenderCompID (order_at h a) = mSenderCompID ord)"
proof (induction m)
  case (Cons pl m)
  obtain p l where pl: "pl = (p, l)" by fastforce
  have "level_self_match ord h l =
      Some (\<exists>a\<in>set l. mSenderCompID (order_at h a) = mSenderCompID ord)"
    using Cons.prems by (intro level_self_match_spec) (simp add: pl)
  then show ?case using Cons
    by (cases "mOrderType ord = Limit \<and> \<not> gate_crosses ord p")
      (auto simp: gate_eligible_def pl)
qed (simp add: gate_eligible_def)

lemma preCheck_spec:
  assumes "book_ok h own b"
  shows "preCheck ord h b = Some
     (mOriginalQuantity ord \<noteq> 0 \<and>
      (mOrderType ord = Limit \<longrightarrow> \<not> dle (mPrice ord) (Fin 0)) \<and>
      \<not> fat_finger ord b \<and>
      (\<forall>a\<in>set (gate_eligible ord (opposite ord b)).
         mSenderCompID (order_at h a) \<noteq> mSenderCompID ord))"
  using checkForSelfMatch_spec [OF opposite_ok(3) [OF assms], of ord ord]
  by (auto simp: preCheck_def opposite_def)

text \<open>Without NaN the gate looks at exactly the levels the matcher can take.\<close>

definition no_nan :: "levels \<Rightarrow> bool" where
  "no_nan m \<longleftrightarrow> (\<forall>p\<in>fst ` set m. p \<noteq> NaN)"

lemma gate_crosses_eq:
  assumes "mPrice ord \<noteq> NaN" and "p \<noteq> NaN"
  shows "crosses ord p \<longleftrightarrow> (mOrderType ord = Limit \<longrightarrow> gate_crosses ord p)"
  using assms
  by (cases "mOrderSide ord")
    (auto simp: crosses_def gate_crosses_def dge_def dgt_def not_dlt_iff)

lemma gate_eligible_eq:
  assumes "mPrice ord \<noteq> NaN \<or> mOrderType ord \<noteq> Limit" and "no_nan m"
  shows "gate_eligible ord m = eligible ord m"
proof -
  have "takeWhile (\<lambda>(p, l). mOrderType ord = Limit \<longrightarrow> gate_crosses ord p) m =
      takeWhile (\<lambda>(p, l). crosses ord p) m"
  proof (rule takeWhile_cong [OF refl])
    fix pl assume "pl \<in> set m"
    then have "fst pl \<noteq> NaN" using assms(2) by (auto simp: no_nan_def)
    then show "(case pl of (p, l) \<Rightarrow> mOrderType ord = Limit \<longrightarrow> gate_crosses ord p) =
        (case pl of (p, l) \<Rightarrow> crosses ord p)"
      using assms(1) gate_crosses_eq [of ord "fst pl"] by (cases pl) (auto simp: crosses_def)
  qed
  then show ?thesis by (simp add: gate_eligible_def eligible_def)
qed

end
