(* ===== verification/ExecutionPublisher.thy ===== *)
theory ExecutionPublisher
  imports FixMessages
begin

text \<open>
  \<open>exchange_publishers/ExecutionPublisher\<close>: the reports the engine hands to the registered
  callback. The publisher is static; its only state is the callback, and a publication is
  the list of reports the callback receives, in order.
\<close>

subsection \<open>Building the reports\<close>

definition stoul_safe_ep :: "string \<Rightarrow> u32" where
  "stoul_safe_ep s = (if s = [] then 0 else case stoul s of Inl _ \<Rightarrow> 0 | Inr v \<Rightarrow> ucast v)"

definition execution_of :: "order \<Rightarrow> string \<Rightarrow> execution_report" where
  "execution_of ord action =
     (let status = (if action = ''NEW'' then New else mOrderStatus ord);
          status = (if action = ''CANCELED'' then Cancelled else status)
      in \<lparr>mRSenderCompId = 1, mRTargetCompId = stoul_safe_ep (mClientId ord),
          mMessageSequenceNumber = 0, mExchangeOrderId = mCoreOrderId ord,
          mRClientOrderId = mClientOrderId ord,
          mExecutionId = ''exec_'' @ to_string_u (mCoreOrderId ord),
          mStatus = status, mText = action, mRSymbol = mSymbol ord, mSide = mOrderSide ord,
          mOrderQuantity = mOriginalQuantity ord,
          mCumulativeQuantity = mOriginalQuantity ord - mRemainingQuantity ord,
          mLeavesQuantity = mRemainingQuantity ord, mLastPrice = mPrice ord,
          mLastQuantity = 0, mTransactionTime = mTimestamp ord\<rparr>)"

definition trade_report_of :: "trade \<Rightarrow> order \<Rightarrow> string \<Rightarrow> execution_report" where
  "trade_report_of t ord suffix =
     \<lparr>mRSenderCompId = 1, mRTargetCompId = stoul_safe_ep (mClientId ord),
      mMessageSequenceNumber = 0, mExchangeOrderId = mCoreOrderId ord,
      mRClientOrderId = mClientOrderId ord,
      mExecutionId = ''exec_trade_'' @ to_string_u (mTradeId t) @ suffix,
      mStatus = mOrderStatus ord, mText = ''TRADE'', mRSymbol = mSymbol ord,
      mSide = mOrderSide ord, mOrderQuantity = mOriginalQuantity ord,
      mCumulativeQuantity = mOriginalQuantity ord - mRemainingQuantity ord,
      mLeavesQuantity = mRemainingQuantity ord, mLastPrice = mTradePrice t,
      mLastQuantity = mQuantity t, mTransactionTime = mTradeTimestamp t\<rparr>"

definition rejection_of ::
  "u64 \<Rightarrow> string \<Rightarrow> instrument \<Rightarrow> order_side \<Rightarrow> string \<Rightarrow> timestamp \<Rightarrow> execution_report" where
  "rejection_of orderId clientId symbol side reason now =
     \<lparr>mRSenderCompId = 1, mRTargetCompId = stoul_safe_ep clientId,
      mMessageSequenceNumber = 0, mExchangeOrderId = orderId,
      mRClientOrderId = to_string_u orderId,
      mExecutionId = ''exec_reject_'' @ to_string_u orderId,
      mStatus = Rejected, mText = reason, mRSymbol = symbol, mSide = side,
      mOrderQuantity = 0, mCumulativeQuantity = 0, mLeavesQuantity = 0, mLastPrice = Fin 0,
      mLastQuantity = 0, mTransactionTime = now\<rparr>"

subsection \<open>Publishing to the callback\<close>

text \<open>What the callback receives: nothing when none is set.\<close>

definition publishExecution :: "bool \<Rightarrow> order \<Rightarrow> string \<Rightarrow> execution_report list" where
  "publishExecution cb ord action = (if cb then [execution_of ord action] else [])"

definition publishTrade :: "bool \<Rightarrow> trade \<Rightarrow> order \<Rightarrow> order \<Rightarrow> execution_report list" where
  "publishTrade cb t buyOrder sellOrder =
     (if cb then [trade_report_of t buyOrder ''_buy'', trade_report_of t sellOrder ''_sell'']
      else [])"

definition publishRejection ::
  "bool \<Rightarrow> u64 \<Rightarrow> string \<Rightarrow> instrument \<Rightarrow> order_side \<Rightarrow> string \<Rightarrow> timestamp \<Rightarrow>
   execution_report list" where
  "publishRejection cb orderId clientId symbol side reason now =
     (if cb then [rejection_of orderId clientId symbol side reason now] else [])"

end
