(* ===== verification/Worker.thy ===== *)
theory Worker
  imports RiskManager ExecutionPublisher
begin

text \<open>
  \<open>exchange_routing/WorkerThread\<close>: the three command handlers of one partition. The state is
  what the handlers reach through their references (order manager, book, trade id counter)
  with the clock readings so far; the log lists, in order, the database tasks queued, the
  execution reports published and the book updates published. \<open>None\<close> is a read through a
  freed pointer.
\<close>

subsection \<open>State\<close>

datatype event =
    EvDb db_task
  | EvReport execution_report
  | EvIncremental md_incremental_refresh

record worker =
  w_mgr :: order_manager
  w_book :: order_book
  w_tid :: u64
  w_ticks :: nat
  w_log :: "event list"

text \<open>The outside world: the clock, and whether an execution callback is registered.\<close>

record env =
  clk :: "nat \<Rightarrow> timestamp"
  has_callback :: bool

definition init_worker :: "instrument \<Rightarrow> worker" where
  "init_worker symbol =
     \<lparr>w_mgr = empty_manager, w_book = empty_book symbol, w_tid = 0, w_ticks = 0, w_log = []\<rparr>"

abbreviation w_heap :: "worker \<Rightarrow> heap" where
  "w_heap s \<equiv> heap (w_mgr s)"

abbreviation w_own :: "worker \<Rightarrow> u64 \<Rightarrow> addr option" where
  "w_own s \<equiv> mOrderMap (w_mgr s)"

definition emit :: "event list \<Rightarrow> worker \<Rightarrow> worker" where
  "emit evs s = s\<lparr>w_log := w_log s @ evs\<rparr>"

definition reject ::
  "env \<Rightarrow> u64 \<Rightarrow> string \<Rightarrow> instrument \<Rightarrow> order_side \<Rightarrow> string \<Rightarrow> worker \<Rightarrow> worker" where
  "reject e orderId clientId symbol side reason s =
     emit (map EvReport (publishRejection (has_callback e) orderId clientId symbol side reason
             (clk e (w_ticks s)))) (s\<lparr>w_ticks := w_ticks s + 1\<rparr>)"

subsection \<open>Settling the trades of a match\<close>

text \<open>\<open>if (order->getRemainingQuantity() == 0) { removeOrder; removeOrderById }\<close>.\<close>

definition drop_filled :: "addr \<Rightarrow> worker \<Rightarrow> worker option" where
  "drop_filled a s = do {
     ord \<leftarrow> w_heap s a;
     if mRemainingQuantity ord = 0
     then Some (emit [EvDb (RemoveOrder (mCoreOrderId ord))]
            (s\<lparr>w_mgr := snd (removeOrderById (mCoreOrderId ord) (w_mgr s))\<rparr>))
     else Some s
   }"

text \<open>One turn of the trade loop; only new orders store their trades (\<open>post\<close>).\<close>

definition settle_trade :: "env \<Rightarrow> bool \<Rightarrow> trade \<Rightarrow> worker \<Rightarrow> worker option" where
  "settle_trade e post t s =
     (let s0 = (if post then emit (map EvDb (postTradeUpdate t)) s else s)
      in case (getOrderById (mBuyOrderId t) (w_mgr s0), getOrderById (mSellOrderId t) (w_mgr s0)) of
           (Some b, Some a) \<Rightarrow> do {
             buyOrder \<leftarrow> w_heap s0 b;
             sellOrder \<leftarrow> w_heap s0 a;
             s1 \<leftarrow> Some (emit ([EvDb (UpdateOrder buyOrder), EvDb (UpdateOrder sellOrder)]
                     @ map EvReport (publishTrade (has_callback e) t buyOrder sellOrder)) s0);
             s2 \<leftarrow> drop_filled b s1;
             drop_filled a s2
           }
         | _ \<Rightarrow> Some s0)"

fun settle_trades :: "env \<Rightarrow> bool \<Rightarrow> trade list \<Rightarrow> worker \<Rightarrow> worker option" where
  "settle_trades e post [] s = Some s"
| "settle_trades e post (t # ts) s = do {
     s1 \<leftarrow> settle_trade e post t s;
     settle_trades e post ts s1
   }"

text \<open>\<open>mMatcher.match(order, mOrderBook)\<close> on the state of the partition.\<close>

definition run_match :: "env \<Rightarrow> addr \<Rightarrow> worker \<Rightarrow> (trade list \<times> worker) option" where
  "run_match e a s = do {
     (trades, book, ms) \<leftarrow> match (clk e) a (w_book s) (w_heap s) (w_tid s) (w_ticks s);
     Some (trades, s\<lparr>w_mgr := (w_mgr s)\<lparr>heap := m_heap ms\<rparr>, w_book := book,
                     w_tid := m_tid ms, w_ticks := m_ticks ms\<rparr>)
   }"

definition insert_book :: "addr \<Rightarrow> worker \<Rightarrow> worker option" where
  "insert_book a s = do {
     (book, refresh) \<leftarrow> insertOrder a (w_heap s) (w_book s);
     Some (emit [EvIncremental refresh] (s\<lparr>w_book := book\<rparr>))
   }"

definition remove_everywhere :: "u64 \<Rightarrow> worker \<Rightarrow> worker" where
  "remove_everywhere i s =
     emit [EvDb (RemoveOrder i)] (s\<lparr>w_mgr := snd (removeOrderById i (w_mgr s))\<rparr>)"

text \<open>
  \<open>if (containsOrderById(orderId) && order->getRemainingQuantity() > 0) insertOrder(order)\<close>,
  for a new order only when it is a limit order: the pointer is read last.
\<close>

definition rest_in_book :: "bool \<Rightarrow> u64 \<Rightarrow> addr \<Rightarrow> worker \<Rightarrow> worker option" where
  "rest_in_book eligible_type orderId a s =
     (if eligible_type \<and> containsOrderById orderId (w_mgr s)
      then do {
        order \<leftarrow> w_heap s a;
        if mRemainingQuantity order > 0 then insert_book a s else Some s
      }
      else Some s)"

subsection \<open>The handlers\<close>

definition processNewOrder :: "env \<Rightarrow> order \<Rightarrow> worker \<Rightarrow> worker option" where
  "processNewOrder e ord s = do {
     let orderId = mCoreOrderId ord;
     let orderType = mOrderType ord;
     passed \<leftarrow> preCheck ord (w_heap s) (w_book s);
     if \<not> passed
     then Some (reject e orderId (mClientId ord) (mSymbol ord) (mOrderSide ord)
                  ''Risk check failed'' s)
     else do {
       let (a, m0) = make_unique ord (w_mgr s);
       (_, m1) \<leftarrow> addOrder a m0;
       s1 \<leftarrow> Some (s\<lparr>w_mgr := m1\<rparr>);
       order \<leftarrow> w_heap s1 a;
       s2 \<leftarrow> Some (emit (EvDb (SaveOrder order)
               # map EvReport (publishExecution (has_callback e) order ''NEW'')) s1);
       (trades, s3) \<leftarrow> run_match e a s2;
       s4 \<leftarrow> settle_trades e True trades s3;
       s5 \<leftarrow> rest_in_book (orderType = Limit) orderId a s4;
       Some (if orderType = Market \<and> containsOrderById orderId (w_mgr s5)
             then remove_everywhere orderId s5 else s5)
     }
   }"

definition processCancelOrder :: "env \<Rightarrow> string \<Rightarrow> u64 \<Rightarrow> worker \<Rightarrow> worker option" where
  "processCancelOrder e clientId orderId s =
     (case getOrderById orderId (w_mgr s) of
        None \<Rightarrow> Some (reject e orderId clientId EURUSD Buy ''Order not found'' s)
      | Some a \<Rightarrow> do {
          (found, book, refreshes) \<leftarrow> cancelOrder orderId (clk e (w_ticks s)) (w_heap s) (w_book s);
          if found
          then do {
            s1 \<leftarrow> Some (emit (map EvIncremental refreshes)
                    (s\<lparr>w_book := book, w_ticks := w_ticks s + 1\<rparr>));
            order \<leftarrow> w_heap s1 a;
            s2 \<leftarrow> Some (emit (map EvReport
                    (publishExecution (has_callback e) order ''CANCELED'')) s1);
            Some (remove_everywhere orderId s2)
          }
          else do {
            order \<leftarrow> w_heap s a;
            Some (reject e orderId clientId (mSymbol order) (mOrderSide order)
                    ''Order cannot be canceled'' (s\<lparr>w_book := book\<rparr>))
          }
        })"

definition processModifyOrder ::
  "env \<Rightarrow> string \<Rightarrow> u64 \<Rightarrow> dbl \<Rightarrow> u64 \<Rightarrow> worker \<Rightarrow> worker option" where
  "processModifyOrder e clientId cmdOrderId newPrice newQuantity s =
     (case getOrderById cmdOrderId (w_mgr s) of
        None \<Rightarrow> Some (reject e cmdOrderId clientId EURUSD Buy ''Order not found'' s)
      | Some a \<Rightarrow> do {
          ord \<leftarrow> w_heap s a;
          let orderId = mCoreOrderId ord;
          (found, book, refreshes) \<leftarrow>
            cancelOrder cmdOrderId (clk e (w_ticks s)) (w_heap s) (w_book s);
          s1 \<leftarrow> Some (emit (map EvIncremental refreshes @ [EvDb (RemoveOrder cmdOrderId)])
                  (s\<lparr>w_book := book,
                     w_ticks := w_ticks s + (if found then 1 else 0)\<rparr>));
          h \<leftarrow> heap_upd a (setStatus New \<circ> setOriginalQuantity newQuantity \<circ> setPrice newPrice)
                 (w_heap s1);
          s2 \<leftarrow> Some (s1\<lparr>w_mgr := (w_mgr s1)\<lparr>heap := h\<rparr>\<rparr>);
          order \<leftarrow> w_heap s2 a;
          s3 \<leftarrow> Some (emit (EvDb (SaveOrder order)
                  # map EvReport (publishExecution (has_callback e) order ''REPLACED'')) s2);
          (trades, s4) \<leftarrow> run_match e a s3;
          s5 \<leftarrow> settle_trades e False trades s4;
          s6 \<leftarrow> rest_in_book True orderId a s5;
          if containsOrderById orderId (w_mgr s6)
          then do {
            order' \<leftarrow> w_heap s6 a;
            Some (if mRemainingQuantity order' = 0 then remove_everywhere orderId s6 else s6)
          }
          else Some s6
        })"

fun process_command :: "env \<Rightarrow> command \<Rightarrow> worker \<Rightarrow> worker option" where
  "process_command e (NewOrder client ts ord) s = processNewOrder e ord s"
| "process_command e (CancelOrder client ts i) s = processCancelOrder e client i s"
| "process_command e (ModifyOrder client ts i p q) s = processModifyOrder e client i p q s"

fun processBatch :: "env \<Rightarrow> command list \<Rightarrow> worker \<Rightarrow> worker option" where
  "processBatch e [] s = Some s"
| "processBatch e (c # cs) s = do { s1 \<leftarrow> process_command e c s; processBatch e cs s1 }"

end
