(* ===== verification/WorkerSafety.thy ===== *)
theory WorkerSafety
  imports Worker
begin

text \<open>
  The invariant of a partition and its preservation by every handler: the manager owns live
  cells under their ids, the book holds exactly pointers to such cells, and no handler ever
  reads a freed pointer. These are the lemmas; the functional behaviour is in
  \<open>WorkerBehaviour\<close>.
\<close>

subsection \<open>The invariant\<close>

definition worker_inv :: "worker \<Rightarrow> bool" where
  "worker_inv s \<longleftrightarrow> manager_inv (w_mgr s) \<and> book_ok (w_heap s) (w_own s) (w_book s)"

text \<open>\<open>s'\<close> has forgotten some orders of \<open>s\<close> and changed nothing else but the log.\<close>

definition shrinks :: "worker \<Rightarrow> worker \<Rightarrow> bool" where
  "shrinks s s' \<longleftrightarrow>
     w_book s' = w_book s \<and> w_tid s' = w_tid s \<and> w_ticks s' = w_ticks s \<and>
     (\<forall>i x. w_own s' i = Some x \<longrightarrow> w_own s i = Some x \<and> w_heap s' x = w_heap s x)"

lemma worker_inv_init: "worker_inv (init_worker symbol)"
  by (simp add: worker_inv_def init_worker_def empty_book_def book_ok_def side_ok_def)

lemma emit_simps [simp]:
  "w_mgr (emit evs s) = w_mgr s" "w_book (emit evs s) = w_book s"
  "w_tid (emit evs s) = w_tid s" "w_ticks (emit evs s) = w_ticks s"
  "w_log (emit evs s) = w_log s @ evs"
  by (simp_all add: emit_def)

lemma reject_simps [simp]:
  "w_mgr (reject e i c sy sd r s) = w_mgr s" "w_book (reject e i c sy sd r s) = w_book s"
  "w_tid (reject e i c sy sd r s) = w_tid s"
  by (simp_all add: reject_def)

lemma worker_inv_cong:
  "w_mgr s' = w_mgr s \<Longrightarrow> w_book s' = w_book s \<Longrightarrow> worker_inv s' = worker_inv s"
  by (simp add: worker_inv_def)

lemma worker_inv_emit [simp]: "worker_inv (emit evs s) = worker_inv s"
  by (rule worker_inv_cong) simp_all

lemma worker_inv_reject [simp]: "worker_inv (reject e i c sy sd r s) = worker_inv s"
  by (rule worker_inv_cong) simp_all

lemma worker_inv_live:
  assumes "worker_inv s" and "w_own s i = Some a"
  obtains ord where "w_heap s a = Some ord" and "mCoreOrderId ord = i"
  using assms by (auto simp: worker_inv_def elim: manager_invD)

lemma worker_inv_own_inj:
  "worker_inv s \<Longrightarrow> w_own s i = Some a \<Longrightarrow> w_own s j = Some a \<Longrightarrow> i = j"
  by (auto simp: worker_inv_def dest: manager_inv_inj)

lemma shrinks_refl [simp]: "shrinks s s"
  by (simp add: shrinks_def)

lemma shrinks_trans: "shrinks s1 s2 \<Longrightarrow> shrinks s2 s3 \<Longrightarrow> shrinks s1 s3"
  unfolding shrinks_def by metis

lemma shrinks_emit [simp]:
  "shrinks s (emit evs s') = shrinks s s'" "shrinks (emit evs s) s' = shrinks s s'"
  by (simp_all add: shrinks_def)

lemma shrinks_dom: "shrinks s s' \<Longrightarrow> dom (w_own s') \<subseteq> dom (w_own s)"
  by (auto simp: shrinks_def)

subsection \<open>Removing an order that is not in the book\<close>

lemma remove_own:
  "w_own s i = Some a \<Longrightarrow>
     w_own (remove_everywhere i s) = (w_own s)(i := None) \<and>
     w_heap (remove_everywhere i s) = (w_heap s)(a := None)"
  by (simp add: remove_everywhere_def removeOrderById_def)

lemma remove_none: "w_own s i = None \<Longrightarrow> w_mgr (remove_everywhere i s) = w_mgr s"
  by (simp add: remove_everywhere_def removeOrderById_def)

lemma remove_simps [simp]:
  "w_book (remove_everywhere i s) = w_book s" "w_tid (remove_everywhere i s) = w_tid s"
  "w_ticks (remove_everywhere i s) = w_ticks s"
  by (simp_all add: remove_everywhere_def)

lemma shrinks_remove: "worker_inv s \<Longrightarrow> shrinks s (remove_everywhere i s)"
proof (cases "w_own s i")
  case None
  then show ?thesis by (simp add: shrinks_def remove_none)
next
  case (Some a)
  moreover assume "worker_inv s"
  ultimately show ?thesis
    using remove_own [OF Some] by (auto simp: shrinks_def dest: worker_inv_own_inj)
qed

lemma worker_inv_remove:
  assumes inv: "worker_inv s" and out: "\<forall>a. w_own s i = Some a \<longrightarrow> a \<notin> book_addrs (w_book s)"
  shows "worker_inv (remove_everywhere i s)"
proof (cases "w_own s i")
  case None
  then show ?thesis using inv by (simp add: worker_inv_def remove_none)
next
  case (Some a)
  let ?s = "remove_everywhere i s"
  have "book_ok (w_heap ?s) (w_own ?s) (w_book s)"
  proof (rule book_ok_cong)
    show "book_ok (w_heap s) (w_own s) (w_book s)" using inv by (simp add: worker_inv_def)
    fix x assume x: "x \<in> book_addrs (w_book s)"
    then have "x \<noteq> a" using out Some by auto
    then show "w_heap ?s x = w_heap s x" using remove_own [OF Some] by simp
    fix j assume "w_own s j = Some x"
    then show "w_own ?s j = Some x" using remove_own [OF Some] \<open>x \<noteq> a\<close> Some by auto
  qed
  moreover have "manager_inv (w_mgr ?s)"
    using inv by (simp add: worker_inv_def remove_everywhere_def manager_inv_remove)
  ultimately show ?thesis by (simp add: worker_inv_def)
qed

lemma dom_remove: "dom (w_own (remove_everywhere i s)) = dom (w_own s) - {i}"
  by (cases "w_own s i") (auto simp: remove_own remove_none)

text \<open>A filled order is in no book, so dropping it is safe.\<close>

lemma filled_not_in_book:
  assumes "worker_inv s" and "w_heap s a = Some ord" and "mRemainingQuantity ord = 0"
  shows "a \<notin> book_addrs (w_book s)"
  using assms by (auto simp: worker_inv_def elim: book_okD)

lemma drop_filled_eq:
  assumes "w_heap s a = Some ord"
  shows "drop_filled a s = Some
     (if mRemainingQuantity ord = 0 then remove_everywhere (mCoreOrderId ord) s else s)"
  using assms by (simp add: drop_filled_def remove_everywhere_def)

lemma drop_filled_ok:
  assumes inv: "worker_inv s" and a: "w_own s i = Some a"
  shows "\<exists>s'. drop_filled a s = Some s' \<and> worker_inv s' \<and> shrinks s s' \<and>
     (\<forall>j x. j \<noteq> i \<longrightarrow> w_own s j = Some x \<longrightarrow> w_own s' j = Some x)"
proof -
  obtain ord where ord: "w_heap s a = Some ord" "mCoreOrderId ord = i"
    using worker_inv_live [OF inv a] by blast
  show ?thesis
  proof (cases "mRemainingQuantity ord = 0")
    case True
    then have "a \<notin> book_addrs (w_book s)" using filled_not_in_book [OF inv ord(1)] by blast
    then have "worker_inv (remove_everywhere i s)"
      using worker_inv_remove [OF inv] a by simp
    then show ?thesis
      using drop_filled_eq [OF ord(1)] True ord(2) shrinks_remove [OF inv, of i] remove_own [OF a]
      by auto
  next
    case False
    then show ?thesis using drop_filled_eq [OF ord(1)] inv by auto
  qed
qed

subsection \<open>The trade loop\<close>

lemma settle_trade_ok:
  assumes inv: "worker_inv s" and ne: "mBuyOrderId t \<noteq> mSellOrderId t"
  shows "\<exists>s'. settle_trade e post t s = Some s' \<and> worker_inv s' \<and> shrinks s s'"
proof -
  let ?s0 = "if post then emit (map EvDb (postTradeUpdate t)) s else s"
  have s0: "w_mgr ?s0 = w_mgr s" "worker_inv ?s0" "\<And>s'. shrinks ?s0 s' = shrinks s s'"
    using inv by auto
  show ?thesis
  proof (cases "w_own s (mBuyOrderId t) = None \<or> w_own s (mSellOrderId t) = None")
    case True
    then show ?thesis
      using s0 inv by (auto simp: settle_trade_def getOrderById_def Let_def split: option.splits)
  next
    case False
    then obtain b a where ba: "w_own s (mBuyOrderId t) = Some b" "w_own s (mSellOrderId t) = Some a"
      by auto
    obtain bo where bo: "w_heap s b = Some bo" using worker_inv_live [OF inv ba(1)] by blast
    obtain so where so: "w_heap s a = Some so" using worker_inv_live [OF inv ba(2)] by blast
    let ?s1 = "emit ([EvDb (UpdateOrder bo), EvDb (UpdateOrder so)]
                 @ map EvReport (publishTrade (has_callback e) t bo so)) ?s0"
    have inv1: "worker_inv ?s1" and own1: "w_own ?s1 = w_own s" using s0 by simp_all
    obtain s2 where s2: "drop_filled b ?s1 = Some s2" "worker_inv s2" "shrinks ?s1 s2"
        "w_own s2 (mSellOrderId t) = Some a"
      using drop_filled_ok [OF inv1, of "mBuyOrderId t" b] ba ne own1 by auto
    obtain s3 where s3: "drop_filled a s2 = Some s3" "worker_inv s3" "shrinks s2 s3"
      using drop_filled_ok [OF s2(2,4)] by auto
    have "settle_trade e post t s = Some s3"
      using ba bo so s2(1) s3(1)
      by (cases post) (simp_all add: settle_trade_def getOrderById_def Let_def)
    moreover have "shrinks s s3" using shrinks_trans [OF s2(3) s3(3)] s0(3) by simp
    ultimately show ?thesis using s3(2) by blast
  qed
qed

lemma settle_trades_ok:
  assumes "worker_inv s" and "\<forall>t\<in>set ts. mBuyOrderId t \<noteq> mSellOrderId t"
  shows "\<exists>s'. settle_trades e post ts s = Some s' \<and> worker_inv s' \<and> shrinks s s'"
  using assms
proof (induction ts arbitrary: s)
  case (Cons t ts)
  obtain s1 where s1: "settle_trade e post t s = Some s1" "worker_inv s1" "shrinks s s1"
    using settle_trade_ok [OF Cons.prems(1), of t e post] Cons.prems(2) by auto
  obtain s2 where "settle_trades e post ts s1 = Some s2" "worker_inv s2" "shrinks s1 s2"
    using Cons.IH [OF s1(2)] Cons.prems(2) by auto
  then show ?case using s1 shrinks_trans by auto
qed simp

subsection \<open>The match inside the partition\<close>

lemma manager_inv_heap:
  assumes "manager_inv m"
    and ids: "\<And>x. map_option mCoreOrderId (h x) = map_option mCoreOrderId (heap m x)"
  shows "manager_inv (m\<lparr>heap := h\<rparr>)"
proof -
  have "\<exists>ord. h a = Some ord \<and> mCoreOrderId ord = i" if "mOrderMap m i = Some a" for i a
    using manager_invD [OF assms(1) that] ids [of a] by (auto simp: map_option_case split: option.splits)
  moreover have "a < next_addr m" if "h a = Some ord" for a ord
    using ids [of a] that assms(1) by (auto simp: manager_inv_def map_option_case split: option.splits)
  ultimately show ?thesis using assms(1) by (simp add: manager_inv_def)
qed

lemma trades_of_ids:
  assumes ok: "book_ok h own b" and a: "own (mCoreOrderId inc) = Some a" "a \<notin> book_addrs b"
  shows "\<forall>t\<in>set (trades_of c h inc tid ticks (book_fills h inc b)).
           mBuyOrderId t \<noteq> mSellOrderId t"
proof -
  have "mCoreOrderId (order_at h x) \<noteq> mCoreOrderId inc" if "(x, f) \<in> set (book_fills h inc b)" for x f
  proof -
    have "x \<in> book_addrs b"
      using book_fills_in [of h inc b] opposite_ok(4) [OF ok, of inc] that by force
    then obtain ord where "h x = Some ord" "own (mCoreOrderId ord) = Some x"
      using book_okD [OF ok] by blast
    then show ?thesis using a \<open>x \<in> book_addrs b\<close> by (auto simp: order_at_def)
  qed
  then have "\<forall>t\<in>set (trades_of c h inc tid ticks fs). mBuyOrderId t \<noteq> mSellOrderId t"
    if "set fs \<subseteq> set (book_fills h inc b)" for fs
    using that by (induction c h inc tid ticks fs rule: trades_of.induct)
      (auto simp: Let_def, metis+)
  then show ?thesis by blast
qed

lemma run_match_ok:
  fixes e :: env
  assumes inv: "worker_inv s" and a: "w_heap s a = Some inc" "a \<notin> book_addrs (w_book s)"
  defines "ts \<equiv> trades_of (clk e) (w_heap s) inc (w_tid s) (w_ticks s)
                  (book_fills (w_heap s) inc (w_book s))"
    and "n \<equiv> length (book_fills (w_heap s) inc (w_book s))"
  shows "\<exists>s'. run_match e a s = Some (ts, s') \<and> worker_inv s' \<and> a \<notin> book_addrs (w_book s') \<and>
     w_heap s' = heap_after (w_heap s) a inc (w_book s) \<and> w_own s' = w_own s \<and>
     next_addr (w_mgr s') = next_addr (w_mgr s) \<and>
     w_book s' = book_after (w_heap s) inc (w_book s) \<and> w_tid s' = w_tid s + of_nat n \<and>
     w_ticks s' = w_ticks s + n \<and> w_log s' = w_log s"
proof -
  have ok: "book_ok (w_heap s) (w_own s) (w_book s)" and m: "manager_inv (w_mgr s)"
    using inv by (simp_all add: worker_inv_def)
  have "manager_inv ((w_mgr s)\<lparr>heap := heap_after (w_heap s) a inc (w_book s)\<rparr>)"
    by (intro manager_inv_heap m heap_after_ids) (rule a(1))
  then show ?thesis
    using match_spec [OF ok a, of "clk e" "w_tid s" "w_ticks s"] book_ok_after [OF ok a(2), of inc]
      book_after_addrs [of "w_heap s" inc "w_book s"] a(2)
    by (auto simp: run_match_def Let_def worker_inv_def ts_def n_def)
qed

lemma insert_book_ok:
  assumes inv: "worker_inv s" and a: "w_heap s a = Some ord" "a \<notin> book_addrs (w_book s)"
    and own: "w_own s (mCoreOrderId ord) = Some a" and qty: "mRemainingQuantity ord \<noteq> 0"
  shows "\<exists>s'. insert_book a s = Some s' \<and> worker_inv s' \<and> w_mgr s' = w_mgr s \<and>
     book_addrs (w_book s') = insert a (book_addrs (w_book s)) \<and>
     book_remove a (w_book s') = w_book s \<and> w_tid s' = w_tid s \<and> w_ticks s' = w_ticks s \<and>
     mBookSymbol (w_book s') = mBookSymbol (w_book s) \<and>
     w_log s' = w_log s @ [EvIncremental
       (book_refresh (mBookSymbol (w_book s)) MDNew ord (mTimestamp ord))]"
proof -
  have ok: "book_ok (w_heap s) (w_own s) (w_book s)" using inv by (simp add: worker_inv_def)
  show ?thesis
    using insertOrder_ok [OF ok a own qty] inv by (auto simp: insert_book_def worker_inv_def)
qed

subsection \<open>The handlers\<close>

text \<open>The two conditions at the end of a handler read the order only while the manager owns it.\<close>

lemma after_settle:
  assumes inv: "worker_inv s" and sh: "shrinks s s'" and h: "w_heap s a = Some ord"
    and own: "w_own s i = Some a" and i: "mCoreOrderId ord = i"
  shows "w_own s' i = None \<or> (w_own s' i = Some a \<and> w_heap s' a = Some ord)"
  using assms by (cases "w_own s' i") (auto simp: shrinks_def)

lemma rest_in_book_ok:
  assumes inv: "worker_inv s" and out: "a \<notin> book_addrs (w_book s)"
    and alive: "w_own s i = None \<or> (w_own s i = Some a \<and> w_heap s a = Some ord)"
    and i: "mCoreOrderId ord = i"
  shows "\<exists>s'. rest_in_book c i a s = Some s' \<and> worker_inv s' \<and> w_mgr s' = w_mgr s \<and>
     (if c \<and> w_own s i \<noteq> None \<and> mRemainingQuantity ord \<noteq> 0
      then book_addrs (w_book s') = insert a (book_addrs (w_book s)) \<and>
           book_remove a (w_book s') = w_book s \<and>
           mBookSymbol (w_book s') = mBookSymbol (w_book s) \<and>
           w_tid s' = w_tid s \<and> w_ticks s' = w_ticks s \<and>
           w_log s' = w_log s @ [EvIncremental
             (book_refresh (mBookSymbol (w_book s)) MDNew ord (mTimestamp ord))]
      else s' = s)"
proof (cases "c \<and> w_own s i \<noteq> None \<and> mRemainingQuantity ord \<noteq> 0")
  case True
  then have own: "w_own s (mCoreOrderId ord) = Some a" and h: "w_heap s a = Some ord"
    using alive i by auto
  show ?thesis
    using insert_book_ok [OF inv h out own] True i own h
    by (auto simp: rest_in_book_def containsOrderById_def word_pos_iff)
next
  case False
  then show ?thesis
    using inv alive by (auto simp: rest_in_book_def containsOrderById_def word_pos_iff)
qed

lemma admit_ok:
  assumes inv: "worker_inv s" and fresh: "w_own s (mCoreOrderId ord) = None"
  defines "a \<equiv> next_addr (w_mgr s)"
  obtains m0 m1 where "make_unique ord (w_mgr s) = (a, m0)" and "addOrder a m0 = Some (True, m1)"
    and "worker_inv (s\<lparr>w_mgr := m1\<rparr>)" and "a \<notin> book_addrs (w_book s)"
    and "mOrderMap m1 = (w_own s)(mCoreOrderId ord \<mapsto> a)"
    and "heap m1 = (w_heap s)(a \<mapsto> ord)"
proof -
  have m: "manager_inv (w_mgr s)" and ok: "book_ok (w_heap s) (w_own s) (w_book s)"
    using inv by (simp_all add: worker_inv_def)
  let ?m0 = "snd (make_unique ord (w_mgr s))"
  let ?m1 = "?m0\<lparr>mOrderMap := (w_own s)(mCoreOrderId ord \<mapsto> a)\<rparr>"
  have add: "addOrder a ?m0 = Some (True, ?m1)" using fresh by (simp add: addOrder_def a_def)
  have "a \<notin> book_addrs (w_book s)"
    using book_okD [OF ok] manager_inv_fresh [OF m] by (metis a_def option.distinct(1))
  moreover have "manager_inv ?m1"
    by (rule manager_inv_add [OF manager_inv_make [OF m] _ add])
      (use manager_inv_fresh_map [OF m] in \<open>simp add: a_def\<close>)
  moreover have "book_ok (heap ?m1) (mOrderMap ?m1) (w_book s)"
  proof (rule book_ok_cong [OF ok])
    fix x assume x: "x \<in> book_addrs (w_book s)"
    then show "heap ?m1 x = w_heap s x" using calculation(1) by (auto simp: a_def)
    fix i assume "w_own s i = Some x"
    then show "mOrderMap ?m1 i = Some x" using fresh by auto
  qed
  ultimately show thesis
    using add that [of ?m0 ?m1] by (simp add: worker_inv_def a_def make_unique_def)
qed

text \<open>
  The tail of \<open>processNewOrder\<close>: after the trade loop, the order rests in the book, or it
  is gone everywhere, or (a type that is neither limit nor market) stays with the manager.
\<close>

lemma processNewOrder_ok:
  assumes inv: "worker_inv s" and fresh: "w_own s (mCoreOrderId ord) = None"
  shows "\<exists>s'. processNewOrder e ord s = Some s' \<and> worker_inv s' \<and>
     dom (w_own s') \<subseteq> insert (mCoreOrderId ord) (dom (w_own s))"
proof -
  have ok: "book_ok (w_heap s) (w_own s) (w_book s)" using inv by (simp add: worker_inv_def)
  obtain passed where pre: "preCheck ord (w_heap s) (w_book s) = Some passed"
    using preCheck_spec [OF ok] by blast
  show ?thesis
  proof (cases passed)
    case False
    then show ?thesis using pre inv by (auto simp: processNewOrder_def)
  next
    case True
    let ?i = "mCoreOrderId ord" and ?a = "next_addr (w_mgr s)"
    obtain m0 m1 where m1: "make_unique ord (w_mgr s) = (?a, m0)"
        "addOrder ?a m0 = Some (True, m1)"
        "worker_inv (s\<lparr>w_mgr := m1\<rparr>)" "?a \<notin> book_addrs (w_book s)"
        "mOrderMap m1 = (w_own s)(?i \<mapsto> ?a)" "heap m1 = (w_heap s)(?a \<mapsto> ord)"
      by (rule admit_ok [OF inv fresh])
    let ?s2 = "emit (EvDb (SaveOrder ord)
        # map EvReport (publishExecution (has_callback e) ord ''NEW'')) (s\<lparr>w_mgr := m1\<rparr>)"
    have s2: "worker_inv ?s2" "w_heap ?s2 ?a = Some ord" "?a \<notin> book_addrs (w_book ?s2)"
      using m1 by simp_all
    obtain ts s3 where s3: "run_match e ?a ?s2 = Some (ts, s3)" "worker_inv s3"
        "?a \<notin> book_addrs (w_book s3)" "w_own s3 = (w_own s)(?i \<mapsto> ?a)"
        "w_heap s3 ?a = Some (taker_final (w_heap ?s2) ord (w_book ?s2))"
        "\<forall>t\<in>set ts. mBuyOrderId t \<noteq> mSellOrderId t"
      using run_match_ok [OF s2, of e] m1(5) s2
        trades_of_ids [of "w_heap ?s2" "w_own ?s2" "w_book ?s2" ord ?a]
      by (auto simp: worker_inv_def)
    obtain s4 where s4: "settle_trades e True ts s3 = Some s4" "worker_inv s4" "shrinks s3 s4"
      using settle_trades_ok [OF s3(2,6)] by blast
    have alive: "w_own s4 ?i = None \<or> (w_own s4 ?i = Some ?a \<and>
        w_heap s4 ?a = Some (taker_final (w_heap ?s2) ord (w_book ?s2)))"
      by (rule after_settle [OF s3(2) s4(3) s3(5)]) (simp_all add: s3(4))
    have dom: "dom (w_own s4) \<subseteq> insert ?i (dom (w_own s))"
      using shrinks_dom [OF s4(3)] s3(4) by simp
    have out: "?a \<notin> book_addrs (w_book s4)" using s4(3) s3(3) by (simp add: shrinks_def)
    obtain s5 where s5: "rest_in_book (mOrderType ord = Limit) ?i ?a s4 = Some s5"
        "worker_inv s5" "w_mgr s5 = w_mgr s4" "mOrderType ord \<noteq> Limit \<longrightarrow> s5 = s4"
      using rest_in_book_ok [OF s4(2) out alive, where c = "mOrderType ord = Limit"]
      by (auto split: if_splits)
    let ?s6 = "if mOrderType ord = Market \<and> containsOrderById ?i (w_mgr s5)
               then remove_everywhere ?i s5 else s5"
    have "worker_inv (remove_everywhere ?i s5)" if "mOrderType ord = Market"
      using worker_inv_remove [OF s4(2), of ?i] alive out s5(4) that by auto
    then have "worker_inv ?s6" using s5(2) by simp
    moreover have "dom (w_own ?s6) \<subseteq> insert ?i (dom (w_own s))"
      using dom s5(3) by (auto simp: dom_remove)
    moreover have "processNewOrder e ord s = Some ?s6"
      using pre True m1(1,2,6) s3(1) s4(1) s5(1) by (simp add: processNewOrder_def Let_def)
    ultimately show ?thesis by blast
  qed
qed

text \<open>What cancelling from the book does for an order the manager holds.\<close>

lemma cancel_in_book:
  assumes inv: "worker_inv s" and a: "w_own s i = Some a"
  defines "found \<equiv> a \<in> book_addrs (w_book s)"
  defines "book \<equiv> (if found then book_remove a (w_book s) else w_book s)"
  shows "cancelOrder i now (w_heap s) (w_book s) = Some (found, book,
      if found then [book_refresh (mBookSymbol (w_book s)) MDDelete (the (w_heap s a)) now] else [])"
    and "worker_inv (s\<lparr>w_book := book\<rparr>)" and "a \<notin> book_addrs book"
    and "mBookSymbol book = mBookSymbol (w_book s)"
proof -
  have ok: "book_ok (w_heap s) (w_own s) (w_book s)" and m: "manager_inv (w_mgr s)"
    using inv by (simp_all add: worker_inv_def)
  have live: "\<forall>a. w_own s i = Some a \<longrightarrow> (\<exists>ord. w_heap s a = Some ord \<and> mCoreOrderId ord = i)"
    using worker_inv_live [OF inv] by metis
  show "cancelOrder i now (w_heap s) (w_book s) = Some (found, book,
      if found then [book_refresh (mBookSymbol (w_book s)) MDDelete (the (w_heap s a)) now] else [])"
    using cancelOrder_spec [OF ok live] a by (simp add: found_def book_def)
  show "worker_inv (s\<lparr>w_book := book\<rparr>)"
    using m ok by (simp add: worker_inv_def book_def book_ok_remove)
  show "a \<notin> book_addrs book"
    using book_addrs_remove [OF ok] by (auto simp: book_def found_def)
  show "mBookSymbol book = mBookSymbol (w_book s)" by (simp add: book_def book_remove_def)
qed

lemma processCancelOrder_ok:
  assumes inv: "worker_inv s"
  shows "\<exists>s'. processCancelOrder e c i s = Some s' \<and> worker_inv s' \<and>
     dom (w_own s') \<subseteq> dom (w_own s)"
proof (cases "w_own s i")
  case None
  then show ?thesis using inv by (simp add: processCancelOrder_def getOrderById_def)
next
  case (Some a)
  obtain ord where ord: "w_heap s a = Some ord" using worker_inv_live [OF inv Some] by blast
  note cancel = cancel_in_book [OF inv Some]
  show ?thesis
  proof (cases "a \<in> book_addrs (w_book s)")
    case False
    then show ?thesis
      using cancel(1) [of "clk e (w_ticks s)"] Some ord inv
      by (simp add: processCancelOrder_def getOrderById_def)
  next
    case True
    let ?s = "s\<lparr>w_book := book_remove a (w_book s)\<rparr>"
    have s: "worker_inv ?s" "a \<notin> book_addrs (w_book ?s)" using cancel(2,3) True by simp_all
    let ?s1 = "emit (map EvReport (publishExecution (has_callback e) ord ''CANCELED''))
       (emit [EvIncremental (book_refresh (mBookSymbol (w_book s)) MDDelete ord (clk e (w_ticks s)))]
         (s\<lparr>w_book := book_remove a (w_book s), w_ticks := w_ticks s + 1\<rparr>))"
    have "worker_inv ?s1" using s(1) by (simp add: worker_inv_def)
    then have "worker_inv (remove_everywhere i ?s1)"
      using s(2) Some by (intro worker_inv_remove) auto
    then show ?thesis
      using cancel(1) [of "clk e (w_ticks s)"] Some ord True
      by (auto simp: processCancelOrder_def getOrderById_def dom_remove)
  qed
qed

lemma worker_inv_set:
  assumes inv: "worker_inv s" and a: "w_heap s a = Some ord" "a \<notin> book_addrs (w_book s)"
    and i: "mCoreOrderId ord' = mCoreOrderId ord"
  shows "worker_inv (s\<lparr>w_mgr := (w_mgr s)\<lparr>heap := (w_heap s)(a \<mapsto> ord')\<rparr>\<rparr>)"
proof -
  have ok: "book_ok (w_heap s) (w_own s) (w_book s)" and m: "manager_inv (w_mgr s)"
    using inv by (simp_all add: worker_inv_def)
  have "manager_inv ((w_mgr s)\<lparr>heap := (w_heap s)(a \<mapsto> ord')\<rparr>)"
    by (rule manager_inv_heap [OF m]) (use a(1) i in auto)
  moreover have "book_ok ((w_heap s)(a \<mapsto> ord')) (w_own s) (w_book s)"
    by (rule book_ok_cong [OF ok]) (use a(2) in auto)
  ultimately show ?thesis by (simp add: worker_inv_def)
qed

text \<open>The order after \<open>setPrice\<close>, \<open>setOriginalQuantity\<close> and \<open>setStatus\<close>.\<close>

definition replaced :: "dbl \<Rightarrow> u64 \<Rightarrow> order \<Rightarrow> order" where
  "replaced p q ord =
     ord\<lparr>mPrice := p, mOriginalQuantity := q, mRemainingQuantity := q, mOrderStatus := New\<rparr>"

lemma replaced_simps [simp]:
  "(setStatus New \<circ> setOriginalQuantity q \<circ> setPrice p) ord = replaced p q ord"
  "mCoreOrderId (replaced p q ord) = mCoreOrderId ord"
  "mOrderSide (replaced p q ord) = mOrderSide ord" "mOrderType (replaced p q ord) = mOrderType ord"
  "mPrice (replaced p q ord) = p" "mRemainingQuantity (replaced p q ord) = q"
  "mOriginalQuantity (replaced p q ord) = q"
  by (simp_all add: replaced_def order_setters)

lemma processModifyOrder_ok:
  assumes inv: "worker_inv s"
  shows "\<exists>s'. processModifyOrder e c i p q s = Some s' \<and> worker_inv s' \<and>
     dom (w_own s') \<subseteq> dom (w_own s)"
proof (cases "w_own s i")
  case None
  then show ?thesis using inv by (simp add: processModifyOrder_def getOrderById_def)
next
  case (Some a)
  obtain ord where ord: "w_heap s a = Some ord" "mCoreOrderId ord = i"
    using worker_inv_live [OF inv Some] by blast
  obtain found book refreshes where c: "cancelOrder i (clk e (w_ticks s)) (w_heap s) (w_book s)
        = Some (found, book, refreshes)"
      "worker_inv (s\<lparr>w_book := book\<rparr>)" "a \<notin> book_addrs book"
    using cancel_in_book [OF inv Some] by metis
  let ?s1 = "emit (map EvIncremental refreshes @ [EvDb (RemoveOrder i)])
      (s\<lparr>w_book := book, w_ticks := w_ticks s + (if found then 1 else 0)\<rparr>)"
  let ?ord = "replaced p q ord"
  let ?s2 = "?s1\<lparr>w_mgr := (w_mgr ?s1)\<lparr>heap := (w_heap ?s1)(a \<mapsto> ?ord)\<rparr>\<rparr>"
  let ?s3 = "emit (EvDb (SaveOrder ?ord)
      # map EvReport (publishExecution (has_callback e) ?ord ''REPLACED'')) ?s2"
  have s1: "worker_inv ?s1" "w_heap ?s1 a = Some ord" "a \<notin> book_addrs (w_book ?s1)"
    using c ord by (simp_all add: worker_inv_def)
  have s3: "worker_inv ?s3" "w_heap ?s3 a = Some ?ord" "a \<notin> book_addrs (w_book ?s3)"
      "w_own ?s3 i = Some a"
    using worker_inv_set [OF s1, of ?ord] c(3) Some by simp_all
  obtain ts s4 where s4: "run_match e a ?s3 = Some (ts, s4)" "worker_inv s4"
      "a \<notin> book_addrs (w_book s4)" "w_own s4 = w_own s"
      "w_heap s4 a = Some (taker_final (w_heap ?s3) ?ord (w_book ?s3))"
      "\<forall>t\<in>set ts. mBuyOrderId t \<noteq> mSellOrderId t"
    using run_match_ok [OF s3(1-3), of e] s3
      trades_of_ids [of "w_heap ?s3" "w_own ?s3" "w_book ?s3" ?ord a] ord(2)
    by (auto simp: worker_inv_def)
  let ?fin = "taker_final (w_heap ?s3) ?ord (w_book ?s3)"
  obtain s5 where s5: "settle_trades e False ts s4 = Some s5" "worker_inv s5" "shrinks s4 s5"
    using settle_trades_ok [OF s4(2,6)] by blast
  have alive: "w_own s5 i = None \<or> (w_own s5 i = Some a \<and> w_heap s5 a = Some ?fin)"
    by (rule after_settle [OF s4(2) s5(3) s4(5)]) (simp_all add: ord(2) s4(4) Some)
  have dom: "dom (w_own s5) \<subseteq> dom (w_own s)"
    using shrinks_dom [OF s5(3)] s4(4) by simp
  have out: "a \<notin> book_addrs (w_book s5)" using s5(3) s4(3) by (simp add: shrinks_def)
  have fin: "mCoreOrderId ?fin = i" using ord(2) by simp
  obtain s6 where s6: "rest_in_book True i a s5 = Some s6" "worker_inv s6" "w_mgr s6 = w_mgr s5"
      "mRemainingQuantity ?fin = 0 \<longrightarrow> s6 = s5"
    using rest_in_book_ok [OF s5(2) out alive fin, where c = True] by (auto split: if_splits)
  have "worker_inv (remove_everywhere i s6)" if "mRemainingQuantity ?fin = 0"
    using worker_inv_remove [OF s5(2), of i] alive out s6(4) that by auto
  note gone = this
  have tail: "\<exists>s'. (if containsOrderById i (w_mgr s6)
      then do {
        order' \<leftarrow> w_heap s6 a;
        Some (if mRemainingQuantity order' = 0 then remove_everywhere i s6 else s6)
      }
      else Some s6) = Some s' \<and> worker_inv s' \<and> dom (w_own s') \<subseteq> dom (w_own s)"
  proof -
    have "dom (w_own (remove_everywhere i s6)) \<subseteq> dom (w_own s)"
      using dom s6(3) unfolding dom_remove by auto
    then show ?thesis
      using gone s6(2,3) alive dom by (auto simp: containsOrderById_def)
  qed
  have "heap_upd a (setStatus New \<circ> setOriginalQuantity q \<circ> setPrice p) (w_heap ?s1) =
      Some ((w_heap ?s1)(a \<mapsto> ?ord))"
    using s1(2) by (simp add: heap_upd_def order_setters replaced_def)
  then have "processModifyOrder e c i p q s = (if containsOrderById i (w_mgr s6)
      then do {
        order' \<leftarrow> w_heap s6 a;
        Some (if mRemainingQuantity order' = 0 then remove_everywhere i s6 else s6)
      }
      else Some s6)"
    using Some ord c(1) s4(1) s5(1) s6(1)
    by (simp add: processModifyOrder_def getOrderById_def)
  then show ?thesis using tail by simp
qed

subsection \<open>Commands and batches\<close>

text \<open>The ids of the new orders of a command sequence.\<close>

fun new_ids :: "command list \<Rightarrow> u64 list" where
  "new_ids [] = []"
| "new_ids (NewOrder client ts ord # cs) = mCoreOrderId ord # new_ids cs"
| "new_ids (c # cs) = new_ids cs"

lemma new_ids_append: "new_ids (cs @ ds) = new_ids cs @ new_ids ds"
  by (induction cs rule: new_ids.induct) auto

lemma process_command_ok:
  assumes "worker_inv s" and "set (new_ids [c]) \<inter> dom (w_own s) = {}"
  shows "\<exists>s'. process_command e c s = Some s' \<and> worker_inv s' \<and>
     dom (w_own s') \<subseteq> set (new_ids [c]) \<union> dom (w_own s)"
proof (cases c)
  case (NewOrder client ts ord)
  then have "w_own s (mCoreOrderId ord) = None" using assms(2) by auto
  then show ?thesis using processNewOrder_ok [OF assms(1), of ord e] NewOrder by simp
next
  case (CancelOrder client ts i)
  then show ?thesis using processCancelOrder_ok [OF assms(1), of e client i] by auto
next
  case (ModifyOrder client ts i p q)
  then show ?thesis using processModifyOrder_ok [OF assms(1), of e client i p q] by auto
qed

lemma processBatch_ok:
  assumes "worker_inv s" and "distinct (new_ids cs)" and "set (new_ids cs) \<inter> dom (w_own s) = {}"
  shows "\<exists>s'. processBatch e cs s = Some s' \<and> worker_inv s' \<and>
     dom (w_own s') \<subseteq> set (new_ids cs) \<union> dom (w_own s)"
  using assms
proof (induction cs arbitrary: s)
  case (Cons c cs)
  have ids: "new_ids (c # cs) = new_ids [c] @ new_ids cs" using new_ids_append [of "[c]" cs] by simp
  then obtain s1 where s1: "process_command e c s = Some s1" "worker_inv s1"
      "dom (w_own s1) \<subseteq> set (new_ids [c]) \<union> dom (w_own s)"
    using process_command_ok [OF Cons.prems(1), of c e] Cons.prems(3) by auto
  have "set (new_ids cs) \<inter> (set (new_ids [c]) \<union> dom (w_own s)) = {}"
    using Cons.prems(2,3) unfolding ids by auto
  then have "set (new_ids cs) \<inter> dom (w_own s1) = {}" using s1(3) by blast
  then obtain s2 where "processBatch e cs s1 = Some s2" "worker_inv s2"
      "dom (w_own s2) \<subseteq> set (new_ids cs) \<union> dom (w_own s1)"
    using Cons.IH [OF s1(2)] Cons.prems(2) ids by auto
  then show ?case using s1 ids by auto
qed simp

lemma processBatch_append:
  "processBatch e (cs @ ds) s = Option.bind (processBatch e cs s) (processBatch e ds)"
  by (induction cs arbitrary: s) (auto split: bind_splits)

end
