(* ===== verification/WorkerBehaviour.thy ===== *)
theory WorkerBehaviour
  imports WorkerSafety
begin

text \<open>
  What the handlers do, in closed form: the trade loop as a function of the fills (including
  what it skips when the incoming order is filled), and from it the state, the reports and
  the database tasks of a new, a cancelled and a modified order.
\<close>

subsection \<open>Reading the log\<close>

fun reports_of :: "event list \<Rightarrow> execution_report list" where
  "reports_of [] = []"
| "reports_of (EvReport r # evs) = r # reports_of evs"
| "reports_of (_ # evs) = reports_of evs"

fun tasks_of :: "event list \<Rightarrow> db_task list" where
  "tasks_of [] = []"
| "tasks_of (EvDb t # evs) = t # tasks_of evs"
| "tasks_of (_ # evs) = tasks_of evs"

lemma reports_of_append [simp]: "reports_of (xs @ ys) = reports_of xs @ reports_of ys"
  by (induction xs rule: reports_of.induct) auto

lemma tasks_of_append [simp]: "tasks_of (xs @ ys) = tasks_of xs @ tasks_of ys"
  by (induction xs rule: tasks_of.induct) auto

lemma log_maps [simp]:
  "reports_of (map EvReport rs) = rs" "tasks_of (map EvReport rs) = []"
  "reports_of (map EvDb ts) = []" "tasks_of (map EvDb ts) = ts"
  "reports_of (map EvIncremental ms) = []" "tasks_of (map EvIncremental ms) = []"
proof -
  show "reports_of (map EvReport rs) = rs" "tasks_of (map EvReport rs) = []"
    by (induction rs) simp_all
  show "reports_of (map EvDb ts) = []" "tasks_of (map EvDb ts) = ts"
    by (induction ts) simp_all
  show "reports_of (map EvIncremental ms) = []" "tasks_of (map EvIncremental ms) = []"
    by (induction ms) simp_all
qed

subsection \<open>The trade loop in closed form\<close>

definition drop_log :: "order \<Rightarrow> event list" where
  "drop_log ord = (if mRemainingQuantity ord = 0 then [EvDb (RemoveOrder (mCoreOrderId ord))] else [])"

definition stored :: "bool \<Rightarrow> trade \<Rightarrow> event list" where
  "stored post t = (if post then [EvDb (AddTrade t)] else [])"

text \<open>What one settled trade logs, for its buy and its sell order.\<close>

definition settle_log :: "env \<Rightarrow> bool \<Rightarrow> trade \<Rightarrow> order \<Rightarrow> order \<Rightarrow> event list" where
  "settle_log e post t buy sell =
     stored post t @ [EvDb (UpdateOrder buy), EvDb (UpdateOrder sell)]
     @ map EvReport (publishTrade (has_callback e) t buy sell) @ drop_log buy @ drop_log sell"

definition without :: "u64 \<Rightarrow> order_manager \<Rightarrow> order_manager" where
  "without i m = snd (removeOrderById i m)"

definition without_filled :: "order \<Rightarrow> order_manager \<Rightarrow> order_manager" where
  "without_filled ord m = (if mRemainingQuantity ord = 0 then without (mCoreOrderId ord) m else m)"

lemma settle_trade_eq:
  assumes inv: "worker_inv s" and ne: "mBuyOrderId t \<noteq> mSellOrderId t"
    and b: "w_own s (mBuyOrderId t) = Some b" "w_heap s b = Some buy"
    and a: "w_own s (mSellOrderId t) = Some a" "w_heap s a = Some sell"
  shows "settle_trade e post t s = Some
     (emit (settle_log e post t buy sell)
        (s\<lparr>w_mgr := without_filled sell (without_filled buy (w_mgr s))\<rparr>))"
proof -
  have ids: "mCoreOrderId buy = mBuyOrderId t" "mCoreOrderId sell = mSellOrderId t"
    using worker_inv_live [OF inv b(1)] worker_inv_live [OF inv a(1)] a b by auto
  have ab: "a \<noteq> b" using worker_inv_own_inj [OF inv] a b ne by blast
  show ?thesis
    using a b ids ab ne
    by (simp add: settle_trade_def getOrderById_def drop_filled_def settle_log_def drop_log_def
        without_filled_def without_def removeOrderById_def stored_def postTradeUpdate_def emit_def)
qed

text \<open>A trade of an order the manager no longer holds is stored and otherwise ignored.\<close>

lemma settle_trade_gone:
  assumes "w_own s (mBuyOrderId t) = None \<or> w_own s (mSellOrderId t) = None"
  shows "settle_trade e post t s = Some (emit (stored post t) s)"
  using assms
  by (auto simp: settle_trade_def getOrderById_def stored_def postTradeUpdate_def emit_def
      split: option.splits)

lemma settle_trades_gone:
  assumes "\<forall>t\<in>set ts. w_own s (mBuyOrderId t) = None \<or> w_own s (mSellOrderId t) = None"
  shows "settle_trades e post ts s = Some (emit (concat (map (stored post) ts)) s)"
  using assms
proof (induction ts arbitrary: s)
  case Nil
  then show ?case by (simp add: emit_def)
next
  case (Cons t ts)
  have t: "settle_trade e post t s = Some (emit (stored post t) s)"
    using Cons.prems by (intro settle_trade_gone) simp
  have "settle_trades e post ts (emit (stored post t) s) =
      Some (emit (concat (map (stored post) ts)) (emit (stored post t) s))"
    using Cons.prems by (intro Cons.IH) simp
  then show ?case using t by (simp add: emit_def)
qed

text \<open>The buy and the sell order of a trade between a taker and a maker.\<close>

definition buy_of :: "order \<Rightarrow> order \<Rightarrow> order" where
  "buy_of inc mk = (if mOrderSide inc = Buy then inc else mk)"

definition sell_of :: "order \<Rightarrow> order \<Rightarrow> order" where
  "sell_of inc mk = (if mOrderSide inc = Buy then mk else inc)"

definition matched_log ::
  "env \<Rightarrow> bool \<Rightarrow> heap \<Rightarrow> order \<Rightarrow> trade list \<Rightarrow> (addr \<times> u64) list \<Rightarrow> event list" where
  "matched_log e post h inc ts fs =
     concat (map (\<lambda>(t, (x, f)).
       settle_log e post t (buy_of inc (order_at h x)) (sell_of inc (order_at h x))) (zip ts fs))"

text \<open>The ids of the makers a sequence of fills emptied.\<close>

definition emptied_ids :: "heap \<Rightarrow> (addr \<times> u64) list \<Rightarrow> u64 set" where
  "emptied_ids h fs =
     {i. \<exists>x f. (x, f) \<in> set fs \<and> mRemainingQuantity (order_at h x) = 0 \<and>
               mCoreOrderId (order_at h x) = i}"

definition drop_ids :: "u64 set \<Rightarrow> order_manager \<Rightarrow> order_manager" where
  "drop_ids I m = m\<lparr>heap := (\<lambda>x. if \<exists>i\<in>I. mOrderMap m i = Some x then None else heap m x),
                  mOrderMap := (\<lambda>i. if i \<in> I then None else mOrderMap m i)\<rparr>"

lemma drop_ids_empty [simp]: "drop_ids {} m = m"
  by (simp add: drop_ids_def)

lemma drop_ids_simps [simp]:
  "mOrderMap (drop_ids I m) = (\<lambda>i. if i \<in> I then None else mOrderMap m i)"
  "heap (drop_ids I m) = (\<lambda>x. if \<exists>i\<in>I. mOrderMap m i = Some x then None else heap m x)"
  "next_addr (drop_ids I m) = next_addr m"
  by (simp_all add: drop_ids_def)

lemma without_eq: "without i m = drop_ids {i} m"
proof (cases "mOrderMap m i")
  case None
  then show ?thesis
    by (intro order_manager.equality) (auto simp: without_def removeOrderById_def fun_eq_iff)
next
  case (Some a)
  then show ?thesis
    by (intro order_manager.equality) (auto simp: without_def removeOrderById_def fun_eq_iff)
qed

lemma drop_ids_drop_ids:
  assumes "manager_inv m" shows "drop_ids I (drop_ids J m) = drop_ids (I \<union> J) m"
  by (intro order_manager.equality) (auto simp: fun_eq_iff)

lemma drop_ids_none: "\<forall>i\<in>I. mOrderMap m i = None \<Longrightarrow> drop_ids I m = m"
  by (intro order_manager.equality) (auto simp: fun_eq_iff)

lemma without_filled_eq:
  "without_filled ord m =
     drop_ids (if mRemainingQuantity ord = 0 then {mCoreOrderId ord} else {}) m"
  by (simp add: without_filled_def without_eq)

text \<open>
  As long as the taker keeps some quantity, every trade settles: each emptied maker is
  removed, everything else stays.
\<close>

lemma settle_trades_all:
  assumes "worker_inv s" and "w_own s (mCoreOrderId inc) = Some a" and "w_heap s a = Some inc"
    and "mRemainingQuantity inc \<noteq> 0" and "distinct (map fst fs)"
    and "\<forall>(x, f)\<in>set fs. \<exists>mk. w_heap s x = Some mk \<and> w_own s (mCoreOrderId mk) = Some x \<and> x \<noteq> a"
    and "h = w_heap s" and "map mBuyOrderId ts = map (\<lambda>(x, f). mCoreOrderId (buy_of inc (order_at h x))) fs"
    and "map mSellOrderId ts = map (\<lambda>(x, f). mCoreOrderId (sell_of inc (order_at h x))) fs"
  shows "settle_trades e post ts s = Some
     (emit (matched_log e post h inc ts fs) (s\<lparr>w_mgr := drop_ids (emptied_ids h fs) (w_mgr s)\<rparr>))"
  using assms
proof (induction fs arbitrary: ts s h)
  case Nil
  then show ?case by (simp add: matched_log_def emptied_ids_def emit_def)
next
  case (Cons xf fs)
  obtain x f where xf: "xf = (x, f)" by fastforce
  obtain t ts' where ts: "ts = t # ts'" using Cons.prems(8) by (cases ts) auto
  obtain mk where mk: "w_heap s x = Some mk" "w_own s (mCoreOrderId mk) = Some x" "x \<noteq> a"
    using Cons.prems(6) by (auto simp: xf)
  have at: "order_at h x = mk" using mk Cons.prems(7) by (simp add: order_at_def)
  have t: "mBuyOrderId t = mCoreOrderId (buy_of inc mk)" "mSellOrderId t = mCoreOrderId (sell_of inc mk)"
    using Cons.prems(8,9) by (simp_all add: ts xf at)
  have ne: "mCoreOrderId mk \<noteq> mCoreOrderId inc" using mk Cons.prems(2) by auto
  let ?I = "if mRemainingQuantity mk = 0 then {mCoreOrderId mk} else {}"
  let ?s1 = "emit (settle_log e post t (buy_of inc mk) (sell_of inc mk))
      (s\<lparr>w_mgr := drop_ids ?I (w_mgr s)\<rparr>)"
  have step: "settle_trade e post t s = Some ?s1"
    using settle_trade_eq [OF Cons.prems(1), of t "if mOrderSide inc = Buy then a else x" "buy_of inc mk"
        "if mOrderSide inc = Buy then x else a" "sell_of inc mk" e post]
      mk Cons.prems(2-4) t ne
    by (simp add: buy_of_def sell_of_def without_filled_eq split: if_splits)
  have inv1: "worker_inv ?s1"
    using settle_trade_ok [OF Cons.prems(1), of t e post] step t ne
    by (auto simp: buy_of_def sell_of_def split: if_splits)
  have keep: "w_heap ?s1 y = w_heap s y" if "y \<noteq> x" for y
    using mk(2) that by auto
  have own: "w_own ?s1 i = w_own s i" if "i \<noteq> mCoreOrderId mk" for i
    using that by auto
  have ord: "order_at (w_heap ?s1) y = order_at h y" if "y \<in> fst ` set fs" for y
  proof -
    have "y \<noteq> x" using that Cons.prems(5) by (auto simp: xf)
    then show ?thesis using keep Cons.prems(7) unfolding order_at_def by simp
  qed
  have eq: "map (\<lambda>(x, f). P (order_at (w_heap ?s1) x)) fs = map (\<lambda>(x, f). P (order_at h x)) fs"
    for P :: "order \<Rightarrow> u64"
    by (rule map_cong [OF refl]) (use ord in \<open>force simp del: emit_simps\<close>)
  have IH: "settle_trades e post ts' ?s1 = Some
     (emit (matched_log e post (w_heap ?s1) inc ts' fs)
        (?s1\<lparr>w_mgr := drop_ids (emptied_ids (w_heap ?s1) fs) (w_mgr ?s1)\<rparr>))"
  proof (rule Cons.IH [OF inv1 _ _ Cons.prems(4)])
    show "w_own ?s1 (mCoreOrderId inc) = Some a" using own ne Cons.prems(2) by simp
    show "w_heap ?s1 a = Some inc" using keep mk(3) Cons.prems(3) by simp
    show "distinct (map fst fs)" using Cons.prems(5) by simp
    show "\<forall>(y, g)\<in>set fs. \<exists>mk. w_heap ?s1 y = Some mk \<and> w_own ?s1 (mCoreOrderId mk) = Some y \<and> y \<noteq> a"
    proof (clarify)
      fix y g assume y: "(y, g) \<in> set fs"
      then obtain k where k: "w_heap s y = Some k" "w_own s (mCoreOrderId k) = Some y" "y \<noteq> a"
        using Cons.prems(6) by auto
      have "y \<noteq> x" using y Cons.prems(5) by (force simp: xf)
      then have "mCoreOrderId k \<noteq> mCoreOrderId mk" using k mk by auto
      then show "\<exists>mk. w_heap ?s1 y = Some mk \<and> w_own ?s1 (mCoreOrderId mk) = Some y \<and> y \<noteq> a"
        using keep [OF \<open>y \<noteq> x\<close>] own k by auto
    qed
    show "map mBuyOrderId ts' = map (\<lambda>(x, f). mCoreOrderId (buy_of inc (order_at (w_heap ?s1) x))) fs"
      using Cons.prems(8) eq [of "\<lambda>y. mCoreOrderId (buy_of inc y)"] by (simp add: ts xf)
    show "map mSellOrderId ts' = map (\<lambda>(x, f). mCoreOrderId (sell_of inc (order_at (w_heap ?s1) x))) fs"
      using Cons.prems(9) eq [of "\<lambda>y. mCoreOrderId (sell_of inc y)"] by (simp add: ts xf)
  qed simp
  have log: "matched_log e post (w_heap ?s1) inc ts' fs = matched_log e post h inc ts' fs"
    unfolding matched_log_def using ord
    by (intro arg_cong [where f = concat] map_cong [OF refl]) (force dest: set_zip_rightD)
  have ids: "emptied_ids (w_heap ?s1) fs = emptied_ids h fs"
    using ord by (force simp: emptied_ids_def)
  have "emptied_ids h ((x, f) # fs) = emptied_ids h fs \<union> ?I"
    using at by (auto simp: emptied_ids_def)
  then have drop: "drop_ids (emptied_ids h fs) (drop_ids ?I (w_mgr s)) =
      drop_ids (emptied_ids h (xf # fs)) (w_mgr s)"
    using Cons.prems(1) by (simp add: drop_ids_drop_ids worker_inv_def xf)
  have "matched_log e post h inc ts (xf # fs) =
      settle_log e post t (buy_of inc mk) (sell_of inc mk) @ matched_log e post h inc ts' fs"
    by (simp add: matched_log_def ts xf at)
  then show ?case
    using step IH drop unfolding log ids by (simp add: ts emit_def)
qed

text \<open>
  The fills that settle: all of them while the taker has quantity left, only the first one
  when the match filled it (the first turn of the loop already removes it from the manager).
\<close>

definition settled :: "order \<Rightarrow> (addr \<times> u64) list \<Rightarrow> (addr \<times> u64) list" where
  "settled inc fs = (if mRemainingQuantity inc = 0 then take 1 fs else fs)"

definition dropped_ids :: "heap \<Rightarrow> order \<Rightarrow> (addr \<times> u64) list \<Rightarrow> u64 set" where
  "dropped_ids h inc fs =
     emptied_ids h (settled inc fs) \<union>
     (if mRemainingQuantity inc = 0 \<and> fs \<noteq> [] then {mCoreOrderId inc} else {})"

definition trade_loop_log ::
  "env \<Rightarrow> bool \<Rightarrow> heap \<Rightarrow> order \<Rightarrow> trade list \<Rightarrow> (addr \<times> u64) list \<Rightarrow> event list" where
  "trade_loop_log e post h inc ts fs =
     matched_log e post h inc ts (settled inc fs)
     @ concat (map (stored post) (drop (length (settled inc fs)) ts))"

lemma settle_trades_eq:
  assumes inv: "worker_inv s" and own: "w_own s (mCoreOrderId inc) = Some a" "w_heap s a = Some inc"
    and fs: "distinct (map fst fs)"
    "\<forall>(x, f)\<in>set fs. \<exists>mk. w_heap s x = Some mk \<and> w_own s (mCoreOrderId mk) = Some x \<and> x \<noteq> a"
    and ts: "map mBuyOrderId ts = map (\<lambda>(x, f). mCoreOrderId (buy_of inc (order_at (w_heap s) x))) fs"
    "map mSellOrderId ts = map (\<lambda>(x, f). mCoreOrderId (sell_of inc (order_at (w_heap s) x))) fs"
  shows "settle_trades e post ts s = Some
     (emit (trade_loop_log e post (w_heap s) inc ts fs)
        (s\<lparr>w_mgr := drop_ids (dropped_ids (w_heap s) inc fs) (w_mgr s)\<rparr>))"
proof (cases "mRemainingQuantity inc = 0 \<and> fs \<noteq> []")
  case False
  have len: "length ts = length fs" using ts(1) by (metis length_map)
  show ?thesis
  proof (cases fs)
    case Nil
    then show ?thesis
      using len by (simp add: trade_loop_log_def matched_log_def dropped_ids_def emptied_ids_def
          settled_def emit_def)
  next
    case (Cons xf fs')
    then have "mRemainingQuantity inc \<noteq> 0" using False by simp
    then show ?thesis
      using settle_trades_all [OF inv own _ fs refl ts, of e post] len
      by (simp add: trade_loop_log_def settled_def dropped_ids_def)
  qed
next
  case True
  then obtain x f fs' where xf: "fs = (x, f) # fs'" by (cases fs) auto
  then obtain t ts' where t: "ts = t # ts'" using ts(1) by (cases ts) auto
  obtain mk where mk: "w_heap s x = Some mk" "w_own s (mCoreOrderId mk) = Some x" "x \<noteq> a"
    using fs(2) by (auto simp: xf)
  have at: "order_at (w_heap s) x = mk" using mk by (simp add: order_at_def)
  have ids: "mBuyOrderId t = mCoreOrderId (buy_of inc mk)" "mSellOrderId t = mCoreOrderId (sell_of inc mk)"
    using ts by (simp_all add: t xf at)
  have ne: "mCoreOrderId mk \<noteq> mCoreOrderId inc" using mk own(1) by auto
  let ?I = "dropped_ids (w_heap s) inc fs"
  let ?s1 = "emit (settle_log e post t (buy_of inc mk) (sell_of inc mk))
      (s\<lparr>w_mgr := drop_ids ?I (w_mgr s)\<rparr>)"
  have I: "?I = insert (mCoreOrderId inc) (if mRemainingQuantity mk = 0 then {mCoreOrderId mk} else {})"
    using True at by (auto simp: dropped_ids_def settled_def xf emptied_ids_def)
  have m: "manager_inv (w_mgr s)" using inv by (simp add: worker_inv_def)
  have "without_filled (sell_of inc mk) (without_filled (buy_of inc mk) (w_mgr s)) =
      drop_ids ?I (w_mgr s)"
    using True by (simp add: without_filled_eq drop_ids_drop_ids [OF m] I buy_of_def sell_of_def)
      (metis insert_is_Un sup_commute)
  then have step: "settle_trade e post t s = Some ?s1"
    using settle_trade_eq [OF inv, of t "if mOrderSide inc = Buy then a else x" "buy_of inc mk"
        "if mOrderSide inc = Buy then x else a" "sell_of inc mk" e post]
      mk own ids ne
    by (simp add: buy_of_def sell_of_def split: if_splits)
  have gone: "\<forall>t\<in>set ts'. mBuyOrderId t = mCoreOrderId inc \<or> mSellOrderId t = mCoreOrderId inc"
  proof (cases "mOrderSide inc")
    case Buy
    then have "map mBuyOrderId ts' = map (\<lambda>_. mCoreOrderId inc) fs'"
      using ts(1) by (simp add: t xf buy_of_def case_prod_beta)
    then show ?thesis by (metis in_set_conv_nth length_map nth_map)
  next
    case Sell
    then have "map mSellOrderId ts' = map (\<lambda>_. mCoreOrderId inc) fs'"
      using ts(2) by (simp add: t xf sell_of_def case_prod_beta)
    then show ?thesis by (metis in_set_conv_nth length_map nth_map)
  qed
  then have "settle_trades e post ts' ?s1 = Some (emit (concat (map (stored post) ts')) ?s1)"
    using I by (intro settle_trades_gone) auto
  moreover have "trade_loop_log e post (w_heap s) inc ts fs =
      settle_log e post t (buy_of inc mk) (sell_of inc mk) @ concat (map (stored post) ts')"
    using True by (simp add: trade_loop_log_def matched_log_def settled_def t xf at)
  ultimately show ?thesis using step by (simp add: t emit_def)
qed

subsection \<open>The handlers in closed form\<close>

text \<open>A match and its trade loop, as one function of the fills.\<close>

definition matched_state :: "env \<Rightarrow> bool \<Rightarrow> addr \<Rightarrow> order \<Rightarrow> worker \<Rightarrow> worker" where
  "matched_state e post a inc s =
     (let h = w_heap s; b = w_book s; fs = book_fills h inc b;
          ts = trades_of (clk e) h inc (w_tid s) (w_ticks s) fs;
          h' = heap_after h a inc b; fin = taker_final h inc b
      in emit (trade_loop_log e post h' fin ts fs)
           (s\<lparr>w_mgr := drop_ids (dropped_ids h' fin fs) ((w_mgr s)\<lparr>heap := h'\<rparr>),
              w_book := book_after h inc b, w_tid := w_tid s + of_nat (length fs),
              w_ticks := w_ticks s + length fs\<rparr>))"

lemma matched_state_simps [simp]:
  "w_book (matched_state e post a inc s) = book_after (w_heap s) inc (w_book s)"
  "w_mgr (matched_state e post a inc s) =
     drop_ids (dropped_ids (heap_after (w_heap s) a inc (w_book s)) (taker_final (w_heap s) inc (w_book s))
                 (book_fills (w_heap s) inc (w_book s)))
       ((w_mgr s)\<lparr>heap := heap_after (w_heap s) a inc (w_book s)\<rparr>)"
  "w_tid (matched_state e post a inc s) =
     w_tid s + of_nat (length (book_fills (w_heap s) inc (w_book s)))"
  "w_ticks (matched_state e post a inc s) =
     w_ticks s + length (book_fills (w_heap s) inc (w_book s))"
  by (simp_all add: matched_state_def Let_def)

lemma trades_of_parties:
  "map mBuyOrderId (trades_of c h inc tid ticks fs) =
     map (\<lambda>(x, f). mCoreOrderId (buy_of inc (order_at h x))) fs"
  "map mSellOrderId (trades_of c h inc tid ticks fs) =
     map (\<lambda>(x, f). mCoreOrderId (sell_of inc (order_at h x))) fs"
  by (induction c h inc tid ticks fs rule: trades_of.induct)
    (auto simp: Let_def buy_of_def sell_of_def)

lemma book_fills_maker:
  assumes ok: "book_ok h own b" and x: "(x, f) \<in> set (book_fills h inc b)"
  obtains mk where "h x = Some mk" and "own (mCoreOrderId mk) = Some x" and "x \<in> book_addrs b"
    and "f \<le> mRemainingQuantity mk" and "f \<noteq> 0"
proof -
  have "x \<in> book_addrs b"
    using book_fills_in [of h inc b] opposite_ok(4) [OF ok, of inc] x by force
  moreover from this obtain mk where mk: "h x = Some mk" "mRemainingQuantity mk \<noteq> 0"
      "own (mCoreOrderId mk) = Some x"
    using book_okD [OF ok] by blast
  moreover have "\<forall>y\<in>set (eligible inc (opposite inc b)). mRemainingQuantity (order_at h y) \<noteq> 0"
  proof
    fix y assume "y \<in> set (eligible inc (opposite inc b))"
    then have "y \<in> book_addrs b" using set_eligible opposite_ok(4) [OF ok] by blast
    then show "mRemainingQuantity (order_at h y) \<noteq> 0"
      using book_okD [OF ok] by (metis order_at_def option.sel)
  qed
  then have "f \<noteq> 0 \<and> f \<le> mRemainingQuantity (order_at h x)"
    using x unfolding book_fills_def by (rule fills_positive)
  ultimately show thesis using that by (simp add: order_at_def)
qed

lemma match_and_settle:
  assumes inv: "worker_inv s" and a: "w_heap s a = Some inc" "a \<notin> book_addrs (w_book s)"
    and own: "w_own s (mCoreOrderId inc) = Some a"
  shows "do { (ts, s3) \<leftarrow> run_match e a s; settle_trades e post ts s3 } =
     Some (matched_state e post a inc s)"
proof -
  have ok: "book_ok (w_heap s) (w_own s) (w_book s)" using inv by (simp add: worker_inv_def)
  let ?fs = "book_fills (w_heap s) inc (w_book s)"
  let ?h' = "heap_after (w_heap s) a inc (w_book s)" and ?fin = "taker_final (w_heap s) inc (w_book s)"
  obtain s3 where s3: "run_match e a s =
        Some (trades_of (clk e) (w_heap s) inc (w_tid s) (w_ticks s) ?fs, s3)"
      "worker_inv s3" "w_heap s3 = ?h'" "w_own s3 = w_own s" "next_addr (w_mgr s3) = next_addr (w_mgr s)"
      "w_book s3 = book_after (w_heap s) inc (w_book s)"
      "w_tid s3 = w_tid s + of_nat (length ?fs)" "w_ticks s3 = w_ticks s + length ?fs"
      "w_log s3 = w_log s"
    using run_match_ok [OF inv a, of e] by auto
  have maker: "\<exists>mk. ?h' x = Some (fill f mk) \<and> w_heap s x = Some mk \<and>
      w_own s (mCoreOrderId mk) = Some x \<and> x \<noteq> a" if x: "(x, f) \<in> set ?fs" for x f
  proof -
    obtain mk where mk: "w_heap s x = Some mk" "w_own s (mCoreOrderId mk) = Some x"
        "x \<in> book_addrs (w_book s)"
      by (rule book_fills_maker [OF ok x])
    have "x \<noteq> a" using mk(3) a(2) by blast
    moreover have "map_of ?fs x = Some f" using x book_fills_distinct [OF ok] by simp
    ultimately show ?thesis using mk by (simp add: heap_after_other)
  qed
  have at: "mCoreOrderId (order_at ?h' x) = mCoreOrderId (order_at (w_heap s) x)"
    if "(x, f) \<in> set ?fs" for x f
    using maker [OF that] by (auto simp: order_at_def)
  have side: "mOrderSide ?fin = mOrderSide inc" "mCoreOrderId ?fin = mCoreOrderId inc" by simp_all
  have parties: "map (\<lambda>(x, f). mCoreOrderId (buy_of inc (order_at (w_heap s) x))) ?fs =
      map (\<lambda>(x, f). mCoreOrderId (buy_of ?fin (order_at ?h' x))) ?fs"
    "map (\<lambda>(x, f). mCoreOrderId (sell_of inc (order_at (w_heap s) x))) ?fs =
      map (\<lambda>(x, f). mCoreOrderId (sell_of ?fin (order_at ?h' x))) ?fs"
    using at by (auto simp: buy_of_def sell_of_def)
  have "settle_trades e post (trades_of (clk e) (w_heap s) inc (w_tid s) (w_ticks s) ?fs) s3 = Some
     (emit (trade_loop_log e post (w_heap s3) ?fin
              (trades_of (clk e) (w_heap s) inc (w_tid s) (w_ticks s) ?fs) ?fs)
        (s3\<lparr>w_mgr := drop_ids (dropped_ids (w_heap s3) ?fin ?fs) (w_mgr s3)\<rparr>))"
  proof (rule settle_trades_eq [OF s3(2)])
    show "w_own s3 (mCoreOrderId ?fin) = Some a" using own s3(4) by simp
    show "w_heap s3 a = Some ?fin" using s3(3) by simp
    show "distinct (map fst ?fs)" by (rule book_fills_distinct [OF ok])
    show "\<forall>(x, f)\<in>set ?fs. \<exists>mk. w_heap s3 x = Some mk \<and> w_own s3 (mCoreOrderId mk) = Some x \<and> x \<noteq> a"
      using maker s3(3,4) by fastforce
  qed (simp_all only: trades_of_parties parties s3(3))
  moreover have mgr3: "w_mgr s3 = (w_mgr s)\<lparr>heap := ?h'\<rparr>"
    using s3 by (intro order_manager.equality) simp_all
  have "emit (trade_loop_log e post (w_heap s3) ?fin
              (trades_of (clk e) (w_heap s) inc (w_tid s) (w_ticks s) ?fs) ?fs)
        (s3\<lparr>w_mgr := drop_ids (dropped_ids (w_heap s3) ?fin ?fs) (w_mgr s3)\<rparr>) =
      matched_state e post a inc s"
    using s3(6-9) by (intro worker.equality) (simp_all add: matched_state_def Let_def emit_def mgr3)
  ultimately show ?thesis using s3(1) by simp
qed

text \<open>The pure part of an insertion.\<close>

definition book_insert :: "addr \<Rightarrow> order \<Rightarrow> order_book \<Rightarrow> order_book" where
  "book_insert a ord b =
     (if mOrderSide ord = Buy
      then b\<lparr>mBidMap := map_upd dgt (mPrice ord) [] (\<lambda>l. l @ [a]) (mBidMap b)\<rparr>
      else b\<lparr>mAskMap := map_upd dlt (mPrice ord) [] (\<lambda>l. l @ [a]) (mAskMap b)\<rparr>)"

definition rest_state :: "addr \<Rightarrow> order \<Rightarrow> worker \<Rightarrow> worker" where
  "rest_state a ord s =
     emit [EvIncremental (book_refresh (mBookSymbol (w_book s)) MDNew ord (mTimestamp ord))]
       (s\<lparr>w_book := book_insert a ord (w_book s)\<rparr>)"

lemma insert_book_eq: "w_heap s a = Some ord \<Longrightarrow> insert_book a s = Some (rest_state a ord s)"
  by (simp add: insert_book_def insertOrder_def rest_state_def book_insert_def Let_def)

lemma rest_in_book_eq:
  assumes "w_heap s a = Some ord \<or> \<not> containsOrderById i (w_mgr s)"
  shows "rest_in_book c i a s = Some
     (if c \<and> containsOrderById i (w_mgr s) \<and> mRemainingQuantity ord \<noteq> 0
      then rest_state a ord s else s)"
  using assms insert_book_eq [of s a ord] by (auto simp: rest_in_book_def word_pos_iff)

definition admit :: "order \<Rightarrow> order_manager \<Rightarrow> order_manager" where
  "admit ord m = m\<lparr>heap := (heap m)(next_addr m \<mapsto> ord), next_addr := next_addr m + 1,
                    mOrderMap := (mOrderMap m)(mCoreOrderId ord \<mapsto> next_addr m)\<rparr>"

text \<open>An admitted new order.\<close>

definition admitted_state :: "env \<Rightarrow> order \<Rightarrow> worker \<Rightarrow> worker" where
  "admitted_state e ord s =
     emit (EvDb (SaveOrder ord) # map EvReport (publishExecution (has_callback e) ord ''NEW''))
       (s\<lparr>w_mgr := admit ord (w_mgr s)\<rparr>)"

definition new_order_state :: "env \<Rightarrow> order \<Rightarrow> worker \<Rightarrow> worker" where
  "new_order_state e ord s =
     (let a = next_addr (w_mgr s); i = mCoreOrderId ord;
          s2 = admitted_state e ord s;
          s4 = matched_state e True a ord s2;
          fin = taker_final (w_heap s2) ord (w_book s);
          s5 = (if mOrderType ord = Limit \<and> containsOrderById i (w_mgr s4) \<and>
                   mRemainingQuantity fin \<noteq> 0
                then rest_state a fin s4 else s4)
      in if mOrderType ord = Market \<and> containsOrderById i (w_mgr s5)
         then remove_everywhere i s5 else s5)"

lemma admitted_state_simps [simp]:
  "w_mgr (admitted_state e ord s) = admit ord (w_mgr s)"
  "w_book (admitted_state e ord s) = w_book s" "w_tid (admitted_state e ord s) = w_tid s"
  "w_ticks (admitted_state e ord s) = w_ticks s"
  by (simp_all add: admitted_state_def)

lemma admit_simps [simp]:
  "heap (admit ord m) = (heap m)(next_addr m \<mapsto> ord)"
  "mOrderMap (admit ord m) = (mOrderMap m)(mCoreOrderId ord \<mapsto> next_addr m)"
  "next_addr (admit ord m) = next_addr m + 1"
  by (simp_all add: admit_def)

lemma admitted_ok:
  assumes inv: "worker_inv s" and fresh: "w_own s (mCoreOrderId ord) = None"
  shows "worker_inv (admitted_state e ord s)" "next_addr (w_mgr s) \<notin> book_addrs (w_book s)"
    "do { let (a, m0) = make_unique ord (w_mgr s); (_, m1) \<leftarrow> addOrder a m0; Some (a, m1) } =
       Some (next_addr (w_mgr s), admit ord (w_mgr s))"
proof -
  obtain m0 m1 where m1: "make_unique ord (w_mgr s) = (next_addr (w_mgr s), m0)"
      "addOrder (next_addr (w_mgr s)) m0 = Some (True, m1)" "worker_inv (s\<lparr>w_mgr := m1\<rparr>)"
      "next_addr (w_mgr s) \<notin> book_addrs (w_book s)"
    by (rule admit_ok [OF inv fresh])
  have "m1 = admit ord (w_mgr s)"
    using m1(1,2) fresh by (auto simp: make_unique_def addOrder_def admit_def split: if_splits)
  then show "worker_inv (admitted_state e ord s)" using m1(3) by (simp add: admitted_state_def)
  show "next_addr (w_mgr s) \<notin> book_addrs (w_book s)" by (rule m1(4))
  show "do { let (a, m0) = make_unique ord (w_mgr s); (_, m1) \<leftarrow> addOrder a m0; Some (a, m1) } =
       Some (next_addr (w_mgr s), admit ord (w_mgr s))"
    using m1(1,2) \<open>m1 = admit ord (w_mgr s)\<close> by simp
qed

lemma contains_drop_ids [simp]:
  "containsOrderById i (drop_ids I m) \<longleftrightarrow> i \<notin> I \<and> containsOrderById i m"
  by (simp add: containsOrderById_def)

lemma heap_drop_ids_own:
  "manager_inv m \<Longrightarrow> mOrderMap m i = Some a \<Longrightarrow> i \<notin> I \<Longrightarrow> heap (drop_ids I m) a = heap m a"
  by (auto dest: manager_inv_inj)

theorem processNewOrder_eq:
  assumes inv: "worker_inv s" and fresh: "w_own s (mCoreOrderId ord) = None"
    and pass: "preCheck ord (w_heap s) (w_book s) = Some True"
  shows "processNewOrder e ord s = Some (new_order_state e ord s)"
proof -
  let ?a = "next_addr (w_mgr s)" and ?i = "mCoreOrderId ord" and ?s2 = "admitted_state e ord s"
  let ?s4 = "matched_state e True ?a ord ?s2" and ?fin = "taker_final (w_heap ?s2) ord (w_book s)"
  note adm = admitted_ok(1) [OF inv fresh, of e] admitted_ok(2,3) [OF inv fresh]
  have h2: "w_heap ?s2 ?a = Some ord" "w_own ?s2 ?i = Some ?a" by simp_all
  have match: "do { (ts, s3) \<leftarrow> run_match e ?a ?s2; settle_trades e True ts s3 } = Some ?s4"
    using match_and_settle [OF adm(1) h2(1)] adm(2) h2(2) by simp
  then obtain ts s3 where s3: "run_match e ?a ?s2 = Some (ts, s3)" "settle_trades e True ts s3 = Some ?s4"
    by (auto simp: bind_Some_iff)
  have "w_heap ?s4 ?a = Some ?fin \<or> \<not> containsOrderById ?i (w_mgr ?s4)"
  proof (cases "containsOrderById ?i (w_mgr ?s4)")
    case True
    let ?h = "heap_after (w_heap ?s2) ?a ord (w_book s)"
    have "manager_inv ((w_mgr ?s2)\<lparr>heap := ?h\<rparr>)"
      by (rule manager_inv_heap) (use adm(1) heap_after_ids [of "w_heap ?s2" ?a ord] in \<open>simp_all add: worker_inv_def\<close>)
    then show ?thesis using True heap_drop_ids_own [of "(w_mgr ?s2)\<lparr>heap := ?h\<rparr>" ?i ?a] by simp
  qed simp
  note rest = rest_in_book_eq [OF this, of "mOrderType ord = Limit"]
  obtain m0 b where add: "make_unique ord (w_mgr s) = (?a, m0)"
      "addOrder ?a m0 = Some (b, admit ord (w_mgr s))"
    using adm(3) by (auto simp: make_unique_def bind_Some_iff)
  have "processNewOrder e ord s = do {
      s5 \<leftarrow> rest_in_book (mOrderType ord = Limit) ?i ?a ?s4;
      Some (if mOrderType ord = Market \<and> containsOrderById ?i (w_mgr s5)
            then remove_everywhere ?i s5 else s5)
    }"
    using pass add s3
    by (simp add: processNewOrder_def Let_def admitted_state_def [symmetric] del: matched_state_simps)
  then show ?thesis
    unfolding rest by (simp add: new_order_state_def Let_def del: matched_state_simps)
qed

definition cancelled_state :: "env \<Rightarrow> u64 \<Rightarrow> addr \<Rightarrow> order \<Rightarrow> worker \<Rightarrow> worker" where
  "cancelled_state e i a ord s =
     remove_everywhere i
       (emit (EvIncremental (book_refresh (mBookSymbol (w_book s)) MDDelete ord (clk e (w_ticks s)))
              # map EvReport (publishExecution (has_callback e) ord ''CANCELED''))
          (s\<lparr>w_book := book_remove a (w_book s), w_ticks := w_ticks s + 1\<rparr>))"

lemma processCancelOrder_found:
  assumes inv: "worker_inv s" and a: "w_own s i = Some a" "w_heap s a = Some ord"
    and "in": "a \<in> book_addrs (w_book s)"
  shows "processCancelOrder e c i s = Some (cancelled_state e i a ord s)"
  using cancel_in_book(1) [OF inv a(1), of "clk e (w_ticks s)"] a "in"
  by (simp add: processCancelOrder_def getOrderById_def cancelled_state_def emit_def)

lemma processCancelOrder_unknown:
  "w_own s i = None \<Longrightarrow>
     processCancelOrder e c i s = Some (reject e i c EURUSD Buy ''Order not found'' s)"
  by (simp add: processCancelOrder_def getOrderById_def)

lemma processCancelOrder_not_in_book:
  assumes inv: "worker_inv s" and a: "w_own s i = Some a" "w_heap s a = Some ord"
    and "a \<notin> book_addrs (w_book s)"
  shows "processCancelOrder e c i s =
     Some (reject e i c (mSymbol ord) (mOrderSide ord) ''Order cannot be canceled'' s)"
  using cancel_in_book(1) [OF inv a(1), of "clk e (w_ticks s)"] a assms(4)
  by (simp add: processCancelOrder_def getOrderById_def)

text \<open>A replacement: off the book, rewritten in place, stored again, matched like a new order.\<close>

definition replaced_state ::
  "env \<Rightarrow> u64 \<Rightarrow> addr \<Rightarrow> order \<Rightarrow> dbl \<Rightarrow> u64 \<Rightarrow> worker \<Rightarrow> worker" where
  "replaced_state e i a ord p q s =
     (let found = (a \<in> book_addrs (w_book s)); ord' = replaced p q ord
      in emit ((if found
                then [EvIncremental (book_refresh (mBookSymbol (w_book s)) MDDelete ord
                                       (clk e (w_ticks s)))] else [])
               @ [EvDb (RemoveOrder i), EvDb (SaveOrder ord')]
               @ map EvReport (publishExecution (has_callback e) ord' ''REPLACED''))
           (s\<lparr>w_book := (if found then book_remove a (w_book s) else w_book s),
              w_ticks := w_ticks s + (if found then 1 else 0),
              w_mgr := (w_mgr s)\<lparr>heap := (w_heap s)(a \<mapsto> ord')\<rparr>\<rparr>))"

definition modified_state ::
  "env \<Rightarrow> u64 \<Rightarrow> addr \<Rightarrow> order \<Rightarrow> dbl \<Rightarrow> u64 \<Rightarrow> worker \<Rightarrow> worker" where
  "modified_state e i a ord p q s =
     (let s3 = replaced_state e i a ord p q s; ord' = replaced p q ord;
          s5 = matched_state e False a ord' s3;
          fin = taker_final (w_heap s3) ord' (w_book s3);
          s6 = (if containsOrderById i (w_mgr s5) \<and> mRemainingQuantity fin \<noteq> 0
                then rest_state a fin s5 else s5)
      in if containsOrderById i (w_mgr s6) \<and> mRemainingQuantity fin = 0
         then remove_everywhere i s6 else s6)"

lemma replaced_state_simps [simp]:
  "w_mgr (replaced_state e i a ord p q s) =
     (w_mgr s)\<lparr>heap := (w_heap s)(a \<mapsto> replaced p q ord)\<rparr>"
  "w_book (replaced_state e i a ord p q s) =
     (if a \<in> book_addrs (w_book s) then book_remove a (w_book s) else w_book s)"
  "w_tid (replaced_state e i a ord p q s) = w_tid s"
  "w_ticks (replaced_state e i a ord p q s) =
     w_ticks s + (if a \<in> book_addrs (w_book s) then 1 else 0)"
  by (simp_all add: replaced_state_def Let_def)

lemma replaced_ok:
  assumes inv: "worker_inv s" and a: "w_own s i = Some a" "w_heap s a = Some ord"
  shows "worker_inv (replaced_state e i a ord p q s)"
    "a \<notin> book_addrs (w_book (replaced_state e i a ord p q s))"
proof -
  note c = cancel_in_book(2,3) [OF inv a(1)]
  let ?s = "s\<lparr>w_book := if a \<in> book_addrs (w_book s) then book_remove a (w_book s) else w_book s\<rparr>"
  have "worker_inv (?s\<lparr>w_mgr := (w_mgr ?s)\<lparr>heap := (w_heap ?s)(a \<mapsto> replaced p q ord)\<rparr>\<rparr>)"
    by (rule worker_inv_set [OF c(1)]) (use a(2) c(2) in simp_all)
  then show "worker_inv (replaced_state e i a ord p q s)" by (simp add: worker_inv_def)
  show "a \<notin> book_addrs (w_book (replaced_state e i a ord p q s))" using c(2) by simp
qed

theorem processModifyOrder_eq:
  assumes inv: "worker_inv s" and a: "w_own s i = Some a" "w_heap s a = Some ord"
  shows "processModifyOrder e c i p q s = Some (modified_state e i a ord p q s)"
proof -
  let ?ord = "replaced p q ord" and ?s3 = "replaced_state e i a ord p q s"
  let ?s5 = "matched_state e False a ?ord ?s3"
  let ?fin = "taker_final (w_heap ?s3) ?ord (w_book ?s3)"
  have i: "mCoreOrderId ord = i" using worker_inv_live [OF inv a(1)] a(2) by auto
  note rep = replaced_ok [OF inv a, of e p q]
  have h3: "w_heap ?s3 a = Some ?ord" "w_own ?s3 (mCoreOrderId ?ord) = Some a"
    using a i by simp_all
  obtain ts s4 where s4: "run_match e a ?s3 = Some (ts, s4)" "settle_trades e False ts s4 = Some ?s5"
    using match_and_settle [OF rep(1) h3(1) rep(2) h3(2), of e False] by (auto simp: bind_Some_iff)
  have heap5: "w_heap ?s5 a = Some ?fin \<or> \<not> containsOrderById i (w_mgr ?s5)"
  proof (cases "containsOrderById i (w_mgr ?s5)")
    case True
    let ?h = "heap_after (w_heap ?s3) a ?ord (w_book ?s3)"
    have "manager_inv ((w_mgr ?s3)\<lparr>heap := ?h\<rparr>)"
      by (rule manager_inv_heap)
        (use rep(1) heap_after_ids [of "w_heap ?s3" a ?ord] in \<open>simp_all add: worker_inv_def\<close>)
    then show ?thesis
      using True a(1) heap_drop_ids_own [of "(w_mgr ?s3)\<lparr>heap := ?h\<rparr>" i a] by simp
  qed simp
  note rest = rest_in_book_eq [OF heap5, of True]
  let ?s6 = "if containsOrderById i (w_mgr ?s5) \<and> mRemainingQuantity ?fin \<noteq> 0
             then rest_state a ?fin ?s5 else ?s5"
  have mgr6: "w_mgr ?s6 = w_mgr ?s5" by (simp add: rest_state_def)
  have "heap_upd a (setStatus New \<circ> setOriginalQuantity q \<circ> setPrice p) (w_heap s) =
      Some ((w_heap s)(a \<mapsto> ?ord))"
    using a(2) by (simp add: heap_upd_def order_setters replaced_def)
  then have "processModifyOrder e c i p q s = do {
      s6 \<leftarrow> rest_in_book True i a ?s5;
      if containsOrderById i (w_mgr s6)
      then do {
        order' \<leftarrow> w_heap s6 a;
        Some (if mRemainingQuantity order' = 0 then remove_everywhere i s6 else s6)
      }
      else Some s6
    }"
    using cancel_in_book(1) [OF inv a(1), of "clk e (w_ticks s)"] a i s4
    by (cases "a \<in> book_addrs (w_book s)")
      (simp_all add: processModifyOrder_def getOrderById_def replaced_state_def emit_def Let_def
        del: matched_state_simps cong: if_cong)
  also have "\<dots> = (if containsOrderById i (w_mgr ?s6)
      then do {
        order' \<leftarrow> w_heap ?s6 a;
        Some (if mRemainingQuantity order' = 0 then remove_everywhere i ?s6 else ?s6)
      }
      else Some ?s6)"
    unfolding rest by (simp del: matched_state_simps cong: if_cong)
  also have "\<dots> = Some (modified_state e i a ord p q s)"
    using heap5 unfolding mgr6 modified_state_def Let_def
    by (auto simp del: matched_state_simps)
  finally show ?thesis .
qed

end
