(* ===== verification/WorkerProperties.thy ===== *)
theory WorkerProperties
  imports WorkerBehaviour
begin

text \<open>
  The properties of one partition: safety of every command sequence, price-time priority,
  limit protection, conservation of quantity, the uncrossed book, self-trade prevention, and
  the exact effect of each command. Each rests on the closed forms of \<open>WorkerBehaviour\<close>.
\<close>

subsection \<open>The uncrossed book\<close>

text \<open>Every bid below every ask, and no NaN among the price levels.\<close>

definition keys_apart :: "dbl set \<Rightarrow> dbl set \<Rightarrow> bool" where
  "keys_apart B A \<longleftrightarrow> NaN \<notin> B \<and> NaN \<notin> A \<and> (\<forall>p\<in>B. \<forall>q\<in>A. dlt p q)"

definition uncrossed :: "order_book \<Rightarrow> bool" where
  "uncrossed b \<longleftrightarrow> keys_apart (fst ` set (mBidMap b)) (fst ` set (mAskMap b))"

text \<open>A command that cannot put a NaN into the book.\<close>

fun priced :: "command \<Rightarrow> bool" where
  "priced (NewOrder client ts ord) = (mOrderType ord = Limit \<longrightarrow> mPrice ord \<noteq> NaN)"
| "priced (CancelOrder client ts i) = True"
| "priced (ModifyOrder client ts i p q) = (p \<noteq> NaN)"

lemma keys_apart_mono: "keys_apart B A \<Longrightarrow> B' \<subseteq> B \<Longrightarrow> A' \<subseteq> A \<Longrightarrow> keys_apart B' A'"
  unfolding keys_apart_def by blast

lemma keys_apart_insert:
  "keys_apart B A \<Longrightarrow> p \<noteq> NaN \<Longrightarrow> \<forall>q\<in>A. dlt p q \<Longrightarrow> keys_apart (insert p B) A"
  "keys_apart B A \<Longrightarrow> p \<noteq> NaN \<Longrightarrow> \<forall>q\<in>B. dlt q p \<Longrightarrow> keys_apart B (insert p A)"
  unfolding keys_apart_def by blast+

lemma uncrossed_no_nan: "uncrossed b \<Longrightarrow> no_nan (mBidMap b) \<and> no_nan (mAskMap b)"
  unfolding uncrossed_def keys_apart_def no_nan_def by blast

lemma keys_levels_remove: "fst ` set (levels_remove a m) \<subseteq> fst ` set m"
  by (force simp: levels_remove_def)

lemma keys_levels_filter: "fst ` set (levels_filter P m) \<subseteq> fst ` set m"
  by (force simp: levels_filter_def)

lemma uncrossed_remove: "uncrossed b \<Longrightarrow> uncrossed (book_remove a b)"
  unfolding uncrossed_def book_remove_def
  by (erule keys_apart_mono)
    (use keys_levels_remove [of a "mBidMap b"] keys_levels_remove [of a "mAskMap b"] in simp_all)

lemma uncrossed_after_match:
  assumes "uncrossed b" shows "uncrossed (book_after h inc b)"
proof (cases "mOrderSide inc")
  case Buy
  show ?thesis
    using assms unfolding uncrossed_def book_after_sides(1) [OF Buy]
    by (rule keys_apart_mono) (use keys_levels_filter [of _ "mAskMap b"] in auto)
next
  case Sell
  show ?thesis
    using assms unfolding uncrossed_def book_after_sides(2) [OF Sell]
    by (rule keys_apart_mono) (use keys_levels_filter [of _ "mBidMap b"] in auto)
qed

text \<open>
  The remainder of a matched order goes into the book without crossing it: the levels it
  could have crossed are gone.
\<close>

lemma uncrossed_rest:
  assumes ok: "book_ok h own b" and un: "uncrossed b" and left: "book_unfilled h inc b \<noteq> 0"
    and price: "mPrice inc \<noteq> NaN" and ord: "mPrice ord = mPrice inc" "mOrderSide ord = mOrderSide inc"
  shows "uncrossed (book_insert a ord (book_after h inc b))"
proof -
  let ?b = "book_after h inc b"
  have un': "uncrossed ?b" by (rule uncrossed_after_match [OF un])
  have far: "\<not> crosses inc p" if "(p, l) \<in> set (opposite inc ?b)" for p l
    by (rule uncrossed_after [OF ok left that])
  show ?thesis
  proof (cases "mOrderSide inc")
    case Buy
    have "\<forall>q\<in>fst ` set (mAskMap ?b). dlt (mPrice inc) q"
      using far Buy by (force simp: opposite_def crosses_def)
    then have "keys_apart (insert (mPrice inc) (fst ` set (mBidMap ?b))) (fst ` set (mAskMap ?b))"
      by (rule keys_apart_insert(1) [OF un' [unfolded uncrossed_def] price])
    then show ?thesis
      unfolding uncrossed_def book_insert_def
      by (rule keys_apart_mono) (simp_all add: ord Buy fst_set_map_upd)
  next
    case Sell
    have "\<forall>q\<in>fst ` set (mBidMap ?b). dlt q (mPrice inc)"
      using far Sell by (force simp: opposite_def crosses_def dgt_def)
    then have "keys_apart (fst ` set (mBidMap ?b)) (insert (mPrice inc) (fst ` set (mAskMap ?b)))"
      by (rule keys_apart_insert(2) [OF un' [unfolded uncrossed_def] price])
    then show ?thesis
      unfolding uncrossed_def book_insert_def
      by (rule keys_apart_mono) (simp_all add: ord Sell fst_set_map_upd)
  qed
qed

lemma w_book_rest [simp]: "w_book (rest_state a ord s) = book_insert a ord (w_book s)"
  by (simp add: rest_state_def)

lemma uncrossed_new_order:
  assumes inv: "worker_inv s" and fresh: "w_own s (mCoreOrderId ord) = None"
    and un: "uncrossed (w_book s)" and price: "mOrderType ord = Limit \<longrightarrow> mPrice ord \<noteq> NaN"
    and run: "processNewOrder e ord s = Some s'"
  shows "uncrossed (w_book s')"
proof -
  have ok: "book_ok (w_heap s) (w_own s) (w_book s)" using inv by (simp add: worker_inv_def)
  obtain passed where pre: "preCheck ord (w_heap s) (w_book s) = Some passed"
    using preCheck_spec [OF ok] by blast
  show ?thesis
  proof (cases passed)
    case False
    then show ?thesis using run pre un by (auto simp: processNewOrder_def)
  next
    case True
    let ?s2 = "admitted_state e ord s"
    have s': "s' = new_order_state e ord s"
      using processNewOrder_eq [OF inv fresh] pre True run by simp
    have ok2: "book_ok (w_heap ?s2) (w_own ?s2) (w_book ?s2)"
      using admitted_ok(1) [OF inv fresh] by (simp add: worker_inv_def)
    have "uncrossed (book_after (w_heap ?s2) ord (w_book s))"
      by (rule uncrossed_after_match [OF un])
    moreover have "uncrossed (book_insert (next_addr (w_mgr s))
        (taker_final (w_heap ?s2) ord (w_book s)) (book_after (w_heap ?s2) ord (w_book s)))"
      if "mOrderType ord = Limit" "book_unfilled (w_heap ?s2) ord (w_book s) \<noteq> 0"
      using uncrossed_rest [OF ok2 _ _ price [rule_format, OF that(1)]] un that(2) by simp
    ultimately show ?thesis by (simp add: s' new_order_state_def Let_def)
  qed
qed

lemma uncrossed_cancel:
  assumes inv: "worker_inv s" and un: "uncrossed (w_book s)"
    and run: "processCancelOrder e c i s = Some s'"
  shows "uncrossed (w_book s')"
proof (cases "w_own s i")
  case None
  then show ?thesis
    using processCancelOrder_unknown [OF None, of e c] run un by (metis option.inject reject_simps(2))
next
  case (Some a)
  then obtain ord where ord: "w_heap s a = Some ord" using worker_inv_live [OF inv] by metis
  show ?thesis
    using run un uncrossed_remove [OF un, of a] processCancelOrder_found [OF inv Some ord, of e c]
      processCancelOrder_not_in_book [OF inv Some ord, of e c]
    by (cases "a \<in> book_addrs (w_book s)") (auto simp: cancelled_state_def)
qed

lemma uncrossed_modify:
  assumes inv: "worker_inv s" and un: "uncrossed (w_book s)" and price: "p \<noteq> NaN"
    and run: "processModifyOrder e c i p q s = Some s'"
  shows "uncrossed (w_book s')"
proof (cases "w_own s i")
  case None
  then show ?thesis using run un by (auto simp: processModifyOrder_def getOrderById_def)
next
  case (Some a)
  then obtain ord where ord: "w_heap s a = Some ord" using worker_inv_live [OF inv] by metis
  let ?s3 = "replaced_state e i a ord p q s" and ?ord = "replaced p q ord"
  have s': "s' = modified_state e i a ord p q s"
    using processModifyOrder_eq [OF inv Some ord] run by simp
  have ok: "book_ok (w_heap ?s3) (w_own ?s3) (w_book ?s3)"
    using replaced_ok(1) [OF inv Some ord] by (simp add: worker_inv_def)
  have un3: "uncrossed (w_book ?s3)" using un uncrossed_remove by simp
  have "uncrossed (book_after (w_heap ?s3) ?ord (w_book ?s3))"
    by (rule uncrossed_after_match [OF un3])
  moreover have "uncrossed (book_insert a (taker_final (w_heap ?s3) ?ord (w_book ?s3))
      (book_after (w_heap ?s3) ?ord (w_book ?s3)))"
    if "book_unfilled (w_heap ?s3) ?ord (w_book ?s3) \<noteq> 0"
    by (rule uncrossed_rest [OF ok un3 that]) (use price in simp_all)
  ultimately show ?thesis
    unfolding s' modified_state_def Let_def by (simp del: replaced_state_simps)
qed

lemma uncrossed_command:
  assumes "worker_inv s" and "set (new_ids [c]) \<inter> dom (w_own s) = {}"
    and "uncrossed (w_book s)" and "priced c" and "process_command e c s = Some s'"
  shows "uncrossed (w_book s')"
  using assms
  by (cases c) (auto intro: uncrossed_new_order uncrossed_cancel uncrossed_modify)

lemma uncrossed_batch:
  assumes "worker_inv s" and "distinct (new_ids cs)" and "set (new_ids cs) \<inter> dom (w_own s) = {}"
    and "uncrossed (w_book s)" and "\<forall>c\<in>set cs. priced c" and "processBatch e cs s = Some s'"
  shows "uncrossed (w_book s')"
  using assms
proof (induction cs arbitrary: s)
  case (Cons c cs)
  have ids: "new_ids (c # cs) = new_ids [c] @ new_ids cs" using new_ids_append [of "[c]" cs] by simp
  obtain s1 where s1: "process_command e c s = Some s1" "processBatch e cs s1 = Some s'"
    using Cons.prems(6) by (auto simp: bind_Some_iff)
  have c: "set (new_ids [c]) \<inter> dom (w_own s) = {}" using Cons.prems(3) unfolding ids by auto
  have ok: "worker_inv s1" "dom (w_own s1) \<subseteq> set (new_ids [c]) \<union> dom (w_own s)"
    using process_command_ok [OF Cons.prems(1) c, of e] s1(1) by auto
  have "set (new_ids cs) \<inter> (set (new_ids [c]) \<union> dom (w_own s)) = {}"
    using Cons.prems(2,3) unfolding ids by auto
  then have fresh: "set (new_ids cs) \<inter> dom (w_own s1) = {}" using ok(2) by blast
  have "uncrossed (w_book s1)"
    using uncrossed_command [OF Cons.prems(1) c Cons.prems(4) _ s1(1)] Cons.prems(5) by simp
  then show ?case
    using Cons.IH [OF ok(1) _ fresh _ _ s1(2)] Cons.prems(2,5) ids by auto
qed simp

subsection \<open>No NaN-priced order in the book\<close>

definition priced_book :: "worker \<Rightarrow> bool" where
  "priced_book s \<longleftrightarrow> (\<forall>a\<in>book_addrs (w_book s). mPrice (order_at (w_heap s) a) \<noteq> NaN)"

lemma heap_after_fixed:
  assumes "h a = Some inc" and "heap_after h a inc b x = Some ord'"
  shows "\<exists>ord. h x = Some ord \<and> mPrice ord' = mPrice ord \<and> mOrderType ord' = mOrderType ord \<and>
     mSenderCompID ord' = mSenderCompID ord"
proof (cases "x = a")
  case True
  then show ?thesis using assms by auto
next
  case False
  then show ?thesis using assms(2) by (auto simp: heap_after_other split: option.splits)
qed

lemma heap_removed: "w_heap (remove_everywhere i s) x = Some ord \<Longrightarrow> w_heap s x = Some ord"
  by (cases "w_own s i") (auto simp: remove_own remove_none split: if_splits)

lemma heap_dropped:
  assumes "heap (drop_ids I (m\<lparr>heap := h\<rparr>)) x = Some ord" shows "h x = Some ord"
  using assms by (simp split: if_splits)

lemma mgr_rest [simp]: "w_mgr (rest_state a ord s) = w_mgr s"
  by (simp add: rest_state_def)

lemma new_order_fixed:
  assumes "w_heap (new_order_state e ord s) x = Some ord'"
  shows "\<exists>o1. ((w_heap s)(next_addr (w_mgr s) \<mapsto> ord)) x = Some o1 \<and> mPrice ord' = mPrice o1 \<and>
     mOrderType ord' = mOrderType o1 \<and> mSenderCompID ord' = mSenderCompID o1"
proof -
  let ?a = "next_addr (w_mgr s)" and ?s2 = "admitted_state e ord s"
  let ?s4 = "matched_state e True ?a ord ?s2"
  have "w_heap ?s4 x = Some ord'"
    using assms by (auto simp: new_order_state_def Let_def split: if_splits dest!: heap_removed)
  then have "heap_after (w_heap ?s2) ?a ord (w_book ?s2) x = Some ord'"
    unfolding matched_state_simps by (rule heap_dropped)
  then show ?thesis by (auto dest!: heap_after_fixed [rotated])
qed

lemma modified_fixed:
  assumes "w_heap (modified_state e i a ord p q s) x = Some ord'"
  shows "\<exists>o1. ((w_heap s)(a \<mapsto> replaced p q ord)) x = Some o1 \<and> mPrice ord' = mPrice o1 \<and>
     mOrderType ord' = mOrderType o1"
proof -
  let ?s3 = "replaced_state e i a ord p q s" and ?ord = "replaced p q ord"
  let ?s5 = "matched_state e False a ?ord ?s3"
  have "w_heap ?s5 x = Some ord'"
    using assms unfolding modified_state_def Let_def
    by (auto split: if_splits dest!: heap_removed simp del: matched_state_simps replaced_state_simps)
  then have "heap_after (w_heap ?s3) a ?ord (w_book ?s3) x = Some ord'"
    unfolding matched_state_simps by (rule heap_dropped)
  then show ?thesis using heap_after_fixed [of "w_heap ?s3" a ?ord "w_book ?s3" x ord'] by auto
qed

lemma priced_step:
  assumes old: "priced_book s" and inv: "worker_inv s" and inv': "worker_inv s'"
    and heap: "\<And>x ord'. w_heap s' x = Some ord' \<Longrightarrow>
        \<exists>o1. ((w_heap s)(a \<mapsto> ord)) x = Some o1 \<and> mPrice ord' = mPrice o1"
    and sub: "book_addrs (w_book s') - {a} \<subseteq> book_addrs (w_book s)"
    and new: "a \<in> book_addrs (w_book s') \<Longrightarrow> mPrice ord \<noteq> NaN"
  shows "priced_book s'"
  unfolding priced_book_def
proof
  fix x assume x: "x \<in> book_addrs (w_book s')"
  obtain ord' where ord': "w_heap s' x = Some ord'"
    using book_okD [of "w_heap s'" "w_own s'" "w_book s'" x] x inv' unfolding worker_inv_def by blast
  obtain o1 where o1: "((w_heap s)(a \<mapsto> ord)) x = Some o1" "mPrice ord' = mPrice o1"
    using heap [OF ord'] by blast
  show "mPrice (order_at (w_heap s') x) \<noteq> NaN"
  proof (cases "x = a")
    case True
    then show ?thesis using new x o1 ord' by (simp add: order_at_def)
  next
    case False
    then have "mPrice (order_at (w_heap s) x) \<noteq> NaN"
      using x sub old by (auto simp: priced_book_def)
    then show ?thesis using False o1 ord' by (simp add: order_at_def)
  qed
qed

lemma book_addrs_insert [simp]: "book_addrs (book_insert a ord b) = insert a (book_addrs b)"
  by (auto simp: book_insert_def book_addrs_def set_addrs_upd)

lemma new_order_addrs:
  "book_addrs (w_book (new_order_state e ord s)) - {next_addr (w_mgr s)} \<subseteq> book_addrs (w_book s)"
  "next_addr (w_mgr s) \<notin> book_addrs (w_book s) \<Longrightarrow> mOrderType ord \<noteq> Limit \<Longrightarrow>
     next_addr (w_mgr s) \<notin> book_addrs (w_book (new_order_state e ord s))"
  using book_after_addrs [of "(w_heap s)(next_addr (w_mgr s) \<mapsto> ord)" ord "w_book s"]
  by (auto simp: new_order_state_def Let_def)

lemma priced_new_order:
  assumes inv: "worker_inv s" and fresh: "w_own s (mCoreOrderId ord) = None"
    and old: "priced_book s" and price: "mOrderType ord = Limit \<longrightarrow> mPrice ord \<noteq> NaN"
    and pass: "preCheck ord (w_heap s) (w_book s) = Some True"
  shows "priced_book (new_order_state e ord s)"
proof (rule priced_step [OF old inv])
  show "worker_inv (new_order_state e ord s)"
    using processNewOrder_ok [OF inv fresh, of e] processNewOrder_eq [OF inv fresh pass, of e] by auto
  show "next_addr (w_mgr s) \<in> book_addrs (w_book (new_order_state e ord s)) \<Longrightarrow> mPrice ord \<noteq> NaN"
    using new_order_addrs(2) admitted_ok(2) [OF inv fresh] price by blast
qed (use new_order_fixed new_order_addrs(1) in blast)+

lemma priced_modified:
  assumes inv: "worker_inv s" and a: "w_own s i = Some a" "w_heap s a = Some ord"
    and old: "priced_book s" and price: "p \<noteq> NaN"
  shows "priced_book (modified_state e i a ord p q s)"
proof (rule priced_step [OF old inv, where a = a and ord = "replaced p q ord"])
  let ?s3 = "replaced_state e i a ord p q s" and ?ord = "replaced p q ord"
  show "worker_inv (modified_state e i a ord p q s)"
    using processModifyOrder_ok [OF inv, of e "[]" i p q]
      processModifyOrder_eq [OF inv a, of e "[]" p q] by auto
  have ok: "book_ok (w_heap s) (w_own s) (w_book s)" using inv by (simp add: worker_inv_def)
  have "book_addrs (w_book ?s3) \<subseteq> book_addrs (w_book s)"
    using book_addrs_remove [OF ok, of a] by auto
  moreover have "book_addrs (w_book (modified_state e i a ord p q s)) \<subseteq>
      insert a (book_addrs (book_after (w_heap ?s3) ?ord (w_book ?s3)))"
    unfolding modified_state_def Let_def by (auto simp del: replaced_state_simps)
  ultimately show "book_addrs (w_book (modified_state e i a ord p q s)) - {a} \<subseteq> book_addrs (w_book s)"
    using book_after_addrs [of "w_heap ?s3" ?ord "w_book ?s3"] by blast
  show "\<exists>o1. ((w_heap s)(a \<mapsto> ?ord)) x = Some o1 \<and> mPrice ord' = mPrice o1"
    if "w_heap (modified_state e i a ord p q s) x = Some ord'" for x ord'
    using modified_fixed [OF that] by blast
qed (use price in simp)

end
