(* ===== verification/WorkerStore.thy ===== *)
theory WorkerStore
  imports WorkerBehaviour
begin

text \<open>
  The database tasks a handler queues against the orders the manager holds: executed in
  order they leave the \<open>orders\<close> table equal to the manager, except when an incoming order is
  filled by more than one trade.
\<close>

subsection \<open>The effect of a settled trade on the stored orders\<close>

text \<open>\<open>o'\<close> is \<open>o\<close> with another remaining quantity and status.\<close>

definition progress :: "order \<Rightarrow> order \<Rightarrow> bool" where
  "progress ord ord' \<longleftrightarrow>
     ord' = ord\<lparr>mRemainingQuantity := mRemainingQuantity ord', mOrderStatus := mOrderStatus ord'\<rparr>"

definition keep :: "order \<Rightarrow> order option" where
  "keep ord = (if mRemainingQuantity ord = 0 then None else Some ord)"

lemma progress_refl [simp]: "progress ord ord"
  by (simp add: progress_def)

lemma progress_id: "progress ord ord' \<Longrightarrow> mCoreOrderId ord' = mCoreOrderId ord"
  by (metis progress_def order.select_convs(2) order.surjective order.update_convs(10,13))

lemma progress_fill: "progress ord (fill f ord)"
  by (simp add: progress_def fill_def Let_def)

lemma progress_taker: "progress inc (taker_final h inc b)"
  by (simp add: progress_def taker_final_def final_status_def order_setters taker_after_def)

lemma abs_update:
  "M (mCoreOrderId ord') = Some ord \<Longrightarrow> progress ord ord' \<Longrightarrow>
     abs_task (UpdateOrder ord') M = M(mCoreOrderId ord' \<mapsto> ord')"
  by (simp add: progress_def)

lemma tasks_settle_log:
  "tasks_of (settle_log e post t buy sell) =
     (if post then [AddTrade t] else []) @ [UpdateOrder buy, UpdateOrder sell]
     @ (if mRemainingQuantity buy = 0 then [RemoveOrder (mCoreOrderId buy)] else [])
     @ (if mRemainingQuantity sell = 0 then [RemoveOrder (mCoreOrderId sell)] else [])"
  by (simp add: settle_log_def stored_def drop_log_def)

lemma abs_settle_log:
  assumes fin: "M (mCoreOrderId fin) = Some o1" "progress o1 fin"
    and mk: "M (mCoreOrderId mk) = Some o2" "progress o2 mk"
    and ne: "mCoreOrderId fin \<noteq> mCoreOrderId mk"
  shows "fold abs_task (tasks_of (settle_log e post t (buy_of fin mk) (sell_of fin mk))) M =
     M(mCoreOrderId fin := keep fin, mCoreOrderId mk := keep mk)"
  using assms
  by (cases "mOrderSide fin")
    (simp_all add: tasks_settle_log buy_of_def sell_of_def abs_update keep_def fun_upd_twist
      del: abs_task.simps(3))

lemma abs_matched_log:
  assumes "mRemainingQuantity fin \<noteq> 0" and "M (mCoreOrderId fin) = Some o1" and "progress o1 fin"
    and "\<forall>(x, f)\<in>set fs. \<exists>o2. M (mCoreOrderId (order_at h x)) = Some o2 \<and> progress o2 (order_at h x)
           \<and> mCoreOrderId (order_at h x) \<noteq> mCoreOrderId fin"
    and "distinct (map (\<lambda>(x, f). mCoreOrderId (order_at h x)) fs)" and "length ts = length fs"
  shows "let M' = fold abs_task (tasks_of (matched_log e post h fin ts fs)) M in
     (\<forall>(x, f)\<in>set fs. M' (mCoreOrderId (order_at h x)) = keep (order_at h x)) \<and>
     M' (mCoreOrderId fin) = (if fs = [] then Some o1 else Some fin) \<and>
     (\<forall>j. j \<noteq> mCoreOrderId fin \<and> (\<forall>(x, f)\<in>set fs. mCoreOrderId (order_at h x) \<noteq> j) \<longrightarrow> M' j = M j)"
  using assms
proof (induction fs arbitrary: ts M o1)
  case Nil
  then show ?case by (simp add: matched_log_def)
next
  case (Cons xf fs)
  obtain x f where xf: "xf = (x, f)" by fastforce
  obtain t ts' where ts: "ts = t # ts'" using Cons.prems(6) by (cases ts) auto
  let ?mk = "order_at h x" and ?i = "mCoreOrderId fin"
  obtain o2 where mk: "M (mCoreOrderId ?mk) = Some o2" "progress o2 ?mk" "mCoreOrderId ?mk \<noteq> ?i"
    using Cons.prems(4) by (auto simp: xf)
  let ?M1 = "M(?i := keep fin, mCoreOrderId ?mk := keep ?mk)"
  have fold: "fold abs_task (tasks_of (matched_log e post h fin ts (xf # fs))) M =
      fold abs_task (tasks_of (matched_log e post h fin ts' fs)) ?M1"
    using abs_settle_log [OF Cons.prems(2,3) mk(1,2), of e post t] mk(3)
    by (simp add: matched_log_def ts xf)
  have fin: "?M1 ?i = Some fin" using Cons.prems(1) mk(3) by (simp add: keep_def)
  have others: "\<forall>(y, g)\<in>set fs. \<exists>o2. ?M1 (mCoreOrderId (order_at h y)) = Some o2
      \<and> progress o2 (order_at h y) \<and> mCoreOrderId (order_at h y) \<noteq> ?i"
  proof clarify
    fix y g assume y: "(y, g) \<in> set fs"
    then have "mCoreOrderId (order_at h y) \<noteq> mCoreOrderId ?mk"
      using Cons.prems(5) by (force simp: xf)
    then show "\<exists>o2. ?M1 (mCoreOrderId (order_at h y)) = Some o2
      \<and> progress o2 (order_at h y) \<and> mCoreOrderId (order_at h y) \<noteq> ?i"
      using Cons.prems(4) y by auto
  qed
  note IH = Cons.IH [OF Cons.prems(1) fin progress_refl others, of ts']
  have tail: "\<forall>(y, g)\<in>set fs. mCoreOrderId (order_at h y) \<noteq> mCoreOrderId ?mk"
    using Cons.prems(5) by (force simp: xf)
  show ?case
    unfolding fold Let_def
  proof (intro conjI ballI allI impI)
    note IH' = IH [unfolded Let_def]
    have len: "length ts' = length fs" and dist: "distinct (map (\<lambda>(x, f). mCoreOrderId (order_at h x)) fs)"
      using Cons.prems(5,6) by (simp_all add: ts)
    note R = IH' [OF dist len]
    let ?M' = "fold abs_task (tasks_of (matched_log e post h fin ts' fs)) ?M1"
    have at_mk: "?M' (mCoreOrderId ?mk) = keep ?mk" using R tail mk(3) by (auto simp: keep_def)
    fix yg assume "yg \<in> set (xf # fs)"
    then show "case yg of (y, g) \<Rightarrow> ?M' (mCoreOrderId (order_at h y)) = keep (order_at h y)"
      using R at_mk by (auto simp: xf)
  next
    have len: "length ts' = length fs" and dist: "distinct (map (\<lambda>(x, f). mCoreOrderId (order_at h x)) fs)"
      using Cons.prems(5,6) by (simp_all add: ts)
    show "fold abs_task (tasks_of (matched_log e post h fin ts' fs)) ?M1 ?i =
        (if xf # fs = [] then Some o1 else Some fin)"
      using IH [unfolded Let_def, OF dist len] by (simp split: if_splits)
  next
    have len: "length ts' = length fs" and dist: "distinct (map (\<lambda>(x, f). mCoreOrderId (order_at h x)) fs)"
      using Cons.prems(5,6) by (simp_all add: ts)
    fix j assume j: "j \<noteq> ?i \<and> (\<forall>(x, f)\<in>set (xf # fs). mCoreOrderId (order_at h x) \<noteq> j)"
    then show "fold abs_task (tasks_of (matched_log e post h fin ts' fs)) ?M1 j = M j"
      using IH [unfolded Let_def, OF dist len] by (auto simp: xf)
  qed
qed

subsection \<open>A new order\<close>

lemma held_drop_ids:
  assumes "manager_inv m"
  shows "held (drop_ids I m) j = (if j \<in> I then None else held m j)"
proof (cases "mOrderMap m j")
  case (Some a)
  then have "(\<exists>i\<in>I. mOrderMap m i = Some a) \<longleftrightarrow> j \<in> I"
    using manager_inv_inj [OF assms] by blast
  then show ?thesis using Some by (simp add: held_def)
qed (simp add: held_def)

text \<open>The tasks queued between two states of a worker.\<close>

definition new_tasks :: "worker \<Rightarrow> worker \<Rightarrow> db_task list" where
  "new_tasks s s' = drop (length (tasks_of (w_log s))) (tasks_of (w_log s'))"

lemma new_tasks_eq: "tasks_of (w_log s') = tasks_of (w_log s) @ ts \<Longrightarrow> new_tasks s s' = ts"
  by (simp add: new_tasks_def)

lemma w_log_simps [simp]:
  "w_log (rest_state a ord s) = w_log s @ [EvIncremental
     (book_refresh (mBookSymbol (w_book s)) MDNew ord (mTimestamp ord))]"
  "w_log (remove_everywhere i s) = w_log s @ [EvDb (RemoveOrder i)]"
  "w_log (admitted_state e ord s) = w_log s @ EvDb (SaveOrder ord)
     # map EvReport (publishExecution (has_callback e) ord ''NEW'')"
  by (simp_all add: rest_state_def remove_everywhere_def admitted_state_def)

lemma w_log_matched:
  "w_log (matched_state e post a inc s) = w_log s @ trade_loop_log e post
     (heap_after (w_heap s) a inc (w_book s)) (taker_final (w_heap s) inc (w_book s))
     (trades_of (clk e) (w_heap s) inc (w_tid s) (w_ticks s) (book_fills (w_heap s) inc (w_book s)))
     (book_fills (w_heap s) inc (w_book s))"
  by (simp add: matched_state_def Let_def)

lemma length_trades_of [simp]: "length (trades_of c h inc tid ticks fs) = length fs"
  by (induction c h inc tid ticks fs rule: trades_of.induct) (simp_all add: Let_def)

text \<open>
  The single condition: a filled incoming order was filled by one trade. All the trades then
  settle, and the log of the trade loop has no skipped trade.
\<close>

definition one_trade_if_filled :: "heap \<Rightarrow> order \<Rightarrow> order_book \<Rightarrow> bool" where
  "one_trade_if_filled h inc b \<longleftrightarrow>
     (book_unfilled h inc b = 0 \<longrightarrow> length (book_fills h inc b) \<le> 1)"

lemma settled_all:
  assumes "one_trade_if_filled h inc b"
  shows "settled (taker_final h inc b) (book_fills h inc b) = book_fills h inc b"
  using assms by (auto simp: settled_def one_trade_if_filled_def)

lemma singleton_list: "length xs \<le> 1 \<Longrightarrow> xs \<noteq> [] \<Longrightarrow> \<exists>x. xs = [x]"
  by (cases xs) auto

text \<open>The match and its trade loop, on the orders held.\<close>

lemma store_after_match:
  fixes e :: env and post :: bool
  assumes inv: "worker_inv s" and a: "w_heap s a = Some inc" "a \<notin> book_addrs (w_book s)"
    and own: "w_own s (mCoreOrderId inc) = Some a" and one: "one_trade_if_filled (w_heap s) inc (w_book s)"
  defines "s' \<equiv> matched_state e post a inc s"
  shows "fold abs_task (new_tasks s s') (held (w_mgr s)) j =
     (if j = mCoreOrderId inc \<and> book_fills (w_heap s) inc (w_book s) = [] then Some inc
      else held (w_mgr s') j)"
proof -
  let ?h = "w_heap s" and ?b = "w_book s" and ?i = "mCoreOrderId inc"
  let ?fs = "book_fills ?h inc ?b" and ?h' = "heap_after ?h a inc ?b" and ?fin = "taker_final ?h inc ?b"
  let ?ts = "trades_of (clk e) ?h inc (w_tid s) (w_ticks s) ?fs"
  have ok: "book_ok ?h (w_own s) ?b" and m: "manager_inv (w_mgr s)"
    using inv by (simp_all add: worker_inv_def)
  have m': "manager_inv ((w_mgr s)\<lparr>heap := ?h'\<rparr>)"
    by (rule manager_inv_heap [OF m]) (simp add: heap_after_ids [of ?h a inc ?b] a(1))
  have tasks: "new_tasks s s' = tasks_of (matched_log e post ?h' ?fin ?ts ?fs)"
    by (rule new_tasks_eq)
      (simp add: s'_def w_log_matched trade_loop_log_def settled_all [OF one])
  have maker: "\<exists>mk. ?h x = Some mk \<and> w_own s (mCoreOrderId mk) = Some x \<and> x \<noteq> a \<and>
      order_at ?h' x = fill f mk \<and> mCoreOrderId mk \<noteq> ?i \<and> ?h' x = Some (fill f mk)"
    if x: "(x, f) \<in> set ?fs" for x f
  proof -
    obtain mk where mk: "?h x = Some mk" "w_own s (mCoreOrderId mk) = Some x" "x \<in> book_addrs ?b"
      by (rule book_fills_maker [OF ok x])
    have "x \<noteq> a" using mk(3) a(2) by blast
    moreover have "map_of ?fs x = Some f" using x book_fills_distinct [OF ok] by simp
    moreover have "mCoreOrderId mk \<noteq> ?i" using mk(2) own \<open>x \<noteq> a\<close> by auto
    ultimately show ?thesis using mk by (simp add: heap_after_other order_at_def)
  qed
  have held_i: "held (w_mgr s) ?i = Some inc" using own a(1) by (simp add: held_def)
  have makers: "\<forall>(x, f)\<in>set ?fs. \<exists>o2. held (w_mgr s) (mCoreOrderId (order_at ?h' x)) = Some o2
      \<and> progress o2 (order_at ?h' x) \<and> mCoreOrderId (order_at ?h' x) \<noteq> mCoreOrderId ?fin"
    using maker by (fastforce simp: held_def progress_fill)
  have ids: "distinct (map (\<lambda>(x, f). mCoreOrderId (order_at ?h' x)) ?fs)"
  proof -
    have "inj_on (\<lambda>(x, f). mCoreOrderId (order_at ?h' x)) (set ?fs)"
    proof (rule inj_onI, clarify)
      fix x f y g assume xy: "(x, f) \<in> set ?fs" "(y, g) \<in> set ?fs"
        "mCoreOrderId (order_at ?h' x) = mCoreOrderId (order_at ?h' y)"
      then have "x = y" using maker [OF xy(1)] maker [OF xy(2)] by auto
      moreover have "f = g"
        using xy(1,2) book_fills_distinct [OF ok, of inc] calculation
        by (metis map_of_is_SomeI option.inject)
      ultimately show "x = y \<and> f = g" by simp
    qed
    moreover have "distinct ?fs" using book_fills_distinct [OF ok] by (simp add: distinct_map)
    ultimately show ?thesis by (simp add: distinct_map)
  qed
  have held': "held (w_mgr s') j = (if j \<in> dropped_ids ?h' ?fin ?fs then None
      else Option.bind (w_own s j) ?h')" for j
    using held_drop_ids [OF m'] by (simp add: s'_def held_def)
  have dropped: "dropped_ids ?h' ?fin ?fs = emptied_ids ?h' ?fs \<union>
      (if book_unfilled ?h inc ?b = 0 \<and> ?fs \<noteq> [] then {?i} else {})"
    by (simp add: dropped_ids_def settled_all [OF one])
  have i_not: "?i \<notin> emptied_ids ?h' ?fs" using maker by (fastforce simp: emptied_ids_def)
  have maker_held: "held (w_mgr s') (mCoreOrderId (order_at ?h' x)) = keep (order_at ?h' x)"
    if x: "(x, f) \<in> set ?fs" for x f
  proof -
    obtain mk where mk: "w_own s (mCoreOrderId mk) = Some x" "order_at ?h' x = fill f mk"
        "mCoreOrderId mk \<noteq> ?i" "?h' x = Some (fill f mk)"
      using maker [OF x] by blast
    have "mCoreOrderId mk \<in> emptied_ids ?h' ?fs \<longleftrightarrow> mRemainingQuantity (order_at ?h' x) = 0"
    proof
      assume "mCoreOrderId mk \<in> emptied_ids ?h' ?fs"
      then obtain y g where y: "(y, g) \<in> set ?fs" "mRemainingQuantity (order_at ?h' y) = 0"
          "mCoreOrderId (order_at ?h' y) = mCoreOrderId mk"
        by (auto simp: emptied_ids_def)
      then have "y = x" using maker [OF y(1)] mk(1) by auto
      then show "mRemainingQuantity (order_at ?h' x) = 0" using y(2) by simp
    next
      assume "mRemainingQuantity (order_at ?h' x) = 0"
      then show "mCoreOrderId mk \<in> emptied_ids ?h' ?fs"
        unfolding emptied_ids_def using x mk(2) by force
    qed
    then show ?thesis using mk unfolding held' dropped by (simp add: keep_def)
  qed
  have other: "held (w_mgr s') j = held (w_mgr s) j"
    if "j \<noteq> ?i" "\<forall>(x, f)\<in>set ?fs. mCoreOrderId (order_at ?h' x) \<noteq> j" for j
  proof (cases "w_own s j")
    case None
    then show ?thesis unfolding held' by (simp add: held_def)
  next
    case (Some x)
    have "x \<noteq> a" using Some own that(1) worker_inv_own_inj [OF inv] by blast
    have "x \<notin> fst ` set ?fs"
    proof
      assume "x \<in> fst ` set ?fs"
      then obtain f where f: "(x, f) \<in> set ?fs" by auto
      then obtain mk where "w_own s (mCoreOrderId mk) = Some x" "order_at ?h' x = fill f mk"
        using maker by blast
      then show False using that(2) f Some worker_inv_own_inj [OF inv] by fastforce
    qed
    then have "?h' x = ?h x" using \<open>x \<noteq> a\<close> by (simp add: heap_after_other map_of_eq_None_iff [THEN iffD2])
    moreover have "j \<notin> dropped_ids ?h' ?fin ?fs"
      unfolding dropped using that by (auto simp: emptied_ids_def)
    ultimately show ?thesis unfolding held' using Some by (simp add: held_def)
  qed
  let ?M' = "fold abs_task (tasks_of (matched_log e post ?h' ?fin ?ts ?fs)) (held (w_mgr s))"
  have result: "(\<forall>(x, f)\<in>set ?fs. ?M' (mCoreOrderId (order_at ?h' x)) = keep (order_at ?h' x)) \<and>
     ?M' ?i = (if ?fs = [] then Some inc else keep ?fin) \<and>
     (\<forall>j. j \<noteq> ?i \<and> (\<forall>(x, f)\<in>set ?fs. mCoreOrderId (order_at ?h' x) \<noteq> j) \<longrightarrow>
        ?M' j = held (w_mgr s) j)"
  proof (cases "book_unfilled ?h inc ?b = 0 \<and> ?fs \<noteq> []")
    case False
    then have "?fs = [] \<or> mRemainingQuantity ?fin \<noteq> 0" by auto
    then show ?thesis
    proof
      assume "mRemainingQuantity ?fin \<noteq> 0"
      then show ?thesis
        using abs_matched_log [OF _ _ progress_taker makers ids, where ts = ?ts and e = e and post = post] held_i
        by (simp add: Let_def keep_def split: if_splits)
    qed (simp add: matched_log_def held_i)
  next
    case True
    then have len: "length ?fs \<le> 1" using one by (simp add: one_trade_if_filled_def)
    then obtain x f where fs: "?fs = [(x, f)]"
      using singleton_list [OF len] True by auto
    obtain t where t: "?ts = [t]"
      using singleton_list [of ?ts] len True by (metis length_0_conv length_trades_of)
    let ?mk = "order_at ?h' x"
    obtain o2 where o2: "held (w_mgr s) (mCoreOrderId ?mk) = Some o2" "progress o2 ?mk"
        "mCoreOrderId ?mk \<noteq> mCoreOrderId ?fin"
      using makers by (auto simp: fs)
    have "matched_log e post ?h' ?fin ?ts ?fs =
        settle_log e post t (buy_of ?fin ?mk) (sell_of ?fin ?mk)"
      unfolding t unfolding fs by (simp add: matched_log_def)
    then have "?M' = (held (w_mgr s))(mCoreOrderId ?fin := keep ?fin, mCoreOrderId ?mk := keep ?mk)"
      using abs_settle_log [of "held (w_mgr s)" ?fin inc ?mk o2 e post t] o2 held_i progress_taker
      by (simp only: taker_final_simps simp_thms)
    then show ?thesis using o2(3) by (auto simp: fs)
  qed
  show ?thesis
  proof (cases "j = ?i")
    case True
    have "held (w_mgr s') ?i = (if book_unfilled ?h inc ?b = 0 \<and> ?fs \<noteq> [] then None else Some ?fin)"
      unfolding held' dropped using i_not own by simp
    moreover have "?fs = [] \<Longrightarrow> book_unfilled ?h inc ?b = mRemainingQuantity inc"
      by (simp add: book_fills_def book_unfilled_def fills_Nil_unfilled)
    ultimately show ?thesis using True result unfolding tasks by (auto simp: keep_def)
  next
    case False
    show ?thesis
    proof (cases "\<exists>(x, f)\<in>set ?fs. mCoreOrderId (order_at ?h' x) = j")
      case True
      then show ?thesis using False result maker_held unfolding tasks by auto
    next
      case no: False
      then have no': "\<forall>(x, f)\<in>set ?fs. mCoreOrderId (order_at ?h' x) \<noteq> j" by auto
      then have "?M' j = held (w_mgr s) j" using False result by blast
      then show ?thesis using False other [OF False no'] unfolding tasks by simp
    qed
  qed
qed

lemma worker_inv_matched:
  assumes inv: "worker_inv s" and a: "w_heap s a = Some inc" "a \<notin> book_addrs (w_book s)"
    and own: "w_own s (mCoreOrderId inc) = Some a"
  shows "worker_inv (matched_state e post a inc s)"
proof -
  have ok: "book_ok (w_heap s) (w_own s) (w_book s)" using inv by (simp add: worker_inv_def)
  let ?ts = "trades_of (clk e) (w_heap s) inc (w_tid s) (w_ticks s) (book_fills (w_heap s) inc (w_book s))"
  obtain s3 where s3: "run_match e a s = Some (?ts, s3)" "worker_inv s3"
    using run_match_ok [OF inv a, of e] by blast
  obtain s4 where s4: "settle_trades e post ?ts s3 = Some s4" "worker_inv s4"
    using settle_trades_ok [OF s3(2) trades_of_ids [OF ok own a(2)]] by blast
  have "Some s4 = Some (matched_state e post a inc s)"
    using match_and_settle [OF inv a own, of e post] s3(1) s4(1) by simp
  then show ?thesis using s4(2) by simp
qed

lemma held_admit:
  assumes "manager_inv m" and "mOrderMap m (mCoreOrderId ord) = None"
  shows "held (admit ord m) = (held m)(mCoreOrderId ord \<mapsto> ord)"
proof
  fix j
  have "mOrderMap m j \<noteq> Some (next_addr m)" by (rule manager_inv_fresh_map [OF assms(1)])
  then show "held (admit ord m) j = ((held m)(mCoreOrderId ord \<mapsto> ord)) j"
    by (cases "mOrderMap m j") (auto simp: held_def)
qed

lemma held_remove_everywhere:
  "manager_inv (w_mgr s) \<Longrightarrow>
     held (w_mgr (remove_everywhere i s)) j = (if j = i then None else held (w_mgr s) j)"
  using held_remove by (simp add: remove_everywhere_def)

lemma held_rest [simp]: "held (w_mgr (rest_state a ord s)) = held (w_mgr s)"
  by (simp add: rest_state_def)

lemma new_tasks_new_order:
  "new_tasks s (new_order_state e ord s) =
     SaveOrder ord #
     new_tasks (admitted_state e ord s)
       (matched_state e True (next_addr (w_mgr s)) ord (admitted_state e ord s))
     @ (if mOrderType ord = Market \<and>
           containsOrderById (mCoreOrderId ord)
             (w_mgr (matched_state e True (next_addr (w_mgr s)) ord (admitted_state e ord s)))
        then [RemoveOrder (mCoreOrderId ord)] else [])"
  by (auto simp: new_tasks_def new_order_state_def Let_def w_log_matched simp del: matched_state_simps
      split del: if_split split: if_splits)

theorem store_new_order:
  assumes inv: "worker_inv s" and fresh: "w_own s (mCoreOrderId ord) = None"
    and qty: "mRemainingQuantity ord \<noteq> 0" and type: "mOrderType ord = Limit \<or> mOrderType ord = Market"
    and one: "one_trade_if_filled (w_heap (admitted_state e ord s)) ord (w_book s)"
  shows "fold abs_task (new_tasks s (new_order_state e ord s)) (held (w_mgr s)) =
           held (w_mgr (new_order_state e ord s))"
proof
  fix j
  let ?i = "mCoreOrderId ord" and ?a = "next_addr (w_mgr s)" and ?s2 = "admitted_state e ord s"
  let ?s4 = "matched_state e True ?a ord ?s2"
  let ?fs = "book_fills (w_heap ?s2) ord (w_book s)"
  have m: "manager_inv (w_mgr s)" using inv by (simp add: worker_inv_def)
  have inv2: "worker_inv ?s2" by (rule admitted_ok(1) [OF inv fresh])
  have h2: "w_heap ?s2 ?a = Some ord" "?a \<notin> book_addrs (w_book ?s2)" "w_own ?s2 ?i = Some ?a"
    using admitted_ok(2) [OF inv fresh] by simp_all
  have m4: "manager_inv (w_mgr ?s4)"
    using worker_inv_matched [OF inv2 h2] by (simp only: worker_inv_def)
  have "held (w_mgr s) ?i = None" using fresh by (simp add: held_def)
  then have save: "abs_task (SaveOrder ord) (held (w_mgr s)) = held (w_mgr ?s2)"
    using held_admit [OF m fresh] by simp
  note match = store_after_match [OF inv2 h2, of e True]
  have M: "fold abs_task (new_tasks ?s2 ?s4) (held (w_mgr ?s2)) j =
      (if j = ?i \<and> ?fs = [] then Some ord else held (w_mgr ?s4) j)" for j
    using match [of j] one by (simp del: matched_state_simps)
  have none: "held (w_mgr ?s4) ?i = Some (final_status ord)" if "?fs = []"
    using that
    by (simp add: held_def dropped_ids_def settled_def emptied_ids_def taker_final_def taker_after_def)
  have fold: "fold abs_task (new_tasks s (new_order_state e ord s)) (held (w_mgr s)) =
      (if mOrderType ord = Market \<and> containsOrderById ?i (w_mgr ?s4)
       then (fold abs_task (new_tasks ?s2 ?s4) (held (w_mgr ?s2)))(?i := None)
       else fold abs_task (new_tasks ?s2 ?s4) (held (w_mgr ?s2)))"
    unfolding new_tasks_new_order using save by (simp del: matched_state_simps abs_task.simps(1))
  have held': "held (w_mgr (new_order_state e ord s)) j =
      (if mOrderType ord = Market \<and> containsOrderById ?i (w_mgr ?s4) \<and> j = ?i then None
       else held (w_mgr ?s4) j)"
    using type held_remove_everywhere [OF m4]
    by (auto simp: new_order_state_def Let_def simp del: matched_state_simps)
  show "fold abs_task (new_tasks s (new_order_state e ord s)) (held (w_mgr s)) j =
      held (w_mgr (new_order_state e ord s)) j"
  proof (cases "mOrderType ord = Market \<and> containsOrderById ?i (w_mgr ?s4)")
    case True
    then show ?thesis unfolding fold held' using M by simp
  next
    case False
    have "held (w_mgr ?s4) ?i = Some ord" if "?fs = []"
    proof -
      have "containsOrderById ?i (w_mgr ?s4)"
        using none [OF that] held_None_iff [OF m4, of ?i] by simp
      then have "mOrderType ord = Limit" using False type by blast
      then show ?thesis using none [OF that] qty by (simp add: final_status_def)
    qed
    then show ?thesis unfolding fold held' using False M by auto
  qed
qed

text \<open>A cancelled order leaves the table with the manager.\<close>

theorem store_cancelled:
  assumes inv: "worker_inv s"
  shows "fold abs_task (new_tasks s (cancelled_state e i a ord s)) (held (w_mgr s)) =
           held (w_mgr (cancelled_state e i a ord s))"
proof
  fix j
  have m: "manager_inv (w_mgr s)" using inv by (simp add: worker_inv_def)
  let ?s1 = "emit (EvIncremental (book_refresh (mBookSymbol (w_book s)) MDDelete ord (clk e (w_ticks s)))
              # map EvReport (publishExecution (has_callback e) ord ''CANCELED''))
          (s\<lparr>w_book := book_remove a (w_book s), w_ticks := w_ticks s + 1\<rparr>)"
  have "held (w_mgr (remove_everywhere i ?s1)) j = (if j = i then None else held (w_mgr ?s1) j)"
    by (rule held_remove_everywhere) (simp add: m)
  then show "fold abs_task (new_tasks s (cancelled_state e i a ord s)) (held (w_mgr s)) j =
      held (w_mgr (cancelled_state e i a ord s)) j"
    by (simp add: cancelled_state_def new_tasks_def)
qed

subsection \<open>A replaced order\<close>

lemma w_log_replaced:
  "tasks_of (w_log (replaced_state e i a ord p q s)) =
     tasks_of (w_log s) @ [RemoveOrder i, SaveOrder (replaced p q ord)]"
  by (simp add: replaced_state_def Let_def)

lemma new_tasks_modified:
  "new_tasks s (modified_state e i a ord p q s) =
     RemoveOrder i # SaveOrder (replaced p q ord) #
     new_tasks (replaced_state e i a ord p q s)
       (matched_state e False a (replaced p q ord) (replaced_state e i a ord p q s))
     @ (if containsOrderById i (w_mgr (matched_state e False a (replaced p q ord)
             (replaced_state e i a ord p q s))) \<and>
           book_unfilled (w_heap (replaced_state e i a ord p q s)) (replaced p q ord)
             (w_book (replaced_state e i a ord p q s)) = 0
        then [RemoveOrder i] else [])"
  unfolding modified_state_def Let_def
  by (auto simp: new_tasks_def w_log_matched w_log_replaced
      simp del: matched_state_simps replaced_state_simps)

theorem store_modified:
  assumes inv: "worker_inv s" and a: "w_own s i = Some a" "w_heap s a = Some ord"
    and type: "mOrderType ord = Limit"
    and one: "one_trade_if_filled (w_heap (replaced_state e i a ord p q s)) (replaced p q ord)
                (w_book (replaced_state e i a ord p q s))"
  shows "fold abs_task (new_tasks s (modified_state e i a ord p q s)) (held (w_mgr s)) =
           held (w_mgr (modified_state e i a ord p q s))"
proof
  fix j
  let ?s3 = "replaced_state e i a ord p q s" and ?ord = "replaced p q ord"
  let ?s5 = "matched_state e False a ?ord ?s3"
  let ?fs = "book_fills (w_heap ?s3) ?ord (w_book ?s3)"
  let ?left = "book_unfilled (w_heap ?s3) ?ord (w_book ?s3)"
  have i: "mCoreOrderId ord = i" using worker_inv_live [OF inv a(1)] a(2) by auto
  have inv3: "worker_inv ?s3" by (rule replaced_ok(1) [OF inv a])
  have h3: "w_heap ?s3 a = Some ?ord" "a \<notin> book_addrs (w_book ?s3)" "w_own ?s3 (mCoreOrderId ?ord) = Some a"
    using replaced_ok(2) [OF inv a] a i by simp_all
  have m5: "manager_inv (w_mgr ?s5)"
    using worker_inv_matched [OF inv3 h3] by (simp only: worker_inv_def)
  have "fold abs_task [RemoveOrder i, SaveOrder ?ord] (held (w_mgr s)) = held (w_mgr ?s3)"
  proof
    fix j
    have "w_own s j \<noteq> Some a" if "j \<noteq> i" using that a(1) worker_inv_own_inj [OF inv] by blast
    then show "fold abs_task [RemoveOrder i, SaveOrder ?ord] (held (w_mgr s)) j = held (w_mgr ?s3) j"
      using a(1) i by (cases "w_own s j") (auto simp: held_def)
  qed
  then have fold: "fold abs_task (new_tasks s (modified_state e i a ord p q s)) (held (w_mgr s)) =
      (if containsOrderById i (w_mgr ?s5) \<and> ?left = 0
       then (fold abs_task (new_tasks ?s3 ?s5) (held (w_mgr ?s3)))(i := None)
       else fold abs_task (new_tasks ?s3 ?s5) (held (w_mgr ?s3)))"
    unfolding new_tasks_modified by (simp del: matched_state_simps replaced_state_simps)
  have M: "fold abs_task (new_tasks ?s3 ?s5) (held (w_mgr ?s3)) j =
      (if j = i \<and> ?fs = [] then Some ?ord else held (w_mgr ?s5) j)" for j
    using store_after_match [OF inv3 h3 one, of e False j] i
    by (simp del: matched_state_simps replaced_state_simps)
  have held': "held (w_mgr (modified_state e i a ord p q s)) j =
      (if containsOrderById i (w_mgr ?s5) \<and> ?left = 0 \<and> j = i then None
       else held (w_mgr ?s5) j)"
    using held_remove_everywhere [OF m5] unfolding modified_state_def Let_def
    by (auto simp del: matched_state_simps replaced_state_simps)
  have none: "held (w_mgr ?s5) i = Some (final_status ?ord) \<and> ?left = q" if "?fs = []"
    using that h3(3) i
    by (simp add: held_def dropped_ids_def settled_def emptied_ids_def taker_final_def taker_after_def
        book_fills_def book_unfilled_def fills_Nil_unfilled)
  show "fold abs_task (new_tasks s (modified_state e i a ord p q s)) (held (w_mgr s)) j =
      held (w_mgr (modified_state e i a ord p q s)) j"
  proof (cases "containsOrderById i (w_mgr ?s5) \<and> ?left = 0")
    case True
    then show ?thesis unfolding fold held' using M by simp
  next
    case False
    have "held (w_mgr ?s5) i = Some ?ord" if "?fs = []"
    proof -
      have "containsOrderById i (w_mgr ?s5)"
        using none [OF that] held_None_iff [OF m5, of i] by simp
      then have "q \<noteq> 0" using False none [OF that] by simp
      then show ?thesis using none [OF that] type by (simp add: final_status_def)
    qed
    then show ?thesis unfolding fold held' using False M by auto
  qed
qed

end
