(* ===== verification/EngineProperties.thy ===== *)
theory EngineProperties
  imports WorkerProperties WorkerStore
begin

text \<open>
  The theorems about the matching engine of one partition, each with a concrete instance.
\<close>

subsection \<open>A concrete partition\<close>

text \<open>A clock that counts, and a few orders on EURUSD.\<close>

definition demo_env :: env where
  "demo_env = \<lparr>clk = (\<lambda>n. int n), has_callback = True\<rparr>"

definition demo_order :: "u64 \<Rightarrow> string \<Rightarrow> order_side \<Rightarrow> order_type \<Rightarrow> u64 \<Rightarrow> rat \<Rightarrow> order" where
  "demo_order i trader sd ty q p = mk_order ''c'' i EURUSD ''7'' trader sd ty DAY q (Fin p) 0"

definition demo_new :: "order \<Rightarrow> command" where
  "demo_new ord = NewOrder ''7'' 0 ord"

lemmas demo_defs = demo_env_def demo_order_def demo_new_def mk_order_def


definition demo_batch :: "command list" where
  "demo_batch = [demo_new (demo_order 1 ''alice'' Sell Limit 10 100),
     demo_new (demo_order 2 ''bob'' Sell Limit 10 101),
     demo_new (demo_order 3 ''carol'' Buy Limit 15 101)]"

text \<open>A heap and a book with two resting offers, and an incoming order at address 9.\<close>

definition demo_heap :: heap where
  "demo_heap = [1 \<mapsto> demo_order 1 ''alice'' Sell Limit 10 100,
     2 \<mapsto> demo_order 2 ''bob'' Sell Limit 10 101, 9 \<mapsto> demo_order 3 ''carol'' Buy Limit 15 101]"

definition demo_book :: order_book where
  "demo_book = (empty_book EURUSD)\<lparr>mAskMap := [(Fin 100, [1]), (Fin 101, [2])]\<rparr>"

definition demo_own :: "u64 \<Rightarrow> addr option" where
  "demo_own = [1 \<mapsto> 1, 2 \<mapsto> 2, 3 \<mapsto> 9]"

lemma demo_book_ok: "book_ok demo_heap demo_own demo_book"
  by (simp add: book_ok_def side_ok_def rests_def demo_heap_def demo_own_def demo_book_def
      demo_order_def mk_order_def empty_book_def)

lemma demo_taker:
  "demo_heap 9 = Some (demo_order 3 ''carol'' Buy Limit 15 101)" "9 \<notin> book_addrs demo_book"
  by (simp_all add: demo_heap_def demo_book_def book_addrs_def empty_book_def)

subsection \<open>What the fills are\<close>

lemma fills_prefix: "map fst (fills h q l) = take (length (fills h q l)) l"
proof -
  obtain n where n: "map fst (fills h q l) = take n l" using fst_fills by blast
  then have "length (fills h q l) = min n (length l)" by (metis length_map length_take min.commute)
  then show ?thesis using n by (simp add: min_def)
qed

lemma fills_complete:
  "Suc k < length (fills h q l) \<Longrightarrow>
     snd (fills h q l ! k) = mRemainingQuantity (order_at h (fst (fills h q l ! k)))"
proof (induction l arbitrary: q k)
  case (Cons b l)
  let ?r = "mRemainingQuantity (order_at h b)" and ?f = "min q (mRemainingQuantity (order_at h b))"
  have q: "q \<noteq> 0" using Cons.prems by auto
  then have eq: "fills h q (b # l) = (b, ?f) # fills h (q - ?f) l" by (simp add: Let_def)
  show ?case
  proof (cases k)
    case 0
    have "fills h (q - ?f) l \<noteq> []" using Cons.prems unfolding eq by auto
    then have "q - ?f \<noteq> 0" by auto
    then show ?thesis unfolding eq 0 by (auto simp: min_def)
  next
    case (Suc j)
    then show ?thesis using Cons.IH [of j "q - ?f"] Cons.prems unfolding eq by simp
  qed
qed simp

definition maker_id :: "order \<Rightarrow> trade \<Rightarrow> u64" where
  "maker_id inc t = (if mOrderSide inc = Buy then mSellOrderId t else mBuyOrderId t)"

definition taker_id :: "order \<Rightarrow> trade \<Rightarrow> u64" where
  "taker_id inc t = (if mOrderSide inc = Buy then mBuyOrderId t else mSellOrderId t)"

lemma trades_of_nth:
  assumes "k < length fs"
  shows "trades_of c h inc tid ticks fs ! k =
     (let res = order_at h (fst (fs ! k)) in
      \<lparr>mTradeId = tid + of_nat (Suc k), mOrderSymbol = mSymbol inc,
       mBuyOrderId = (if mOrderSide inc = Buy then mCoreOrderId inc else mCoreOrderId res),
       mSellOrderId = (if mOrderSide inc = Buy then mCoreOrderId res else mCoreOrderId inc),
       mQuantity = snd (fs ! k), mTradePrice = mPrice res,
       mTradeTimestamp = c (ticks + k)\<rparr>)"
  using assms
proof (induction fs arbitrary: tid ticks k)
  case (Cons p fs)
  then show ?case by (cases p; cases k) (simp_all add: Let_def algebra_simps)
qed simp

lemma trade_in_trades_of:
  assumes "t \<in> set (trades_of c h inc tid ticks fs)"
  obtains b f where "(b, f) \<in> set fs" "mTradePrice t = mPrice (order_at h b)" "mQuantity t = f"
    "maker_id inc t = mCoreOrderId (order_at h b)" "taker_id inc t = mCoreOrderId inc"
proof -
  obtain k where k: "k < length fs" "t = trades_of c h inc tid ticks fs ! k"
    using assms by (metis in_set_conv_nth length_trades_of)
  show thesis
    by (rule that [of "fst (fs ! k)" "snd (fs ! k)"])
      (use k in \<open>simp_all add: trades_of_nth Let_def maker_id_def taker_id_def\<close>)
qed

lemma trades_of_quantity:
  "sum_list (map (\<lambda>t. unat (mQuantity t)) (trades_of c h inc tid ticks fs)) =
     sum_list (map (unat \<circ> snd) fs)"
  by (induction c h inc tid ticks fs rule: trades_of.induct) (simp_all add: Let_def)

subsection \<open>Matching\<close>

text \<open>
  C2: price-time priority. On a well-formed book the matcher takes the resting orders that
  the incoming order's limit allows in the order of the opposite side, that is best price
  first and, within a price, in order of arrival: the k-th trade is with the k-th of those
  orders, at that order's price, for at most its remaining quantity, and for all of it
  unless it is the last trade. Trade ids are consecutive.
\<close>

theorem match_price_time_priority:
  assumes ok: "book_ok h own b" and a: "h a = Some inc" "a \<notin> book_addrs b"
  defines "q \<equiv> addrs (takeWhile (\<lambda>(p, l). crosses inc p) (opposite inc b))"
  shows "\<exists>ts b' ms. match c a b h tid ticks = Some (ts, b', ms) \<and> length ts \<le> length q \<and>
     (\<forall>k < length ts. maker_id inc (ts ! k) = mCoreOrderId (order_at h (q ! k)) \<and>
        taker_id inc (ts ! k) = mCoreOrderId inc \<and>
        mTradeId (ts ! k) = tid + of_nat (Suc k) \<and>
        mTradePrice (ts ! k) = mPrice (order_at h (q ! k)) \<and>
        mQuantity (ts ! k) \<le> mRemainingQuantity (order_at h (q ! k)) \<and>
        (Suc k < length ts \<longrightarrow> mQuantity (ts ! k) = mRemainingQuantity (order_at h (q ! k)))) \<and>
     keys_sorted (if mOrderSide inc = Buy then dlt else dgt) (opposite inc b)"
proof -
  let ?fs = "book_fills h inc b" and ?ts = "trades_of c h inc tid ticks (book_fills h inc b)"
  have q: "q = eligible inc (opposite inc b)" by (simp add: q_def eligible_def)
  have pre: "map fst ?fs = take (length ?fs) q"
    unfolding q book_fills_def by (rule fills_prefix)
  have len: "length ?fs \<le> length q" using arg_cong [OF pre, of length] by simp
  have at: "fst (?fs ! k) = q ! k" if "k < length ?fs" for k
    using arg_cong [OF pre, of "\<lambda>l. l ! k"] that by simp
  have le: "snd (?fs ! k) \<le> mRemainingQuantity (order_at h (q ! k))" if "k < length ?fs" for k
    using fills_le [of "fst (?fs ! k)" "snd (?fs ! k)" h] at [OF that] nth_mem [OF that]
    by (simp add: book_fills_def)
  have all: "snd (?fs ! k) = mRemainingQuantity (order_at h (q ! k))" if "Suc k < length ?fs" for k
    using fills_complete [of k h "mRemainingQuantity inc" "eligible inc (opposite inc b)"] that at [of k]
    by (simp add: book_fills_def)
  have "keys_sorted (if mOrderSide inc = Buy then dlt else dgt) (opposite inc b)"
    using book_ok_sides [OF ok] by (auto simp: opposite_def side_ok_def)
  then show ?thesis
    using match_spec [OF ok a, of c tid ticks] len at le all
    by (simp add: Let_def trades_of_nth maker_id_def taker_id_def)
qed

theorem match_price_time_priority_demo:
  "\<exists>ts b' ms. match int 9 demo_book demo_heap 0 0 = Some (ts, b', ms) \<and> length ts \<le> 2"
  using match_price_time_priority [OF demo_book_ok demo_taker, of int 0 0]
  by (auto simp: demo_book_def opposite_def demo_order_def mk_order_def crosses_def split: if_splits)

text \<open>
  The limit is respected. When no price involved is NaN, every trade of a limit buy is at
  a price at or below its limit, and every trade of a limit sell at or above it.
\<close>

theorem match_respects_limit:
  assumes ok: "book_ok h own b" and a: "h a = Some inc" "a \<notin> book_addrs b"
    and limit: "mOrderType inc = Limit" "mPrice inc \<noteq> NaN" and nan: "no_nan (opposite inc b)"
    and prices: "\<forall>x\<in>book_addrs b. mPrice (order_at h x) \<noteq> NaN"
    and m: "match c a b h tid ticks = Some (ts, b', ms)"
  shows "\<forall>t\<in>set ts. if mOrderSide inc = Buy then dle (mTradePrice t) (mPrice inc)
                     else dge (mTradePrice t) (mPrice inc)"
proof
  fix t assume "t \<in> set ts"
  then have "t \<in> set (trades_of c h inc tid ticks (book_fills h inc b))"
    using m by (simp add: match_spec [OF ok a] Let_def)
  then obtain x f where x: "(x, f) \<in> set (book_fills h inc b)" and p: "mTradePrice t = mPrice (order_at h x)"
    by (rule trade_in_trades_of)
  have "x \<in> fst ` set (book_fills h inc b)" using x by force
  then have "x \<in> set (eligible inc (opposite inc b))"
    using fst_set_fills unfolding book_fills_def by blast
  then obtain key l where l: "(key, l) \<in> set (takeWhile (\<lambda>(p, l). crosses inc p) (opposite inc b))" "x \<in> set l"
    by (auto simp: eligible_def addrs_def)
  then have kl: "(key, l) \<in> set (opposite inc b)" and cr: "crosses inc key"
    using set_takeWhileD by fastforce+
  have mem: "x \<in> set (addrs (opposite inc b))" using kl l(2) by (force simp: addrs_def)
  have xb: "x \<in> book_addrs b"
    using opposite_ok(4) [OF ok, of inc] mem by blast
  have key: "key \<noteq> NaN" using nan kl by (force simp: no_nan_def)
  have price: "mPrice (order_at h x) \<noteq> NaN" using prices xb by blast
  have rests: "\<not> dlt key (mPrice (order_at h x)) \<and> \<not> dlt (mPrice (order_at h x)) key"
    using book_ok_sides [OF ok] kl l(2)
    by (cases "mOrderSide inc") (force simp: opposite_def side_ok_def rests_def order_at_def dgt_def)+
  have eq: "mTradePrice t = key" using dlt_total [OF key price] rests p by auto
  show "if mOrderSide inc = Buy then dle (mTradePrice t) (mPrice inc)
        else dge (mTradePrice t) (mPrice inc)"
    using cr key limit by (auto simp: crosses_def dgt_def dge_def not_dlt_iff eq)
qed

text \<open>
  The instance of the demo book: the match returns, and its trades are at most at 101.
\<close>

theorem match_respects_limit_demo:
  "\<exists>ts b' ms. match int 9 demo_book demo_heap 0 0 = Some (ts, b', ms) \<and>
     (\<forall>t\<in>set ts. dle (mTradePrice t) (Fin 101))"
proof -
  let ?o = "demo_order 3 ''carol'' Buy Limit 15 101"
  obtain ts b' ms where m: "match int 9 demo_book demo_heap 0 0 = Some (ts, b', ms)"
    using match_spec [OF demo_book_ok demo_taker, of int 0 0] by (auto simp: Let_def)
  have "no_nan (opposite ?o demo_book)"
    by (simp add: no_nan_def opposite_def demo_order_def mk_order_def demo_book_def)
  moreover have "\<forall>x\<in>book_addrs demo_book. mPrice (order_at demo_heap x) \<noteq> NaN"
    by (simp add: book_addrs_def demo_book_def addrs_def empty_book_def demo_heap_def order_at_def
        demo_order_def mk_order_def)
  ultimately have "\<forall>t\<in>set ts. dle (mTradePrice t) (Fin 101)"
    using match_respects_limit [OF demo_book_ok demo_taker _ _ _ _ m]
    by (simp add: demo_order_def mk_order_def)
  then show ?thesis using m by blast
qed

text \<open>
  C8: quantity is conserved. What the trades of a match take adds up, without wrap-around, to
  what the incoming order lost; its final remaining quantity is in the heap the match leaves.
  Each trade's quantity is positive.
\<close>

theorem match_conserves_quantity:
  assumes ok: "book_ok h own b" and a: "h a = Some inc" "a \<notin> book_addrs b"
  shows "\<exists>ts b' ms fin. match c a b h tid ticks = Some (ts, b', ms) \<and> m_heap ms a = Some fin \<and>
     sum_list (map (\<lambda>t. unat (mQuantity t)) ts) + unat (mRemainingQuantity fin) =
       unat (mRemainingQuantity inc) \<and>
     (\<forall>t\<in>set ts. mQuantity t \<noteq> 0) \<and> m_tid ms = tid + of_nat (length ts)"
proof -
  have "mQuantity t \<noteq> 0" if "t \<in> set (trades_of c h inc tid ticks (book_fills h inc b))" for t
  proof -
    obtain x f where x: "(x, f) \<in> set (book_fills h inc b)" and q: "mQuantity t = f"
      by (rule trade_in_trades_of [OF \<open>t \<in> _\<close>])
    show ?thesis by (rule book_fills_maker [OF ok x]) (simp add: q)
  qed
  then show ?thesis
    using match_spec [OF ok a, of c tid ticks]
      fills_total [of h "mRemainingQuantity inc" "eligible inc (opposite inc b)"]
    by (simp add: Let_def trades_of_quantity book_fills_def book_unfilled_def)
qed

theorem match_conserves_quantity_demo:
  "\<exists>ts b' ms fin. match int 9 demo_book demo_heap 0 0 = Some (ts, b', ms) \<and>
     m_heap ms 9 = Some fin \<and>
     sum_list (map (\<lambda>t. unat (mQuantity t)) ts) + unat (mRemainingQuantity fin) = 15"
  using match_conserves_quantity [OF demo_book_ok demo_taker, of int 0 0]
  by (auto simp: demo_order_def mk_order_def)

subsection \<open>Safety of a partition\<close>

text \<open>
  a partition never touches a freed order. From a consistent state, any sequence of
  commands whose new orders carry ids that are distinct and not held runs to completion: no
  handler reads through a dangling pointer. In the state it leaves, every order on the book
  is alive, has quantity left, and is the order the manager holds under its id.
\<close>

theorem partition_runs_every_batch:
  assumes "worker_inv s" and "distinct (new_ids cs)" and "set (new_ids cs) \<inter> dom (w_own s) = {}"
  shows "\<exists>s'. processBatch e cs s = Some s' \<and> worker_inv s' \<and>
     (\<forall>x\<in>book_addrs (w_book s'). \<exists>ord. w_heap s' x = Some ord \<and>
        mRemainingQuantity ord \<noteq> 0 \<and> w_own s' (mCoreOrderId ord) = Some x)"
proof -
  obtain s' where s': "processBatch e cs s = Some s'" "worker_inv s'"
    using processBatch_ok [OF assms] by blast
  then have "book_ok (w_heap s') (w_own s') (w_book s')" by (simp add: worker_inv_def)
  then show ?thesis using s' by (metis book_okD)
qed

lemma demo_batch_fresh:
  "distinct (new_ids demo_batch)"
  "set (new_ids demo_batch) \<inter> dom (w_own (init_worker EURUSD)) = {}"
  by (simp_all add: demo_batch_def demo_defs init_worker_def empty_manager_def demo_order_def)

theorem partition_runs_every_batch_demo:
  "\<exists>s'. processBatch demo_env demo_batch (init_worker EURUSD) = Some s' \<and> worker_inv s'"
  using partition_runs_every_batch [OF worker_inv_init demo_batch_fresh, of demo_env] by blast

text \<open>
  C3: the book is never crossed. When no order price is NaN, after any sequence of commands
  the best bid is below the best ask: every bid level is strictly below every ask level.
\<close>

theorem book_never_crossed:
  assumes "worker_inv s" and "distinct (new_ids cs)" and "set (new_ids cs) \<inter> dom (w_own s) = {}"
    and "uncrossed (w_book s)" and "\<forall>c\<in>set cs. priced c" and "processBatch e cs s = Some s'"
  shows "\<forall>(p, l)\<in>set (mBidMap (w_book s')). \<forall>(q, l')\<in>set (mAskMap (w_book s')). dlt p q"
  using uncrossed_batch [OF assms] by (force simp: uncrossed_def keys_apart_def)

lemma uncrossed_init: "uncrossed (w_book (init_worker i))"
  by (simp add: init_worker_def empty_book_def uncrossed_def keys_apart_def)

theorem book_never_crossed_demo:
  "\<exists>s'. processBatch demo_env demo_batch (init_worker EURUSD) = Some s' \<and>
     (\<forall>(p, l)\<in>set (mBidMap (w_book s')). \<forall>(q, l')\<in>set (mAskMap (w_book s')). dlt p q)"
proof -
  obtain s' where s': "processBatch demo_env demo_batch (init_worker EURUSD) = Some s'"
    using processBatch_ok [OF worker_inv_init demo_batch_fresh, of demo_env] by blast
  moreover have "\<forall>c\<in>set demo_batch. priced c"
    by (simp add: demo_batch_def demo_new_def demo_order_def mk_order_def)
  ultimately show ?thesis
    using book_never_crossed [OF worker_inv_init demo_batch_fresh uncrossed_init _ s'] by blast
qed

subsection \<open>New orders\<close>

lemma addtrade_matched_log:
  "AddTrade t \<in> set (tasks_of (matched_log e post h inc ts fs)) \<Longrightarrow> t \<in> set ts"
proof (induction ts fs rule: list_induct2')
  case (4 u ts p fs)
  then show ?case
    by (cases p) (auto simp: matched_log_def tasks_settle_log split: if_splits)
qed (simp_all add: matched_log_def)

lemma tasks_stored: "tasks_of (concat (map (stored post) ts)) = (if post then map AddTrade ts else [])"
  by (induction ts) (auto simp: stored_def)

lemma addtrade_trade_loop:
  "AddTrade t \<in> set (tasks_of (trade_loop_log e post h inc ts fs)) \<Longrightarrow> t \<in> set ts"
  by (auto simp: trade_loop_log_def tasks_stored dest: addtrade_matched_log in_set_dropD
      split: if_splits)

lemma tasks_matched:
  "new_tasks s (matched_state e post a inc s) = tasks_of (trade_loop_log e post
     (heap_after (w_heap s) a inc (w_book s)) (taker_final (w_heap s) inc (w_book s))
     (trades_of (clk e) (w_heap s) inc (w_tid s) (w_ticks s) (book_fills (w_heap s) inc (w_book s)))
     (book_fills (w_heap s) inc (w_book s)))"
  by (rule new_tasks_eq) (simp add: w_log_matched)

lemma processNewOrder_rejected:
  assumes "preCheck ord (w_heap s) (w_book s) = Some False"
  shows "processNewOrder e ord s =
     Some (reject e (mCoreOrderId ord) (mClientId ord) (mSymbol ord) (mOrderSide ord)
       ''Risk check failed'' s)"
  using assms by (simp add: processNewOrder_def)

lemma new_order_cases:
  assumes inv: "worker_inv s" and fresh: "w_own s (mCoreOrderId ord) = None"
    and run: "processNewOrder e ord s = Some s'"
  obtains (rejected) "preCheck ord (w_heap s) (w_book s) = Some False"
      "s' = reject e (mCoreOrderId ord) (mClientId ord) (mSymbol ord) (mOrderSide ord)
         ''Risk check failed'' s"
    | (accepted) "preCheck ord (w_heap s) (w_book s) = Some True" "s' = new_order_state e ord s"
proof -
  have "preCheck ord (w_heap s) (w_book s) \<noteq> None"
    using preCheck_spec inv unfolding worker_inv_def by fastforce
  then show thesis
    using run that processNewOrder_rejected processNewOrder_eq [OF inv fresh]
    by (cases "preCheck ord (w_heap s) (w_book s)") (fastforce intro: that)+
qed

lemma new_tasks_reject [simp]: "new_tasks s (reject e i c sy sd r s) = []"
  by (rule new_tasks_eq) (simp add: reject_def)

lemma reports_reject [simp]:
  "reports_of (w_log (reject e i c sy sd r s)) =
     reports_of (w_log s) @ publishRejection (has_callback e) i c sy sd r (clk e (w_ticks s))"
  by (simp add: reject_def)

lemma new_order_trade:
  assumes inv: "worker_inv s" and fresh: "w_own s (mCoreOrderId ord) = None"
    and t: "AddTrade t \<in> set (new_tasks s (new_order_state e ord s))"
  obtains x f where "(x, f) \<in> set (book_fills ((w_heap s)(next_addr (w_mgr s) \<mapsto> ord)) ord (w_book s))"
    and "maker_id ord t = mCoreOrderId (order_at (w_heap s) x)"
    and "taker_id ord t = mCoreOrderId ord" and "x \<in> book_addrs (w_book s)"
    and "mQuantity t = f" and "mTradePrice t = mPrice (order_at (w_heap s) x)"
proof -
  let ?h = "(w_heap s)(next_addr (w_mgr s) \<mapsto> ord)"
  have "t \<in> set (trades_of (clk e) ?h ord (w_tid s) (w_ticks s) (book_fills ?h ord (w_book s)))"
    using t
    by (auto simp: new_tasks_new_order tasks_matched split: if_splits dest: addtrade_trade_loop)
  then obtain x f where x: "(x, f) \<in> set (book_fills ?h ord (w_book s))"
    and p: "mTradePrice t = mPrice (order_at ?h x)" "mQuantity t = f"
      "maker_id ord t = mCoreOrderId (order_at ?h x)" "taker_id ord t = mCoreOrderId ord"
    by (rule trade_in_trades_of)
  have ok: "book_ok ?h (w_own (admitted_state e ord s)) (w_book s)"
    using admitted_ok(1) [OF inv fresh, of e] by (simp add: worker_inv_def)
  have b: "x \<in> book_addrs (w_book s)" by (rule book_fills_maker [OF ok x])
  then have "x \<noteq> next_addr (w_mgr s)" using admitted_ok(2) [OF inv fresh] by blast
  then show thesis using that [OF x _ _ b] p by (simp add: order_at_def)
qed

text \<open>The maker of a trade is an order of the book that another trader entered.\<close>

lemma maker_has_other_sender:
  assumes inv: "worker_inv s" and fresh: "w_own s (mCoreOrderId ord) = None"
    and un: "uncrossed (w_book s)" and price: "mOrderType ord = Limit \<longrightarrow> mPrice ord \<noteq> NaN"
    and run: "processNewOrder e ord s = Some s'" and t: "AddTrade t \<in> set (new_tasks s s')"
  obtains x where "x \<in> book_addrs (w_book s)" "maker_id ord t = mCoreOrderId (order_at (w_heap s) x)"
    "mSenderCompID (order_at (w_heap s) x) \<noteq> mSenderCompID ord" "taker_id ord t = mCoreOrderId ord"
  using inv fresh run
proof (cases rule: new_order_cases)
  case rejected
  then show ?thesis using t by simp
next
  case accepted
  have ok: "book_ok (w_heap s) (w_own s) (w_book s)" using inv by (simp add: worker_inv_def)
  obtain x f where x: "(x, f) \<in> set (book_fills ((w_heap s)(next_addr (w_mgr s) \<mapsto> ord)) ord (w_book s))"
    and ids: "maker_id ord t = mCoreOrderId (order_at (w_heap s) x)" "taker_id ord t = mCoreOrderId ord"
    and b: "x \<in> book_addrs (w_book s)"
    using new_order_trade [OF inv fresh] t accepted(2) by metis
  have "x \<in> fst ` set (book_fills ((w_heap s)(next_addr (w_mgr s) \<mapsto> ord)) ord (w_book s))"
    using x by force
  then have el: "x \<in> set (eligible ord (opposite ord (w_book s)))"
    using fst_set_fills unfolding book_fills_def by blast
  have nan: "no_nan (opposite ord (w_book s))"
    using uncrossed_no_nan [OF un] by (simp add: opposite_def)
  have "gate_eligible ord (opposite ord (w_book s)) = eligible ord (opposite ord (w_book s))"
    using price by (intro gate_eligible_eq [OF _ nan]) auto
  then have "mSenderCompID (order_at (w_heap s) x) \<noteq> mSenderCompID ord"
    using preCheck_spec [OF ok, of ord] accepted(1) el by auto
  then show thesis using that b ids by blast
qed

text \<open>
  C4: no self-trade. On a book without NaN prices, every trade that processing a new order
  produces has the new order on its own side and, on the other, an order of the manager that
  another trader (\<open>SenderCompID\<close>) entered.
\<close>

theorem new_order_never_trades_with_itself:
  assumes inv: "worker_inv s" and fresh: "w_own s (mCoreOrderId ord) = None"
    and un: "uncrossed (w_book s)" and price: "mOrderType ord = Limit \<longrightarrow> mPrice ord \<noteq> NaN"
    and run: "processNewOrder e ord s = Some s'" and t: "AddTrade t \<in> set (new_tasks s s')"
  shows "\<exists>mk. held (w_mgr s) (maker_id ord t) = Some mk \<and>
     mSenderCompID mk \<noteq> mSenderCompID ord \<and> taker_id ord t = mCoreOrderId ord"
proof -
  have ok: "book_ok (w_heap s) (w_own s) (w_book s)" using inv by (simp add: worker_inv_def)
  obtain x where x: "x \<in> book_addrs (w_book s)" "maker_id ord t = mCoreOrderId (order_at (w_heap s) x)"
    "mSenderCompID (order_at (w_heap s) x) \<noteq> mSenderCompID ord" "taker_id ord t = mCoreOrderId ord"
    by (rule maker_has_other_sender [OF assms])
  obtain mk where mk: "w_heap s x = Some mk" "w_own s (mCoreOrderId mk) = Some x"
    using book_okD [OF ok x(1)] by metis
  then have "held (w_mgr s) (mCoreOrderId mk) = Some mk" by (simp add: held_def)
  then show ?thesis using x mk by (simp add: order_at_def)
qed

text \<open>The partition with the two demo offers resting, and with carol's order processed.\<close>

definition demo_resting :: worker where
  "demo_resting = the (processBatch demo_env (take 2 demo_batch) (init_worker EURUSD))"

definition demo_buy :: order where
  "demo_buy = demo_order 3 ''carol'' Buy Limit 15 101"

definition demo_bought :: worker where
  "demo_bought = the (processNewOrder demo_env demo_buy demo_resting)"

lemma demo_resting_run: "processBatch demo_env (take 2 demo_batch) (init_worker EURUSD) = Some demo_resting"
proof -
  have "processBatch demo_env (take 2 demo_batch) (init_worker EURUSD) \<noteq> None"
    using processBatch_ok [OF worker_inv_init, of "take 2 demo_batch" EURUSD demo_env] demo_batch_fresh
    by (auto simp: demo_batch_def demo_defs demo_order_def init_worker_def empty_manager_def)
  then show ?thesis by (simp add: demo_resting_def)
qed

lemma demo_take: "distinct (new_ids (take 2 demo_batch))"
  "set (new_ids (take 2 demo_batch)) \<inter> dom (w_own (init_worker EURUSD)) = {}"
  "\<forall>c\<in>set (take 2 demo_batch). priced c" "set (new_ids (take 2 demo_batch)) = {1, 2}"
  by (auto simp: demo_batch_def demo_defs demo_order_def init_worker_def empty_manager_def)

lemma demo_resting_ok:
  "worker_inv demo_resting" "uncrossed (w_book demo_resting)" "w_own demo_resting 3 = None"
proof -
  show "worker_inv demo_resting" "w_own demo_resting 3 = None"
    using processBatch_ok [OF worker_inv_init demo_take(1,2), of demo_env] demo_resting_run demo_take(4)
    by (auto simp: init_worker_def empty_manager_def)
  show "uncrossed (w_book demo_resting)"
    by (rule uncrossed_batch [OF worker_inv_init demo_take(1,2) uncrossed_init demo_take(3) demo_resting_run])
qed

lemma demo_buy_fresh: "w_own demo_resting (mCoreOrderId demo_buy) = None"
  using demo_resting_ok(3) by (simp add: demo_buy_def demo_order_def mk_order_def)

lemma demo_bought_run: "processNewOrder demo_env demo_buy demo_resting = Some demo_bought"
  using processNewOrder_ok [OF demo_resting_ok(1) demo_buy_fresh, of demo_env]
  by (auto simp: demo_bought_def)

lemma demo_bought_trades:
  "[t. AddTrade t \<leftarrow> new_tasks demo_resting demo_bought] =
     [\<lparr>mTradeId = 1, mOrderSymbol = EURUSD, mBuyOrderId = 3, mSellOrderId = 1, mQuantity = 10,
       mTradePrice = Fin 100, mTradeTimestamp = 0\<rparr>,
      \<lparr>mTradeId = 2, mOrderSymbol = EURUSD, mBuyOrderId = 3, mSellOrderId = 2, mQuantity = 5,
       mTradePrice = Fin 101, mTradeTimestamp = 1\<rparr>]"
  by code_simp

theorem new_order_never_trades_with_itself_demo:
  "\<exists>t mk. AddTrade t \<in> set (new_tasks demo_resting demo_bought) \<and>
     held (w_mgr demo_resting) (maker_id demo_buy t) = Some mk \<and> mSenderCompID mk \<noteq> ''carol''"
proof -
  obtain t where t: "AddTrade t \<in> set (new_tasks demo_resting demo_bought)"
  proof -
    have "[t. AddTrade t \<leftarrow> new_tasks demo_resting demo_bought] \<noteq> []"
      by (simp add: demo_bought_trades)
    then obtain u where "u \<in> set [t. AddTrade t \<leftarrow> new_tasks demo_resting demo_bought]"
      by (meson hd_in_set)
    then show thesis using that by (auto split: db_task.splits)
  qed
  show ?thesis
    using new_order_never_trades_with_itself
        [OF demo_resting_ok(1) demo_buy_fresh demo_resting_ok(2) _ demo_bought_run t] t
    by (auto simp: demo_buy_def demo_order_def mk_order_def)
qed

text \<open>
  C9: the risk gate. A new order is refused, with one Rejected report to its client and no
  other effect (the manager, the book, the trade ids and the database are untouched), exactly
  when its quantity is 0, it is a limit order without a positive price, its limit is too far
  from the best opposite price, or an order of the same trader rests on a level its limit
  reaches; every other new order is admitted.
\<close>

theorem risk_gate_decides:
  assumes inv: "worker_inv s" and fresh: "w_own s (mCoreOrderId ord) = None"
  defines "refused \<equiv> mOriginalQuantity ord = 0 \<or>
      (mOrderType ord = Limit \<and> dle (mPrice ord) (Fin 0)) \<or> fat_finger ord (w_book s) \<or>
      (\<exists>(p, l)\<in>set (takeWhile (\<lambda>(p, l). mOrderType ord = Limit \<longrightarrow> gate_crosses ord p)
                       (opposite ord (w_book s))).
         \<exists>a\<in>set l. mSenderCompID (order_at (w_heap s) a) = mSenderCompID ord)"
  shows "\<exists>s'. processNewOrder e ord s = Some s' \<and>
     (if refused
      then w_mgr s' = w_mgr s \<and> w_book s' = w_book s \<and> w_tid s' = w_tid s \<and>
        w_log s' = w_log s @ map EvReport (publishRejection (has_callback e) (mCoreOrderId ord)
          (mClientId ord) (mSymbol ord) (mOrderSide ord) ''Risk check failed'' (clk e (w_ticks s)))
      else \<exists>ts. new_tasks s s' = SaveOrder ord # ts)"
proof -
  have ok: "book_ok (w_heap s) (w_own s) (w_book s)" using inv by (simp add: worker_inv_def)
  have pass: "preCheck ord (w_heap s) (w_book s) = Some (\<not> refused)"
    unfolding preCheck_spec [OF ok] refused_def gate_eligible_def addrs_def by auto
  show ?thesis
  proof (cases refused)
    case True
    then show ?thesis using pass processNewOrder_rejected [of ord s e] by (simp add: reject_def)
  next
    case False
    then show ?thesis
      using pass processNewOrder_eq [OF inv fresh, of e] by (auto simp: new_tasks_new_order)
  qed
qed

theorem risk_gate_decides_demo:
  "\<exists>s'. processNewOrder demo_env demo_buy demo_resting = Some s'"
  using risk_gate_decides [OF demo_resting_ok(1) demo_buy_fresh, of demo_env] by blast

text \<open>
  A market order never rests. Whatever the book holds, after a market order is processed
  the manager does not know its id and no order has been added to the book.
\<close>

theorem market_order_never_rests:
  assumes inv: "worker_inv s" and fresh: "w_own s (mCoreOrderId ord) = None"
    and market: "mOrderType ord = Market" and run: "processNewOrder e ord s = Some s'"
  shows "w_own s' (mCoreOrderId ord) = None \<and> book_addrs (w_book s') \<subseteq> book_addrs (w_book s)"
  using inv fresh run
proof (cases rule: new_order_cases)
  case rejected
  then show ?thesis using fresh by simp
next
  case accepted
  let ?s4 = "matched_state e True (next_addr (w_mgr s)) ord (admitted_state e ord s)"
  have s': "s' = (if containsOrderById (mCoreOrderId ord) (w_mgr ?s4)
        then remove_everywhere (mCoreOrderId ord) ?s4 else ?s4)"
    using accepted(2) market by (simp add: new_order_state_def Let_def)
  have "mCoreOrderId ord \<notin> dom (w_own s')"
    unfolding s' using dom_remove [of "mCoreOrderId ord" ?s4] by (auto simp: containsOrderById_def)
  moreover have "book_addrs (w_book s') \<subseteq> book_addrs (w_book s)"
    unfolding s' using book_after_addrs by (simp split: if_splits)
  ultimately show ?thesis by (auto simp: domIff)
qed

definition demo_market :: order where
  "demo_market = demo_order 3 ''carol'' Buy Market 25 0"

theorem market_order_never_rests_demo:
  "\<exists>s'. processNewOrder demo_env demo_market demo_resting = Some s' \<and> w_own s' 3 = None"
proof -
  have i: "mCoreOrderId demo_market = 3" "mOrderType demo_market = Market"
    by (simp_all add: demo_market_def demo_order_def mk_order_def)
  have fresh: "w_own demo_resting (mCoreOrderId demo_market) = None"
    using demo_resting_ok(3) by (simp add: i)
  obtain s' where s': "processNewOrder demo_env demo_market demo_resting = Some s'"
    using processNewOrder_ok [OF demo_resting_ok(1) fresh, of demo_env] by blast
  show ?thesis
    using market_order_never_rests [OF demo_resting_ok(1) fresh i(2) s'] s' i(1) by auto
qed

text \<open>
  A limit order behind its trades: the state it is matched in, whether the manager still has it,
  and what rests. \<open>limit_left\<close> is the quantity its trades leave.
\<close>

definition limit_left :: "order \<Rightarrow> worker \<Rightarrow> u64" where
  "limit_left ord s = book_unfilled ((w_heap s)(next_addr (w_mgr s) \<mapsto> ord)) ord (w_book s)"

definition limit_matched :: "env \<Rightarrow> order \<Rightarrow> worker \<Rightarrow> worker" where
  "limit_matched e ord s = matched_state e True (next_addr (w_mgr s)) ord (admitted_state e ord s)"

definition limit_final :: "order \<Rightarrow> worker \<Rightarrow> order" where
  "limit_final ord s = taker_final ((w_heap s)(next_addr (w_mgr s) \<mapsto> ord)) ord (w_book s)"

lemma limit_final_simps [simp]:
  "mRemainingQuantity (limit_final ord s) = limit_left ord s" "mPrice (limit_final ord s) = mPrice ord"
  "mOrderSide (limit_final ord s) = mOrderSide ord" "progress ord (limit_final ord s)"
  "book_insert a (limit_final ord s) b = book_insert a ord b"
  by (simp_all add: limit_final_def limit_left_def progress_taker book_insert_def)

lemma new_limit_order:
  assumes "worker_inv s" "w_own s (mCoreOrderId ord) = None" "preCheck ord (w_heap s) (w_book s) = Some True"
    and "mOrderType ord = Limit" "processNewOrder e ord s = Some s'"
  shows "s' = (if mCoreOrderId ord \<in> dom (w_own (limit_matched e ord s)) \<and> limit_left ord s \<noteq> 0
     then rest_state (next_addr (w_mgr s)) (limit_final ord s) (limit_matched e ord s) else limit_matched e ord s)"
  using processNewOrder_eq [OF assms(1-3), of e] assms(4,5)
  by (auto simp: new_order_state_def Let_def limit_matched_def limit_left_def limit_final_def containsOrderById_def)

lemma filled_taker_forgotten:
  assumes "mRemainingQuantity ord \<noteq> 0" "limit_left ord s = 0"
  shows "w_own (limit_matched e ord s) (mCoreOrderId ord) = None"
proof -
  let ?h = "(w_heap s)(next_addr (w_mgr s) \<mapsto> ord)"
  have "book_fills ?h ord (w_book s) \<noteq> []"
    using assms fills_Nil_unfilled unfolding limit_left_def book_fills_def book_unfilled_def by metis
  then show ?thesis using assms(2) by (simp add: limit_matched_def dropped_ids_def limit_left_def)
qed

text \<open>The taker is not among the orders its own trades empty.\<close>

lemma taker_not_dropped:
  assumes inv: "worker_inv s" and fresh: "w_own s (mCoreOrderId ord) = None" and left: "limit_left ord s \<noteq> 0"
  defines "h \<equiv> (w_heap s)(next_addr (w_mgr s) \<mapsto> ord)"
  shows "mCoreOrderId ord \<notin> dropped_ids (heap_after h (next_addr (w_mgr s)) ord (w_book s))
    (taker_final h ord (w_book s)) (book_fills h ord (w_book s))"
proof
  let ?a = "next_addr (w_mgr s)" and ?i = "mCoreOrderId ord"
  have ok: "book_ok h ((w_own s)(?i \<mapsto> ?a)) (w_book s)" and out: "?a \<notin> book_addrs (w_book s)"
    using admitted_ok(1) [OF inv fresh, of undefined] admitted_ok(2) [OF inv fresh] by (simp_all add: worker_inv_def h_def)
  assume "?i \<in> dropped_ids (heap_after h ?a ord (w_book s)) (taker_final h ord (w_book s)) (book_fills h ord (w_book s))"
  then obtain x f where x: "(x, f) \<in> set (book_fills h ord (w_book s))" "mCoreOrderId (order_at (heap_after h ?a ord (w_book s)) x) = ?i"
    using left by (auto simp: dropped_ids_def emptied_ids_def settled_def limit_left_def h_def)
  obtain mk where mk: "h x = Some mk" "((w_own s)(?i \<mapsto> ?a)) (mCoreOrderId mk) = Some x" "x \<in> book_addrs (w_book s)"
    by (rule book_fills_maker [OF ok x(1)])
  then have "x \<noteq> ?a" using out by blast
  moreover have "h ?a = Some ord" by (simp add: h_def)
  ultimately have "mCoreOrderId mk = ?i"
    using x(2) mk(1) heap_after_ids [of h ?a ord "w_book s" x] by (auto simp: order_at_def)
  then show False using mk(2) \<open>x \<noteq> ?a\<close> by simp
qed

lemma open_taker_kept:
  assumes inv: "worker_inv s" and fresh: "w_own s (mCoreOrderId ord) = None" and left: "limit_left ord s \<noteq> 0"
  shows "w_own (limit_matched e ord s) (mCoreOrderId ord) = Some (next_addr (w_mgr s))"
    and "w_heap (limit_matched e ord s) (next_addr (w_mgr s)) = Some (limit_final ord s)"
proof -
  let ?a = "next_addr (w_mgr s)" and ?i = "mCoreOrderId ord" and ?m = "admit ord (w_mgr s)"
  let ?h = "(w_heap s)(?a \<mapsto> ord)" and ?fs = "book_fills ((w_heap s)(?a \<mapsto> ord)) ord (w_book s)"
  let ?h' = "heap_after ?h ?a ord (w_book s)" and ?fin = "taker_final ?h ord (w_book s)"
  note kept = taker_not_dropped [OF inv fresh left]
  have mgr: "w_mgr (limit_matched e ord s) = drop_ids (dropped_ids ?h' ?fin ?fs) (?m\<lparr>heap := ?h'\<rparr>)"
    by (simp add: limit_matched_def)
  show "w_own (limit_matched e ord s) ?i = Some ?a" using kept mgr by simp
  have "w_heap (limit_matched e ord s) ?a = heap (?m\<lparr>heap := ?h'\<rparr>) ?a"
    unfolding mgr
  proof (rule heap_drop_ids_own)
    show "manager_inv (?m\<lparr>heap := ?h'\<rparr>)"
      using admitted_ok(1) [OF inv fresh, of e] by (intro manager_inv_heap) (simp_all add: worker_inv_def heap_after_ids)
    show "mOrderMap (?m\<lparr>heap := ?h'\<rparr>) ?i = Some ?a" by simp
  qed (rule kept)
  then show "w_heap (limit_matched e ord s) ?a = Some (limit_final ord s)" by (simp add: limit_final_def)
qed

lemma limit_matched_book:
  "w_book (limit_matched e ord s) = book_after ((w_heap s)(next_addr (w_mgr s) \<mapsto> ord)) ord (w_book s)"
  "book_addrs (w_book (limit_matched e ord s)) \<subseteq> book_addrs (w_book s)"
  using book_after_addrs by (simp_all add: limit_matched_def)

text \<open>
  C10: where a limit order ends. An admitted limit order with quantity is filled completely
  and then forgotten by the manager, or it is held with exactly the quantity its trades left
  and stands last in the queue of its price level.
\<close>

theorem limit_order_rests_behind_its_level:
  assumes inv: "worker_inv s" and fresh: "w_own s (mCoreOrderId ord) = None"
    and pass: "preCheck ord (w_heap s) (w_book s) = Some True"
    and limit: "mOrderType ord = Limit" "mRemainingQuantity ord \<noteq> 0"
    and run: "processNewOrder e ord s = Some s'"
  defines "a \<equiv> next_addr (w_mgr s)"
  defines "left \<equiv> book_unfilled ((w_heap s)(a \<mapsto> ord)) ord (w_book s)"
  shows "if left = 0 then w_own s' (mCoreOrderId ord) = None \<and> a \<notin> book_addrs (w_book s')
     else w_own s' (mCoreOrderId ord) = Some a \<and>
       (\<exists>fin. w_heap s' a = Some fin \<and> mRemainingQuantity fin = left \<and> progress ord fin) \<and>
       (\<exists>b. w_book s' = book_insert a ord b \<and> book_addrs b \<subseteq> book_addrs (w_book s))"
proof (cases "left = 0")
  case True
  then have "limit_left ord s = 0" by (simp add: left_def limit_left_def a_def)
  moreover have "a \<notin> book_addrs (w_book (limit_matched e ord s))"
    using admitted_ok(2) [OF inv fresh] limit_matched_book(2) by (auto simp: a_def)
  ultimately show ?thesis
    using True filled_taker_forgotten [OF limit(2)] new_limit_order [OF inv fresh pass limit(1) run] by auto
next
  case False
  then have left: "limit_left ord s \<noteq> 0" "limit_left ord s = left" by (simp_all add: left_def limit_left_def a_def)
  note kept = open_taker_kept [OF inv fresh left(1), of e]
  have s': "s' = rest_state a (limit_final ord s) (limit_matched e ord s)"
    using new_limit_order [OF inv fresh pass limit(1) run] kept left(1) by (simp add: domIff a_def)
  have "w_own s' (mCoreOrderId ord) = Some a" "w_heap s' a = Some (limit_final ord s)"
    "w_book s' = book_insert a ord (w_book (limit_matched e ord s))"
    using kept by (simp_all add: s' a_def)
  moreover from this have "\<exists>b. w_book s' = book_insert a ord b \<and> book_addrs b \<subseteq> book_addrs (w_book s)"
    using limit_matched_book(2) by blast
  ultimately show ?thesis using False left(2) by simp
qed

definition demo_low :: order where
  "demo_low = demo_order 3 ''dave'' Buy Limit 7 99"

lemma demo_low_facts:
  "w_own demo_resting (mCoreOrderId demo_low) = None" "mOrderType demo_low = Limit"
  "mRemainingQuantity demo_low = 7"
  "preCheck demo_low (w_heap demo_resting) (w_book demo_resting) = Some True"
proof -
  show "w_own demo_resting (mCoreOrderId demo_low) = None" "mOrderType demo_low = Limit"
    "mRemainingQuantity demo_low = 7"
    using demo_resting_ok(3) by (simp_all add: demo_low_def demo_order_def mk_order_def)
  show "preCheck demo_low (w_heap demo_resting) (w_book demo_resting) = Some True" by code_simp
qed

theorem limit_order_rests_behind_its_level_demo:
  "\<exists>s'. processNewOrder demo_env demo_low demo_resting = Some s' \<and>
     (w_own s' 3 = None \<or> (\<exists>a b. w_own s' 3 = Some a \<and> w_book s' = book_insert a demo_low b))"
proof -
  note o = demo_resting_ok(1) demo_low_facts(1) demo_low_facts(4) demo_low_facts(2)
  obtain s' where s': "processNewOrder demo_env demo_low demo_resting = Some s'"
    using processNewOrder_ok [OF o(1,2), of demo_env] by blast
  have "mCoreOrderId demo_low = 3" by (simp add: demo_low_def demo_order_def mk_order_def)
  then show ?thesis
    using limit_order_rests_behind_its_level [OF o _ s'] s' demo_low_facts(3)
    by (auto split: if_splits)
qed

subsection \<open>The database follows the engine\<close>

lemma order_tasks_matched_log: "\<forall>t\<in>set (tasks_of (matched_log e post h inc ts fs)). order_task t"
proof (induction ts fs rule: list_induct2')
  case (4 u ts p fs)
  then show ?case by (cases p) (auto simp: matched_log_def tasks_settle_log)
qed (simp_all add: matched_log_def)

lemma order_tasks_matched:
  "\<forall>t\<in>set (new_tasks s (matched_state e post a inc s)). order_task t"
  using order_tasks_matched_log by (auto simp: tasks_matched trade_loop_log_def tasks_stored)

text \<open>The commands whose effect on the order table is exactly the effect on the manager.\<close>

fun tracked :: "env \<Rightarrow> worker \<Rightarrow> command \<Rightarrow> bool" where
  "tracked e s (NewOrder client ts ord) \<longleftrightarrow>
     w_own s (mCoreOrderId ord) = None \<and> storable ord \<and> mRemainingQuantity ord \<noteq> 0 \<and>
     one_trade_if_filled (w_heap (admitted_state e ord s)) ord (w_book s)"
| "tracked e s (CancelOrder client ts i) \<longleftrightarrow> True"
| "tracked e s (ModifyOrder client ts i p q) \<longleftrightarrow>
     (case w_own s i of None \<Rightarrow> True
      | Some a \<Rightarrow> let ord = order_at (w_heap s) a; s3 = replaced_state e i a ord p q s
          in mOrderType ord = Limit \<and> p \<noteq> NaN \<and>
             one_trade_if_filled (w_heap s3) (replaced p q ord) (w_book s3))"

definition in_step :: "worker \<Rightarrow> worker \<Rightarrow> db \<Rightarrow> bool" where
  "in_step s s' d \<longleftrightarrow> (\<exists>d'. exec_tasks (new_tasks s s') d = Some d' \<and> repo_rel (held (w_mgr s')) d')"

lemma in_stepI:
  assumes "repo_rel (held (w_mgr s)) d" and "\<forall>t\<in>set (new_tasks s s'). order_task t"
    and "fold abs_task (new_tasks s s') (held (w_mgr s)) = held (w_mgr s')"
  shows "in_step s s' d"
  using exec_tasks_refine [OF assms(1,2)] assms(3) by (simp add: in_step_def)

lemma in_step_reject [simp]:
  "repo_rel (held (w_mgr s)) d \<Longrightarrow> in_step s (reject e i c sy sd r s) d"
  by (rule in_stepI) simp_all

lemma new_tasks_cancelled: "new_tasks s (cancelled_state e i a ord s) = [RemoveOrder i]"
  by (rule new_tasks_eq) (simp add: cancelled_state_def)

lemma in_step_new:
  assumes inv: "worker_inv s" and rel: "repo_rel (held (w_mgr s)) d"
    and tr: "tracked e s (NewOrder client ts ord)" and run: "processNewOrder e ord s = Some s'"
  shows "in_step s s' d"
proof -
  have fresh: "w_own s (mCoreOrderId ord) = None" using tr by simp
  show ?thesis
    using inv fresh run
  proof (cases rule: new_order_cases)
    case rejected
    then show ?thesis using rel by simp
  next
    case accepted
    have "\<forall>t\<in>set (new_tasks s (new_order_state e ord s)). order_task t"
      using tr order_tasks_matched by (auto simp: new_tasks_new_order)
    then show ?thesis
      unfolding accepted(2)
      by (rule in_stepI [OF rel _ store_new_order [OF inv fresh]]) (use tr in \<open>auto simp: storable_def\<close>)
  qed
qed

lemma in_step_cancel:
  assumes inv: "worker_inv s" and rel: "repo_rel (held (w_mgr s)) d"
    and run: "processCancelOrder e c i s = Some s'"
  shows "in_step s s' d"
proof (cases "w_own s i")
  case None
  then show ?thesis using run in_step_reject [OF rel] by (auto simp: processCancelOrder_unknown)
next
  case (Some a)
  obtain ord where ord: "w_heap s a = Some ord" by (rule worker_inv_live [OF inv Some])
  show ?thesis
  proof (cases "a \<in> book_addrs (w_book s)")
    case True
    then have "s' = cancelled_state e i a ord s"
      using run processCancelOrder_found [OF inv Some ord] by simp
    then show ?thesis
      using in_stepI [OF rel _ store_cancelled [OF inv, of e i a ord]] by (simp add: new_tasks_cancelled)
  next
    case False
    then show ?thesis
      using run in_step_reject [OF rel] processCancelOrder_not_in_book [OF inv Some ord] by auto
  qed
qed

lemma processModifyOrder_unknown:
  "w_own s i = None \<Longrightarrow>
     processModifyOrder e c i p q s = Some (reject e i c EURUSD Buy ''Order not found'' s)"
  by (simp add: processModifyOrder_def getOrderById_def)

lemma in_step_modify:
  assumes inv: "worker_inv s" and rel: "repo_rel (held (w_mgr s)) d"
    and tr: "tracked e s (ModifyOrder client ts i p q)"
    and run: "processModifyOrder e c i p q s = Some s'"
  shows "in_step s s' d"
proof (cases "w_own s i")
  case None
  then show ?thesis using run in_step_reject [OF rel] by (auto simp: processModifyOrder_unknown)
next
  case (Some a)
  obtain ord where ord: "w_heap s a = Some ord" by (rule worker_inv_live [OF inv Some])
  then have s': "s' = modified_state e i a ord p q s"
    using run processModifyOrder_eq [OF inv Some ord] by simp
  have t: "mOrderType ord = Limit" "p \<noteq> NaN"
      "one_trade_if_filled (w_heap (replaced_state e i a ord p q s)) (replaced p q ord)
         (w_book (replaced_state e i a ord p q s))"
    using tr Some ord by (simp_all add: order_at_def Let_def)
  have "held (w_mgr s) i = Some ord" using Some ord by (simp add: held_def)
  then have "storable (replaced p q ord)"
    using repo_rel_SomeD [OF rel] t(2) by (fastforce simp: storable_def replaced_def)
  then have "\<forall>u\<in>set (new_tasks s (modified_state e i a ord p q s)). order_task u"
    using order_tasks_matched by (auto simp: new_tasks_modified)
  then show ?thesis
    unfolding s' by (rule in_stepI [OF rel _ store_modified [OF inv Some ord t(1,3)]])
qed


definition demo_db :: db where
  "demo_db = empty_db\<lparr>tbl_orders := Some []\<rparr>"

lemma demo_db_rel: "repo_rel (held (w_mgr (init_worker i))) demo_db"
  by (simp add: repo_rel_def demo_db_def table_ok_def row_at_def init_worker_def empty_manager_def
      held_def)

lemma demo_tracked: "tracked demo_env (init_worker EURUSD) (demo_new demo_low)"
  by (simp add: demo_low_def demo_defs demo_order_def init_worker_def empty_manager_def
      empty_book_def storable_def one_trade_if_filled_def book_fills_def opposite_def byte_def)


subsection \<open>Cancelling\<close>

text \<open>
  Cancelling a resting order. The order leaves the book (its level too, when it was the
  only one there), its manager entry and its memory are freed, every other order keeps its
  place, one book update and one Canceled report go out, and its row is deleted.
\<close>

theorem cancel_removes_everywhere:
  assumes inv: "worker_inv s" and a: "w_own s i = Some a" "w_heap s a = Some ord"
    and "in": "a \<in> book_addrs (w_book s)"
  shows "\<exists>s'. processCancelOrder e c i s = Some s' \<and>
     w_own s' = (w_own s)(i := None) \<and> w_heap s' = (w_heap s)(a := None) \<and>
     book_addrs (w_book s') = book_addrs (w_book s) - {a} \<and>
     w_book s' = book_remove a (w_book s) \<and>
     w_log s' = w_log s @
       EvIncremental (book_refresh (mBookSymbol (w_book s)) MDDelete ord (clk e (w_ticks s)))
       # map EvReport (publishExecution (has_callback e) ord ''CANCELED'') @ [EvDb (RemoveOrder i)]"
proof -
  have ok: "book_ok (w_heap s) (w_own s) (w_book s)" using inv by (simp add: worker_inv_def)
  let ?s1 = "emit (EvIncremental (book_refresh (mBookSymbol (w_book s)) MDDelete ord (clk e (w_ticks s)))
              # map EvReport (publishExecution (has_callback e) ord ''CANCELED''))
          (s\<lparr>w_book := book_remove a (w_book s), w_ticks := w_ticks s + 1\<rparr>)"
  have "w_own ?s1 i = Some a" using a(1) by simp
  from remove_own [OF this] show ?thesis
    by (simp add: processCancelOrder_found [OF inv a "in"] cancelled_state_def book_addrs_remove [OF ok])
qed

definition demo_low_resting :: worker where
  "demo_low_resting = the (processNewOrder demo_env demo_low demo_resting)"

lemma demo_low_run: "processNewOrder demo_env demo_low demo_resting = Some demo_low_resting"
  using processNewOrder_ok [OF demo_resting_ok(1) demo_low_facts(1), of demo_env]
  by (auto simp: demo_low_resting_def)

lemma demo_low_inv: "worker_inv demo_low_resting"
  using processNewOrder_ok [OF demo_resting_ok(1) demo_low_facts(1), of demo_env] demo_low_run by simp

lemma demo_low_at:
  "w_own demo_low_resting 3 = Some 3" "3 \<in> book_addrs (w_book demo_low_resting)"
  "w_heap demo_low_resting 3 = Some demo_low"
  by code_simp+

theorem cancel_removes_everywhere_demo:
  "\<exists>s'. processCancelOrder demo_env ''7'' 3 demo_low_resting = Some s' \<and> w_own s' 3 = None"
  using cancel_removes_everywhere
    [OF demo_low_inv demo_low_at(1) demo_low_at(3) demo_low_at(2), of demo_env "''7''"]
  by auto

text \<open>
  A cancel that cannot be done is refused and changes nothing: the id is unknown, or the
  order is held but no longer on the book. The client gets one Rejected report saying which;
  manager, book, trade ids and database are untouched.
\<close>

theorem impossible_cancel_is_rejected:
  assumes inv: "worker_inv s"
    and gone: "\<forall>a. w_own s i = Some a \<longrightarrow> a \<notin> book_addrs (w_book s)"
  shows "\<exists>s' symbol side. processCancelOrder e c i s = Some s' \<and>
     w_mgr s' = w_mgr s \<and> w_book s' = w_book s \<and> w_tid s' = w_tid s \<and> new_tasks s s' = [] \<and>
     reports_of (w_log s') = reports_of (w_log s) @ publishRejection (has_callback e) i c symbol side
       (if w_own s i = None then ''Order not found'' else ''Order cannot be canceled'')
       (clk e (w_ticks s))"
proof (cases "w_own s i")
  case None
  then show ?thesis by (auto simp: processCancelOrder_unknown)
next
  case (Some a)
  obtain ord where ord: "w_heap s a = Some ord" by (rule worker_inv_live [OF inv Some])
  show ?thesis
    using Some gone processCancelOrder_not_in_book [OF inv Some ord] by auto
qed

theorem impossible_cancel_is_rejected_demo:
  "\<exists>s'. processCancelOrder demo_env ''7'' 5 (init_worker EURUSD) = Some s' \<and>
     w_mgr s' = w_mgr (init_worker EURUSD)"
  using impossible_cancel_is_rejected [OF worker_inv_init, of EURUSD 5 demo_env "''7''"]
  by (auto simp: init_worker_def empty_manager_def)

text \<open>A limit order that crosses nothing goes to the book as it is.\<close>

lemma quiet_no_fills:
  "\<forall>(p, l)\<in>set (take 1 (opposite ord b)). \<not> crosses ord p \<Longrightarrow>
     book_fills h ord b = [] \<and> book_unfilled h ord b = mRemainingQuantity ord"
  by (cases "opposite ord b") (auto simp: book_fills_def book_unfilled_def)

lemma no_cross_no_fills:
  "\<forall>(p, l)\<in>set (opposite ord b). \<not> crosses ord p \<Longrightarrow>
     book_fills h ord b = [] \<and> book_unfilled h ord b = mRemainingQuantity ord"
  by (rule quiet_no_fills) (auto dest: in_set_takeD)

lemma book_after_no_fills:
  assumes "book_ok h own b" "book_fills h ord b = []"
  shows "book_after h ord b = b"
proof -
  have "emptied h [] x = False" for x by (simp add: emptied_def)
  moreover have "levels_filter (\<lambda>_. True) (opposite ord b) = opposite ord b"
    using opposite_ok(2) [OF assms(1)] by (intro levels_filter_True) simp_all
  ultimately show ?thesis using assms(2) by (simp add: book_after_def set_opposite_def opposite_def)
qed

lemma quiet_new_order:
  fixes e :: env
  assumes inv: "worker_inv s" and fresh: "w_own s (mCoreOrderId ord) = None"
    and pass: "preCheck ord (w_heap s) (w_book s) = Some True"
    and limit: "mOrderType ord = Limit" "mRemainingQuantity ord \<noteq> 0"
    and quiet: "\<forall>(p, l)\<in>set (take 1 (opposite ord (w_book s))). \<not> crosses ord p"
  defines "a \<equiv> next_addr (w_mgr s)" and "s2 \<equiv> admitted_state e ord s"
  shows "processNewOrder e ord s = Some (rest_state a ord s2)" and "worker_inv (rest_state a ord s2)"
    and "book_remove a (w_book (rest_state a ord s2)) = w_book s" and "a \<in> book_addrs (w_book (rest_state a ord s2))"
proof -
  have fs: "book_fills h ord (w_book s) = []" and un: "book_unfilled h ord (w_book s) = mRemainingQuantity ord" for h
    using quiet_no_fills [OF quiet] by simp_all
  have fin: "taker_final h ord (w_book s) = ord" for h
    using limit by (simp add: taker_final_def fs un taker_after_def final_status_def)
  have inv2: "worker_inv s2" and out: "a \<notin> book_addrs (w_book s)"
    using admitted_ok(1) [OF inv fresh, of e] admitted_ok(2) [OF inv fresh] by (simp_all add: a_def s2_def)
  have drop: "dropped_ids h' ord [] = {}" for h' by (simp add: dropped_ids_def emptied_ids_def settled_def)
  have "book_ok (w_heap s2) (w_own s2) (w_book s)" using inv2 by (simp add: worker_inv_def s2_def)
  then have nofill: "book_after (w_heap s2) ord (w_book s) = w_book s" by (rule book_after_no_fills) (rule fs)
  have heap: "heap_after (w_heap s2) a ord (w_book s) = w_heap s2"
    by (simp add: heap_after_def fs fin s2_def a_def)
  have "matched_state e True a ord s2 = s2"
    using nofill heap unfolding s2_def
    by (simp add: matched_state_def Let_def fs fin drop trade_loop_log_def settled_def
        matched_log_def emit_def del: admitted_state_simps(1))
  then show "processNewOrder e ord s = Some (rest_state a ord s2)"
    using processNewOrder_eq [OF inv fresh pass, of e] limit
    by (simp add: new_order_state_def Let_def containsOrderById_def fin s2_def a_def del: matched_state_simps)
  have ins: "insert_book a s2 = Some (rest_state a ord s2)" by (rule insert_book_eq) (simp add: s2_def a_def)
  show "worker_inv (rest_state a ord s2)" "book_remove a (w_book (rest_state a ord s2)) = w_book s"
    "a \<in> book_addrs (w_book (rest_state a ord s2))"
    using insert_book_ok [OF inv2, of a ord] out limit(2) ins by (auto simp: s2_def a_def)
qed



subsection \<open>Modifying\<close>

text \<open>
  A modified order goes to the back. When the new price crosses nothing, modifying a
  resting order (even only to a smaller quantity) takes it off its level and puts it, with
  its id and its address, at the end of the level of the new price; no order is traded and
  none other moves.
\<close>

theorem modified_order_loses_its_place:
  assumes inv: "worker_inv s" and a: "w_own s i = Some a" "w_heap s a = Some ord"
    and "in": "a \<in> book_addrs (w_book s)" and limit: "mOrderType ord = Limit" "q \<noteq> 0"
  defines "b \<equiv> book_remove a (w_book s)"
  assumes quiet: "\<forall>(k, l)\<in>set (take 1 (opposite ord b)). \<not> crosses (replaced p q ord) k"
  shows "\<exists>s'. processModifyOrder e c i p q s = Some s' \<and>
     w_book s' = book_insert a (replaced p q ord) b \<and>
     w_own s' = w_own s \<and> w_heap s' = (w_heap s)(a \<mapsto> replaced p q ord) \<and>
     new_tasks s s' = [RemoveOrder i, SaveOrder (replaced p q ord)]"
proof -
  let ?o = "replaced p q ord" and ?s3 = "replaced_state e i a ord p q s"
  have b3: "w_book ?s3 = b" using "in" by (simp add: b_def)
  have inv3: "worker_inv ?s3" and out: "a \<notin> book_addrs b"
    using replaced_ok [OF inv a, of e p q] "in" by (simp_all add: b_def)
  let ?h = "w_heap ?s3"
  have ok3: "book_ok ?h (w_own ?s3) b" using inv3 b3 by (simp add: worker_inv_def)
  have opp: "opposite ?o b = opposite ord b" by (simp add: opposite_def)
  have "eligible ?o (opposite ?o b) = []"
    using quiet unfolding opp by (cases "opposite ord b") auto
  then have fs: "book_fills h ?o b = []" and un: "book_unfilled h ?o b = q" for h
    by (simp_all add: book_fills_def book_unfilled_def)
  have fin: "taker_final h ?o b = ?o" for h
    using limit by (simp add: taker_final_def fs un taker_after_def final_status_def)
  have nofill: "book_after ?h ?o b = b"
    using opposite_ok(2) [OF ok3, of ?o]
    by (simp add: book_after_def fs set_opposite_def levels_filter_True opposite_def split: if_splits)
  have heap: "heap_after ?h a ?o b = ?h" by (simp add: heap_after_def fs fin)
  have drop: "dropped_ids h' ?o [] = {}" for h'
    by (simp add: dropped_ids_def emptied_ids_def settled_def)
  have m: "matched_state e False a ?o ?s3 = ?s3"
    by (simp add: matched_state_def Let_def fs fin b3 nofill heap drop trade_loop_log_def settled_def
        matched_log_def emit_def del: replaced_state_simps)
  have own3: "w_own ?s3 = w_own s" by simp
  have s': "modified_state e i a ord p q s = rest_state a ?o ?s3"
    using a(1) limit(2)
    by (simp add: modified_state_def Let_def m containsOrderById_def fin un b3 own3
        del: replaced_state_simps matched_state_simps)
  have "new_tasks s (rest_state a ?o ?s3) = [RemoveOrder i, SaveOrder ?o]"
    by (rule new_tasks_eq) (simp add: w_log_replaced)
  then show ?thesis
    using processModifyOrder_eq [OF inv a, of e c p q] b3 by (simp add: s' del: replaced_state_simps(2))
qed

theorem modified_order_loses_its_place_demo:
  "\<exists>s'. processModifyOrder demo_env ''7'' 3 (Fin 98) 5 demo_low_resting = Some s' \<and>
     w_own s' = w_own demo_low_resting"
proof -
  have "\<forall>(k, l)\<in>set (take 1 (opposite demo_low (book_remove 3 (w_book demo_low_resting)))).
      \<not> crosses (replaced (Fin 98) 5 demo_low) k"
    by code_simp
  then show ?thesis
    using modified_order_loses_its_place [OF demo_low_inv demo_low_at(1,3,2) demo_low_facts(2),
        of 5 "Fin 98" demo_env "''7''"]
    by auto
qed

text \<open>
  trades of a modified order are never stored. Whatever a modify matches, none of the
  tasks it queues is the insertion of a trade.
\<close>

theorem modify_stores_no_trade:
  assumes inv: "worker_inv s" and run: "processModifyOrder e c i p q s = Some s'"
  shows "AddTrade t \<notin> set (new_tasks s s')"
proof (cases "w_own s i")
  case None
  then have "s' = reject e i c EURUSD Buy ''Order not found'' s"
    using run by (simp add: processModifyOrder_unknown)
  then show ?thesis by simp
next
  case (Some a)
  have none: "AddTrade t \<notin> set (tasks_of (matched_log e False h o1 ts fs))" for h o1 ts fs
  proof (induction ts fs rule: list_induct2')
    case (4 u ts p fs)
    then show ?case by (cases p) (auto simp: matched_log_def tasks_settle_log)
  qed (simp_all add: matched_log_def)
  obtain ord where ord: "w_heap s a = Some ord" by (rule worker_inv_live [OF inv Some])
  then have "s' = modified_state e i a ord p q s"
    using run processModifyOrder_eq [OF inv Some ord] by simp
  then show ?thesis
    using none by (auto simp: new_tasks_modified tasks_matched trade_loop_log_def tasks_stored)
qed

text \<open>Moving dave's bid up to 100 trades with alice's offer.\<close>

definition demo_modified :: worker where
  "demo_modified = the (processModifyOrder demo_env ''7'' 3 (Fin 100) 7 demo_low_resting)"

lemma demo_modified_run:
  "processModifyOrder demo_env ''7'' 3 (Fin 100) 7 demo_low_resting = Some demo_modified"
  using processModifyOrder_ok [OF demo_low_inv, of demo_env "''7''" 3 "Fin 100" 7]
  by (auto simp: demo_modified_def)

theorem modify_stores_no_trade_demo:
  "w_tid demo_modified = 1 \<and> (\<forall>t. AddTrade t \<notin> set (new_tasks demo_low_resting demo_modified))"
proof -
  have "w_tid demo_modified = 1" by code_simp
  then show ?thesis using modify_stores_no_trade [OF demo_low_inv demo_modified_run] by blast
qed

subsection \<open>Orders filled by several trades\<close>

text \<open>What a fill leaves of its maker, and what an incoming order filled completely leaves behind.\<close>

lemma fill_maker:
  assumes inv: "worker_inv s" and fresh: "w_own s (mCoreOrderId ord) = None"
  defines "a \<equiv> next_addr (w_mgr s)" and "h \<equiv> (w_heap s)(next_addr (w_mgr s) \<mapsto> ord)"
  assumes fill: "(y, g) \<in> set (book_fills h ord (w_book s))"
  shows "\<exists>mk. h y = Some mk \<and> ((w_own s)(mCoreOrderId ord \<mapsto> a)) (mCoreOrderId mk) = Some y \<and>
     mCoreOrderId mk \<noteq> mCoreOrderId ord \<and> heap_after h a ord (w_book s) y = Some (fill g mk)"
proof -
  have ok: "book_ok h ((w_own s)(mCoreOrderId ord \<mapsto> a)) (w_book s)"
    using admitted_ok(1) [OF inv fresh] by (simp add: worker_inv_def h_def a_def)
  obtain mk where mk: "h y = Some mk" "((w_own s)(mCoreOrderId ord \<mapsto> a)) (mCoreOrderId mk) = Some y"
      "y \<in> book_addrs (w_book s)"
    by (rule book_fills_maker [OF ok fill])
  moreover have "y \<noteq> a" using mk(3) admitted_ok(2) [OF inv fresh] a_def by blast
  moreover have "map_of (book_fills h ord (w_book s)) y = Some g" using fill book_fills_distinct [OF ok] by simp
  ultimately show ?thesis by (auto simp: heap_after_other)
qed

lemma filled_order_state:
  assumes inv: "worker_inv s" and fresh: "w_own s (mCoreOrderId ord) = None"
    and pass: "preCheck ord (w_heap s) (w_book s) = Some True" and run: "processNewOrder e ord s = Some s'"
  defines "h \<equiv> (w_heap s)(next_addr (w_mgr s) \<mapsto> ord)"
  assumes filled: "book_unfilled h ord (w_book s) = 0" "book_fills h ord (w_book s) \<noteq> []"
  shows "s' = matched_state e True (next_addr (w_mgr s)) ord (admitted_state e ord s)" and "worker_inv s'"
proof -
  let ?s4 = "matched_state e True (next_addr (w_mgr s)) ord (admitted_state e ord s)"
  have "\<not> containsOrderById (mCoreOrderId ord) (w_mgr ?s4)"
    using filled by (simp add: dropped_ids_def h_def)
  then show s': "s' = ?s4"
    using processNewOrder_eq [OF inv fresh pass, of e] run
    by (simp add: new_order_state_def Let_def del: matched_state_simps)
  show "worker_inv s'" using processNewOrder_ok [OF inv fresh, of e] run by auto
qed

text \<open>
  C12: the later trades of a fill are lost. When an admitted order is filled completely by
  several trades, the handler forgets it after the first; for every later trade that took a
  resting order completely, that order is off the book, with quantity 0, but the manager
  still holds it, and no task updates or removes its row.
\<close>

theorem later_fills_leak_their_makers:
  assumes inv: "worker_inv s" and fresh: "w_own s (mCoreOrderId ord) = None"
    and pass: "preCheck ord (w_heap s) (w_book s) = Some True"
  defines "h \<equiv> (w_heap s)(next_addr (w_mgr s) \<mapsto> ord)"
  assumes filled: "book_unfilled h ord (w_book s) = 0"
    and later: "(x, f) \<in> set (drop 1 (book_fills h ord (w_book s)))"
    and whole: "f = mRemainingQuantity (order_at h x)"
    and run: "processNewOrder e ord s = Some s'"
  defines "i \<equiv> mCoreOrderId (order_at h x)"
  shows "x \<notin> book_addrs (w_book s') \<and> w_own s' i = Some x \<and>
     mRemainingQuantity (order_at (w_heap s') x) = 0 \<and>
     RemoveOrder i \<notin> set (new_tasks s s') \<and>
     (\<forall>u. UpdateOrder u \<in> set (new_tasks s s') \<longrightarrow> mCoreOrderId u \<noteq> i)"
proof -
  let ?a = "next_addr (w_mgr s)" and ?j = "mCoreOrderId ord" and ?m = "admit ord (w_mgr s)"
  let ?fs = "book_fills h ord (w_book s)" and ?own = "(w_own s)(mCoreOrderId ord \<mapsto> next_addr (w_mgr s))"
  let ?h' = "heap_after h ?a ord (w_book s)" and ?fin = "taker_final h ord (w_book s)"
  let ?drop = "dropped_ids ?h' ?fin ?fs"
  note maker = fill_maker [OF inv fresh, folded h_def]
  obtain x0 f0 rest where fs: "?fs = (x0, f0) # rest" using later by (cases ?fs) auto
  have inv2: "worker_inv (admitted_state e ord s)" by (rule admitted_ok(1) [OF inv fresh])
  have "distinct (map fst ?fs)"
    by (rule book_fills_distinct [of h ?own]) (use inv2 in \<open>simp add: worker_inv_def h_def\<close>)
  then have ne: "x0 \<noteq> x" using later unfolding fs by (force simp: image_iff)
  obtain mk where mk: "h x = Some mk" "?own (mCoreOrderId mk) = Some x" "mCoreOrderId mk \<noteq> ?j" "?h' x = Some (fill f mk)"
    using maker [of x f] later by (auto simp: fs)
  obtain mk0 where mk0: "?own (mCoreOrderId mk0) = Some x0" "?h' x0 = Some (fill f0 mk0)"
    using maker [of x0 f0] by (auto simp: fs)
  have i: "i = mCoreOrderId mk" using mk(1) by (simp add: i_def order_at_def)
  have ids: "mCoreOrderId mk0 \<noteq> i" "?j \<noteq> i" using mk0(1) mk ne i by auto
  have left: "mRemainingQuantity ?fin = 0" using filled by simp
  have kept: "i \<notin> ?drop"
    using mk0(2) filled ids by (auto simp: dropped_ids_def settled_def fs emptied_ids_def order_at_def)
  have "?fs \<noteq> []" by (simp add: fs)
  note state = filled_order_state [OF inv fresh pass run, folded h_def, OF filled this]
  have mgr: "w_mgr s' = drop_ids ?drop (?m\<lparr>heap := ?h'\<rparr>)" using state(1) by (simp add: h_def)
  have own: "w_own s' i = Some x" using kept mk(2) i unfolding mgr by auto
  have "manager_inv (?m\<lparr>heap := ?h'\<rparr>)"
    using inv2 by (intro manager_inv_heap) (simp_all add: worker_inv_def heap_after_ids h_def)
  then have heap: "w_heap s' x = Some (fill f mk)"
    using heap_drop_ids_own [of "?m\<lparr>heap := ?h'\<rparr>" i x ?drop] mk(2,4) i kept unfolding mgr by simp
  have zero: "mRemainingQuantity (fill f mk) = 0" using whole mk(1) by (simp add: order_at_def)
  have book: "x \<notin> book_addrs (w_book s')"
    by (rule filled_not_in_book [OF state(2) heap zero])
  have tasks: "new_tasks s s' = SaveOrder ord # tasks_of (trade_loop_log e True ?h' ?fin
      (trades_of (clk e) h ord (w_tid s) (w_ticks s) ?fs) ?fs)"
    using state(1) by (simp add: new_tasks_def w_log_matched h_def)
  have "mCoreOrderId (buy_of ?fin (fill f0 mk0)) \<noteq> i" "mCoreOrderId (sell_of ?fin (fill f0 mk0)) \<noteq> i"
    using ids by (simp_all add: buy_of_def sell_of_def)
  then have "RemoveOrder i \<notin> set (new_tasks s s') \<and>
      (\<forall>u. UpdateOrder u \<in> set (new_tasks s s') \<longrightarrow> mCoreOrderId u \<noteq> i)"
    using mk0(2) left
    by (auto simp: tasks trade_loop_log_def settled_def fs matched_log_def tasks_settle_log
        tasks_stored order_at_def split: if_splits)
  then show ?thesis using own heap zero book by (simp add: order_at_def)
qed

text \<open>Carol takes both demo offers: bob's is the second trade, and it leaks.\<close>

definition demo_sweep :: order where
  "demo_sweep = demo_order 3 ''carol'' Buy Limit 20 101"

lemma demo_sweep_facts:
  "w_own demo_resting (mCoreOrderId demo_sweep) = None"
  "preCheck demo_sweep (w_heap demo_resting) (w_book demo_resting) = Some True"
  "book_unfilled ((w_heap demo_resting)(next_addr (w_mgr demo_resting) \<mapsto> demo_sweep)) demo_sweep
     (w_book demo_resting) = 0"
  "(2, 10) \<in> set (drop 1 (book_fills ((w_heap demo_resting)(next_addr (w_mgr demo_resting) \<mapsto> demo_sweep))
     demo_sweep (w_book demo_resting)))"
  "10 = mRemainingQuantity
     (order_at ((w_heap demo_resting)(next_addr (w_mgr demo_resting) \<mapsto> demo_sweep)) 2)"
  "mCoreOrderId (order_at ((w_heap demo_resting)(next_addr (w_mgr demo_resting) \<mapsto> demo_sweep)) 2) = 2"
  by code_simp+

theorem later_fills_leak_their_makers_demo:
  "\<exists>s'. processNewOrder demo_env demo_sweep demo_resting = Some s' \<and>
     2 \<notin> book_addrs (w_book s') \<and> w_own s' 2 = Some 2 \<and>
     RemoveOrder 2 \<notin> set (new_tasks demo_resting s')"
proof -
  obtain s' where s': "processNewOrder demo_env demo_sweep demo_resting = Some s'"
    using processNewOrder_ok [OF demo_resting_ok(1) demo_sweep_facts(1), of demo_env] by blast
  show ?thesis
    using later_fills_leak_their_makers
        [OF demo_resting_ok(1) demo_sweep_facts(1,2,3,4,5) s'] s'
    unfolding demo_sweep_facts(6) by blast
qed

subsection \<open>What the gate does not see\<close>

text \<open>
  Modifying bypasses the risk gate. Alice's bid, resting below her own offer, is moved up
  to it by a modify: the engine matches the two although both carry her \<open>SenderCompID\<close>.
\<close>

theorem modify_trades_with_itself:
  "map_option
     (\<lambda>s. [(mExchangeOrderId r, mLastQuantity r). r \<leftarrow> reports_of (w_log s),
            mText r = ''TRADE''])
     (processBatch demo_env
       [demo_new (demo_order 1 ''alice'' Sell Limit 10 100), demo_new (demo_order 2 ''alice'' Buy Limit 10 99),
        ModifyOrder ''7'' 0 2 (Fin 100) 10] (init_worker EURUSD)) =
   Some [(2, 10), (1, 10)]"
  by code_simp

text \<open>
  A limit order whose price is NaN passes the gate: its positive-price, distance and
  self-match tests are all comparisons that are false, and the matcher then takes every
  opposite order whatever its price.
\<close>

theorem nan_price_passes_the_gate:
  assumes ok: "book_ok h own b" and nan: "mOrderType ord = Limit" "mPrice ord = NaN"
    and qty: "mOriginalQuantity ord \<noteq> 0"
  shows "preCheck ord h b = Some True \<and> eligible ord (opposite ord b) = addrs (opposite ord b)"
proof -
  have "dsub NaN p = NaN" "ddiv NaN p = NaN" "dabs NaN = NaN" for p
    by (cases p; simp add: dsub_def)+
  then have "\<not> fat_finger ord b" by (simp add: fat_finger_def nan dgt_def Let_def)
  moreover have "\<not> gate_crosses ord p" for p
    by (cases "mOrderSide ord") (simp_all add: gate_crosses_def nan dge_def)
  then have "gate_eligible ord (opposite ord b) = []"
    by (cases "opposite ord b") (auto simp: gate_eligible_def nan addrs_def)
  moreover have "eligible ord m = addrs m" for m
    by (induction m) (auto simp: crosses_def nan dgt_def addrs_def)
  ultimately show ?thesis using qty by (simp add: preCheck_spec [OF ok] nan)
qed

theorem nan_price_passes_the_gate_demo:
  "preCheck ((demo_order 3 ''carol'' Buy Limit 15 1)\<lparr>mPrice := NaN\<rparr>) demo_heap demo_book = Some True"
  using nan_price_passes_the_gate [OF demo_book_ok, of "(demo_order 3 ''carol'' Buy Limit 15 1)\<lparr>mPrice := NaN\<rparr>"]
  by (simp add: demo_order_def mk_order_def)

subsection \<open>Snapshots\<close>

definition level_entries :: "md_entry_type \<Rightarrow> heap \<Rightarrow> levels \<Rightarrow> md_entry list" where
  "level_entries ty h m = map (\<lambda>(n, pl). entry_of_level ty h n pl) (zip [0..<length m] m)"

lemma snapshot_of_book:
  assumes inv: "worker_inv s"
  shows "book_snapshot sid (w_heap s) (w_book s) = Some \<lparr>s_targetSessionID = ucast sid, s_mdReqID = [],
     s_symbol = mBookSymbol (w_book s), s_entries = level_entries Bid (w_heap s) (mBidMap (w_book s))
       @ level_entries Offer (w_heap s) (mAskMap (w_book s))\<rparr>"
proof -
  have ok: "book_ok (w_heap s) (w_own s) (w_book s)" using inv by (simp add: worker_inv_def)
  have lv: "\<forall>(p, l)\<in>set m. l \<noteq> [] \<and> (\<forall>a\<in>set l. w_heap s a \<noteq> None)"
    if "m = mBidMap (w_book s) \<or> m = mAskMap (w_book s)" for m
    using that book_ok_sides [OF ok] by (fastforce simp: side_ok_def rests_def)
  show ?thesis
    using side_entries_spec [OF lv [of "mBidMap (w_book s)"], of Bid 0]
      side_entries_spec [OF lv [of "mAskMap (w_book s)"], of Offer 0]
    by (simp add: book_snapshot_def level_entries_def)
qed

text \<open>
  C13: a snapshot describes the book. Publishing never fails on a consistent state, and the
  snapshot has one entry for each bid level, best first, then one for each ask level, best
  first; the k-th entry of a side has the level's price, the sum of the quantities resting
  there (in 64 bits), the time of the first of them, and position k + 1.
\<close>

theorem snapshot_describes_book:
  assumes inv: "worker_inv s"
  shows "\<exists>snap. book_snapshot sid (w_heap s) (w_book s) = Some snap \<and>
     s_symbol snap = mBookSymbol (w_book s) \<and>
     (let entries = (\<lambda>ty m. map (\<lambda>(k, (p, l)).
            \<lparr>s_entryType = ty, s_price = p,
             s_size = (\<Sum>a\<leftarrow>l. mRemainingQuantity (order_at (w_heap s) a)),
             s_entryTime = mTimestamp (order_at (w_heap s) (hd l)),
             s_entryPosition = of_nat (k + 1)\<rparr>) (zip [0..<length m] m))
      in s_entries snap = entries Bid (mBidMap (w_book s)) @ entries Offer (mAskMap (w_book s)))"
  using snapshot_of_book [OF inv, of sid]
  by (simp add: level_entries_def entry_of_level_def level_quantity_def Let_def case_prod_beta)

theorem snapshot_describes_book_demo:
  "\<exists>snap. book_snapshot 4 (w_heap demo_resting) (w_book demo_resting) = Some snap"
  using snapshot_describes_book [OF demo_resting_ok(1), of 4] by blast

end
