(* ===== verification/Partition.thy ===== *)
theory Partition
  imports WorkerProperties WorkerStore
begin

text \<open>
  \<open>exchange_routing/Partition\<close> and the loop of \<open>WorkerThread\<close>: one symbol's command queue,
  order manager, book and worker. The queue is \<open>rigtorp::SPSCQueue\<close>, which is not part of
  the repository: its operations are an argument, and \<open>spsc_laws\<close> is what its documentation
  promises of them.
\<close>

subsection \<open>The command queue\<close>

record 'q spsc =
  q_make :: "nat \<Rightarrow> 'q"
  q_try_push :: "command \<Rightarrow> 'q \<Rightarrow> bool \<times> 'q"
  q_front :: "'q \<Rightarrow> command option"
  q_pop :: "'q \<Rightarrow> 'q"
  q_size :: "'q \<Rightarrow> nat"

text \<open>
  A bounded FIFO: \<open>view\<close> is what the queue holds, oldest first, \<open>cap\<close> its capacity.
  \<open>try_push\<close> fails when it is full; \<open>front\<close> is null when it is empty.
\<close>

definition spsc_laws :: "'q spsc \<Rightarrow> ('q \<Rightarrow> command list) \<Rightarrow> ('q \<Rightarrow> nat) \<Rightarrow> bool" where
  "spsc_laws Q view cap \<longleftrightarrow>
     (\<forall>n. view (q_make Q n) = [] \<and> cap (q_make Q n) = n) \<and>
     (\<forall>c q. if length (view q) < cap q
            then fst (q_try_push Q c q) \<and> view (snd (q_try_push Q c q)) = view q @ [c] \<and>
                 cap (snd (q_try_push Q c q)) = cap q
            else q_try_push Q c q = (False, q)) \<and>
     (\<forall>q. q_front Q q = (case view q of [] \<Rightarrow> None | c # cs \<Rightarrow> Some c)) \<and>
     (\<forall>q. view q \<noteq> [] \<longrightarrow> view (q_pop Q q) = tl (view q) \<and> cap (q_pop Q q) = cap q) \<and>
     (\<forall>q. q_size Q q = length (view q))"

text \<open>A queue that keeps the laws: a list with its capacity.\<close>

definition list_queue :: "(nat \<times> command list) spsc" where
  "list_queue = \<lparr>q_make = (\<lambda>n. (n, [])),
     q_try_push = (\<lambda>c (n, l). if length l < n then (True, (n, l @ [c])) else (False, (n, l))),
     q_front = (\<lambda>(n, l). case l of [] \<Rightarrow> None | c # cs \<Rightarrow> Some c),
     q_pop = (\<lambda>(n, l). (n, tl l)), q_size = (\<lambda>(n, l). length l)\<rparr>"

lemma list_queue_laws: "spsc_laws list_queue snd fst"
  by (auto simp: spsc_laws_def list_queue_def split: if_splits)

subsection \<open>State and operations\<close>

record 'q partition =
  p_symbol :: instrument
  p_worker :: worker
  mCommandQueue :: 'q
  mAcceptingCommands :: bool
  mWorker :: bool

text \<open>The constructor and \<open>init\<close>, given the orders the repository loaded.\<close>

definition init_partition :: "'q spsc \<Rightarrow> instrument \<Rightarrow> order list \<Rightarrow> 'q partition" where
  "init_partition Q symbol orders =
     \<lparr>p_symbol = symbol, p_worker = (init_worker symbol)\<lparr>w_mgr := fold add_new orders empty_manager\<rparr>,
      mCommandQueue = q_make Q 262144, mAcceptingCommands = True, mWorker = False\<rparr>"

text \<open>The loop of \<open>start\<close> over the ids of the manager's hash map.\<close>

fun insert_orders :: "u64 list \<Rightarrow> worker \<Rightarrow> worker option" where
  "insert_orders [] s = Some s"
| "insert_orders (i # is) s = do {
     a \<leftarrow> w_own s i;
     s1 \<leftarrow> insert_book a s;
     insert_orders is s1
   }"

definition start_partition ::
  "(order_manager \<Rightarrow> u64 list) \<Rightarrow> 'q partition \<Rightarrow> 'q partition option" where
  "start_partition iter p =
     (if mWorker p then Some p
      else do {
        w \<leftarrow> insert_orders (iter (w_mgr (p_worker p))) (p_worker p);
        Some (p\<lparr>p_worker := w, mWorker := True\<rparr>)
      })"

definition stop_partition :: "'q partition \<Rightarrow> 'q partition" where
  "stop_partition p = (if mWorker p then p\<lparr>mWorker := False\<rparr> else p)"

definition stopAccepting_partition :: "'q partition \<Rightarrow> 'q partition" where
  "stopAccepting_partition p = p\<lparr>mAcceptingCommands := False\<rparr>"

definition enqueue :: "'q spsc \<Rightarrow> command \<Rightarrow> 'q partition \<Rightarrow> 'q partition" where
  "enqueue Q c p =
     (if \<not> mAcceptingCommands p then p
      else let (pushed, q) = q_try_push Q c (mCommandQueue p) in p\<lparr>mCommandQueue := q\<rparr>)"

definition queue_size :: "'q spsc \<Rightarrow> 'q partition \<Rightarrow> nat" where
  "queue_size Q p = q_size Q (mCommandQueue p)"

subsection \<open>The worker loop\<close>

definition BATCH_SIZE :: nat where
  "BATCH_SIZE = 64"

text \<open>The first loop of \<open>processNextCommand\<close>: \<open>n\<close> more places in the batch.\<close>

fun dequeue :: "'q spsc \<Rightarrow> nat \<Rightarrow> 'q \<Rightarrow> command list \<times> 'q" where
  "dequeue Q 0 q = ([], q)"
| "dequeue Q (Suc n) q = (case q_front Q q of
      None \<Rightarrow> ([], q)
    | Some c \<Rightarrow> let (cs, q') = dequeue Q n (q_pop Q q) in (c # cs, q'))"

definition processNextCommand :: "'q spsc \<Rightarrow> env \<Rightarrow> 'q partition \<Rightarrow> 'q partition option" where
  "processNextCommand Q e p =
     (let (batch, q) = dequeue Q BATCH_SIZE (mCommandQueue p)
      in map_option (\<lambda>w. p\<lparr>p_worker := w, mCommandQueue := q\<rparr>) (processBatch e batch (p_worker p)))"

text \<open>\<open>n\<close> turns of \<open>runLoop\<close>.\<close>

fun runLoop :: "'q spsc \<Rightarrow> env \<Rightarrow> nat \<Rightarrow> 'q partition \<Rightarrow> 'q partition option" where
  "runLoop Q e 0 p = Some p"
| "runLoop Q e (Suc n) p = do { p1 \<leftarrow> processNextCommand Q e p; runLoop Q e n p1 }"

subsection \<open>Draining the queue\<close>

lemma dequeue_view:
  assumes "spsc_laws Q view cap"
  shows "fst (dequeue Q n q) = take n (view q) \<and> view (snd (dequeue Q n q)) = drop n (view q)"
proof (induction n arbitrary: q)
  case (Suc n)
  show ?case
  proof (cases "view q")
    case Nil
    then show ?thesis using assms by (simp add: spsc_laws_def)
  next
    case (Cons c cs)
    then have "q_front Q q = Some c" "view (q_pop Q q) = cs"
      using assms by (simp_all add: spsc_laws_def)
    then show ?thesis using Suc [of "q_pop Q q"] by (simp add: Cons case_prod_beta)
  qed
qed simp

lemma processNextCommand_view:
  assumes laws: "spsc_laws Q view cap" and run: "processNextCommand Q e p = Some p'"
  shows "processBatch e (take BATCH_SIZE (view (mCommandQueue p))) (p_worker p) = Some (p_worker p')"
    and "view (mCommandQueue p') = drop BATCH_SIZE (view (mCommandQueue p))"
  using run dequeue_view [OF laws, of BATCH_SIZE "mCommandQueue p"]
  by (auto simp: processNextCommand_def split: prod.splits)

lemma runLoop_drains:
  assumes laws: "spsc_laws Q view cap"
    and "length (view (mCommandQueue p)) \<le> BATCH_SIZE * n"
    and "processBatch e (view (mCommandQueue p)) (p_worker p) = Some w"
  shows "\<exists>p'. runLoop Q e n p = Some p' \<and> view (mCommandQueue p') = [] \<and> p_worker p' = w"
  using assms(2,3)
proof (induction n arbitrary: p)
  case (Suc n)
  let ?cs = "view (mCommandQueue p)"
  obtain w1 where w1: "processBatch e (take BATCH_SIZE ?cs) (p_worker p) = Some w1"
      "processBatch e (drop BATCH_SIZE ?cs) w1 = Some w"
    using Suc.prems(2) processBatch_append [of e "take BATCH_SIZE ?cs" "drop BATCH_SIZE ?cs"]
    by (auto simp: bind_eq_Some_conv)
  obtain q where q: "dequeue Q BATCH_SIZE (mCommandQueue p) = (take BATCH_SIZE ?cs, q)"
      "view q = drop BATCH_SIZE ?cs"
    using dequeue_view [OF laws, of BATCH_SIZE "mCommandQueue p"]
    by (cases "dequeue Q BATCH_SIZE (mCommandQueue p)") auto
  let ?p1 = "p\<lparr>p_worker := w1, mCommandQueue := q\<rparr>"
  have "processNextCommand Q e p = Some ?p1" by (simp add: processNextCommand_def q w1)
  moreover have "length (view (mCommandQueue ?p1)) \<le> BATCH_SIZE * n"
    using Suc.prems(1) by (simp add: q)
  moreover have "processBatch e (view (mCommandQueue ?p1)) (p_worker ?p1) = Some w"
    using w1(2) q(2) by simp
  ultimately show ?case using Suc.IH [of ?p1] by simp
qed simp

lemma enqueue_view:
  assumes laws: "spsc_laws Q view cap"
  shows "view (mCommandQueue (enqueue Q c p)) =
     (if mAcceptingCommands p \<and> length (view (mCommandQueue p)) < cap (mCommandQueue p)
      then view (mCommandQueue p) @ [c] else view (mCommandQueue p))"
    "cap (mCommandQueue (enqueue Q c p)) = cap (mCommandQueue p)"
    "p_worker (enqueue Q c p) = p_worker p" "mWorker (enqueue Q c p) = mWorker p"
    "mAcceptingCommands (enqueue Q c p) = mAcceptingCommands p"
    "p_symbol (enqueue Q c p) = p_symbol p"
proof -
  have "if length (view q) < cap q
        then fst (q_try_push Q c q) \<and> view (snd (q_try_push Q c q)) = view q @ [c] \<and>
             cap (snd (q_try_push Q c q)) = cap q
        else q_try_push Q c q = (False, q)" for q
    using laws unfolding spsc_laws_def by blast
  from this [of "mCommandQueue p"] show
    "view (mCommandQueue (enqueue Q c p)) =
       (if mAcceptingCommands p \<and> length (view (mCommandQueue p)) < cap (mCommandQueue p)
        then view (mCommandQueue p) @ [c] else view (mCommandQueue p))"
    "cap (mCommandQueue (enqueue Q c p)) = cap (mCommandQueue p)"
    "p_worker (enqueue Q c p) = p_worker p" "mWorker (enqueue Q c p) = mWorker p"
    "mAcceptingCommands (enqueue Q c p) = mAcceptingCommands p"
    "p_symbol (enqueue Q c p) = p_symbol p"
    by (auto simp: enqueue_def case_prod_beta split: if_splits)
qed

lemma enqueue_all_view:
  assumes laws: "spsc_laws Q view cap" and "mAcceptingCommands p"
    and "length (view (mCommandQueue p)) + length cs \<le> cap (mCommandQueue p)"
  shows "view (mCommandQueue (fold (enqueue Q) cs p)) = view (mCommandQueue p) @ cs \<and>
     p_worker (fold (enqueue Q) cs p) = p_worker p"
  using assms(2,3)
proof (induction cs arbitrary: p)
  case (Cons c cs)
  show ?case
    using Cons.IH [of "enqueue Q c p"] Cons.prems enqueue_view [OF laws, of c p] by simp
qed simp

subsection \<open>Filling the book on start\<close>

lemma insert_orders_ok:
  assumes "worker_inv s" and "distinct is"
    and "\<forall>i\<in>set is. \<exists>ord. held (w_mgr s) i = Some ord \<and> mRemainingQuantity ord \<noteq> 0 \<and>
           the (w_own s i) \<notin> book_addrs (w_book s)"
  shows "\<exists>s'. insert_orders is s = Some s' \<and> worker_inv s' \<and> w_mgr s' = w_mgr s \<and>
     book_addrs (w_book s') = book_addrs (w_book s) \<union> (\<lambda>i. the (w_own s i)) ` set is"
  using assms
proof (induction "is" arbitrary: s)
  case (Cons i "is")
  obtain a ord where a: "w_own s i = Some a" "w_heap s a = Some ord"
      "mRemainingQuantity ord \<noteq> 0" "a \<notin> book_addrs (w_book s)"
    using Cons.prems(3) by (fastforce simp: held_def bind_eq_Some_conv)
  have id: "mCoreOrderId ord = i" by (rule worker_inv_live [OF Cons.prems(1) a(1)]) (use a(2) in simp)
  obtain s1 where s1: "insert_book a s = Some s1" "worker_inv s1" "w_mgr s1 = w_mgr s"
      "book_addrs (w_book s1) = insert a (book_addrs (w_book s))"
    using insert_book_ok [OF Cons.prems(1) a(2,4) _ a(3)] a(1) id by auto
  have "the (w_own s1 j) \<notin> book_addrs (w_book s1)" if j: "j \<in> set is" for j
  proof -
    obtain b where b: "w_own s j = Some b"
      using Cons.prems(3) j by (fastforce simp: held_def bind_eq_Some_conv)
    have "b \<noteq> a" using worker_inv_own_inj [OF Cons.prems(1) a(1), of j] b Cons.prems(2) j by auto
    then show ?thesis using Cons.prems(3) j b s1 by auto
  qed
  then have "\<forall>j\<in>set is. \<exists>ord. held (w_mgr s1) j = Some ord \<and> mRemainingQuantity ord \<noteq> 0 \<and>
      the (w_own s1 j) \<notin> book_addrs (w_book s1)"
    using Cons.prems(3) s1(3) by fastforce
  then obtain s2 where "insert_orders is s1 = Some s2" "worker_inv s2" "w_mgr s2 = w_mgr s1"
      "book_addrs (w_book s2) = book_addrs (w_book s1) \<union> (\<lambda>i. the (w_own s1 i)) ` set is"
    using Cons.IH [OF s1(2)] Cons.prems(2) by auto
  then show ?case using a(1) s1 by auto
qed simp

lemma held_fold_add_new:
  assumes "manager_inv m"
  shows "manager_inv (fold add_new os m) \<and> held (fold add_new os m) j =
     (case held m j of Some ord \<Rightarrow> Some ord | None \<Rightarrow> List.find (\<lambda>ord. mCoreOrderId ord = j) os)"
  using assms
proof (induction os arbitrary: m)
  case Nil
  then show ?case by (simp split: option.split)
next
  case (Cons ord os)
  then show ?case
    using Cons.IH [OF manager_inv_add_new [OF Cons.prems, of ord]] held_add_new [OF Cons.prems, of ord j]
    by (auto split: option.splits)
qed

text \<open>The queue of orders at one price of one side of a book.\<close>

definition level_at :: "order_side \<Rightarrow> dbl \<Rightarrow> order_book \<Rightarrow> addr list" where
  "level_at sd p b =
     (case map_of (if sd = Buy then mBidMap b else mAskMap b) p of None \<Rightarrow> [] | Some l \<Rightarrow> l)"

lemma level_at_insert:
  assumes sorted: "keys_sorted dgt (mBidMap b)" "keys_sorted dlt (mAskMap b)"
    and nan: "mPrice ord \<noteq> NaN" "no_nan (mBidMap b)" "no_nan (mAskMap b)"
  shows "level_at sd p (book_insert a ord b) =
     level_at sd p b @ (if mOrderSide ord = sd \<and> mPrice ord = p then [a] else [])"
proof -
  note bid = bid_map.map_of_map_upd [of "mBidMap b" "mPrice ord" "[]" "\<lambda>l. l @ [a]"]
    and ask = ask_map.map_of_map_upd [of "mAskMap b" "mPrice ord" "[]" "\<lambda>l. l @ [a]"]
  show ?thesis
    using assms bid ask
    by (cases sd; cases "mOrderSide ord")
      (auto simp: level_at_def book_insert_def no_nan_def split: option.splits)
qed

end
