(* ===== verification/PartitionProperties.thy ===== *)
theory PartitionProperties
  imports Partition EngineProperties
begin

text \<open>
  The theorems about one partition: its queue and worker loop, and what a restart rebuilds
  from the database.
\<close>

subsection \<open>The queue and the loop\<close>

text \<open>
  C7: every accepted command is processed, once, in order. Commands put into an empty queue
  that accepts and has room are all taken out again by the worker loop, 64 at a time, and
  handled in the order they were enqueued: after enough turns the queue is empty and the
  partition is in the state that handling them one after the other gives.
\<close>

theorem loop_processes_what_was_enqueued:
  assumes laws: "spsc_laws Q view cap" and ready: "mAcceptingCommands p" "view (mCommandQueue p) = []"
    and room: "length cs \<le> cap (mCommandQueue p)" "length cs \<le> 64 * n"
    and inv: "worker_inv (p_worker p)" "distinct (new_ids cs)"
      "set (new_ids cs) \<inter> dom (w_own (p_worker p)) = {}"
  shows "\<exists>p' w. runLoop Q e n (fold (enqueue Q) cs p) = Some p' \<and> view (mCommandQueue p') = [] \<and>
     processBatch e cs (p_worker p) = Some w \<and> p_worker p' = w \<and> worker_inv w"
proof -
  let ?p = "fold (enqueue Q) cs p"
  have v: "view (mCommandQueue ?p) = cs" "p_worker ?p = p_worker p"
    using enqueue_all_view [OF laws ready(1), of cs] ready(2) room(1) by simp_all
  obtain w where w: "processBatch e cs (p_worker p) = Some w" "worker_inv w"
    using processBatch_ok [OF inv] by blast
  have "length (view (mCommandQueue ?p)) \<le> BATCH_SIZE * n" using v room(2) by (simp add: BATCH_SIZE_def)
  then show ?thesis using runLoop_drains [OF laws] w v by metis
qed

definition demo_partition :: "(nat \<times> command list) partition" where
  "demo_partition = init_partition list_queue EURUSD []"

lemma demo_partition_simps [simp]:
  "mAcceptingCommands demo_partition" "mCommandQueue demo_partition = (262144, [])"
  "p_worker demo_partition = init_worker EURUSD"
  by (simp_all add: demo_partition_def init_partition_def list_queue_def init_worker_def)

theorem loop_processes_what_was_enqueued_demo:
  "\<exists>p'. runLoop list_queue demo_env 1 (fold (enqueue list_queue) demo_batch demo_partition) = Some p' \<and>
     snd (mCommandQueue p') = []"
proof -
  have "length demo_batch = 3" by (simp add: demo_batch_def)
  then show ?thesis
    using loop_processes_what_was_enqueued
      [OF list_queue_laws, of demo_partition demo_batch 1 demo_env] worker_inv_init demo_batch_fresh
    by auto
qed

text \<open>
  a full or closed queue drops commands. Enqueuing appends exactly when the partition
  accepts and the queue has room; otherwise the command is gone and nothing else changes.
\<close>

theorem enqueue_appends_or_drops:
  assumes laws: "spsc_laws Q view cap"
  shows "view (mCommandQueue (enqueue Q c p)) =
       view (mCommandQueue p) @
         (if mAcceptingCommands p \<and> length (view (mCommandQueue p)) < cap (mCommandQueue p) then [c] else [])
     \<and> p_worker (enqueue Q c p) = p_worker p"
  using enqueue_view [OF laws] by simp

theorem enqueue_appends_or_drops_demo:
  "snd (mCommandQueue (enqueue list_queue (demo_new demo_low) (stopAccepting_partition demo_partition))) = []"
  using enqueue_appends_or_drops [OF list_queue_laws]
  by (simp add: stopAccepting_partition_def)

subsection \<open>Restart\<close>

definition live_orders :: "(u64 \<Rightarrow> order option) \<Rightarrow> instrument \<Rightarrow> u64 \<Rightarrow> order option" where
  "live_orders M i j = (case M j of None \<Rightarrow> None
     | Some ord \<Rightarrow> if mSymbol ord = i \<and> active ord then Some ord else None)"

lemma held_loaded:
  assumes rel: "repo_rel M d"
  shows "held (fold add_new (loadOrdersForInstrument i d) empty_manager) = live_orders M i"
proof
  fix j
  have set: "set (loadOrdersForInstrument i d) =
      {ord. M (mCoreOrderId ord) = Some ord \<and> mSymbol ord = i \<and> active ord}"
    by (rule load_refines [OF rel])
  have id: "M j = Some ord \<Longrightarrow> mCoreOrderId ord = j" for ord
    using repo_rel_SomeD [OF rel] by blast
  have find: "List.find (\<lambda>ord. mCoreOrderId ord = j) os = live_orders M i j"
    if os: "set os = {ord. M (mCoreOrderId ord) = Some ord \<and> mSymbol ord = i \<and> active ord}" for os
  proof (cases "List.find (\<lambda>ord. mCoreOrderId ord = j) os")
    case None
    then show ?thesis using os id by (auto simp: find_None_iff live_orders_def split: option.split)
  next
    case (Some ord)
    then have "ord \<in> set os" "mCoreOrderId ord = j" by (auto simp: find_Some_iff)
    then show ?thesis using Some os by (auto simp: live_orders_def)
  qed
  have "held empty_manager j = None" by (simp add: held_def empty_manager_def)
  then show "held (fold add_new (loadOrdersForInstrument i d) empty_manager) j = live_orders M i j"
    using held_fold_add_new [OF manager_inv_empty] find [OF set] by simp
qed


definition by_id :: "order_manager \<Rightarrow> u64 list" where
  "by_id m = sorted_list_of_set (dom (mOrderMap m))"

lemma iterates_by_id: "iterates by_id"
  by (simp add: iterates_def by_id_def)


lemma insert_orders_levels:
  assumes "insert_orders is s = Some s'" and "keys_sorted dgt (mBidMap (w_book s))"
    and "keys_sorted dlt (mAskMap (w_book s))" and "no_nan (mBidMap (w_book s))"
    and "no_nan (mAskMap (w_book s))" and "\<forall>j ord. held (w_mgr s) j = Some ord \<longrightarrow> mPrice ord \<noteq> NaN"
  shows "level_at sd p (w_book s') = level_at sd p (w_book s) @
     map (\<lambda>j. the (w_own s j)) (filter (\<lambda>j. \<exists>ord. held (w_mgr s) j = Some ord \<and>
       mOrderSide ord = sd \<and> mPrice ord = p) is)"
  using assms
proof (induction "is" arbitrary: s)
  case (Cons i "is")
  obtain a s1 where a: "w_own s i = Some a" "insert_book a s = Some s1" "insert_orders is s1 = Some s'"
    using Cons.prems(1) by (auto simp: bind_eq_Some_conv)
  obtain ord where ord: "w_heap s a = Some ord"
    using a(2) by (auto simp: insert_book_def insertOrder_def bind_eq_Some_conv split: prod.splits)
  have s1: "s1 = rest_state a ord s" using a(2) insert_book_eq [OF ord] by simp
  have held: "held (w_mgr s) i = Some ord" using a(1) ord by (simp add: held_def)
  then have price: "mPrice ord \<noteq> NaN" using Cons.prems(6) by blast
  have b1: "w_book s1 = book_insert a ord (w_book s)" by (simp add: s1)
  have sorted: "keys_sorted dgt (mBidMap (w_book s1))" "keys_sorted dlt (mAskMap (w_book s1))"
    using Cons.prems(2,3) by (auto simp: b1 book_insert_def bid_map.sorted_map_upd ask_map.sorted_map_upd)
  have nan: "no_nan (mBidMap (w_book s1))" "no_nan (mAskMap (w_book s1))"
    using Cons.prems(4,5) price fst_set_map_upd
    by (fastforce simp: b1 book_insert_def no_nan_def)+
  have "level_at sd p (w_book s') = level_at sd p (w_book s1) @
      map (\<lambda>j. the (w_own s1 j)) (filter (\<lambda>j. \<exists>ord. held (w_mgr s1) j = Some ord \<and>
        mOrderSide ord = sd \<and> mPrice ord = p) is)"
    by (rule Cons.IH [OF a(3) sorted nan]) (use Cons.prems(6) s1 in simp)
  then show ?case
    using level_at_insert [OF Cons.prems(2,3) price Cons.prems(4,5), of sd p a] held a(1)
    by (simp add: b1 s1)
qed simp

text \<open>
  Restart forgets time priority. Inside a price level the orders a start puts on the
  empty book stand in the iteration order of the manager's hash map, not in the order in
  which they had arrived: for any iteration order the level is exactly the matching ids of
  that order.
\<close>

theorem restart_orders_levels_by_hash_order:
  assumes start: "start_partition iter (init_partition Q i orders) = Some p"
    and prices: "\<forall>ord\<in>set orders. mPrice ord \<noteq> NaN"
  defines "m \<equiv> fold add_new orders empty_manager"
  shows "level_at sd k (w_book (p_worker p)) =
     map (\<lambda>j. the (mOrderMap m j)) (filter (\<lambda>j. \<exists>ord. held m j = Some ord \<and>
       mOrderSide ord = sd \<and> mPrice ord = k) (iter m))"
proof -
  let ?w = "(init_worker i)\<lparr>w_mgr := m\<rparr>"
  have run: "insert_orders (iter (w_mgr ?w)) ?w = Some (p_worker p)"
    using start by (auto simp: start_partition_def init_partition_def m_def bind_eq_Some_conv)
  have "\<forall>j ord. held (w_mgr ?w) j = Some ord \<longrightarrow> mPrice ord \<noteq> NaN"
  proof clarify
    fix j ord assume h: "held (w_mgr ?w) j = Some ord" and nan: "mPrice ord = NaN"
    have "held empty_manager j = None" by (simp add: held_def empty_manager_def)
    then have "List.find (\<lambda>ord. mCoreOrderId ord = j) orders = Some ord"
      using h held_fold_add_new [OF manager_inv_empty, of orders j] by (simp add: m_def)
    then have "ord \<in> set orders" by (auto simp: find_Some_iff)
    then show False using prices nan by blast
  qed
  from insert_orders_levels [OF run _ _ _ _ this, of sd k] show ?thesis
    by (simp add: init_worker_def empty_book_def no_nan_def level_at_def)
qed

text \<open>Two bids at one price, entered as 1 then 2, and a hash map that visits 2 first.\<close>

definition demo_orders :: "order list" where
  "demo_orders = [demo_order 1 ''a'' Buy Limit 5 90, demo_order 2 ''b'' Buy Limit 5 90]"

theorem restart_orders_levels_by_hash_order_demo:
  "\<exists>p. start_partition (\<lambda>m. [2, 1]) (init_partition list_queue EURUSD demo_orders) = Some p \<and>
     level_at Buy (Fin 90) (w_book (p_worker p)) = [2, 1]"
proof -
  have m: "map (\<lambda>j. the (mOrderMap (fold add_new demo_orders empty_manager) j)) [2, 1] = [2, 1]"
    "\<forall>j\<in>set [2, 1]. map_option (\<lambda>ord. (mOrderSide ord, mPrice ord))
        (held (fold add_new demo_orders empty_manager) j) = Some (Buy, Fin 90)"
    by code_simp+
  have "insert_orders [2, 1] ((init_worker EURUSD)\<lparr>w_mgr := fold add_new demo_orders empty_manager\<rparr>) \<noteq> None"
    by code_simp
  then have "start_partition (\<lambda>m. [2, 1]) (init_partition list_queue EURUSD demo_orders) \<noteq> None"
    by (auto simp: start_partition_def init_partition_def simp del: insert_orders.simps)
  then obtain p where p: "start_partition (\<lambda>m. [2, 1]) (init_partition list_queue EURUSD demo_orders) = Some p"
    by blast
  have "\<forall>ord\<in>set demo_orders. mPrice ord \<noteq> NaN"
    by (simp add: demo_orders_def demo_order_def mk_order_def)
  from restart_orders_levels_by_hash_order [OF p this, of Buy "Fin 90"] show ?thesis
    using p m by auto
qed

text \<open>
  Starting twice puts every order on the book twice. A partition that is stopped and
  started again inserts the orders its book still has a second time.
\<close>

theorem second_start_duplicates_orders:
  "map_option (\<lambda>p. level_at Buy (Fin 90) (w_book (p_worker p)))
     (do { p \<leftarrow> start_partition (\<lambda>m. [1, 2]) (init_partition list_queue EURUSD demo_orders);
           start_partition (\<lambda>m. [1, 2]) (stop_partition p) }) = Some [1, 2, 1, 2]"
proof -
  let ?w = "(init_worker EURUSD)\<lparr>w_mgr := fold add_new demo_orders empty_manager\<rparr>"
  have "map_option (\<lambda>w. level_at Buy (Fin 90) (w_book w))
      (do { w \<leftarrow> insert_orders [1, 2] ?w; insert_orders [1, 2] w }) = Some [1, 2, 1, 2]"
    by code_simp
  then show ?thesis
    by (auto simp: start_partition_def init_partition_def stop_partition_def bind_eq_Some_conv
        simp del: insert_orders.simps)
qed

end
