(* ===== verification/MarketDataPublisher.thy ===== *)
theory MarketDataPublisher
  imports FixMessages
begin

text \<open>
  \<open>exchange_publishers/MarketDataPublisher\<close>: the subscription table (a \<open>std::map\<close> from
  symbol to the session ids in subscription order) and the fan-out of snapshots and
  incremental refreshes. A callback is a number (an empty \<open>std::function\<close> is \<open>None\<close>);
  publishing returns the calls made, in order. Each method holds the mutex for its whole
  table access, so it is one atomic step.
\<close>

subsection \<open>State and operations\<close>

record md_publisher =
  mSubscriptions :: "(instrument \<times> u64 list) list"
  mSessionSnapshotCallbacks :: "nat option list"
  mSessionIncrementalCallbacks :: "nat option list"
  mGeneralSnapshotCallbacks :: "nat option list"
  mGeneralIncrementalCallbacks :: "nat option list"

definition empty_publisher :: md_publisher where
  "empty_publisher =
     \<lparr>mSubscriptions = [], mSessionSnapshotCallbacks = [], mSessionIncrementalCallbacks = [],
      mGeneralSnapshotCallbacks = [], mGeneralIncrementalCallbacks = []\<rparr>"

definition addSubscription :: "instrument \<Rightarrow> u64 \<Rightarrow> md_publisher \<Rightarrow> md_publisher" where
  "addSubscription symbol sessionId p =
     p\<lparr>mSubscriptions :=
         map_upd (<) symbol []
           (\<lambda>sessions. if sessionId \<in> set sessions then sessions else sessions @ [sessionId])
           (mSubscriptions p)\<rparr>"

definition removeSubscription :: "instrument \<Rightarrow> u64 \<Rightarrow> md_publisher \<Rightarrow> md_publisher" where
  "removeSubscription symbol sessionId p =
     (case map_find (<) symbol (mSubscriptions p) of
        None \<Rightarrow> p
      | Some sessions \<Rightarrow>
          let sessions' = filter (\<lambda>s. s \<noteq> sessionId) sessions
          in p\<lparr>mSubscriptions :=
                 if sessions' = [] then map_erase (<) symbol (mSubscriptions p)
                 else map_set (<) symbol sessions' (mSubscriptions p)\<rparr>)"

text \<open>The loop over the whole table of \<open>removeSubscription(sessionId)\<close>.\<close>

fun remove_session :: "u64 \<Rightarrow> (instrument \<times> u64 list) list \<Rightarrow> (instrument \<times> u64 list) list" where
  "remove_session sessionId [] = []"
| "remove_session sessionId ((symbol, sessions) # m) =
     (let sessions' = filter (\<lambda>s. s \<noteq> sessionId) sessions
      in if sessions' = [] then remove_session sessionId m
         else (symbol, sessions') # remove_session sessionId m)"

definition removeSubscriptions :: "u64 \<Rightarrow> md_publisher \<Rightarrow> md_publisher" where
  "removeSubscriptions sessionId p =
     p\<lparr>mSubscriptions := remove_session sessionId (mSubscriptions p)\<rparr>"

definition call_all :: "nat option list \<Rightarrow> 'm \<Rightarrow> (nat \<times> 'm) list" where
  "call_all cbs m = map (\<lambda>cb. (cb, m)) (List.map_filter id cbs)"

definition publishSnapshot :: "md_snapshot \<Rightarrow> md_publisher \<Rightarrow> (nat \<times> md_snapshot) list" where
  "publishSnapshot snapshot p =
     call_all (mGeneralSnapshotCallbacks p) snapshot
     @ (if s_targetSessionID snapshot \<noteq> 0 then call_all (mSessionSnapshotCallbacks p) snapshot
        else [])"

definition targetSessions :: "instrument \<Rightarrow> md_publisher \<Rightarrow> u64 list" where
  "targetSessions symbol p =
     (case map_find (<) symbol (mSubscriptions p) of None \<Rightarrow> [] | Some l \<Rightarrow> l)"

definition publishIncremental ::
  "md_incremental_refresh \<Rightarrow> md_publisher \<Rightarrow> (nat \<times> md_incremental_refresh) list" where
  "publishIncremental refresh p =
     call_all (mGeneralIncrementalCallbacks p) refresh
     @ (let targets = targetSessions (i_symbol refresh) p
        in if mSessionIncrementalCallbacks p \<noteq> [] \<and> targets \<noteq> []
           then concat (map (\<lambda>sessionId.
                  call_all (mSessionIncrementalCallbacks p)
                    (refresh\<lparr>i_targetSessionID := Some (ucast sessionId)\<rparr>)) targets)
           else [])"

definition subscribeToSnapshots :: "nat option \<Rightarrow> md_publisher \<Rightarrow> md_publisher" where
  "subscribeToSnapshots cb p =
     p\<lparr>mSessionSnapshotCallbacks := mSessionSnapshotCallbacks p @ [cb]\<rparr>"

definition subscribeToIncrementals :: "nat option \<Rightarrow> md_publisher \<Rightarrow> md_publisher" where
  "subscribeToIncrementals cb p =
     p\<lparr>mSessionIncrementalCallbacks := mSessionIncrementalCallbacks p @ [cb]\<rparr>"

definition addGeneralIncrementalSubscriber :: "nat option \<Rightarrow> md_publisher \<Rightarrow> md_publisher" where
  "addGeneralIncrementalSubscriber cb p =
     p\<lparr>mGeneralIncrementalCallbacks := mGeneralIncrementalCallbacks p @ [cb]\<rparr>"

definition addGeneralSnapshotSubscriber :: "nat option \<Rightarrow> md_publisher \<Rightarrow> md_publisher" where
  "addGeneralSnapshotSubscriber cb p =
     p\<lparr>mGeneralSnapshotCallbacks := mGeneralSnapshotCallbacks p @ [cb]\<rparr>"

subsection \<open>The table invariant\<close>

text \<open>One node per symbol in symbol order, no empty session list, no session twice.\<close>

definition publisher_inv :: "md_publisher \<Rightarrow> bool" where
  "publisher_inv p \<longleftrightarrow>
     keys_sorted (<) (mSubscriptions p) \<and>
     (\<forall>l\<in>snd ` set (mSubscriptions p). l \<noteq> [] \<and> distinct l)"

lemma targetSessions_map_of:
  "publisher_inv p \<Longrightarrow>
     targetSessions s p = (case map_of (mSubscriptions p) s of None \<Rightarrow> [] | Some l \<Rightarrow> l)"
  by (simp add: targetSessions_def publisher_inv_def linorder_map.map_find_sorted)

lemma fst_remove_session: "j \<in> fst ` set (remove_session s m) \<Longrightarrow> j \<in> fst ` set m"
  by (induction s m rule: remove_session.induct) (simp_all add: Let_def split: if_splits, blast+)

lemma sorted_remove_session: "keys_sorted (<) m \<Longrightarrow> keys_sorted (<) (remove_session s m)"
proof (induction s m rule: remove_session.induct)
  case (2 s a l m)
  have "\<forall>j\<in>fst ` set (remove_session s m). a < j"
    using 2(3) fst_remove_session [of _ s m] by fastforce
  then show ?case using 2 by (simp add: Let_def)
qed simp

lemma map_of_remove_session:
  "keys_sorted (<) m \<Longrightarrow>
     map_of (remove_session s m) a =
       (case map_of m a of None \<Rightarrow> None
        | Some l \<Rightarrow> let l' = filter (\<lambda>x. x \<noteq> s) l in if l' = [] then None else Some l')"
proof (induction s m rule: remove_session.induct)
  case (2 s b l m)
  have "map_of m b = None" if "keys_sorted (<) ((b, l) # m)"
    using that by (auto simp: map_of_eq_None_iff)
  then show ?case using 2 by (auto simp: Let_def)
qed simp

lemma publisher_inv_empty: "publisher_inv empty_publisher"
  by (simp add: publisher_inv_def empty_publisher_def)

lemma publisher_inv_add [inv_intros]:
  assumes "publisher_inv p"
  shows "publisher_inv (addSubscription symbol sessionId p)"
proof -
  let ?f = "\<lambda>l. if sessionId \<in> set l then l else l @ [sessionId]"
  let ?m = "map_upd (<) symbol [] ?f (mSubscriptions p)"
  have "l \<noteq> [] \<and> distinct l" if "(j, l) \<in> set ?m" for j l
    using linorder_map.map_upd_member [OF that] assms
    by (force simp: publisher_inv_def split: if_splits)
  then show ?thesis
    using assms linorder_map.sorted_map_upd
    by (auto simp: publisher_inv_def addSubscription_def)
qed

lemma publisher_inv_remove [inv_intros]:
  assumes "publisher_inv p"
  shows "publisher_inv (removeSubscription symbol sessionId p)"
proof (cases "map_find (<) symbol (mSubscriptions p)")
  case None
  then show ?thesis using assms by (simp add: removeSubscription_def)
next
  case (Some l)
  let ?l = "filter (\<lambda>s. s \<noteq> sessionId) l"
  have sorted: "keys_sorted (<) (mSubscriptions p)"
    and lists: "\<forall>l\<in>snd ` set (mSubscriptions p). l \<noteq> [] \<and> distinct l"
    using assms by (simp_all add: publisher_inv_def)
  have "(symbol, l) \<in> set (mSubscriptions p)"
    using Some by (simp add: linorder_map.map_find_sorted [OF sorted] map_of_SomeD)
  then have l: "distinct ?l" using lists by force
  have set: "w \<noteq> [] \<and> distinct w"
    if "(j, w) \<in> set (map_set (<) symbol ?l (mSubscriptions p))" and "?l \<noteq> []" for j w
    using linorder_map.map_upd_member [OF that(1)] lists l that(2) by auto
  have erase: "w \<noteq> [] \<and> distinct w"
    if "(j, w) \<in> set (map_erase (<) symbol (mSubscriptions p))" for j w
    using subsetD [OF set_map_erase that] lists by auto
  show ?thesis
  proof (cases "?l = []")
    case True
    then have "removeSubscription symbol sessionId p =
        p\<lparr>mSubscriptions := map_erase (<) symbol (mSubscriptions p)\<rparr>"
      by (simp add: removeSubscription_def Some)
    then show ?thesis
      using erase linorder_map.sorted_map_erase [OF sorted] by (auto simp: publisher_inv_def)
  next
    case False
    then have "removeSubscription symbol sessionId p =
        p\<lparr>mSubscriptions := map_set (<) symbol ?l (mSubscriptions p)\<rparr>"
      by (simp only: removeSubscription_def Some option.case Let_def if_False)
    then show ?thesis
      using set [OF _ False] linorder_map.sorted_map_upd [OF sorted]
      by (auto simp: publisher_inv_def)
  qed
qed

lemma publisher_inv_remove_all [inv_intros]:
  assumes "publisher_inv p"
  shows "publisher_inv (removeSubscriptions sessionId p)"
proof -
  have "(\<forall>l\<in>snd ` set m. l \<noteq> [] \<and> distinct l) \<Longrightarrow>
        (\<forall>l\<in>snd ` set (remove_session s m). l \<noteq> [] \<and> distinct l)" for s m
    by (induction s m rule: remove_session.induct) (simp_all add: Let_def)
  from this [of "mSubscriptions p" sessionId] show ?thesis
    using assms sorted_remove_session [of "mSubscriptions p" sessionId]
    unfolding publisher_inv_def removeSubscriptions_def by simp
qed

subsection \<open>The contract of a subscription registry\<close>

text \<open>
  What \<open>TradingCore\<close> and \<open>FixServer\<close> rely on: the sessions of a symbol behave as a set.
\<close>

locale subscription_registry =
  fixes add :: "instrument \<Rightarrow> u64 \<Rightarrow> 'p \<Rightarrow> 'p"
    and remove :: "instrument \<Rightarrow> u64 \<Rightarrow> 'p \<Rightarrow> 'p"
    and remove_all :: "u64 \<Rightarrow> 'p \<Rightarrow> 'p"
    and targets :: "instrument \<Rightarrow> 'p \<Rightarrow> u64 list"
    and inv :: "'p \<Rightarrow> bool"
  assumes inv_add: "inv p \<Longrightarrow> inv (add s k p)"
    and inv_remove: "inv p \<Longrightarrow> inv (remove s k p)"
    and inv_remove_all: "inv p \<Longrightarrow> inv (remove_all k p)"
    and targets_add: "inv p \<Longrightarrow>
          targets t (add s k p) =
            (if t = s \<and> k \<notin> set (targets s p) then targets s p @ [k] else targets t p)"
    and targets_remove: "inv p \<Longrightarrow>
          targets t (remove s k p) =
            (if t = s then filter (\<lambda>x. x \<noteq> k) (targets s p) else targets t p)"
    and targets_remove_all: "inv p \<Longrightarrow>
          targets t (remove_all k p) = filter (\<lambda>x. x \<noteq> k) (targets t p)"
    and targets_distinct: "inv p \<Longrightarrow> distinct (targets t p)"
begin

lemma add_idem: "inv p \<Longrightarrow> targets t (add s k (add s k p)) = targets t (add s k p)"
  by (simp add: targets_add inv_add)

lemma remove_add:
  "inv p \<Longrightarrow> k \<notin> set (targets s p) \<Longrightarrow> targets t (remove s k (add s k p)) = targets t p"
  by (simp add: targets_add targets_remove inv_add filter_id_conv)
    (metis filter_True)

lemma add_other: "inv p \<Longrightarrow> t \<noteq> s \<Longrightarrow> targets t (add s k p) = targets t p"
  by (simp add: targets_add)

text \<open>A session that left receives nothing again until it subscribes again.\<close>

lemma gone_after_remove_all: "inv p \<Longrightarrow> k \<notin> set (targets t (remove_all k p))"
  by (simp add: targets_remove_all)

end

lemma targets_addSubscription:
  assumes "publisher_inv p"
  shows "targetSessions t (addSubscription s k p) =
     (if t = s \<and> k \<notin> set (targetSessions s p) then targetSessions s p @ [k]
      else targetSessions t p)"
  using assms publisher_inv_add [OF assms, of s k]
  by (auto simp: targetSessions_map_of addSubscription_def publisher_inv_def
      linorder_map.map_of_map_upd split: option.splits)

lemma targets_removeSubscription:
  assumes "publisher_inv p"
  shows "targetSessions t (removeSubscription s k p) =
     (if t = s then filter (\<lambda>x. x \<noteq> k) (targetSessions s p) else targetSessions t p)"
  using assms publisher_inv_remove [OF assms, of s k]
  by (auto simp: targetSessions_map_of removeSubscription_def publisher_inv_def Let_def
      linorder_map.map_find_sorted linorder_map.map_of_map_upd linorder_map.map_of_map_erase
      split: option.splits)

lemma targets_removeSubscriptions:
  assumes "publisher_inv p"
  shows "targetSessions t (removeSubscriptions k p) = filter (\<lambda>x. x \<noteq> k) (targetSessions t p)"
  using assms publisher_inv_remove_all [OF assms, of k]
  by (auto simp: targetSessions_map_of removeSubscriptions_def publisher_inv_def Let_def
      map_of_remove_session split: option.splits)

lemma targetSessions_distinct: "publisher_inv p \<Longrightarrow> distinct (targetSessions t p)"
  by (auto simp: targetSessions_map_of publisher_inv_def split: option.splits
      dest!: map_of_SomeD)

interpretation publisher_subs: subscription_registry
  addSubscription removeSubscription removeSubscriptions targetSessions publisher_inv
  by unfold_locales
    (simp_all add: inv_intros targets_addSubscription targets_removeSubscription
      targets_removeSubscriptions targetSessions_distinct)

end
