(* ===== verification/TradingCore.thy ===== *)
theory TradingCore
  imports Partition MarketDataPublisher IdGenerators
begin

text \<open>
  \<open>exchange_app/TradingCore\<close>: the nine partitions, the two id counters, the market data
  publisher, the database worker and the execution callback. A partition is one slot of the
  array indexed by \<open>Instrument\<close>; an empty slot is \<open>None\<close>, and using it is the null
  dereference of the code. What leaves the core is recorded in the order it is delivered.
\<close>

subsection \<open>State\<close>

text \<open>A call of a registered callback; the number says which one of the publisher's.\<close>

datatype core_out =
    OutReport execution_report
  | OutSnapshot nat md_snapshot
  | OutIncremental nat md_incremental_refresh

record 'q core =
  mPartitions :: "instrument \<Rightarrow> 'q partition option"
  mTradeIDGenerator :: u64
  mOrderIDGenerator :: u64
  mMarketDataPublisher :: md_publisher
  mDatabaseWorker :: db_worker
  mExecutionReportCallback :: bool
  outs :: "core_out list"

text \<open>
  \<open>initPartitions\<close>: the constructor of each partition creates the tables of its repositories
  and then loads the orders of its symbol.
\<close>

fun initPartitions ::
  "'q spsc \<Rightarrow> instrument list \<Rightarrow> db \<Rightarrow> ((instrument \<times> 'q partition) list \<times> db) option" where
  "initPartitions Q [] d = Some ([], d)"
| "initPartitions Q (i # is) d = do {
     d1 \<leftarrow> exec_tasks [InitTrades, InitOrders, LoadOrders i] d;
     (ps, d2) \<leftarrow> initPartitions Q is d1;
     Some ((i, init_partition Q i (loadOrdersForInstrument i d1)) # ps, d2)
   }"

text \<open>The constructors; \<open>None\<close> is the wait for a reply that never comes.\<close>

definition init_core :: "'q spsc \<Rightarrow> db \<Rightarrow> 'q core option" where
  "init_core Q d = do {
     d1 \<leftarrow> exec_tasks [InitClients, InitTradeID] d;
     tid \<leftarrow> init_trade_ids d1;
     let oid = init_order_ids (Some d1);
     (ps, d2) \<leftarrow> initPartitions Q instruments d1;
     Some \<lparr>mPartitions = map_of ps, mTradeIDGenerator = tid, mOrderIDGenerator = oid,
           mMarketDataPublisher = empty_publisher,
           mDatabaseWorker = \<lparr>mTasks = [], mDatabase = d2\<rparr>, mExecutionReportCallback = False,
           outs = []\<rparr>
   }"

subsection \<open>Delivery\<close>

text \<open>Where the effects of a partition go.\<close>

fun deliver :: "event \<Rightarrow> 'q core \<Rightarrow> 'q core" where
  "deliver (EvDb t) c = c\<lparr>mDatabaseWorker := enqueue_task t (mDatabaseWorker c)\<rparr>"
| "deliver (EvReport r) c =
     (if mExecutionReportCallback c then c\<lparr>outs := outs c @ [OutReport r]\<rparr> else c)"
| "deliver (EvIncremental r) c =
     c\<lparr>outs := outs c
         @ map (\<lambda>(k, m). OutIncremental k m) (publishIncremental r (mMarketDataPublisher c))\<rparr>"

definition set_partition :: "instrument \<Rightarrow> 'q partition \<Rightarrow> 'q core \<Rightarrow> 'q core" where
  "set_partition i p c = c\<lparr>mPartitions := (mPartitions c)(i \<mapsto> p)\<rparr>"

text \<open>
  A partition step sees the shared trade id counter and hands on what it emitted: \<open>f\<close> is run
  on the partition with an empty log.
\<close>

definition with_partition ::
  "instrument \<Rightarrow> ('q partition \<Rightarrow> 'q partition option) \<Rightarrow> 'q core \<Rightarrow> 'q core option" where
  "with_partition i f c = do {
     p \<leftarrow> mPartitions c i;
     p1 \<leftarrow> f (p\<lparr>p_worker := (p_worker p)\<lparr>w_tid := mTradeIDGenerator c, w_log := []\<rparr>\<rparr>);
     let w = p_worker p1;
     Some (fold deliver (w_log w)
       (set_partition i (p1\<lparr>p_worker := w\<lparr>w_log := []\<rparr>\<rparr>) (c\<lparr>mTradeIDGenerator := w_tid w\<rparr>)))
   }"

subsection \<open>Start and stop\<close>

fun start_all ::
  "(order_manager \<Rightarrow> u64 list) \<Rightarrow> instrument list \<Rightarrow> 'q core \<Rightarrow> 'q core option" where
  "start_all iter [] c = Some c"
| "start_all iter (i # is) c =
     (if mPartitions c i = None then start_all iter is c
      else do { c1 \<leftarrow> with_partition i (start_partition iter) c; start_all iter is c1 })"

definition start_core :: "(order_manager \<Rightarrow> u64 list) \<Rightarrow> 'q core \<Rightarrow> 'q core option" where
  "start_core iter c = start_all iter instruments c"

definition stop_core :: "'q core \<Rightarrow> 'q core" where
  "stop_core c = c\<lparr>mPartitions := (\<lambda>i. map_option stop_partition (mPartitions c i))\<rparr>"

definition stopAcceptingCommands :: "'q core \<Rightarrow> 'q core" where
  "stopAcceptingCommands c =
     c\<lparr>mPartitions := (\<lambda>i. map_option stopAccepting_partition (mPartitions c i))\<rparr>"

text \<open>The exit test of \<open>waitAllQueuesIdle\<close>.\<close>

definition allQueuesIdle :: "'q spsc \<Rightarrow> 'q core \<Rightarrow> bool" where
  "allQueuesIdle Q c \<longleftrightarrow>
     sum_list (map (\<lambda>i. case mPartitions c i of None \<Rightarrow> 0 | Some p \<Rightarrow> queue_size Q p) instruments)
     + getQueueSize (mDatabaseWorker c) = 0"

subsection \<open>Commands\<close>

fun find_partition :: "u64 \<Rightarrow> instrument list \<Rightarrow> 'q core \<Rightarrow> instrument option" where
  "find_partition orderId [] c = None"
| "find_partition orderId (i # is) c =
     (case mPartitions c i of
        None \<Rightarrow> find_partition orderId is c
      | Some p \<Rightarrow> if containsOrderById orderId (w_mgr (p_worker p)) then Some (p_symbol p)
                  else find_partition orderId is c)"

definition findPartitionForOrder :: "u64 \<Rightarrow> 'q core \<Rightarrow> instrument option" where
  "findPartitionForOrder orderId c = find_partition orderId instruments c"

definition enqueue_at :: "'q spsc \<Rightarrow> instrument \<Rightarrow> command \<Rightarrow> 'q core \<Rightarrow> 'q core option" where
  "enqueue_at Q i cmd c = do {
     p \<leftarrow> mPartitions c i;
     Some (set_partition i (enqueue Q cmd p) c)
   }"

text \<open>A cancel or modify of an unknown id is only logged.\<close>

fun submitCommand :: "'q spsc \<Rightarrow> command \<Rightarrow> 'q core \<Rightarrow> 'q core option" where
  "submitCommand Q (NewOrder client ts ord) c =
     enqueue_at Q (mSymbol ord) (NewOrder client ts ord) c"
| "submitCommand Q (ModifyOrder client ts i p q) c =
     (case findPartitionForOrder i c of None \<Rightarrow> Some c
      | Some s \<Rightarrow> enqueue_at Q s (ModifyOrder client ts i p q) c)"
| "submitCommand Q (CancelOrder client ts i) c =
     (case findPartitionForOrder i c of None \<Rightarrow> Some c
      | Some s \<Rightarrow> enqueue_at Q s (CancelOrder client ts i) c)"

subsection \<open>Queries and subscriptions\<close>

text \<open>The outer \<open>None\<close> is a read through a freed pointer.\<close>

definition getOrder :: "u64 \<Rightarrow> 'q core \<Rightarrow> order option option" where
  "getOrder orderId c = (case findPartitionForOrder orderId c of
      None \<Rightarrow> Some None
    | Some s \<Rightarrow> (case mPartitions c s of
        None \<Rightarrow> Some None
      | Some p \<Rightarrow> (case getOrderById orderId (w_mgr (p_worker p)) of
          None \<Rightarrow> Some None
        | Some a \<Rightarrow> map_option Some (w_heap (p_worker p) a))))"

fun order_by_client ::
  "(order_manager \<Rightarrow> u64 list) \<Rightarrow> string \<Rightarrow> instrument list \<Rightarrow> 'q core \<Rightarrow> order option option" where
  "order_by_client iter clOrdId [] c = Some None"
| "order_by_client iter clOrdId (i # is) c =
     (case mPartitions c i of
        None \<Rightarrow> order_by_client iter clOrdId is c
      | Some p \<Rightarrow> do {
          r \<leftarrow> getOrderByClientOrderId iter clOrdId (w_mgr (p_worker p));
          case r of None \<Rightarrow> order_by_client iter clOrdId is c
          | Some a \<Rightarrow> map_option Some (w_heap (p_worker p) a)
        })"

definition getOrderByClientOrderId_core ::
  "(order_manager \<Rightarrow> u64 list) \<Rightarrow> string \<Rightarrow> 'q core \<Rightarrow> order option option" where
  "getOrderByClientOrderId_core iter clOrdId c = order_by_client iter clOrdId instruments c"

definition subscribeToExecutions :: "'q core \<Rightarrow> 'q core" where
  "subscribeToExecutions c = c\<lparr>mExecutionReportCallback := True\<rparr>"

definition subscribeToMarketData :: "instrument \<Rightarrow> u64 \<Rightarrow> 'q core \<Rightarrow> 'q core option" where
  "subscribeToMarketData symbol sessionId c =
     (let c1 = c\<lparr>mMarketDataPublisher := addSubscription symbol sessionId (mMarketDataPublisher c)\<rparr>
      in case mPartitions c symbol of
           None \<Rightarrow> Some c1
         | Some p \<Rightarrow> do {
             snapshot \<leftarrow> book_snapshot sessionId (w_heap (p_worker p)) (w_book (p_worker p));
             Some (c1\<lparr>outs := outs c1 @ map (\<lambda>(k, m). OutSnapshot k m)
                       (publishSnapshot snapshot (mMarketDataPublisher c1))\<rparr>)
           })"

definition unsubscribeFromMarketData :: "instrument \<Rightarrow> u64 \<Rightarrow> 'q core \<Rightarrow> 'q core" where
  "unsubscribeFromMarketData symbol sessionId c =
     c\<lparr>mMarketDataPublisher := removeSubscription symbol sessionId (mMarketDataPublisher c)\<rparr>"

definition unsubscribeSession :: "u64 \<Rightarrow> 'q core \<Rightarrow> 'q core" where
  "unsubscribeSession sessionId c =
     c\<lparr>mMarketDataPublisher := removeSubscriptions sessionId (mMarketDataPublisher c)\<rparr>"

subsection \<open>The steps of the system\<close>

text \<open>
  What the threads of the process do, one at a time: the session layer draws an order id and
  submits, worker threads take a batch, the database worker takes a task. \<open>Place\<close> is a new
  order with the id the generator returns.
\<close>

datatype core_step =
    Place string timestamp order
  | Request command
  | Turn instrument
  | DbTurn
  | Subscribe instrument u64
  | Unsubscribe instrument u64
  | Disconnect u64

fun step_core :: "'q spsc \<Rightarrow> env \<Rightarrow> core_step \<Rightarrow> 'q core \<Rightarrow> 'q core option" where
  "step_core Q e (Place client ts ord) c =
     (let (i, g) = nextId (mOrderIDGenerator c)
      in submitCommand Q (NewOrder client ts (ord\<lparr>mCoreOrderId := i\<rparr>)) (c\<lparr>mOrderIDGenerator := g\<rparr>))"
| "step_core Q e (Request cmd) c =
     (if getType cmd = NewOrder_t then Some c else submitCommand Q cmd c)"
| "step_core Q e (Turn i) c = with_partition i (processNextCommand Q e) c"
| "step_core Q e DbTurn c =
     map_option (\<lambda>(w, _). c\<lparr>mDatabaseWorker := w\<rparr>) (worker_turn (mDatabaseWorker c))"
| "step_core Q e (Subscribe i s) c = subscribeToMarketData i s c"
| "step_core Q e (Unsubscribe i s) c = Some (unsubscribeFromMarketData i s c)"
| "step_core Q e (Disconnect s) c = Some (unsubscribeSession s c)"

fun core_run :: "'q spsc \<Rightarrow> env \<Rightarrow> core_step list \<Rightarrow> 'q core \<Rightarrow> 'q core option" where
  "core_run Q e [] c = Some c"
| "core_run Q e (x # xs) c = do { c1 \<leftarrow> step_core Q e x c; core_run Q e xs c1 }"

end
