(* ===== verification/CoreProperties.thy ===== *)
theory CoreProperties
  imports TradingCore PartitionProperties
begin

text \<open>
  The theorems about the whole exchange core: a consistency invariant that every step of the
  system keeps, from a start on an empty database, and the routing of commands.
\<close>

subsection \<open>Delivery touches only the outputs\<close>

lemma deliver_simps [simp]:
  "mPartitions (deliver v c) = mPartitions c"
  "mOrderIDGenerator (deliver v c) = mOrderIDGenerator c"
  "mTradeIDGenerator (deliver v c) = mTradeIDGenerator c"
  "mMarketDataPublisher (deliver v c) = mMarketDataPublisher c"
  by (cases v; simp)+

lemma deliver_all_simps [simp]:
  "mPartitions (fold deliver vs c) = mPartitions c"
  "mOrderIDGenerator (fold deliver vs c) = mOrderIDGenerator c"
  "mTradeIDGenerator (fold deliver vs c) = mTradeIDGenerator c"
  "mMarketDataPublisher (fold deliver vs c) = mMarketDataPublisher c"
  by (induction vs arbitrary: c) simp_all

lemma set_partition_simps [simp]:
  "mPartitions (set_partition i p c) = (mPartitions c)(i \<mapsto> p)"
  "mOrderIDGenerator (set_partition i p c) = mOrderIDGenerator c"
  by (simp_all add: set_partition_def)

subsection \<open>The invariant of the core\<close>

text \<open>
  A partition is consistent and its queued new orders carry ids that are not in use; all ids
  it knows have been handed out by the generator.
\<close>

definition partition_ok :: "('q \<Rightarrow> command list) \<Rightarrow> u64 \<Rightarrow> instrument \<Rightarrow> 'q partition \<Rightarrow> bool" where
  "partition_ok view g i p \<longleftrightarrow>
     p_symbol p = i \<and> worker_inv (p_worker p) \<and>
     distinct (new_ids (view (mCommandQueue p))) \<and>
     set (new_ids (view (mCommandQueue p))) \<inter> dom (w_own (p_worker p)) = {} \<and>
     (\<forall>x \<in> set (new_ids (view (mCommandQueue p))) \<union> dom (w_own (p_worker p)). unat x \<le> unat g)"

definition core_ok :: "('q \<Rightarrow> command list) \<Rightarrow> 'q core \<Rightarrow> bool" where
  "core_ok view c \<longleftrightarrow>
     (\<forall>i. \<exists>p. mPartitions c i = Some p \<and> partition_ok view (mOrderIDGenerator c) i p)"

lemma core_okD:
  assumes "core_ok view c"
  obtains p where "mPartitions c i = Some p" and "partition_ok view (mOrderIDGenerator c) i p"
  using assms unfolding core_ok_def by blast

lemma partition_ok_mono:
  "partition_ok view g i p \<Longrightarrow> unat g \<le> unat g' \<Longrightarrow> partition_ok view g' i p"
  unfolding partition_ok_def by (blast intro: order_trans)

lemma core_ok_set:
  assumes "core_ok view c" and "partition_ok view g i p" and "unat (mOrderIDGenerator c) \<le> unat g"
    and "mPartitions c' = (mPartitions c)(i \<mapsto> p)" and "mOrderIDGenerator c' = g"
  shows "core_ok view c'"
  unfolding core_ok_def
proof
  fix j
  show "\<exists>p. mPartitions c' j = Some p \<and> partition_ok view (mOrderIDGenerator c') j p"
  proof (cases "j = i")
    case False
    obtain q where "mPartitions c j = Some q" "partition_ok view (mOrderIDGenerator c) j q"
      by (rule core_okD [OF assms(1)])
    moreover have "partition_ok view g j q"
      by (rule partition_ok_mono) fact+
    ultimately show ?thesis using False assms(4,5) by simp
  qed (use assms in simp)
qed

lemma core_ok_same:
  assumes "core_ok view c" and "mPartitions c' = mPartitions c"
    and "mOrderIDGenerator c' = mOrderIDGenerator c"
  shows "core_ok view c'"
  using assms by (simp add: core_ok_def)

text \<open>Enqueuing keeps it when a new order brings an id above all those in use.\<close>

lemma partition_ok_enqueue:
  assumes laws: "spsc_laws Q view cap" and ok: "partition_ok view g i p"
    and le: "unat g \<le> unat g'" and ids: "\<forall>x\<in>set (new_ids [cmd]). unat g < unat x \<and> unat x \<le> unat g'"
  shows "partition_ok view g' i (enqueue Q cmd p)"
proof -
  have app: "new_ids (view (mCommandQueue p) @ [cmd]) = new_ids (view (mCommandQueue p)) @ new_ids [cmd]"
    by (rule new_ids_append)
  have "distinct (new_ids [cmd])" by (cases cmd) simp_all
  moreover have "set (new_ids [cmd]) \<inter> (set (new_ids (view (mCommandQueue p))) \<union> dom (w_own (p_worker p))) = {}"
  proof (rule equals0I)
    fix x assume x: "x \<in> set (new_ids [cmd]) \<inter>
        (set (new_ids (view (mCommandQueue p))) \<union> dom (w_own (p_worker p)))"
    then have "unat x \<le> unat g" using ok unfolding partition_ok_def by blast
    moreover have "unat g < unat x" using x ids by blast
    ultimately show False by simp
  qed
  moreover have "\<forall>x \<in> set (new_ids (view (mCommandQueue p))) \<union> dom (w_own (p_worker p)). unat x \<le> unat g'"
    using partition_ok_mono [OF ok le] unfolding partition_ok_def by blast
  ultimately show ?thesis
    using ok ids enqueue_view [OF laws, of cmd p] unfolding partition_ok_def
    by (auto simp: app simp del: new_ids.simps)
qed

lemma enqueue_at_ok:
  assumes laws: "spsc_laws Q view cap" and ok: "core_ok view c"
    and le: "unat (mOrderIDGenerator c) \<le> unat g"
    and ids: "\<forall>x\<in>set (new_ids [cmd]). unat (mOrderIDGenerator c) < unat x \<and> unat x \<le> unat g"
  shows "\<exists>c'. enqueue_at Q i cmd (c\<lparr>mOrderIDGenerator := g\<rparr>) = Some c' \<and> core_ok view c'"
proof -
  obtain p where p: "mPartitions c i = Some p" "partition_ok view (mOrderIDGenerator c) i p"
    by (rule core_okD [OF ok])
  have "core_ok view (set_partition i (enqueue Q cmd p) (c\<lparr>mOrderIDGenerator := g\<rparr>))"
    by (rule core_ok_set [OF ok partition_ok_enqueue [OF laws p(2) le ids] le]) simp_all
  then show ?thesis using p(1) by (simp add: enqueue_at_def)
qed

lemma submit_ok:
  assumes laws: "spsc_laws Q view cap" and ok: "core_ok view c" and nn: "new_ids [cmd] = []"
  shows "\<exists>c'. submitCommand Q cmd c = Some c' \<and> core_ok view c'"
proof -
  have "\<exists>c'. enqueue_at Q i cmd c = Some c' \<and> core_ok view c'" for i
    using enqueue_at_ok [OF laws ok, of "mOrderIDGenerator c" cmd i] nn by simp
  then show ?thesis using ok nn by (cases cmd) (auto split: option.split)
qed

lemma turn_ok:
  assumes laws: "spsc_laws Q view cap" and ok: "core_ok view c"
  shows "\<exists>c'. with_partition i (processNextCommand Q e) c = Some c' \<and> core_ok view c'"
proof -
  obtain p where p: "mPartitions c i = Some p" "partition_ok view (mOrderIDGenerator c) i p"
    by (rule core_okD [OF ok])
  let ?w0 = "(p_worker p)\<lparr>w_tid := mTradeIDGenerator c, w_log := []\<rparr>"
  let ?p0 = "p\<lparr>p_worker := ?w0\<rparr>" and ?cs = "view (mCommandQueue p)"
  let ?now = "take BATCH_SIZE ?cs" and ?later = "drop BATCH_SIZE ?cs"
  have w: "worker_inv ?w0" using p(2) worker_inv_cong [of ?w0 "p_worker p"] by (simp add: partition_ok_def)
  have ids: "new_ids ?cs = new_ids ?now @ new_ids ?later"
    by (metis append_take_drop_id new_ids_append)
  have ok1: "distinct (new_ids ?cs)" "set (new_ids ?cs) \<inter> dom (w_own (p_worker p)) = {}"
      "\<forall>x \<in> set (new_ids ?cs) \<union> dom (w_own (p_worker p)). unat x \<le> unat (mOrderIDGenerator c)"
    using p(2) by (simp_all add: partition_ok_def)
  obtain w1 where w1: "processBatch e ?now ?w0 = Some w1" "worker_inv w1"
      "dom (w_own w1) \<subseteq> set (new_ids ?now) \<union> dom (w_own ?w0)"
    using processBatch_ok [OF w, of ?now e] ok1 unfolding ids by auto
  obtain q where q: "dequeue Q BATCH_SIZE (mCommandQueue p) = (?now, q)" "view q = ?later"
    using dequeue_view [OF laws, of BATCH_SIZE "mCommandQueue p"]
    by (cases "dequeue Q BATCH_SIZE (mCommandQueue p)") auto
  let ?p1 = "p\<lparr>mCommandQueue := q, p_worker := w1\<lparr>w_log := []\<rparr>\<rparr>"
  have own1: "dom (w_own w1) \<subseteq> set (new_ids ?now) \<union> dom (w_own (p_worker p))" using w1(3) by simp
  have "worker_inv (w1\<lparr>w_log := []\<rparr>)" using w1(2) worker_inv_cong [of "w1\<lparr>w_log := []\<rparr>" w1] by simp
  moreover have "p_symbol p = i" using p(2) by (simp add: partition_ok_def)
  moreover have "distinct (new_ids ?later)" "set (new_ids ?later) \<inter> dom (w_own w1) = {}"
    using ok1(1,2) own1 unfolding ids by fastforce+
  moreover have "\<forall>x \<in> set (new_ids ?later) \<union> dom (w_own w1). unat x \<le> unat (mOrderIDGenerator c)"
    using ok1(3) own1 unfolding ids by fastforce
  ultimately have pk: "partition_ok view (mOrderIDGenerator c) i ?p1"
    unfolding partition_ok_def by (simp add: q(2))
  have run: "processNextCommand Q e ?p0 = Some (?p0\<lparr>p_worker := w1, mCommandQueue := q\<rparr>)"
    using q(1) w1(1) by (simp add: processNextCommand_def)
  let ?c' = "fold deliver (w_log w1) (set_partition i ?p1 (c\<lparr>mTradeIDGenerator := w_tid w1\<rparr>))"
  have "core_ok view ?c'" by (rule core_ok_set [OF ok pk]) simp_all
  moreover have "with_partition i (processNextCommand Q e) c = Some ?c'"
    using p(1) run by (simp add: with_partition_def)
  ultimately show ?thesis by blast
qed

lemma snapshot_total:
  assumes inv: "worker_inv s" shows "\<exists>snap. book_snapshot sid (w_heap s) (w_book s) = Some snap"
proof -
  have ok: "book_ok (w_heap s) (w_own s) (w_book s)" using inv by (simp add: worker_inv_def)
  have lv: "\<forall>(p, l)\<in>set m. l \<noteq> [] \<and> (\<forall>a\<in>set l. w_heap s a \<noteq> None)"
    if "m = mBidMap (w_book s) \<or> m = mAskMap (w_book s)" for m
    using that book_ok_sides [OF ok] by (fastforce simp: side_ok_def rests_def)
  show ?thesis
    using side_entries_spec [OF lv [of "mBidMap (w_book s)"], of Bid 0]
      side_entries_spec [OF lv [of "mAskMap (w_book s)"], of Offer 0]
    by (simp add: book_snapshot_def)
qed

lemma subscribe_ok:
  assumes ok: "core_ok view c"
  shows "\<exists>c'. subscribeToMarketData i s c = Some c' \<and> core_ok view c'"
proof -
  obtain p where p: "mPartitions c i = Some p" "partition_ok view (mOrderIDGenerator c) i p"
    by (rule core_okD [OF ok])
  obtain snap where "book_snapshot s (w_heap (p_worker p)) (w_book (p_worker p)) = Some snap"
    using snapshot_total p(2) unfolding partition_ok_def by blast
  then show ?thesis
    using p(1) core_ok_same [OF ok] by (simp add: subscribeToMarketData_def Let_def)
qed

lemma keeps_counter:
  "enqueue_at Q i cmd c = Some c' \<Longrightarrow> mOrderIDGenerator c' = mOrderIDGenerator c"
  "submitCommand Q cmd c = Some c' \<Longrightarrow> mOrderIDGenerator c' = mOrderIDGenerator c"
  "with_partition i f c = Some c' \<Longrightarrow> mOrderIDGenerator c' = mOrderIDGenerator c"
  "subscribeToMarketData i s c = Some c' \<Longrightarrow> mOrderIDGenerator c' = mOrderIDGenerator c"
proof -
  show enq: "enqueue_at Q i cmd c = Some c' \<Longrightarrow> mOrderIDGenerator c' = mOrderIDGenerator c" for i cmd
    by (auto simp: enqueue_at_def bind_eq_Some_conv)
  show "submitCommand Q cmd c = Some c' \<Longrightarrow> mOrderIDGenerator c' = mOrderIDGenerator c"
    by (cases cmd) (auto dest: enq split: option.splits)
  show "with_partition i f c = Some c' \<Longrightarrow> mOrderIDGenerator c' = mOrderIDGenerator c"
    by (auto simp: with_partition_def Let_def bind_eq_Some_conv)
  show "subscribeToMarketData i s c = Some c' \<Longrightarrow> mOrderIDGenerator c' = mOrderIDGenerator c"
    by (auto simp: subscribeToMarketData_def Let_def bind_eq_Some_conv split: option.splits)
qed

lemma unat_succ: "unat (g :: u64) + 1 < 2 ^ 64 \<Longrightarrow> unat (g + 1) = unat g + 1"
  by (simp add: unat_word_ariths)

lemma step_ok:
  assumes laws: "spsc_laws Q view cap" and ok: "core_ok view c"
    and ids: "unat (mOrderIDGenerator c) + 1 < 2 ^ 64" and x: "x \<noteq> DbTurn"
  shows "\<exists>c'. step_core Q e x c = Some c' \<and> core_ok view c' \<and>
     unat (mOrderIDGenerator c') \<le> unat (mOrderIDGenerator c) + 1"
proof (cases x)
  case (Place client ts ord)
  let ?g = "mOrderIDGenerator c + 1"
  let ?cmd = "NewOrder client ts (ord\<lparr>mCoreOrderId := ?g\<rparr>)"
  have g: "unat ?g = unat (mOrderIDGenerator c) + 1" by (rule unat_succ [OF ids])
  obtain c' where c': "enqueue_at Q (mSymbol ord) ?cmd (c\<lparr>mOrderIDGenerator := ?g\<rparr>) = Some c'" "core_ok view c'"
    using enqueue_at_ok [OF laws ok, of ?g ?cmd "mSymbol ord"] g by auto
  then have "mOrderIDGenerator c' = ?g" using keeps_counter(1) by fastforce
  then show ?thesis using c' g by (simp add: Place nextId_def Let_def)
next
  case (Request cmd)
  show ?thesis
  proof (cases "getType cmd = NewOrder_t")
    case False
    then have "new_ids [cmd] = []" by (cases cmd) simp_all
    then obtain c' where c': "submitCommand Q cmd c = Some c'" "core_ok view c'"
      using submit_ok [OF laws ok] by blast
    then show ?thesis using False keeps_counter(2) [OF c'(1)] by (simp add: Request)
  qed (simp add: Request ok)
next
  case (Turn i)
  obtain c' where c': "with_partition i (processNextCommand Q e) c = Some c'" "core_ok view c'"
    using turn_ok [OF laws ok] by blast
  then show ?thesis using keeps_counter(3) [OF c'(1)] by (simp add: Turn)
next
  case (Subscribe i s)
  obtain c' where c': "subscribeToMarketData i s c = Some c'" "core_ok view c'"
    using subscribe_ok [OF ok] by blast
  then show ?thesis using keeps_counter(4) [OF c'(1)] by (simp add: Subscribe)
qed (use x core_ok_same [OF ok] in \<open>simp_all add: unsubscribeFromMarketData_def unsubscribeSession_def\<close>)

lemma run_ok:
  assumes laws: "spsc_laws Q view cap" and "core_ok view c"
    and "unat (mOrderIDGenerator c) + length xs < 2 ^ 64" and "DbTurn \<notin> set xs"
  shows "\<exists>c'. core_run Q e xs c = Some c' \<and> core_ok view c'"
  using assms(2-4)
proof (induction xs arbitrary: c)
  case (Cons x xs)
  obtain c1 where c1: "step_core Q e x c = Some c1" "core_ok view c1"
      "unat (mOrderIDGenerator c1) \<le> unat (mOrderIDGenerator c) + 1"
    using step_ok [OF laws Cons.prems(1), of x e] Cons.prems(2,3) by auto
  then show ?case using Cons.IH [OF c1(2)] Cons.prems(2,3) by simp
qed simp

subsection \<open>Starting on an empty database\<close>

lemma initPartitions_empty:
  assumes "distinct is" and "tbl_orders d = None \<or> tbl_orders d = Some []"
  shows "\<exists>ps d'. initPartitions Q is d = Some (ps, d') \<and>
     map_of ps = (\<lambda>i. if i \<in> set is then Some (init_partition Q i []) else None)"
  using assms
proof (induction "is" arbitrary: d)
  case (Cons i "is")
  obtain d1 where d1: "exec_tasks [InitTrades, InitOrders, LoadOrders i] d = Some d1" "tbl_orders d1 = Some []"
    using Cons.prems(2) by (auto simp: create_if_missing_def split: option.splits)
  obtain ps d2 where ps: "initPartitions Q is d1 = Some (ps, d2)"
      "map_of ps = (\<lambda>i. if i \<in> set is then Some (init_partition Q i []) else None)"
    using Cons.IH [of d1] Cons.prems(1) d1(2) by auto
  have "loadOrdersForInstrument i d1 = []" using d1(2) by (simp add: loadOrdersForInstrument_def)
  then show ?case using d1(1) ps Cons.prems(1) by (auto simp: fun_eq_iff)
qed simp

definition fresh_partition :: "'q spsc \<Rightarrow> instrument \<Rightarrow> bool \<Rightarrow> 'q partition" where
  "fresh_partition Q i running = (init_partition Q i [])\<lparr>mWorker := running\<rparr>"

lemma start_fresh:
  assumes "iterates iter" and "mPartitions c i = Some (fresh_partition Q i False)"
    and "mTradeIDGenerator c = 0"
  shows "with_partition i (start_partition iter) c = Some (set_partition i (fresh_partition Q i True) c)"
proof -
  have "iter empty_manager = []"
    using assms(1) unfolding iterates_def by (metis dom_empty empty_manager_def finite.emptyI
        order_manager.select_convs(3) set_empty)
  then show ?thesis
    using assms(2,3)
    by (simp add: with_partition_def fresh_partition_def init_partition_def start_partition_def
        init_worker_def set_partition_def)
qed

lemma start_all_fresh:
  assumes iter: "iterates iter" and "distinct is" and "mTradeIDGenerator c = 0"
    and "\<forall>i\<in>set is. mPartitions c i = Some (fresh_partition Q i False)"
  shows "\<exists>c'. start_all iter is c = Some c' \<and> mOrderIDGenerator c' = mOrderIDGenerator c \<and>
     mDatabaseWorker c' = mDatabaseWorker c \<and>
     mPartitions c' = (\<lambda>i. if i \<in> set is then Some (fresh_partition Q i True) else mPartitions c i)"
  using assms(2-4)
proof (induction "is" arbitrary: c)
  case (Cons i "is")
  let ?c1 = "set_partition i (fresh_partition Q i True) c"
  have "with_partition i (start_partition iter) c = Some ?c1"
    by (rule start_fresh [OF iter]) (use Cons.prems in simp_all)
  moreover have "\<exists>c'. start_all iter is ?c1 = Some c' \<and> mOrderIDGenerator c' = mOrderIDGenerator ?c1 \<and>
     mDatabaseWorker c' = mDatabaseWorker ?c1 \<and>
     mPartitions c' = (\<lambda>i. if i \<in> set is then Some (fresh_partition Q i True) else mPartitions ?c1 i)"
    by (rule Cons.IH) (use Cons.prems in \<open>auto simp: set_partition_def\<close>)
  ultimately show ?case using Cons.prems by (auto simp: fun_eq_iff set_partition_def)
qed simp

lemma instruments_all: "distinct instruments" "set instruments = UNIV"
proof -
  show "distinct instruments" by (simp add: instruments_def)
  have "i \<in> set instruments" for i by (cases i) (simp_all add: instruments_def)
  then show "set instruments = UNIV" by blast
qed

lemma fresh_partition_ok:
  assumes "spsc_laws Q view cap" shows "partition_ok view g i (fresh_partition Q i b)"
proof -
  have "view (q_make Q 262144) = []" using assms by (simp add: spsc_laws_def)
  moreover have "worker_inv ((init_worker i)\<lparr>w_mgr := empty_manager\<rparr>)"
    using worker_inv_init [of i] worker_inv_cong [of "(init_worker i)\<lparr>w_mgr := empty_manager\<rparr>" "init_worker i"]
    by (simp add: init_worker_def)
  ultimately show ?thesis
    by (simp add: partition_ok_def fresh_partition_def init_partition_def empty_manager_def)
qed

lemma start_on_empty:
  assumes laws: "spsc_laws Q view cap" and iter: "iterates iter"
  shows "\<exists>c0 c1. init_core Q empty_db = Some c0 \<and> start_core iter c0 = Some c1 \<and>
     core_ok view c1 \<and> mOrderIDGenerator c1 = 0 \<and>
     mPartitions c1 = (\<lambda>i. Some (fresh_partition Q i True)) \<and> mTasks (mDatabaseWorker c1) = []"
proof -
  obtain d1 where d1: "exec_tasks [InitClients, InitTradeID] empty_db = Some d1"
      "tbl_orders d1 = None" "tbl_trade_id d1 = Some []"
    by (simp add: empty_db_def create_if_missing_def)
  obtain ps d2 where ps: "initPartitions Q instruments d1 = Some (ps, d2)"
      "map_of ps = (\<lambda>i. Some (init_partition Q i []))"
    using initPartitions_empty [OF instruments_all(1), of d1 Q] d1(2) by (auto simp: instruments_all(2))
  have ids: "init_trade_ids d1 = Some 0" "init_order_ids (Some d1) = 0"
    using d1 by (simp_all add: init_trade_ids_def exec_getCurrentTradeID_def init_order_ids_def exec_maxOrderId_def)
  then obtain c0 where c0: "init_core Q empty_db = Some c0"
      "mPartitions c0 = map_of ps" "mTradeIDGenerator c0 = 0" "mOrderIDGenerator c0 = 0"
      "mTasks (mDatabaseWorker c0) = []"
    using d1(1) ps(1) by (simp add: init_core_def del: exec_tasks.simps)
  have "\<forall>i\<in>set instruments. mPartitions c0 i = Some (fresh_partition Q i False)"
    by (simp add: c0 ps fresh_partition_def init_partition_def)
  from start_all_fresh [OF iter instruments_all(1) c0(3) this]
  obtain c1 where c1: "start_core iter c0 = Some c1" "mOrderIDGenerator c1 = 0"
      "mPartitions c1 = (\<lambda>i. Some (fresh_partition Q i True))" "mTasks (mDatabaseWorker c1) = []"
    by (auto simp: start_core_def c0 instruments_all(2))
  have "core_ok view c1" using fresh_partition_ok [OF laws] by (simp add: core_ok_def c1)
  then show ?thesis using c0(1) c1 by blast
qed



subsection \<open>Routing\<close>

text \<open>
  a new order goes to the partition of its symbol. Submitting it changes the queue of
  that partition only: the command is appended there when the partition accepts and has
  room, and every other partition is untouched.
\<close>

theorem new_order_reaches_its_partition:
  assumes laws: "spsc_laws Q view cap" and p: "mPartitions c (mSymbol ord) = Some p"
  shows "\<exists>c' p'. submitCommand Q (NewOrder client ts ord) c = Some c' \<and>
     mPartitions c' = (mPartitions c)(mSymbol ord \<mapsto> p') \<and> p_worker p' = p_worker p \<and>
     view (mCommandQueue p') = view (mCommandQueue p) @
       (if mAcceptingCommands p \<and> length (view (mCommandQueue p)) < cap (mCommandQueue p)
        then [NewOrder client ts ord] else [])"
proof -
  let ?p' = "enqueue Q (NewOrder client ts ord) p"
  have "submitCommand Q (NewOrder client ts ord) c = Some (set_partition (mSymbol ord) ?p' c)"
    using p by (simp add: enqueue_at_def)
  moreover have "mPartitions (set_partition (mSymbol ord) ?p' c) = (mPartitions c)(mSymbol ord \<mapsto> ?p')"
    by simp
  moreover have "p_worker ?p' = p_worker p" "view (mCommandQueue ?p') = view (mCommandQueue p) @
       (if mAcceptingCommands p \<and> length (view (mCommandQueue p)) < cap (mCommandQueue p)
        then [NewOrder client ts ord] else [])"
    using enqueue_view [OF laws, of "NewOrder client ts ord" p] by simp_all
  ultimately show ?thesis by blast
qed

definition demo_core :: "(nat \<times> command list) core" where
  "demo_core = \<lparr>mPartitions = (\<lambda>i. Some (fresh_partition list_queue i True)), mTradeIDGenerator = 0,
     mOrderIDGenerator = 0, mMarketDataPublisher = empty_publisher,
     mDatabaseWorker = \<lparr>mTasks = [], mDatabase = empty_db\<rparr>, mExecutionReportCallback = False,
     outs = []\<rparr>"

theorem new_order_reaches_its_partition_demo:
  "\<exists>c' p'. submitCommand list_queue (demo_new demo_low) demo_core = Some c' \<and>
     mPartitions c' EURUSD = Some p' \<and> snd (mCommandQueue p') = [demo_new demo_low]"
proof -
  have "mSymbol demo_low = EURUSD" by (simp add: demo_low_def demo_order_def mk_order_def)
  then show ?thesis
    using new_order_reaches_its_partition
      [OF list_queue_laws, of demo_core demo_low "fresh_partition list_queue EURUSD True" "''7''" 0]
    by (auto simp: demo_core_def demo_new_def fresh_partition_def init_partition_def list_queue_def)
qed

lemma find_partition_None:
  "find_partition i is c = None \<longleftrightarrow>
     (\<forall>s\<in>set is. \<forall>p. mPartitions c s = Some p \<longrightarrow> \<not> containsOrderById i (w_mgr (p_worker p)))"
  by (induction "is") (auto split: option.splits)

text \<open>
  A cancel or modify that arrives before its order is processed is lost. While the new
  order is still in its partition's queue, no manager holds its id, and submitting a cancel
  or modify for it changes nothing: it is not queued, and nobody is told.
\<close>

theorem early_request_is_lost:
  assumes held: "\<forall>s p. mPartitions c s = Some p \<longrightarrow> w_own (p_worker p) i = None"
    and cmd: "cmd = CancelOrder client ts i \<or> cmd = ModifyOrder client ts i price qty"
  shows "submitCommand Q cmd c = Some c"
proof -
  have "findPartitionForOrder i c = None"
    using held by (simp add: findPartitionForOrder_def find_partition_None containsOrderById_def)
  then show ?thesis using cmd by auto
qed

theorem early_request_is_lost_demo:
  "submitCommand list_queue (CancelOrder ''7'' 0 3) demo_core = Some demo_core"
  by (rule early_request_is_lost [of demo_core 3 _ "''7''" 0])
    (simp_all add: demo_core_def fresh_partition_def init_partition_def init_worker_def empty_manager_def)

text \<open>
  partitions are isolated. A turn of one partition's worker changes no other partition,
  whatever commands it processes.
\<close>

theorem turn_leaves_other_partitions:
  assumes turn: "with_partition i (processNextCommand Q e) c = Some c'" and other: "j \<noteq> i"
  shows "mPartitions c' j = mPartitions c j \<and> mOrderIDGenerator c' = mOrderIDGenerator c \<and>
     mMarketDataPublisher c' = mMarketDataPublisher c"
  using assms by (auto simp: with_partition_def Let_def bind_eq_Some_conv set_partition_def)

lemma demo_core_ok: "core_ok snd demo_core"
  using fresh_partition_ok [OF list_queue_laws] by (simp add: core_ok_def demo_core_def)

theorem turn_leaves_other_partitions_demo:
  "\<exists>c'. with_partition EURUSD (processNextCommand list_queue demo_env) demo_core = Some c' \<and>
     mPartitions c' USDJPY = mPartitions demo_core USDJPY"
proof -
  obtain c' where c': "with_partition EURUSD (processNextCommand list_queue demo_env) demo_core = Some c'"
    using turn_ok [OF list_queue_laws demo_core_ok] by blast
  show ?thesis using turn_leaves_other_partitions [OF c', of USDJPY] c' by simp
qed

text \<open>
  an order can be read back through the core. When some partition holds an order under an
  id, and no other partition holds that id, \<open>getOrder\<close> returns that order; when none does, it
  returns nothing. It never reads freed memory.
\<close>

theorem getOrder_finds_the_order:
  assumes ok: "core_ok view c"
    and one: "\<forall>s s' p p'. mPartitions c s = Some p \<longrightarrow> mPartitions c s' = Some p' \<longrightarrow>
        w_own (p_worker p) i \<noteq> None \<longrightarrow> w_own (p_worker p') i \<noteq> None \<longrightarrow> s = s'"
  shows "\<exists>r. getOrder i c = Some r \<and>
     (\<forall>s p. mPartitions c s = Some p \<longrightarrow> w_own (p_worker p) i \<noteq> None \<longrightarrow>
        r = held (w_mgr (p_worker p)) i) \<and>
     ((\<forall>s p. mPartitions c s = Some p \<longrightarrow> w_own (p_worker p) i = None) \<longrightarrow> r = None)"
proof (cases "findPartitionForOrder i c")
  case None
  then have "\<forall>s p. mPartitions c s = Some p \<longrightarrow> w_own (p_worker p) i = None"
    by (simp add: findPartitionForOrder_def find_partition_None containsOrderById_def instruments_all(2))
  then show ?thesis using None by (auto simp: getOrder_def)
next
  case (Some s)
  have "find_partition i is c = Some s \<Longrightarrow> \<exists>p. mPartitions c s = Some p \<and> w_own (p_worker p) i \<noteq> None" for "is"
  proof (induction "is")
    case (Cons s0 "is")
    obtain p0 where p0: "mPartitions c s0 = Some p0" "partition_ok view (mOrderIDGenerator c) s0 p0"
      by (rule core_okD [OF ok])
    show ?case using Cons p0
      by (auto simp: containsOrderById_def partition_ok_def split: if_splits)
  qed simp
  then obtain p where p: "mPartitions c s = Some p" "w_own (p_worker p) i \<noteq> None"
    using Some unfolding findPartitionForOrder_def by blast
  obtain a where a: "w_own (p_worker p) i = Some a" using p(2) by blast
  have "worker_inv (p_worker p)"
    by (rule core_okD [OF ok, of s]) (use p(1) in \<open>simp add: partition_ok_def\<close>)
  then obtain ord where ord: "w_heap (p_worker p) a = Some ord" using a by (rule worker_inv_live)
  have r: "getOrder i c = Some (Some ord)" "held (w_mgr (p_worker p)) i = Some ord"
    using Some p(1) a ord by (simp_all add: getOrder_def getOrderById_def held_def)
  have "r' = Some ord" if "mPartitions c s' = Some p'" "w_own (p_worker p') i \<noteq> None"
      "r' = held (w_mgr (p_worker p')) i" for s' p' r'
    using one that p r(2) by (metis option.inject)
  then show ?thesis using r p by (metis option.distinct(1))
qed

theorem getOrder_finds_the_order_demo: "getOrder 3 demo_core = Some None"
proof -
  have "\<forall>s p. mPartitions demo_core s = Some p \<longrightarrow> w_own (p_worker p) 3 = None"
    by (simp add: demo_core_def fresh_partition_def init_partition_def init_worker_def empty_manager_def)
  then show ?thesis using getOrder_finds_the_order [OF demo_core_ok, of 3] by auto
qed

end
