(* ===== verification/CppFormat.thy ===== *)
theory CppFormat
  imports CppText
begin

text \<open>
  The parts of the standard library the FIX layer formats and parses with, in the classic
  locale: signed integers, \<open>setw\<close>/\<open>setfill\<close>, fixed-point output of doubles, \<open>std::stod\<close>,
  \<open>std::from_chars\<close>, \<open>rfind\<close>, and the calendar functions \<open>gmtime\<close>, \<open>put_time\<close>, \<open>get_time\<close>
  and \<open>mktime\<close> on the proleptic Gregorian calendar.
\<close>

subsection \<open>Integers\<close>

definition to_string_i :: "int \<Rightarrow> string" where
  "to_string_i n = (if n < 0 then CHR ''-'' # dec (nat (- n)) else dec (nat n))"

text \<open>\<open>setfill('0') << setw(n)\<close>: padded on the left, also in front of a sign.\<close>

definition pad0 :: "nat \<Rightarrow> string \<Rightarrow> string" where
  "pad0 n s = replicate (n - length s) (CHR ''0'') @ s"

text \<open>Division and remainder of C++, which truncate towards zero.\<close>

definition tdiv :: "int \<Rightarrow> int \<Rightarrow> int" where
  "tdiv a b = (if (a < 0) = (b < 0) then \<bar>a\<bar> div \<bar>b\<bar> else - (\<bar>a\<bar> div \<bar>b\<bar>))"

definition trem :: "int \<Rightarrow> int \<Rightarrow> int" where
  "trem a b = a - b * tdiv a b"

definition stoull :: "string \<Rightarrow> exn + u64" where
  "stoull s = stoul s"

text \<open>
  \<open>std::from_chars\<close> into an \<open>int\<close>: no white space, a minus sign only, text after the digits
  is ignored. \<open>None\<close> is an error code.
\<close>

definition from_chars_int :: "string \<Rightarrow> int option" where
  "from_chars_int s =
     (let neg = (s \<noteq> [] \<and> hd s = CHR ''-'');
          ds = takeWhile isdigit (if neg then tl s else s);
          v = (if neg then - int (digits_val 0 ds) else int (digits_val 0 ds))
      in if ds = [] \<or> v < - (2 ^ 31) \<or> 2 ^ 31 \<le> v then None else Some v)"

subsection \<open>Searching from the back\<close>

fun find_last :: "string \<Rightarrow> string \<Rightarrow> nat option" where
  "find_last pat [] = (if pat = [] then Some 0 else None)"
| "find_last pat (c # cs) =
     (case find_last pat cs of
        Some i \<Rightarrow> Some (Suc i)
      | None \<Rightarrow> if starts_with pat (c # cs) then Some 0 else None)"

definition rfind :: "string \<Rightarrow> string \<Rightarrow> nat option" where
  "rfind s pat = find_last pat s"

subsection \<open>Doubles\<close>

text \<open>
  \<open>std::fixed << std::setprecision(p)\<close>: the exact value rounded to \<open>p\<close> decimals, ties to
  even. (The sign of a zero or of a NaN is not represented in \<open>dbl\<close>.)
\<close>

fun print_fixed :: "nat \<Rightarrow> dbl \<Rightarrow> string" where
  "print_fixed p (Fin q) =
     (let k = nat (round_half_even (\<bar>q\<bar> * 10 ^ p))
      in (if q < 0 then ''-'' else []) @ dec (k div 10 ^ p) @ ''.'' @ pad0 p (dec (k mod 10 ^ p)))"
| "print_fixed p PInf = ''inf''"
| "print_fixed p NInf = ''-inf''"
| "print_fixed p NaN = ''nan''"

definition tolower :: "char \<Rightarrow> char" where
  "tolower c = (if 65 \<le> byte c \<and> byte c \<le> 90 then char_of (byte c + 32) else c)"

definition isxdigit :: "char \<Rightarrow> bool" where
  "isxdigit c \<longleftrightarrow> isdigit c \<or> 97 \<le> byte (tolower c) \<and> byte (tolower c) \<le> 102"

definition xdigit_val :: "char \<Rightarrow> nat" where
  "xdigit_val c = (if isdigit c then digit_val c else byte (tolower c) - 87)"

fun xdigits_val :: "nat \<Rightarrow> string \<Rightarrow> nat" where
  "xdigits_val acc [] = acc"
| "xdigits_val acc (c # cs) = xdigits_val (16 * acc + xdigit_val c) cs"

text \<open>The digits before and after the point, and the rest.\<close>

definition mantissa :: "(char \<Rightarrow> bool) \<Rightarrow> string \<Rightarrow> string \<times> string \<times> string" where
  "mantissa digit s =
     (let ip = takeWhile digit s; r = dropWhile digit s
      in case r of
           c # cs \<Rightarrow> if c = CHR ''.'' then (ip, takeWhile digit cs, dropWhile digit cs) else (ip, [], r)
         | [] \<Rightarrow> (ip, [], []))"

text \<open>The exponent after the letter \<open>e\<close>; a letter without digits does not belong to the number.\<close>

definition exponent :: "char \<Rightarrow> string \<Rightarrow> int" where
  "exponent e s = (case s of
      c # cs \<Rightarrow>
        let (neg, r) = take_sign cs; ds = takeWhile isdigit r
        in if tolower c = e \<and> ds \<noteq> []
           then (if neg then - int (digits_val 0 ds) else int (digits_val 0 ds)) else 0
    | [] \<Rightarrow> 0)"

definition scale :: "nat \<Rightarrow> nat \<Rightarrow> int \<Rightarrow> rat" where
  "scale base m e = (if 0 \<le> e then of_nat m * of_nat base ^ nat e else of_nat m / of_nat base ^ nat (- e))"

datatype float_text = FNum rat | FInf | FNaN

definition parse_unsigned_float :: "string \<Rightarrow> float_text option" where
  "parse_unsigned_float s =
     (let l = map tolower s;
          (hi, hf, hr) = mantissa isxdigit (drop 2 s);
          (ip, fp, r) = mantissa isdigit s
      in if starts_with ''inf'' l then Some FInf
         else if starts_with ''nan'' l then Some FNaN
         else if starts_with ''0x'' l \<and> hi @ hf \<noteq> []
         then Some (FNum (scale 2 (xdigits_val 0 (hi @ hf))
                (exponent (CHR ''p'') hr - 4 * int (length hf))))
         else if ip @ fp = [] then None
         else Some (FNum (scale 10 (digits_val 0 (ip @ fp))
                (exponent (CHR ''e'') r - int (length fp)))))"

text \<open>A nonzero result below the normal range that had to be rounded.\<close>

definition underflows :: "rat \<Rightarrow> bool" where
  "underflows q \<longleftrightarrow>
     q \<noteq> 0 \<and> rnd64 q \<noteq> Fin q \<and>
     (let e = ilog2 q - 52 in of_int (round_half_even (q / pow2 e)) * pow2 e < pow2 (- 1022))"

definition stod :: "string \<Rightarrow> exn + dbl" where
  "stod s =
     (let (neg, r) = take_sign (dropWhile isspace s)
      in case parse_unsigned_float r of
           None \<Rightarrow> Inl InvalidArgument
         | Some FInf \<Rightarrow> Inr (if neg then NInf else PInf)
         | Some FNaN \<Rightarrow> Inr NaN
         | Some (FNum q) \<Rightarrow>
             if rnd64 q = PInf \<or> underflows q then Inl OutOfRange
             else Inr (if neg then dneg (rnd64 q) else rnd64 q))"

subsection \<open>The calendar\<close>

text \<open>A broken-down time: year, month, day, hour, minute, second.\<close>

type_synonym tm = "int \<times> int \<times> int \<times> int \<times> int \<times> int"

definition civil_from_days :: "int \<Rightarrow> int \<times> int \<times> int" where
  "civil_from_days z =
     (let n = z + 719468; era = n div 146097; doe = n mod 146097;
          yoe = (doe - doe div 1460 + doe div 36524 - doe div 146096) div 365;
          doy = doe - (365 * yoe + yoe div 4 - yoe div 100);
          mp = (5 * doy + 2) div 153;
          m = (if mp < 10 then mp + 3 else mp - 9)
      in ((if m \<le> 2 then 1 else 0) + yoe + 400 * era, m, doy - (153 * mp + 2) div 5 + 1))"

definition days_from_civil :: "int \<Rightarrow> int \<Rightarrow> int \<Rightarrow> int" where
  "days_from_civil y m d =
     (let y' = (if m \<le> 2 then y - 1 else y); era = y' div 400; yoe = y' mod 400;
          doy = (153 * (if m > 2 then m - 3 else m + 9) + 2) div 5 + d - 1;
          doe = yoe * 365 + yoe div 4 - yoe div 100 + doy
      in era * 146097 + doe - 719468)"

text \<open>\<open>gmtime\<close> of a number of seconds since the epoch.\<close>

definition gmtime :: "int \<Rightarrow> tm" where
  "gmtime t = (let (y, m, d) = civil_from_days (t div 86400); s = t mod 86400
               in (y, m, d, s div 3600, s div 60 mod 60, s mod 60))"

definition timegm :: "tm \<Rightarrow> int" where
  "timegm tm = (case tm of (y, m, d, hh, mm, ss) \<Rightarrow>
     days_from_civil y m d * 86400 + hh * 3600 + mm * 60 + ss)"

text \<open>\<open>mktime\<close>: \<open>zone\<close> gives the offset of the local zone, east of UTC, for a local time.\<close>

definition mktime :: "(int \<Rightarrow> int) \<Rightarrow> tm \<Rightarrow> int" where
  "mktime zone tm = timegm tm - zone (timegm tm)"

definition two_digits :: "int \<Rightarrow> string" where
  "two_digits n = pad0 2 (dec (nat n))"

text \<open>\<open>put_time\<close> with \<open>%H:%M:%S\<close> and with \<open>%Y%m%d-%H:%M:%S\<close>.\<close>

definition put_clock :: "tm \<Rightarrow> string" where
  "put_clock tm = (case tm of (y, m, d, hh, mm, ss) \<Rightarrow>
     two_digits hh @ '':'' @ two_digits mm @ '':'' @ two_digits ss)"

definition put_time :: "tm \<Rightarrow> string" where
  "put_time tm = (case tm of (y, m, d, hh, mm, ss) \<Rightarrow>
     to_string_i y @ two_digits m @ two_digits d @ ''-'' @ put_clock tm)"

text \<open>
  One numeric field of \<open>get_time\<close>: exactly \<open>n\<close> digits with a value in range. (A field that is
  short or out of range stops the scan and sets the fail bit.)
\<close>

definition get_num :: "nat \<Rightarrow> int \<Rightarrow> int \<Rightarrow> string \<Rightarrow> (int \<times> string) option" where
  "get_num n lo hi s =
     (let ds = take n s; v = int (digits_val 0 ds)
      in if length ds = n \<and> list_all isdigit ds \<and> lo \<le> v \<and> v \<le> hi then Some (v, drop n s) else None)"

definition get_lit :: "char \<Rightarrow> string \<Rightarrow> string option" where
  "get_lit c s = (case s of x # xs \<Rightarrow> if x = c then Some xs else None | [] \<Rightarrow> None)"

text \<open>\<open>ss >> get_time(&tm, "%Y%m%d-%H:%M:%S")\<close>; the stream skips leading white space.\<close>

definition get_time :: "string \<Rightarrow> tm option" where
  "get_time s = do {
     (y, s1) \<leftarrow> get_num 4 0 9999 (dropWhile isspace s);
     (m, s2) \<leftarrow> get_num 2 1 12 s1;
     (d, s3) \<leftarrow> get_num 2 1 31 s2;
     s4 \<leftarrow> get_lit (CHR ''-'') s3;
     (hh, s5) \<leftarrow> get_num 2 0 23 s4;
     s6 \<leftarrow> get_lit (CHR '':'') s5;
     (mm, s7) \<leftarrow> get_num 2 0 59 s6;
     s8 \<leftarrow> get_lit (CHR '':'') s7;
     (ss, _) \<leftarrow> get_num 2 0 60 s8;
     Some (y, m, d, hh, mm, ss)
   }"

subsection \<open>Padded numbers\<close>

lemma digits_val_mono: "digits_val a ds = a * 10 ^ length ds + digits_val 0 ds"
proof (induction ds arbitrary: a)
  case (Cons d ds)
  show ?case using Cons [of "10 * a + digit_val d"] Cons [of "digit_val d"]
    by (simp add: algebra_simps)
qed simp

lemma length_dec: "n < 10 ^ Suc k \<Longrightarrow> length (dec n) \<le> Suc k"
proof (induction k arbitrary: n)
  case 0
  then show ?case by (subst dec.simps) simp
next
  case (Suc k)
  then have "n div 10 < 10 ^ Suc k" by (simp add: div_less_iff_less_mult)
  from Suc.IH [OF this] show ?case by (subst dec.simps) simp
qed

lemma digits_val_zeros: "digits_val 0 (replicate k (CHR ''0'') @ ds) = digits_val 0 ds"
  by (induction k) (simp_all add: digit_val_def byte_def)

lemma pad0_dec:
  assumes "n < 10 ^ Suc k"
  shows "length (pad0 (Suc k) (dec n)) = Suc k" and "digits_val 0 (pad0 (Suc k) (dec n)) = n"
    and "\<forall>c\<in>set (pad0 (Suc k) (dec n)). isdigit c"
proof -
  have zero: "isdigit (CHR ''0'')" by (simp add: isdigit_def byte_def)
  show "length (pad0 (Suc k) (dec n)) = Suc k" using length_dec [OF assms] by (simp add: pad0_def)
  show "digits_val 0 (pad0 (Suc k) (dec n)) = n"
    by (simp add: pad0_def digits_val_zeros digits_val_dec)
  show "\<forall>c\<in>set (pad0 (Suc k) (dec n)). isdigit c"
    using dec_digits [of n] zero by (auto simp: pad0_def)
qed

lemma to_string_i_nonneg: "0 \<le> n \<Longrightarrow> to_string_i n = dec (nat n)"
  by (simp add: to_string_i_def)

end
