(* ===== verification/FixText.thy ===== *)
theory FixText
  imports CppFormat FixMessages
begin

text \<open>
  The tag=value syntax: \<open>common_fix/FixUtils\<close> (splitting a message into a map, the enum
  characters, timestamps), \<open>common_fix/OutboundMessageBuilder\<close> and the numbers of \<open>Tags.h\<close>.
\<close>

subsection \<open>Tags\<close>

datatype tag = BeginString | BodyLength | MsgType | SenderCompID | TargetCompID | MsgSeqNum
  | SendingTime | ClOrdID | OrigClOrdID | SymbolTag | Side | OrdType | OrderQty | Price
  | TimeInForce | StopPrice | SettlType | SettlDate | OrderID | ExecID | OrdStatus | Text
  | CumQty | LeavesQty | LastPx | LastQty | TransactTime | MDReqID | SubscriptionRequestType
  | MarketDepth | NoRelatedSym | MDUpdateAction | MDEntryType | MDEntryPx | MDEntrySize
  | MDEntryTime | NoMDEntries | MDEntryPositionNo | CheckSum

fun tag_no :: "tag \<Rightarrow> int" where
  "tag_no BeginString = 8"
| "tag_no BodyLength = 9"
| "tag_no MsgType = 35"
| "tag_no SenderCompID = 49"
| "tag_no TargetCompID = 56"
| "tag_no MsgSeqNum = 34"
| "tag_no SendingTime = 52"
| "tag_no ClOrdID = 11"
| "tag_no OrigClOrdID = 41"
| "tag_no SymbolTag = 55"
| "tag_no Side = 54"
| "tag_no OrdType = 40"
| "tag_no OrderQty = 38"
| "tag_no Price = 44"
| "tag_no TimeInForce = 59"
| "tag_no StopPrice = 99"
| "tag_no SettlType = 63"
| "tag_no SettlDate = 64"
| "tag_no OrderID = 37"
| "tag_no ExecID = 17"
| "tag_no OrdStatus = 39"
| "tag_no Text = 58"
| "tag_no CumQty = 14"
| "tag_no LeavesQty = 151"
| "tag_no LastPx = 31"
| "tag_no LastQty = 32"
| "tag_no TransactTime = 60"
| "tag_no MDReqID = 262"
| "tag_no SubscriptionRequestType = 263"
| "tag_no MarketDepth = 264"
| "tag_no NoRelatedSym = 146"
| "tag_no MDUpdateAction = 279"
| "tag_no MDEntryType = 269"
| "tag_no MDEntryPx = 270"
| "tag_no MDEntrySize = 271"
| "tag_no MDEntryTime = 273"
| "tag_no NoMDEntries = 268"
| "tag_no MDEntryPositionNo = 290"
| "tag_no CheckSum = 10"

text \<open>One field as every converter streams it: the number, an equals sign, the value, SOH.\<close>

definition field :: "tag \<Rightarrow> string \<Rightarrow> string" where
  "field t v = to_string_i (tag_no t) @ CHR ''='' # v @ [SOH]"

subsection \<open>Splitting\<close>

text \<open>One token of the loop: without an equals sign it is skipped, a later tag overwrites.\<close>

definition put_field :: "string \<Rightarrow> (int \<rightharpoonup> string) \<Rightarrow> exn + (int \<rightharpoonup> string)" where
  "put_field token m = (case find_char token (CHR ''='') 0 of
      None \<Rightarrow> Inr m
    | Some i \<Rightarrow> bind_exn (stoi (take i token)) (\<lambda>tag. Inr (m(tag \<mapsto> drop (i + 1) token))))"

text \<open>The text after the last delimiter is not a field.\<close>

function split_fields :: "char \<Rightarrow> string \<Rightarrow> (int \<rightharpoonup> string) \<Rightarrow> exn + (int \<rightharpoonup> string)" where
  "split_fields d s m =
     (case dropWhile (\<lambda>c. c \<noteq> d) s of
        [] \<Rightarrow> Inr m
      | _ # rest \<Rightarrow> bind_exn (put_field (takeWhile (\<lambda>c. c \<noteq> d) s) m) (split_fields d rest))"
  by pat_completeness auto
termination
proof (relation "measure (\<lambda>(d, s, m). length s)")
  fix d s and m :: "int \<rightharpoonup> string" and c rest x
  assume "dropWhile (\<lambda>c. c \<noteq> d) s = c # rest"
  then have "length (c # rest) \<le> length s" by (metis length_dropWhile_le)
  then show "((d, rest, x), (d, s, m)) \<in> measure (\<lambda>(d, s, m). length s)" by simp
qed simp

declare split_fields.simps [simp del]

definition splitToMap :: "string \<Rightarrow> char \<Rightarrow> exn + (int \<rightharpoonup> string)" where
  "splitToMap str delimiter = split_fields delimiter str Map.empty"

text \<open>\<open>tagMap.at(tag)\<close>\<close>

definition tag_at :: "(int \<rightharpoonup> string) \<Rightarrow> tag \<Rightarrow> exn + string" where
  "tag_at m t = (case m (tag_no t) of None \<Rightarrow> Inl OutOfRange | Some v \<Rightarrow> Inr v)"

text \<open>
  \<open>front()\<close> of a view into the message: behind an empty value comes the delimiter, which is
  the byte that is read then.
\<close>

fun front :: "string \<Rightarrow> char" where
  "front [] = SOH"
| "front (c # cs) = c"

subsection \<open>Characters and timestamps\<close>

definition charToOrderSide :: "char \<Rightarrow> exn + order_side" where
  "charToOrderSide c =
     (if c = CHR ''1'' then Inr Buy else if c = CHR ''2'' then Inr Sell else Inl InvalidArgument)"

definition charToOrderType :: "char \<Rightarrow> exn + order_type" where
  "charToOrderType c =
     (if c = CHR ''1'' then Inr Market else if c = CHR ''2'' then Inr Limit else Inl InvalidArgument)"

text \<open>Milliseconds in a 64-bit count of nanoseconds, wrapping as compiled.\<close>

definition to_ns :: "int \<Rightarrow> int \<Rightarrow> timestamp" where
  "to_ns secs millis = sint (word_of_int (secs * 1000000000 + millis * 1000000) :: u64)"

definition parseTimestamp :: "(int \<Rightarrow> int) \<Rightarrow> string \<Rightarrow> exn + timestamp" where
  "parseTimestamp zone timestampStr = (case get_time (take 17 timestampStr) of
      None \<Rightarrow> Inl RuntimeError
    | Some tm \<Rightarrow>
        (case find_char timestampStr (CHR ''.'') 0 of
           None \<Rightarrow> Inr (to_ns (mktime zone tm) 0)
         | Some dotPos \<Rightarrow>
             bind_exn (bind_exn (substr timestampStr (dotPos + 1) 3) stoi)
               (\<lambda>millis. Inr (to_ns (mktime zone tm) millis))))"

text \<open>The seconds and milliseconds of a time point, UTC; both truncate towards zero.\<close>

definition time_text :: "(tm \<Rightarrow> string) \<Rightarrow> timestamp \<Rightarrow> string" where
  "time_text put ts =
     put (gmtime (tdiv ts 1000000000)) @ ''.'' @ pad0 3 (to_string_i (trem (tdiv ts 1000000) 1000))"

subsection \<open>Building a message\<close>

definition generateTimestamp :: "timestamp \<Rightarrow> string" where
  "generateTimestamp now = time_text put_time now"

text \<open>The value of a \<open>char\<close>, which is signed on the platforms the program is built for.\<close>

definition schar :: "char \<Rightarrow> int" where
  "schar c = (if byte c < 128 then int (byte c) else int (byte c) - 256)"

text \<open>
  \<open>std::accumulate\<close> with an \<open>int\<close> start, so negative bytes subtract and the remainder can be
  negative (the sum stays inside an \<open>int\<close> for messages up to 16 MB).
\<close>

definition builder_checksum :: "string \<Rightarrow> int" where
  "builder_checksum s = trem (sum_list (map schar s)) 256"

definition buildMessage ::
  "timestamp \<Rightarrow> string \<Rightarrow> string \<Rightarrow> u32 \<Rightarrow> string \<Rightarrow> string \<Rightarrow> string" where
  "buildMessage now senderCompId targetCompId msgSeqNum msgType bodyStr =
     (let payload = field MsgType msgType @ field SenderCompID senderCompId
            @ field TargetCompID targetCompId @ field MsgSeqNum (to_string_u msgSeqNum)
            @ field SendingTime (generateTimestamp now) @ bodyStr;
          msgBeforeChecksum = field BeginString ''FIX.4.4''
            @ field BodyLength (dec (length payload)) @ payload
      in msgBeforeChecksum
         @ field CheckSum (pad0 3 (to_string_i (builder_checksum msgBeforeChecksum))))"

definition buildLogon :: "timestamp \<Rightarrow> string \<Rightarrow> string \<Rightarrow> u32 \<Rightarrow> int \<Rightarrow> string" where
  "buildLogon now senderCompId targetCompId msgSeqNum heartbeatInterval =
     buildMessage now senderCompId targetCompId msgSeqNum ''A''
       (''98=0'' @ [SOH] @ ''108='' @ to_string_i heartbeatInterval @ [SOH])"

definition buildLogout :: "timestamp \<Rightarrow> string \<Rightarrow> string \<Rightarrow> u32 \<Rightarrow> string \<Rightarrow> string" where
  "buildLogout now senderCompId targetCompId msgSeqNum txt =
     buildMessage now senderCompId targetCompId msgSeqNum ''5''
       (if txt = [] then [] else ''58='' @ txt @ [SOH])"

definition buildHeartbeat :: "timestamp \<Rightarrow> string \<Rightarrow> string \<Rightarrow> u32 \<Rightarrow> string \<Rightarrow> string" where
  "buildHeartbeat now senderCompId targetCompId msgSeqNum testReqId =
     buildMessage now senderCompId targetCompId msgSeqNum ''0''
       (if testReqId = [] then [] else ''112='' @ testReqId @ [SOH])"

definition buildResendRequest :: "timestamp \<Rightarrow> string \<Rightarrow> string \<Rightarrow> u32 \<Rightarrow> u32 \<Rightarrow> u32 \<Rightarrow> string" where
  "buildResendRequest now senderCompId targetCompId msgSeqNum beginSeqNo endSeqNo =
     buildMessage now senderCompId targetCompId msgSeqNum ''2''
       (''7='' @ to_string_u beginSeqNo @ [SOH] @ ''16='' @ to_string_u endSeqNo @ [SOH])"

subsection \<open>The receiving side of the checksum\<close>

text \<open>An \<open>unsigned int\<close> sum of unsigned bytes, and one of sign-extended ones.\<close>

definition checksum :: "string \<Rightarrow> u32" where
  "checksum message = foldl (\<lambda>sum c. sum + of_nat (byte c)) 0 message mod 256"

definition unsigned_checksum :: "string \<Rightarrow> u32" where
  "unsigned_checksum message = foldl (\<lambda>sum c. sum + word_of_int (schar c)) 0 message mod 256"

subsection \<open>Facts about splitting\<close>

lemma split_token:
  assumes "d \<notin> set token"
  shows "split_fields d (token @ d # rest) m = bind_exn (put_field token m) (split_fields d rest)"
proof -
  have "takeWhile (\<lambda>c. c \<noteq> d) (token @ d # rest) = token"
    and "dropWhile (\<lambda>c. c \<noteq> d) (token @ d # rest) = d # rest"
    using assms by (auto simp: takeWhile_append dropWhile_append)
  then show ?thesis by (subst split_fields.simps) simp
qed

lemma split_rest: "d \<notin> set s \<Longrightarrow> split_fields d s m = Inr m"
proof -
  assume "d \<notin> set s"
  then have "dropWhile (\<lambda>c. c \<noteq> d) s = []" by auto
  then show ?thesis by (subst split_fields.simps) (simp only: list.case)
qed

lemma find_char_before:
  "c \<notin> set xs \<Longrightarrow> find_char (xs @ c # ys) c 0 = Some (length xs)"
  by (simp add: find_char_def find_def find_char_app)

lemma find_char_absent: "c \<notin> set xs \<Longrightarrow> find_char xs c 0 = None"
  by (simp add: find_char_def find_def find_from_start_char_None)

lemma SOH_eq: "SOH = CHR 0x01"
  by code_simp

lemma isdigit_chars [simp]: "\<not> isdigit (CHR ''='')" "\<not> isdigit SOH" "\<not> isdigit (CHR ''.'')"
  "isdigit (CHR ''0'')"
  by (simp_all add: isdigit_def byte_def SOH_def)

lemma stoi_digits:
  "\<forall>c\<in>set ds. isdigit c \<Longrightarrow> ds \<noteq> [] \<Longrightarrow> rest = [] \<or> \<not> isdigit (hd rest) \<Longrightarrow>
     digits_val 0 ds < 2 ^ 31 \<Longrightarrow> stoi (ds @ rest) = Inr (int (digits_val 0 ds))"
  by (simp add: stoi_def parse_integer_digits)

lemma stoi_dec: "n < 2 ^ 31 \<Longrightarrow> stoi (dec n) = Inr (int n)"
  using stoi_digits [of "dec n" "[]"] by (simp add: dec_digits digits_val_dec)

lemma put_field_number:
  assumes "n < 2 ^ 31"
  shows "put_field (dec n @ CHR ''='' # v) m = Inr (m(int n \<mapsto> v))"
proof -
  have "CHR ''='' \<notin> set (dec n)" using dec_digits [of n] isdigit_chars(1) by blast
  then show ?thesis using stoi_dec [OF assms] by (simp add: put_field_def find_char_before)
qed

lemma SOH_notin_dec [simp]: "SOH \<notin> set (dec n)"
  using dec_digits [of n] isdigit_chars(2) by blast

lemma tag_no_bounds: "0 < tag_no t \<and> tag_no t < 2 ^ 31"
  by (cases t) simp_all

lemma SOH_neq [simp]: "SOH \<noteq> CHR ''=''" "CHR ''='' \<noteq> SOH"
  using isdigit_chars(1,2) by (simp_all add: SOH_def char_of_def)

text \<open>A field at the front of a message goes into the map and the rest is split on.\<close>

lemma split_field:
  assumes "SOH \<notin> set v"
  shows "split_fields SOH (field t v @ rest) m = split_fields SOH rest (m(tag_no t \<mapsto> v))"
proof -
  let ?n = "nat (tag_no t)"
  have n: "?n < 2 ^ 31" "int ?n = tag_no t" and s: "to_string_i (tag_no t) = dec ?n"
    using tag_no_bounds [of t] by (auto simp: to_string_i_def nat_less_iff)
  have "field t v @ rest = (dec ?n @ CHR ''='' # v) @ SOH # rest"
    by (simp add: field_def s)
  also have "split_fields SOH \<dots> m = split_fields SOH rest (m(tag_no t \<mapsto> v))"
    using assms put_field_number [OF n(1)] by (subst split_token) (auto simp: n(2) simp del: int_nat_eq)
  finally show ?thesis .
qed

lemma SOH_chars [simp]: "SOH \<noteq> CHR ''0''" "SOH \<noteq> CHR ''-''" "SOH \<noteq> CHR '':''" "SOH \<noteq> CHR ''.''"
  by (simp_all add: SOH_eq)

lemma SOH_notin_number [simp]: "SOH \<notin> set (to_string_i n)" "SOH \<notin> set (to_string_u w)"
  by (simp_all add: to_string_i_def to_string_u_def)

lemma SOH_notin_pad0 [simp]: "SOH \<notin> set (pad0 n s) \<longleftrightarrow> SOH \<notin> set s"
  by (auto simp: pad0_def)

lemma SOH_notin_time [simp]: "SOH \<notin> set (generateTimestamp now)"
  by (cases "gmtime (tdiv now 1000000000)")
    (simp add: generateTimestamp_def time_text_def put_time_def put_clock_def two_digits_def)

subsection \<open>Facts about checksums\<close>

lemma foldl_word_sum: "foldl (\<lambda>s c. s + of_nat (f c)) (a :: u32) xs = a + of_nat (sum_list (map f xs))"
  by (induction xs arbitrary: a) (simp_all add: algebra_simps)

lemma u32_mod_256: "unat ((of_nat n :: u32) mod 256) = n mod 256"
proof -
  have "unat ((of_nat n :: u32) mod 256) = unat (of_nat n :: u32) mod unat (256 :: u32)"
    by (rule unat_mod)
  also have "\<dots> = n mod 2 ^ 32 mod 256" by (simp add: unat_of_nat)
  also have "\<dots> = n mod 256" by (rule mod_mod_cancel) simp
  finally show ?thesis .
qed

lemma checksum_eq: "unat (checksum s) = sum_list (map byte s) mod 256"
proof -
  have "checksum s = of_nat (sum_list (map byte s)) mod 256"
    by (simp add: checksum_def foldl_word_sum)
  then show ?thesis by (simp only: u32_mod_256)
qed

lemma foldl_schar_sum:
  "foldl (\<lambda>s c. s + word_of_int (schar c)) (a :: u32) xs = a + word_of_int (sum_list (map schar xs))"
  by (induction xs arbitrary: a) (simp_all add: algebra_simps)

lemma schar_mod: "sum_list (map schar xs) mod 256 = int (sum_list (map byte xs)) mod 256"
proof (induction xs)
  case (Cons c xs)
  have "schar c mod 256 = int (byte c) mod 256" by (simp add: schar_def)
  then show ?case using Cons by simp (metis mod_add_cong)
qed simp

text \<open>The two ways to sum the bytes of a received message agree.\<close>

lemma u32_int_mod_256: "uint ((word_of_int i :: u32) mod 256) = i mod 256"
proof -
  have "uint ((word_of_int i :: u32) mod 256) = uint (word_of_int i :: u32) mod uint (256 :: u32)"
    by (rule uint_mod)
  also have "\<dots> = i mod 2 ^ 32 mod 256" by (simp add: uint_word_of_int)
  also have "\<dots> = i mod 256" by (rule mod_mod_cancel) simp
  finally show ?thesis .
qed

lemma unsigned_checksum_eq: "unsigned_checksum s = checksum s"
proof (rule word_uint_eqI)
  have "unsigned_checksum s = word_of_int (sum_list (map schar s)) mod 256"
    by (simp add: unsigned_checksum_def foldl_schar_sum)
  then have "uint (unsigned_checksum s) = sum_list (map schar s) mod 256"
    by (simp only: u32_int_mod_256)
  also have "\<dots> = int (sum_list (map byte s) mod 256)"
    by (simp add: schar_mod zmod_int)
  also have "\<dots> = uint (checksum s)"
    by (simp add: checksum_eq [symmetric])
  finally show "uint (unsigned_checksum s) = uint (checksum s)" .
qed

lemma sum_list_int: "sum_list (map (\<lambda>x. int (f x)) xs) = int (sum_list (map f xs))"
  by (induction xs) simp_all

text \<open>On ASCII text the builder computes what the receiver expects.\<close>

lemma builder_checksum_ascii:
  assumes "\<forall>c\<in>set s. byte c < 128"
  shows "builder_checksum s = int (unat (checksum s))"
proof -
  have "map schar s = map (\<lambda>c. int (byte c)) s" using assms by (auto simp: schar_def)
  then have "sum_list (map schar s) = int (sum_list (map byte s))"
    by (simp only: sum_list_int)
  then show ?thesis
    by (simp add: builder_checksum_def checksum_eq trem_def tdiv_def zmod_int minus_div_mult_eq_mod [symmetric] mult.commute)
qed

end
