(* ===== verification/FixFramer.thy ===== *)
theory FixFramer
  imports FixText
begin

text \<open>
  \<open>exchange_fix/FixMessageFramer\<close>: cutting one frame off the front of the receive buffer.
  Sizes are \<open>size_t\<close>; the two additions that can exceed it wrap. \<open>substr\<close> past the end throws.
\<close>

subsection \<open>Results\<close>

datatype frame_status = NeedMoreData | Complete | Malformed

record frame_result =
  status :: frame_status
  consumed :: nat
  frame :: string
  err :: string

definition need_more :: frame_result where
  "need_more = \<lparr>status = NeedMoreData, consumed = 0, frame = [], err = []\<rparr>"

definition malformed :: "string \<Rightarrow> frame_result" where
  "malformed e = \<lparr>status = Malformed, consumed = 0, frame = [], err = e\<rparr>"

subsection \<open>The scan\<close>

definition size_wrap :: "nat \<Rightarrow> nat" where
  "size_wrap n = nat (int n mod 2 ^ 64)"

text \<open>Digits only, and a value that fits a \<open>size_t\<close>.\<close>

definition parseUnsigned :: "string \<Rightarrow> nat option" where
  "parseUnsigned value =
     (if value = [] \<or> \<not> list_all isdigit value then None
      else let n = digits_val 0 value in if int n < 2 ^ 64 then Some n else None)"

definition begin_text :: string where
  "begin_text = ''8=FIX.4.4''"

text \<open>The part behind BodyLength, when it says \<open>bodyLength\<close> and the body starts at \<open>bodyStart\<close>.\<close>

definition frame_body :: "string \<Rightarrow> nat \<Rightarrow> nat \<Rightarrow> exn + frame_result" where
  "frame_body buffer bodyStart bodyLength =
     (let checksumStart = bodyStart + bodyLength
      in if length buffer < size_wrap (checksumStart + 3) then Inr need_more
         else bind_exn (substr buffer checksumStart 3) (\<lambda>t.
           if t \<noteq> ''10='' then Inr (malformed ''FIX checksum field is not at the BodyLength boundary'')
           else if length buffer < size_wrap (checksumStart + 7) then Inr need_more
           else bind_exn (substr buffer (checksumStart + 3) 3) (\<lambda>checksumDigits.
             case parseUnsigned checksumDigits of
               None \<Rightarrow> Inr (malformed ''FIX checksum field is malformed'')
             | Some expected \<Rightarrow>
                 if buffer ! (checksumStart + 6) \<noteq> SOH
                 then Inr (malformed ''FIX checksum field is malformed'')
                 else if unat (checksum (take checksumStart buffer)) \<noteq> expected
                 then Inr (malformed ''FIX checksum validation failed'')
                 else let frameLength = checksumStart + 7
                      in Inr \<lparr>status = Complete, consumed = frameLength,
                              frame = take frameLength buffer, err = []\<rparr>)))"

definition extractNextFrame :: "string \<Rightarrow> exn + frame_result" where
  "extractNextFrame buffer =
     (if length buffer < 2 then Inr need_more
      else if take 2 buffer \<noteq> ''8=''
      then Inr (malformed ''FIX frame must start with BeginString (Tag 8)'')
      else case find_char buffer SOH 0 of
        None \<Rightarrow> Inr need_more
      | Some beginStringEnd \<Rightarrow>
          if take beginStringEnd buffer \<noteq> begin_text
          then Inr (malformed ''unsupported FIX BeginString'')
          else let bodyLengthStart = beginStringEnd + 1
          in if length buffer < bodyLengthStart + 2 then Inr need_more
          else if take 2 (drop bodyLengthStart buffer) \<noteq> ''9=''
          then Inr (malformed ''FIX frame is missing BodyLength (Tag 9)'')
          else case find_char buffer SOH (bodyLengthStart + 2) of
            None \<Rightarrow> Inr need_more
          | Some bodyLengthEnd \<Rightarrow>
              (case parseUnsigned (take (bodyLengthEnd - bodyLengthStart - 2)
                       (drop (bodyLengthStart + 2) buffer)) of
                 None \<Rightarrow> Inr (malformed ''FIX BodyLength is not an unsigned decimal value'')
               | Some bodyLength \<Rightarrow>
                   let bodyStart = bodyLengthEnd + 1
                   in if 2 ^ 64 - 1 - int bodyStart < int bodyLength
                      then Inr (malformed ''FIX BodyLength overflows the receive buffer'')
                      else frame_body buffer bodyStart bodyLength))"

subsection \<open>What the scan finds\<close>

lemma find_char_SomeD:
  assumes "find_char s c from = Some i"
  shows "from \<le> i \<and> i < length s \<and> s ! i = c"
proof -
  obtain j where j: "find_from_start [c] (drop from s) = Some j" "i = from + j" and f: "from \<le> length s"
    using assms by (auto simp: find_char_def find_def split: if_splits)
  have at: "j + 1 \<le> length (drop from s)" "starts_with [c] (drop j (drop from s))"
    using find_from_start_SomeD [OF j(1)] by simp_all
  then have "drop i s \<noteq> []" using f j(2) by auto
  moreover have "starts_with [c] (drop i s)" using at(2) j(2) by (simp add: add.commute)
  ultimately have "drop i s ! 0 = c" by (cases "drop i s") auto
  then show ?thesis using at(1) j(2) f by (simp add: nth_drop)
qed

lemma size_wrap_small: "int n < 2 ^ 64 \<Longrightarrow> size_wrap n = n"
  by (simp add: size_wrap_def)

lemma size_wrap_le: "size_wrap n \<le> n"
proof -
  have "int n mod 2 ^ 64 \<le> int n" by (rule zmod_le_nonneg_dividend) simp
  then show ?thesis by (simp add: size_wrap_def nat_le_iff)
qed

lemma substr_cases: "substr s p n = (if length s < p then Inl OutOfRange else Inr (take n (drop p s)))"
  by (rule substr_def)

text \<open>A complete frame is a proper prefix that fits the buffer.\<close>

lemma frame_body_complete:
  assumes "frame_body buffer s n = Inr r" and "status r = Complete"
    and "int (length buffer) < 2 ^ 64 - 7"
  shows "frame r = take (consumed r) buffer \<and> 0 < consumed r \<and> consumed r \<le> length buffer"
proof -
  have fits: "consumed r = s + n + 7" "frame r = take (consumed r) buffer"
    and len: "\<not> length buffer < size_wrap (s + n + 7)" "s + n + 3 \<le> length buffer"
    using assms(1,2)
    by (auto simp: frame_body_def substr_def Let_def need_more_def malformed_def
        split: if_splits option.splits)
  have "int (s + n + 7) < 2 ^ 64" using len(2) assms(3) by simp
  then have "s + n + 7 \<le> length buffer" using len(1) by (simp add: size_wrap_small)
  then show ?thesis using fits by simp
qed

lemma extract_body:
  assumes "extractNextFrame buffer = Inr r" and "status r = Complete"
  shows "\<exists>s n. frame_body buffer s n = Inr r"
  using assms
  by (auto simp: extractNextFrame_def Let_def need_more_def malformed_def
      split: if_splits option.splits)

lemma extract_complete:
  assumes "extractNextFrame buffer = Inr r" and "status r = Complete"
    and "int (length buffer) < 2 ^ 64 - 7"
  shows "frame r = take (consumed r) buffer \<and> 0 < consumed r \<and> consumed r \<le> length buffer"
  using extract_body [OF assms(1,2)] frame_body_complete [OF _ assms(2,3)] by blast

subsection \<open>What the scan accepts\<close>

lemma length_begin_text [simp]: "length begin_text = 9"
  by (simp add: begin_text_def)

lemma begin_text_SOH [simp]: "SOH \<notin> set begin_text"
  by (simp add: begin_text_def SOH_eq)

lemma take_begin_text [simp]: "take 2 (begin_text @ x) = ''8=''"
  by (simp add: begin_text_def)

text \<open>A well-formed message in front of anything is cut off exactly.\<close>

definition framed :: "string \<Rightarrow> string \<Rightarrow> string \<Rightarrow> string" where
  "framed ds payload cs = begin_text @ SOH # ''9='' @ ds @ SOH # payload @ ''10='' @ cs @ [SOH]"

definition unframed :: "string \<Rightarrow> string \<Rightarrow> string" where
  "unframed ds payload = begin_text @ SOH # ''9='' @ ds @ SOH # payload"

lemma framed_unframed: "framed ds payload cs = unframed ds payload @ ''10='' @ cs @ [SOH]"
  by (simp add: framed_def unframed_def)

lemma frame_body_framed:
  assumes cs: "length cs = 3" "\<forall>c\<in>set cs. isdigit c"
      "digits_val 0 cs = unat (checksum (unframed ds payload))"
    and len: "int (length (framed ds payload cs @ rest)) < 2 ^ 64"
    and s: "s + n = length (unframed ds payload)"
  shows "frame_body (framed ds payload cs @ rest) s n =
     Inr \<lparr>status = Complete, consumed = length (framed ds payload cs),
          frame = framed ds payload cs, err = []\<rparr>"
proof -
  let ?u = "unframed ds payload" and ?b = "framed ds payload cs @ rest"
  obtain a b c where abc: "cs = [a, b, c]"
    using cs(1) by (auto simp: length_Suc_conv eval_nat_numeral)
  have b: "?b = ?u @ ''10='' @ [a, b, c, SOH] @ rest" by (simp add: framed_unframed abc)
  have small: "size_wrap (length ?u + 3) = length ?u + 3" "size_wrap (length ?u + 7) = length ?u + 7"
    using len by (auto intro!: size_wrap_small simp: framed_unframed cs(1))
  have l: "length ?b = length ?u + (7 + length rest)" by (simp add: b)
  have parse: "parseUnsigned cs = Some (unat (checksum ?u))"
    using cs unsigned_less [of "checksum ?u", where 'a = nat]
    by (auto simp: parseUnsigned_def list_all_iff Let_def)
  have sub: "substr ?b (length ?u) 3 = Inr ''10=''"
    "substr ?b (length ?u + 3) 3 = Inr cs"
    by (simp_all add: substr_def framed_unframed abc)
  have nth: "?b ! (length ?u + 6) = SOH" and pre: "take (length ?u) ?b = ?u"
    and all: "take (length ?u + 7) ?b = framed ds payload cs"
    by (simp_all add: abc nth_append framed_unframed)
  have total: "length ?u + 7 = length (framed ds payload cs)" by (simp add: framed_unframed cs(1))
  show ?thesis
    unfolding frame_body_def Let_def s small l sub
    using parse nth pre all total by (simp add: sub)
qed

lemma extract_header:
  assumes ds: "ds \<noteq> []" "\<forall>c\<in>set ds. isdigit c" "13 + int (length ds) + int (digits_val 0 ds) < 2 ^ 64"
    and b: "b = begin_text @ SOH # ''9='' @ ds @ SOH # rest"
  shows "extractNextFrame b = frame_body b (13 + length ds) (digits_val 0 ds)"
proof -
  have no: "SOH \<notin> set ds" using ds(2) isdigit_chars(2) by blast
  have f1: "find_char b SOH 0 = Some 9"
    using find_char_before [OF begin_text_SOH, of "''9='' @ ds @ SOH # rest"] by (simp add: b)
  have f2: "find_char b SOH 12 = Some (12 + length ds)"
    using find_char_app [OF no, of rest] by (simp add: find_char_def find_def b)
  have p: "parseUnsigned ds = Some (digits_val 0 ds)"
    using ds by (auto simp: parseUnsigned_def list_all_iff Let_def)
  have fit: "\<not> 2 ^ 64 - 1 - int (12 + length ds + 1) < int (digits_val 0 ds)"
    using ds(3) by simp
  have len2: "\<not> length b < 2" "\<not> length b < 9 + 1 + 2" by (simp_all add: b)
  have t: "take 2 b = ''8=''" "take 9 b = begin_text" "take 2 (drop (9 + 1) b) = ''9=''"
    "take (length ds) (drop 12 b) = ds"
    using take_begin_text by (simp_all add: b begin_text_def)
  have "9 + 1 + 2 = (12::nat)" by simp
  then show ?thesis
    unfolding extractNextFrame_def Let_def f1 option.case t(1-3)
    using f2 p fit len2 by (simp add: t(4))
qed

lemma extract_to_body:
  assumes ds: "ds \<noteq> []" "\<forall>c\<in>set ds. isdigit c" "digits_val 0 ds = length payload"
    and len: "int (length (framed ds payload cs @ rest)) < 2 ^ 64"
  shows "extractNextFrame (framed ds payload cs @ rest) =
     frame_body (framed ds payload cs @ rest) (13 + length ds) (length payload)"
  unfolding ds(3) [symmetric]
  by (rule extract_header [OF ds(1,2), where rest = "payload @ ''10='' @ cs @ SOH # rest"])
    (use ds(3) len in \<open>simp_all add: framed_def\<close>)

text \<open>A length so close to the largest \<open>size_t\<close> that adding 3 wraps leads to a throwing \<open>substr\<close>.\<close>

lemma extract_wraps:
  assumes ds: "ds \<noteq> []" "\<forall>c\<in>set ds. isdigit c"
    and big: "2 ^ 64 - 3 \<le> 13 + int (length ds) + int (digits_val 0 ds)"
      "13 + int (length ds) + int (digits_val 0 ds) < 2 ^ 64"
    and b: "b = begin_text @ SOH # ''9='' @ ds @ SOH # rest" and len: "int (length b) < 2 ^ 64 - 3"
  shows "extractNextFrame b = Inl OutOfRange"
proof -
  let ?c = "13 + length ds + digits_val 0 ds"
  have c: "int ?c = 13 + int (length ds) + int (digits_val 0 ds)" by simp
  have "(int (?c + 3) - 2 ^ 64) mod 2 ^ 64 = int (?c + 3) - 2 ^ 64"
    by (rule mod_pos_pos_trivial) (use big c in linarith)+
  then have "int (?c + 3) mod 2 ^ 64 = int (?c + 3) - 2 ^ 64" by (simp only: minus_mod_self2)
  then have "size_wrap (?c + 3) < 3" using big(2) c unfolding size_wrap_def by linarith
  moreover have "13 \<le> length b" by (simp add: b)
  moreover have "length b < ?c" using len big c by linarith
  ultimately show ?thesis
    unfolding extract_header [OF ds big(2) b] frame_body_def Let_def by (simp add: substr_def)
qed

lemma length_unframed: "length (unframed ds payload) = 13 + length ds + length payload"
  by (simp add: unframed_def)

lemma extract_framed:
  assumes ds: "ds \<noteq> []" "\<forall>c\<in>set ds. isdigit c" "digits_val 0 ds = length payload"
    and cs: "length cs = 3" "\<forall>c\<in>set cs. isdigit c"
      "digits_val 0 cs = unat (checksum (unframed ds payload))"
    and len: "int (length (framed ds payload cs @ rest)) < 2 ^ 64"
  shows "extractNextFrame (framed ds payload cs @ rest) =
     Inr \<lparr>status = Complete, consumed = length (framed ds payload cs),
          frame = framed ds payload cs, err = []\<rparr>"
  using extract_to_body [OF ds len] frame_body_framed [OF cs len, of "13 + length ds" "length payload"]
  by (simp add: length_unframed)

text \<open>A checksum field that is not three digits is refused.\<close>

lemma extract_bad_checksum:
  assumes ds: "ds \<noteq> []" "\<forall>c\<in>set ds. isdigit c" "digits_val 0 ds = length payload"
    and cs: "3 \<le> length cs" "\<not> list_all isdigit (take 3 cs)"
    and len: "int (length (framed ds payload cs @ rest)) < 2 ^ 64"
  shows "extractNextFrame (framed ds payload cs @ rest) =
     Inr (malformed ''FIX checksum field is malformed'')"
proof -
  let ?u = "unframed ds payload" and ?b = "framed ds payload cs @ rest"
  have small: "size_wrap (length ?u + 3) = length ?u + 3" "size_wrap (length ?u + 7) = length ?u + 7"
    using len cs(1) by (auto intro!: size_wrap_small simp: framed_unframed)
  have l: "length ?b = length ?u + (4 + length cs + length rest)" by (simp add: framed_unframed)
  have sub: "substr ?b (length ?u) 3 = Inr ''10=''"
    "substr ?b (length ?u + 3) 3 = Inr (take 3 cs)"
    using cs(1) by (simp_all add: substr_def framed_unframed)
  have parse: "parseUnsigned (take 3 cs) = None" using cs(2) by (simp add: parseUnsigned_def)
  have s: "13 + length ds + length payload = length ?u" by (simp add: length_unframed)
  show ?thesis
    unfolding extract_to_body [OF ds len] frame_body_def Let_def s small l
    using parse sub cs(1) by (simp add: Let_def)
qed

subsection \<open>Framing what the builder produced\<close>

definition built_payload :: "timestamp \<Rightarrow> string \<Rightarrow> string \<Rightarrow> u32 \<Rightarrow> string \<Rightarrow> string \<Rightarrow> string" where
  "built_payload now sender target n msgType body =
     field MsgType msgType @ field SenderCompID sender @ field TargetCompID target
     @ field MsgSeqNum (to_string_u n) @ field SendingTime (generateTimestamp now) @ body"

text \<open>The text before the checksum field.\<close>

definition built_text :: "timestamp \<Rightarrow> string \<Rightarrow> string \<Rightarrow> u32 \<Rightarrow> string \<Rightarrow> string \<Rightarrow> string" where
  "built_text now sender target n msgType body =
     (let p = built_payload now sender target n msgType body in unframed (dec (length p)) p)"

lemma field_texts:
  "field BeginString ''FIX.4.4'' = begin_text @ [SOH]"
  "field BodyLength v = ''9='' @ v @ [SOH]"
  "field CheckSum v = ''10='' @ v @ [SOH]"
proof -
  have "dec 8 = ''8''" "dec 9 = ''9''" "dec 10 = ''10''" by code_simp+
  then show "field BeginString ''FIX.4.4'' = begin_text @ [SOH]"
    "field BodyLength v = ''9='' @ v @ [SOH]" "field CheckSum v = ''10='' @ v @ [SOH]"
    by (simp_all add: field_def to_string_i_def begin_text_def)
qed

lemma buildMessage_eq:
  "buildMessage now sender target n msgType body =
     (let p = built_payload now sender target n msgType body
      in framed (dec (length p)) p
           (pad0 3 (to_string_i (builder_checksum (built_text now sender target n msgType body)))))"
  by (simp add: buildMessage_def Let_def built_payload_def [symmetric] built_text_def field_texts
      framed_def unframed_def)

text \<open>The remainder has the sign of the sum; when it is not negative it is the checksum.\<close>

lemma builder_checksum_nonneg:
  assumes "0 \<le> builder_checksum s"
  shows "builder_checksum s = int (unat (checksum s))"
proof -
  let ?n = "sum_list (map schar s)"
  have "builder_checksum s = ?n mod 256"
  proof (cases "0 \<le> ?n")
    case True
    then show ?thesis
      by (simp add: builder_checksum_def trem_def tdiv_def minus_mult_div_eq_mod)
  next
    case False
    let ?m = "- ?n mod 256"
    have r: "builder_checksum s = - ?m"
      using False minus_mult_div_eq_mod [of "- ?n" 256]
      by (simp add: builder_checksum_def trem_def tdiv_def)
    then have "?m = 0" using assms pos_mod_sign [of 256 "- ?n"] by linarith
    then have "?n mod 256 = 0" by presburger
    then show ?thesis using r \<open>?m = 0\<close> by simp
  qed
  then show ?thesis by (simp add: checksum_eq schar_mod zmod_int)
qed

lemma builder_checksum_bounds: "- 256 < builder_checksum s" "builder_checksum s < 256"
proof -
  let ?n = "sum_list (map schar s)"
  have "trem ?n 256 = (if ?n < 0 then - (- ?n mod 256) else ?n mod 256)"
    using minus_mult_div_eq_mod [of "- ?n" 256] minus_mult_div_eq_mod [of ?n 256]
    by (auto simp: trem_def tdiv_def)
  moreover have "0 \<le> k mod 256 \<and> k mod 256 < 256" for k :: int by simp
  ultimately show "- 256 < builder_checksum s" "builder_checksum s < 256"
    unfolding builder_checksum_def by (auto split: if_splits)
qed

lemma negative_number_not_digits:
  assumes "n < 0"
  shows "3 \<le> length (pad0 3 (to_string_i n)) \<and> \<not> list_all isdigit (take 3 (pad0 3 (to_string_i n)))"
proof -
  let ?d = "dec (nat (- n))"
  have minus: "\<not> isdigit (CHR ''-'')" by (simp add: isdigit_def byte_def)
  have "1 \<le> length ?d" by (simp add: Suc_le_eq)
  then have "CHR ''-'' \<in> set (take 3 (pad0 3 (CHR ''-'' # ?d)))"
    by (cases ?d; cases "tl ?d") (auto simp: pad0_def eval_nat_numeral)
  then show ?thesis using assms minus by (auto simp: to_string_i_def list_all_iff pad0_def)
qed

lemma extract_built:
  assumes len: "int (length (buildMessage now sender target n msgType body @ rest)) < 2 ^ 64"
  shows "extractNextFrame (buildMessage now sender target n msgType body @ rest) =
     (if 0 \<le> builder_checksum (built_text now sender target n msgType body)
      then Inr \<lparr>status = Complete, consumed = length (buildMessage now sender target n msgType body),
                frame = buildMessage now sender target n msgType body, err = []\<rparr>
      else Inr (malformed ''FIX checksum field is malformed''))"
proof -
  let ?p = "built_payload now sender target n msgType body"
  let ?t = "built_text now sender target n msgType body" and ?ds = "dec (length ?p)"
  let ?cs = "pad0 3 (to_string_i (builder_checksum ?t))"
  have t: "?t = unframed ?ds ?p" by (simp add: built_text_def Let_def)
  have m: "buildMessage now sender target n msgType body = framed ?ds ?p ?cs"
    by (simp add: buildMessage_eq Let_def)
  have ds: "?ds \<noteq> []" "\<forall>c\<in>set ?ds. isdigit c" "digits_val 0 ?ds = length ?p"
    by (simp_all add: dec_digits digits_val_dec)
  show ?thesis
  proof (cases "0 \<le> builder_checksum ?t")
    case True
    let ?k = "unat (checksum ?t)"
    have k: "builder_checksum ?t = int ?k" by (rule builder_checksum_nonneg [OF True])
    have "int ?k < 256" using builder_checksum_bounds(2) [of ?t] unfolding k .
    then have "?k < 256" by linarith
    then have small: "?k < 10 ^ Suc 2" by (rule less_le_trans) simp
    have cs: "?cs = pad0 (Suc 2) (dec ?k)" by (simp add: k to_string_i_nonneg eval_nat_numeral)
    have "extractNextFrame (framed ?ds ?p ?cs @ rest) =
        Inr \<lparr>status = Complete, consumed = length (framed ?ds ?p ?cs),
             frame = framed ?ds ?p ?cs, err = []\<rparr>"
      using extract_framed [OF ds _ _ _ len [unfolded m]] pad0_dec [OF small]
      unfolding cs t [symmetric] by simp
    then show ?thesis using True by (simp add: m)
  next
    case False
    have cs: "3 \<le> length ?cs" "\<not> list_all isdigit (take 3 ?cs)"
      using negative_number_not_digits [of "builder_checksum ?t"] False by simp_all
    show ?thesis using extract_bad_checksum [OF ds cs len [unfolded m]] False by (simp add: m)
  qed
qed

end
