(* ===== verification/FixConverters.thy ===== *)
theory FixConverters
  imports FixText
begin

text \<open>
  The converters of \<open>exchange_fix\<close> between the wire and the request and report structs:
  \<open>BinaryTo*Converter\<close> (a parse error is a \<open>nullopt\<close>) and \<open>*ToBinaryConverter\<close>.
\<close>

subsection \<open>Request structs\<close>

record order_request =
  or_senderCompID :: string
  or_clientOrderId :: string
  or_symbol :: instrument
  or_side :: order_side
  or_quantity :: u64
  or_price :: dbl

record cancel_order_request =
  co_clOrdID :: string
  co_origClOrdID :: string
  co_orderID :: u64
  co_symbol :: instrument
  co_side :: order_side
  co_transactTime :: timestamp

record modify_order_request =
  mo_clOrdID :: string
  mo_origClOrdID :: string
  mo_orderID :: u64
  mo_symbol :: instrument
  mo_side :: order_side
  mo_orderQty :: u64
  mo_ordType :: order_type
  mo_price :: dbl
  mo_transactTime :: timestamp

text \<open>The two members without initialiser are \<open>None\<close> while they are indeterminate.\<close>

record market_data_request =
  md_mdReqID :: string
  md_subscriptionRequestType :: "char option"
  md_marketDepth :: "int option"
  md_symbols :: "instrument list"

subsection \<open>Inbound: orders\<close>

text \<open>The \<open>try\<close> block of a converter: \<open>nullopt\<close> on an exception and on an early return.\<close>

definition catch_null :: "exn + 'a option \<Rightarrow> 'a option" where
  "catch_null r = (case catch_exn r of Some (Some x) \<Rightarrow> Some x | _ \<Rightarrow> None)"

definition checksum_tag :: string where
  "checksum_tag = SOH # ''10=''"

definition parse_order :: "(int \<rightharpoonup> string) \<Rightarrow> exn + order_request" where
  "parse_order m =
     bind_exn (tag_at m SenderCompID) (\<lambda>sender.
     bind_exn (tag_at m ClOrdID) (\<lambda>clOrdID.
     bind_exn (bind_exn (tag_at m SymbolTag) instrument_from_string) (\<lambda>symbol.
     bind_exn (bind_exn (tag_at m Side) (\<lambda>v. charToOrderSide (front v))) (\<lambda>side.
     bind_exn (bind_exn (tag_at m OrderQty) stoull) (\<lambda>quantity.
     bind_exn (bind_exn (tag_at m Price) stod) (\<lambda>price.
     Inr \<lparr>or_senderCompID = sender, or_clientOrderId = clOrdID, or_symbol = symbol,
          or_side = side, or_quantity = quantity, or_price = price\<rparr>))))))"

text \<open>The checksum is compared again, as an \<open>unsigned int\<close>, behind the last \<open>SOH 10=\<close>.\<close>

definition BinaryToOrderRequest :: "string \<Rightarrow> order_request option" where
  "BinaryToOrderRequest fixMessage = (case rfind fixMessage checksum_tag of
      None \<Rightarrow> None
    | Some pos \<Rightarrow> catch_null
        (bind_exn (stoi (drop (pos + length checksum_tag) fixMessage)) (\<lambda>expected.
           if unsigned_checksum (take (pos + 1) fixMessage) \<noteq> word_of_int expected then Inr None
           else bind_exn (splitToMap fixMessage SOH) (\<lambda>m.
                bind_exn (parse_order m) (\<lambda>r. Inr (Some r))))))"

subsection \<open>Inbound: cancel and modify\<close>

text \<open>\<open>contains(tag) ? f(at(tag)) : dflt\<close>\<close>

definition opt_at :: "(int \<rightharpoonup> string) \<Rightarrow> tag \<Rightarrow> (string \<Rightarrow> exn + 'a) \<Rightarrow> 'a \<Rightarrow> exn + 'a" where
  "opt_at m t f dflt = (case m (tag_no t) of None \<Rightarrow> Inr dflt | Some v \<Rightarrow> f v)"

definition BinaryToCancelOrderRequest ::
  "(int \<Rightarrow> int) \<Rightarrow> string \<Rightarrow> cancel_order_request option" where
  "BinaryToCancelOrderRequest zone fixMessage = catch_exn
     (bind_exn (splitToMap fixMessage SOH) (\<lambda>m.
      bind_exn (tag_at m ClOrdID) (\<lambda>clOrdID.
      bind_exn (opt_at m OrigClOrdID Inr []) (\<lambda>orig.
      bind_exn (opt_at m OrderID stoull 0) (\<lambda>orderID.
      bind_exn (bind_exn (tag_at m SymbolTag) instrument_from_string) (\<lambda>symbol.
      bind_exn (bind_exn (tag_at m Side) (\<lambda>v. charToOrderSide (front v))) (\<lambda>side.
      bind_exn (bind_exn (tag_at m TransactTime) (parseTimestamp zone)) (\<lambda>t.
      Inr \<lparr>co_clOrdID = clOrdID, co_origClOrdID = orig, co_orderID = orderID,
           co_symbol = symbol, co_side = side, co_transactTime = t\<rparr>))))))))"

definition BinaryToModifyOrderRequest ::
  "(int \<Rightarrow> int) \<Rightarrow> string \<Rightarrow> modify_order_request option" where
  "BinaryToModifyOrderRequest zone fixMessage = catch_exn
     (bind_exn (splitToMap fixMessage SOH) (\<lambda>m.
      bind_exn (tag_at m ClOrdID) (\<lambda>clOrdID.
      bind_exn (tag_at m OrigClOrdID) (\<lambda>orig.
      bind_exn (opt_at m OrderID stoull 0) (\<lambda>orderID.
      bind_exn (bind_exn (tag_at m SymbolTag) instrument_from_string) (\<lambda>symbol.
      bind_exn (bind_exn (tag_at m Side) (\<lambda>v. charToOrderSide (front v))) (\<lambda>side.
      bind_exn (bind_exn (tag_at m OrderQty) stoull) (\<lambda>qty.
      bind_exn (bind_exn (tag_at m OrdType) (\<lambda>v. charToOrderType (front v))) (\<lambda>type.
      bind_exn (bind_exn (tag_at m Price) stod) (\<lambda>price.
      bind_exn (bind_exn (tag_at m TransactTime) (parseTimestamp zone)) (\<lambda>t.
      Inr \<lparr>mo_clOrdID = clOrdID, mo_origClOrdID = orig, mo_orderID = orderID,
           mo_symbol = symbol, mo_side = side, mo_orderQty = qty, mo_ordType = type,
           mo_price = price, mo_transactTime = t\<rparr>)))))))))))"

subsection \<open>Inbound: market data\<close>

text \<open>
  The search of the code that does not split: the first place where \<open>tag=\<close> occurs, the
  position behind the equals sign and that of the next SOH. It also finds the tail of a
  longer tag number, or the text inside a value.
\<close>

definition find_text :: "string \<Rightarrow> string \<Rightarrow> nat \<Rightarrow> (nat \<times> nat option) option" where
  "find_text s pat from = (case find s pat from of
      None \<Rightarrow> None
    | Some pos \<Rightarrow> Some (pos + length pat, find_char s SOH pos))"

definition find_value :: "string \<Rightarrow> tag \<Rightarrow> nat \<Rightarrow> (nat \<times> nat option) option" where
  "find_value s t from = find_text s (to_string_i (tag_no t) @ ''='') from"

definition value_between :: "string \<Rightarrow> nat \<Rightarrow> nat \<Rightarrow> string" where
  "value_between s i j = take (j - i) (drop i s)"

text \<open>The loop over \<open>NoRelatedSym\<close> symbols; the inner \<open>None\<close> is \<open>return std::nullopt\<close>.\<close>

fun md_symbol_loop :: "nat \<Rightarrow> string \<Rightarrow> nat \<Rightarrow> exn + instrument list option" where
  "md_symbol_loop 0 s pos = Inr (Some [])"
| "md_symbol_loop (Suc n) s pos = (case find_value s SymbolTag pos of
      Some (i, Some j) \<Rightarrow>
        bind_exn (instrument_from_string (value_between s i j)) (\<lambda>sym.
        bind_exn (md_symbol_loop n s (j + 1)) (\<lambda>r. Inr (map_option ((#) sym) r)))
    | _ \<Rightarrow> Inr None)"

definition BinaryToMarketDataRequest :: "string \<Rightarrow> market_data_request option" where
  "BinaryToMarketDataRequest s =
     (let reqId = (case find_value s MDReqID 0 of
            Some (i, Some j) \<Rightarrow> value_between s i j | _ \<Rightarrow> []);
          type = (case find_value s SubscriptionRequestType 0 of
            Some (i, Some j) \<Rightarrow> Some (s ! i) | _ \<Rightarrow> None)
      in case (case find_value s MarketDepth 0 of
                 Some (i, Some j) \<Rightarrow> map_option Some (from_chars_int (value_between s i j))
               | _ \<Rightarrow> Some None) of
           None \<Rightarrow> None
         | Some depth \<Rightarrow>
             map_option
               (\<lambda>syms. \<lparr>md_mdReqID = reqId, md_subscriptionRequestType = type,
                        md_marketDepth = depth, md_symbols = syms\<rparr>)
               (case find_value s NoRelatedSym 0 of
                  Some (i, Some j) \<Rightarrow> (case from_chars_int (value_between s i j) of
                      None \<Rightarrow> None
                    | Some n \<Rightarrow> catch_null (md_symbol_loop (nat n) s (j + 1)))
                | _ \<Rightarrow> Some []))"

subsection \<open>Outbound\<close>

fun orderStatusToChar :: "order_status \<Rightarrow> char" where
  "orderStatusToChar New = CHR ''0''"
| "orderStatusToChar PartiallyFilled = CHR ''1''"
| "orderStatusToChar Filled = CHR ''2''"
| "orderStatusToChar Cancelled = CHR ''4''"
| "orderStatusToChar Rejected = CHR ''8''"

fun orderSideToChar :: "order_side \<Rightarrow> char" where
  "orderSideToChar Buy = CHR ''1''"
| "orderSideToChar Sell = CHR ''2''"

definition timestampToString :: "timestamp \<Rightarrow> string" where
  "timestampToString ts = time_text put_time ts"

text \<open>The end of all three converters: length, content, and the checksum as unsigned sum.\<close>

definition seal :: "string \<Rightarrow> string \<Rightarrow> string" where
  "seal begin_string content =
     (let messageSansChecksum = field BeginString begin_string
            @ field BodyLength (dec (length content)) @ content
      in messageSansChecksum
         @ field CheckSum (pad0 3 (to_string_u (unsigned_checksum messageSansChecksum))))"

definition ExecutionReportToBinary :: "timestamp \<Rightarrow> execution_report \<Rightarrow> u32 \<Rightarrow> string" where
  "ExecutionReportToBinary now r msgSeqNum =
     seal ''FIX.4.4''
       (field MsgType ''8'' @ field SenderCompID (to_string_u (mRSenderCompId r))
        @ field TargetCompID (to_string_u (mRTargetCompId r))
        @ field MsgSeqNum (to_string_u msgSeqNum) @ field SendingTime (timestampToString now)
        @ field OrderID (to_string_u (mExchangeOrderId r)) @ field ClOrdID (mRClientOrderId r)
        @ field ExecID (mExecutionId r) @ field OrdStatus [orderStatusToChar (mStatus r)]
        @ (if mText r = [] then [] else field Text (mText r))
        @ field SymbolTag (instrument_to_string (mRSymbol r))
        @ field Side [orderSideToChar (mSide r)] @ field OrderQty (to_string_u (mOrderQuantity r))
        @ field CumQty (to_string_u (mCumulativeQuantity r))
        @ field LeavesQty (to_string_u (mLeavesQuantity r))
        @ field LastPx (print_fixed 4 (mLastPrice r)) @ field LastQty (to_string_u (mLastQuantity r))
        @ field TransactTime (timestampToString (mTransactionTime r)))"

text \<open>
  A refresh has the session it is addressed to by now. Every entry reads the clock for its
  entry time; \<open>now\<close> gives the readings, the last one is the sending time.
\<close>

definition incremental_entry_text :: "instrument \<Rightarrow> timestamp \<Rightarrow> md_incremental_entry \<Rightarrow> string" where
  "incremental_entry_text symbol now x =
     field MDUpdateAction [md_update_action_char (i_updateAction x)]
     @ field MDEntryType [md_entry_type_char (i_entryType x)]
     @ field SymbolTag (instrument_to_string symbol)
     @ field MDEntryPx (print_fixed 4 (i_price x)) @ field MDEntrySize (to_string_u (i_size x))
     @ field MDEntryTime (time_text put_clock now)"

definition MarketDataIncrementalRefreshToBinary ::
  "(nat \<Rightarrow> timestamp) \<Rightarrow> u32 \<Rightarrow> md_incremental_refresh \<Rightarrow> u32 \<Rightarrow> string" where
  "MarketDataIncrementalRefreshToBinary now target r msgSeqNum =
     (let n = length (i_entries r)
      in seal ''FIXT.1.1''
       (field MsgType ''X'' @ field SenderCompID ''TRADING_CORE''
        @ field TargetCompID (to_string_u target)
        @ field MsgSeqNum (to_string_u msgSeqNum) @ field SendingTime (timestampToString (now n))
        @ (if i_mdReqID r = [] then [] else field MDReqID (i_mdReqID r))
        @ field NoMDEntries (dec n)
        @ concat (map (\<lambda>(k, x). incremental_entry_text (i_symbol r) (now k) x)
            (zip [0..<n] (i_entries r)))))"

definition snapshot_entry_text :: "md_entry \<Rightarrow> string" where
  "snapshot_entry_text x =
     field MDEntryType [md_entry_type_char (s_entryType x)]
     @ field MDEntryPx (print_fixed 4 (s_price x)) @ field MDEntrySize (to_string_u (s_size x))
     @ (if 0 < s_entryPosition x then field MDEntryPositionNo (to_string_u (s_entryPosition x)) else [])"

definition MarketDataSnapshotFullRefreshToBinary ::
  "timestamp \<Rightarrow> md_snapshot \<Rightarrow> u32 \<Rightarrow> string" where
  "MarketDataSnapshotFullRefreshToBinary now r msgSeqNum =
     seal ''FIXT.1.1''
       (field MsgType ''W'' @ field SenderCompID ''TRADING_CORE''
        @ field TargetCompID (to_string_u (s_targetSessionID r))
        @ field MsgSeqNum (to_string_u msgSeqNum) @ field SendingTime (timestampToString now)
        @ (if s_mdReqID r = [] then [] else field MDReqID (s_mdReqID r))
        @ field SymbolTag (instrument_to_string (s_symbol r))
        @ field NoMDEntries (dec (length (s_entries r)))
        @ concat (map snapshot_entry_text (s_entries r)))"

end
