(* ===== verification/FixSessionManager.thy ===== *)
theory FixSessionManager
  imports Persistence
begin

text \<open>
  \<open>exchange_fix/FixSessionManager\<close>: which client a connection belongs to and the FIX sequence
  numbers of every client. Each method holds the mutex for its whole body, so it is one step.
  The three hash maps are only looked up, so they are maps. With a \<open>SequenceRepository\<close> every
  change of a number queues a task for the database worker.
\<close>

subsection \<open>State\<close>

record session_state =
  isLoggedOn :: bool
  inSeqNum :: u32
  outSeqNum :: u32
  senderCompId :: string

definition new_session_state :: session_state where
  "new_session_state = \<lparr>isLoggedOn = False, inSeqNum = 0, outSeqNum = 0, senderCompId = []\<rparr>"

record session_manager =
  mValidClients :: "string \<rightharpoonup> bool"
  mSessionStates :: "string \<rightharpoonup> session_state"
  mConnectionToCompId :: "u32 \<rightharpoonup> string"
  mSeqRepo :: bool

definition init_manager :: "bool \<Rightarrow> session_manager" where
  "init_manager seqRepo =
     \<lparr>mValidClients = Map.empty, mSessionStates = Map.empty, mConnectionToCompId = Map.empty,
      mSeqRepo = seqRepo\<rparr>"

definition set_state :: "string \<Rightarrow> session_state \<Rightarrow> session_manager \<Rightarrow> session_manager" where
  "set_state compId st m = m\<lparr>mSessionStates := (mSessionStates m)(compId \<mapsto> st)\<rparr>"

subsection \<open>Operations\<close>

definition loadConfig :: "string list \<Rightarrow> session_manager \<Rightarrow> session_manager" where
  "loadConfig validClients m =
     m\<lparr>mValidClients := foldl (\<lambda>f client. f(client \<mapsto> True)) Map.empty validClients\<rparr>"

text \<open>
  The query of \<open>getSequenceNumbers\<close> stands behind the tasks already queued, and the caller
  waits for its reply; \<open>None\<close> is a worker that one of the tasks ended.
\<close>

definition wait_sequences :: "string \<Rightarrow> db_worker \<Rightarrow> ((u32 \<times> u32) \<times> db_worker) option" where
  "wait_sequences compId w = do {
     d \<leftarrow> exec_tasks (mTasks w) (mDatabase w);
     Some (exec_getSequenceNumbers compId d, w\<lparr>mTasks := [], mDatabase := d\<rparr>)
   }"

definition authenticate ::
  "u32 \<Rightarrow> string \<Rightarrow> session_manager \<Rightarrow> db_worker \<Rightarrow> (bool \<times> session_manager \<times> db_worker) option" where
  "authenticate sessionId compId m w =
     (if mValidClients m compId = None then Some (False, m, w)
      else let m1 = m\<lparr>mConnectionToCompId := (mConnectionToCompId m)(sessionId \<mapsto> compId)\<rparr>
      in case mSessionStates m1 compId of
           Some st \<Rightarrow> Some (True, set_state compId (st\<lparr>isLoggedOn := True\<rparr>) m1, w)
         | None \<Rightarrow>
             if mSeqRepo m1
             then do {
               ((i, out), w1) \<leftarrow> wait_sequences compId w;
               Some (True, set_state compId \<lparr>isLoggedOn = True, inSeqNum = i, outSeqNum = out,
                                            senderCompId = compId\<rparr> m1, w1)
             }
             else Some (True, set_state compId \<lparr>isLoggedOn = True, inSeqNum = 0, outSeqNum = 1,
                                              senderCompId = compId\<rparr> m1, w))"

definition save_sequences :: "session_manager \<Rightarrow> string \<Rightarrow> session_state \<Rightarrow> db_worker \<Rightarrow> db_worker" where
  "save_sequences m compId st w =
     (if mSeqRepo m then enqueue_task (UpdateSequences compId (inSeqNum st) (outSeqNum st)) w else w)"

definition validateSequence ::
  "u32 \<Rightarrow> u32 \<Rightarrow> session_manager \<Rightarrow> db_worker \<Rightarrow> bool \<times> session_manager \<times> db_worker" where
  "validateSequence sessionId incomingSeqNum m w =
     (case mConnectionToCompId m sessionId of
        None \<Rightarrow> (False, m, w)
      | Some compId \<Rightarrow> (case mSessionStates m compId of
          None \<Rightarrow> (False, m, w)
        | Some state \<Rightarrow>
            if \<not> isLoggedOn state then (False, m, w)
            else if incomingSeqNum = inSeqNum state + 1
            then let state' = state\<lparr>inSeqNum := incomingSeqNum\<rparr>
                 in (True, set_state compId state' m, save_sequences m compId state' w)
            else (False, m, w)))"

definition handleLogout :: "u32 \<Rightarrow> session_manager \<Rightarrow> session_manager" where
  "handleLogout sessionId m =
     (case mConnectionToCompId m sessionId of
        None \<Rightarrow> m
      | Some compId \<Rightarrow> (case mSessionStates m compId of
          None \<Rightarrow> m
        | Some state \<Rightarrow> set_state compId (state\<lparr>isLoggedOn := False\<rparr>) m))"

definition cleanupConnection :: "u32 \<Rightarrow> session_manager \<Rightarrow> session_manager" where
  "cleanupConnection sessionId m =
     m\<lparr>mConnectionToCompId := (mConnectionToCompId m)(sessionId := None)\<rparr>"

definition getSessionState :: "u32 \<Rightarrow> session_manager \<Rightarrow> session_state option" where
  "getSessionState sessionId m =
     Option.bind (mConnectionToCompId m sessionId) (mSessionStates m)"

definition useNextOutboundSequence ::
  "u32 \<Rightarrow> session_manager \<Rightarrow> db_worker \<Rightarrow> u32 \<times> session_manager \<times> db_worker" where
  "useNextOutboundSequence sessionId m w =
     (case mConnectionToCompId m sessionId of
        None \<Rightarrow> (1, m, w)
      | Some compId \<Rightarrow> (case mSessionStates m compId of
          None \<Rightarrow> (1, m, w)
        | Some state \<Rightarrow>
            let state' = state\<lparr>outSeqNum := outSeqNum state + 1\<rparr>
            in (outSeqNum state, set_state compId state' m,
                save_sequences m (senderCompId state) state' w)))"

definition incrementOutboundSequence ::
  "u32 \<Rightarrow> session_manager \<Rightarrow> db_worker \<Rightarrow> session_manager \<times> db_worker" where
  "incrementOutboundSequence sessionId m w = snd (useNextOutboundSequence sessionId m w)"

definition getAllSessionStates :: "session_manager \<Rightarrow> string \<rightharpoonup> session_state" where
  "getAllSessionStates m = mSessionStates m"

subsection \<open>The invariant\<close>

text \<open>
  Every connection belongs to a client with a state, every state carries its own name, and
  every client with a state was a valid one.
\<close>

definition sessions_ok :: "session_manager \<Rightarrow> bool" where
  "sessions_ok m \<longleftrightarrow>
     (\<forall>s c. mConnectionToCompId m s = Some c \<longrightarrow> mSessionStates m c \<noteq> None) \<and>
     (\<forall>c st. mSessionStates m c = Some st \<longrightarrow> senderCompId st = c \<and> mValidClients m c \<noteq> None)"

lemma set_state_simps [simp]:
  "mSessionStates (set_state c st m) = (mSessionStates m)(c \<mapsto> st)"
  "mConnectionToCompId (set_state c st m) = mConnectionToCompId m"
  "mValidClients (set_state c st m) = mValidClients m"
  "mSeqRepo (set_state c st m) = mSeqRepo m"
  by (simp_all add: set_state_def)

lemma sessions_ok_init: "sessions_ok (init_manager r)"
  by (simp add: sessions_ok_def init_manager_def)

lemma sessions_ok_set_state:
  assumes "sessions_ok m" and "senderCompId st = c" and "mValidClients m c \<noteq> None"
  shows "sessions_ok (set_state c st m)"
  using assms by (auto simp: sessions_ok_def)

lemma sessions_okD:
  "sessions_ok m \<Longrightarrow> mConnectionToCompId m s = Some c \<Longrightarrow>
     \<exists>st. mSessionStates m c = Some st \<and> senderCompId st = c \<and> mValidClients m c \<noteq> None"
  unfolding sessions_ok_def by blast

lemma sessions_ok_state:
  "sessions_ok m \<Longrightarrow> mSessionStates m c = Some st \<Longrightarrow> senderCompId st = c \<and> mValidClients m c \<noteq> None"
  unfolding sessions_ok_def by blast

lemma sessions_ok_authenticate [inv_intros]:
  assumes "sessions_ok m" and "authenticate s c m w = Some (b, m', w')"
  shows "sessions_ok m'"
proof (cases "mValidClients m c")
  case None
  then show ?thesis using assms by (simp add: authenticate_def)
next
  case (Some v)
  let ?m1 = "m\<lparr>mConnectionToCompId := (mConnectionToCompId m)(s \<mapsto> c)\<rparr>"
  have keep: "sessions_ok (set_state c st ?m1)" if "senderCompId st = c" for st
    using assms(1) Some that by (auto simp: sessions_ok_def)
  show ?thesis
    using assms(2) Some keep sessions_ok_state [OF assms(1), of c]
    by (auto simp: authenticate_def Let_def bind_Some_iff split: option.splits if_splits)
qed

lemma sessions_ok_validate [inv_intros]:
  "sessions_ok m \<Longrightarrow> sessions_ok (fst (snd (validateSequence s n m w)))"
  by (auto simp: validateSequence_def Let_def intro!: sessions_ok_set_state
      dest: sessions_ok_state split: option.split)

lemma sessions_ok_logout [inv_intros]: "sessions_ok m \<Longrightarrow> sessions_ok (handleLogout s m)"
  by (auto simp: handleLogout_def intro!: sessions_ok_set_state
      dest: sessions_ok_state split: option.split)

lemma sessions_ok_cleanup [inv_intros]: "sessions_ok m \<Longrightarrow> sessions_ok (cleanupConnection s m)"
  by (auto simp: cleanupConnection_def sessions_ok_def)

lemma sessions_ok_next [inv_intros]:
  "sessions_ok m \<Longrightarrow> sessions_ok (fst (snd (useNextOutboundSequence s m w)))"
  by (auto simp: useNextOutboundSequence_def Let_def intro!: sessions_ok_set_state
      dest: sessions_ok_state split: option.split)

end
