(* ===== verification/FixServer.thy ===== *)
theory FixServer
  imports TradingCore FixFramer FixConverters FixSessionManager
begin

text \<open>
  \<open>exchange_fix/FixServer\<close> and \<open>FixSession\<close>: the connections in front of the core. The state
  is the core, the session manager and the sessions by number; what leaves the process is a
  log of messages and closed sockets. A callback of the core runs at once, which is the
  \<open>flush\<close> behind every core operation. An exception that leaves the read callback leaves
  \<open>io_context::run\<close> too and ends the process: it is the left value of a step. \<open>None\<close> is
  undefined behaviour.
\<close>

subsection \<open>State\<close>

datatype wire = Sent u32 string | Closed u32

record fix_session =
  mReadBuffer :: string
  mMarketDataReqIdMap :: "instrument \<rightharpoonup> string"
  mSocketOpen :: bool

record 'q fix_server =
  mTradingCore :: "'q core"
  mSessionManager :: session_manager
  mSessions :: "u32 \<rightharpoonup> fix_session"
  mNextSessionId :: u32
  wire_log :: "wire list"
  readings :: nat

text \<open>
  The outside world: the command queue, the clock of the engine, the clock of the session
  layer, the local time zone, the iteration order of the order manager's hash map, and the byte an
  uninitialised \<open>char\<close> holds.
\<close>

record 'q fix_env =
  queue_ops :: "'q spsc"
  core_env :: env
  wall :: "nat \<Rightarrow> timestamp"
  zone :: "int \<Rightarrow> int"
  iteration :: "order_manager \<Rightarrow> u64 list"
  garbage :: char

text \<open>The server is the only subscriber of the publisher's session callbacks.\<close>

definition fix_callback :: nat where
  "fix_callback = 0"

text \<open>The constructor, behind the \<open>initDatabase\<close> of the sequence repository when there is one.\<close>

definition init_server :: "bool \<Rightarrow> 'q core \<Rightarrow> 'q fix_server" where
  "init_server seqRepo c =
     (let w = mDatabaseWorker c;
          w1 = (if seqRepo then enqueue_task InitSequences w else w)
      in \<lparr>mTradingCore = subscribeToExecutions (c\<lparr>
            mDatabaseWorker := enqueue_task LoadClients w1,
            mMarketDataPublisher := subscribeToIncrementals (Some fix_callback)
              (subscribeToSnapshots (Some fix_callback) (mMarketDataPublisher c))\<rparr>),
          mSessionManager = init_manager seqRepo, mSessions = Map.empty, mNextSessionId = 1,
          wire_log = [], readings = 0\<rparr>)"

subsection \<open>Writing\<close>

definition doWrite :: "u32 \<Rightarrow> string \<Rightarrow> 'q fix_server \<Rightarrow> 'q fix_server" where
  "doWrite sid message s = (case mSessions s sid of
      None \<Rightarrow> s
    | Some x \<Rightarrow> if mSocketOpen x then s\<lparr>wire_log := wire_log s @ [Sent sid message]\<rparr> else s)"

definition close_socket :: "u32 \<Rightarrow> 'q fix_server \<Rightarrow> 'q fix_server" where
  "close_socket sid s = (case mSessions s sid of
      None \<Rightarrow> s
    | Some x \<Rightarrow> if mSocketOpen x
        then s\<lparr>mSessions := (mSessions s)(sid \<mapsto> x\<lparr>mSocketOpen := False\<rparr>),
               wire_log := wire_log s @ [Closed sid]\<rparr>
        else s)"

definition set_manager :: "session_manager \<times> db_worker \<Rightarrow> 'q fix_server \<Rightarrow> 'q fix_server" where
  "set_manager mw s =
     s\<lparr>mSessionManager := fst mw,
       mTradingCore := (mTradingCore s)\<lparr>mDatabaseWorker := snd mw\<rparr>\<rparr>"

text \<open>
  A message with the next outbound number of the session; \<open>k\<close> clock readings go into it.
\<close>

definition send_numbered ::
  "'q fix_env \<Rightarrow> u32 \<Rightarrow> nat \<Rightarrow> ((nat \<Rightarrow> timestamp) \<Rightarrow> u32 \<Rightarrow> string) \<Rightarrow> 'q fix_server \<Rightarrow> 'q fix_server" where
  "send_numbered E sid k mk s =
     (let (n, mw) = useNextOutboundSequence sid (mSessionManager s) (mDatabaseWorker (mTradingCore s));
          message = mk (\<lambda>i. wall E (readings s + i)) n
      in doWrite sid message (set_manager mw (s\<lparr>readings := readings s + k\<rparr>)))"

definition sendExecutionReport ::
  "'q fix_env \<Rightarrow> u32 \<Rightarrow> execution_report \<Rightarrow> 'q fix_server \<Rightarrow> 'q fix_server" where
  "sendExecutionReport E sid r s =
     send_numbered E sid 1 (\<lambda>now n. ExecutionReportToBinary (now 0) r n) s"

definition request_id :: "u32 \<Rightarrow> instrument \<Rightarrow> 'q fix_server \<Rightarrow> string option" where
  "request_id sid symbol s = Option.bind (mSessions s sid) (\<lambda>x. mMarketDataReqIdMap x symbol)"

definition sendMarketDataSnapshotFullRefresh ::
  "'q fix_env \<Rightarrow> u32 \<Rightarrow> md_snapshot \<Rightarrow> 'q fix_server \<Rightarrow> 'q fix_server" where
  "sendMarketDataSnapshotFullRefresh E sid snapshot s =
     (let final = (case request_id sid (s_symbol snapshot) s of
            None \<Rightarrow> snapshot | Some i \<Rightarrow> snapshot\<lparr>s_mdReqID := i\<rparr>)
      in send_numbered E sid 1
           (\<lambda>now n. MarketDataSnapshotFullRefreshToBinary (now 0) final n) s)"

definition sendMarketDataIncrementalRefresh ::
  "'q fix_env \<Rightarrow> u32 \<Rightarrow> md_incremental_refresh \<Rightarrow> 'q fix_server \<Rightarrow> 'q fix_server" where
  "sendMarketDataIncrementalRefresh E sid refresh s =
     (let final = (case request_id sid (i_symbol refresh) s of
            None \<Rightarrow> refresh | Some i \<Rightarrow> refresh\<lparr>i_mdReqID := i\<rparr>)
      in send_numbered E sid (length (i_entries final) + 1)
           (\<lambda>now n. MarketDataIncrementalRefreshToBinary now sid final n) s)"

text \<open>The name of the client on the connection, empty before a logon.\<close>

definition target_name :: "u32 \<Rightarrow> 'q fix_server \<Rightarrow> string" where
  "target_name sid s = (case getSessionState sid (mSessionManager s) of
      None \<Rightarrow> [] | Some st \<Rightarrow> senderCompId st)"

definition sendReject :: "'q fix_env \<Rightarrow> u32 \<Rightarrow> u32 \<Rightarrow> string \<Rightarrow> 'q fix_server \<Rightarrow> 'q fix_server" where
  "sendReject E sid refSeqNum txt s =
     send_numbered E sid 1 (\<lambda>now n. buildMessage (now 0) ''BETA_EXCHANGE'' (target_name sid s) n ''3''
       (''45='' @ to_string_u refSeqNum @ [SOH] @ ''58='' @ txt @ [SOH])) s"

definition sendBusinessMessageReject ::
  "'q fix_env \<Rightarrow> u32 \<Rightarrow> u32 \<Rightarrow> char \<Rightarrow> int \<Rightarrow> string \<Rightarrow> 'q fix_server \<Rightarrow> 'q fix_server" where
  "sendBusinessMessageReject E sid refSeqNum refMsgType reason txt s =
     send_numbered E sid 1 (\<lambda>now n. buildMessage (now 0) ''BETA_EXCHANGE'' (target_name sid s) n ''j''
       (''45='' @ to_string_u refSeqNum @ [SOH] @ ''372='' @ [refMsgType, SOH]
        @ ''379='' @ to_string_i reason @ [SOH] @ ''58='' @ txt @ [SOH])) s"

subsection \<open>Callbacks of the core\<close>

text \<open>A report goes to the session whose number is its target; 0 is nobody.\<close>

definition onExecutionReport :: "'q fix_env \<Rightarrow> execution_report \<Rightarrow> 'q fix_server \<Rightarrow> 'q fix_server" where
  "onExecutionReport E r s =
     (let sid = mRTargetCompId r
      in if sid = 0 \<or> mSessions s sid = None then s else sendExecutionReport E sid r s)"

definition onMarketDataSnapshotFullRefresh ::
  "'q fix_env \<Rightarrow> md_snapshot \<Rightarrow> 'q fix_server \<Rightarrow> 'q fix_server" where
  "onMarketDataSnapshotFullRefresh E snapshot s =
     (let sid = s_targetSessionID snapshot
      in if sid = 0 \<or> mSessions s sid = None then s
         else sendMarketDataSnapshotFullRefresh E sid snapshot s)"

definition onMarketDataIncrementalRefresh ::
  "'q fix_env \<Rightarrow> md_incremental_refresh \<Rightarrow> 'q fix_server \<Rightarrow> 'q fix_server" where
  "onMarketDataIncrementalRefresh E refresh s = (case i_targetSessionID refresh of
      None \<Rightarrow> s
    | Some sid \<Rightarrow> if sid = 0 \<or> mSessions s sid = None then s
        else sendMarketDataIncrementalRefresh E sid refresh s)"

fun dispatch :: "'q fix_env \<Rightarrow> core_out \<Rightarrow> 'q fix_server \<Rightarrow> 'q fix_server" where
  "dispatch E (OutReport r) s = onExecutionReport E r s"
| "dispatch E (OutSnapshot k m) s =
     (if k = fix_callback then onMarketDataSnapshotFullRefresh E m s else s)"
| "dispatch E (OutIncremental k m) s =
     (if k = fix_callback then onMarketDataIncrementalRefresh E m s else s)"

definition flush :: "'q fix_env \<Rightarrow> 'q fix_server \<Rightarrow> 'q fix_server" where
  "flush E s = fold (dispatch E) (outs (mTradingCore s))
     (s\<lparr>mTradingCore := (mTradingCore s)\<lparr>outs := []\<rparr>\<rparr>)"

definition on_core ::
  "'q fix_env \<Rightarrow> ('q core \<Rightarrow> 'q core option) \<Rightarrow> 'q fix_server \<Rightarrow> 'q fix_server option" where
  "on_core E f s = map_option (\<lambda>c. flush E (s\<lparr>mTradingCore := c\<rparr>)) (f (mTradingCore s))"

definition core_step_of ::
  "'q fix_env \<Rightarrow> core_step \<Rightarrow> 'q fix_server \<Rightarrow> 'q fix_server option" where
  "core_step_of E x s = on_core E (step_core (queue_ops E) (core_env E) x) s"

subsection \<open>Application messages\<close>

definition handleNewOrderSingle ::
  "'q fix_env \<Rightarrow> u32 \<Rightarrow> u32 \<Rightarrow> string \<Rightarrow> 'q fix_server \<Rightarrow> 'q fix_server option" where
  "handleNewOrderSingle E sid msgSeqNum fixMessage s = (case BinaryToOrderRequest fixMessage of
      None \<Rightarrow> Some (sendBusinessMessageReject E sid msgSeqNum (CHR ''D'') 5 ''Invalid NewOrderSingle'' s)
    | Some r \<Rightarrow>
        let now = wall E (readings s); client = to_string_u sid
        in core_step_of E (Place client now
             (mk_order (or_clientOrderId r) 0 (or_symbol r) client (or_senderCompID r) (or_side r)
                Limit DAY (or_quantity r) (or_price r) now))
             (s\<lparr>readings := readings s + 1\<rparr>))"

text \<open>The id of the order of a client order id, 0 when there is none.\<close>

definition id_by_client :: "'q fix_env \<Rightarrow> string \<Rightarrow> 'q fix_server \<Rightarrow> u64 option" where
  "id_by_client E clOrdId s =
     map_option (\<lambda>r. case r of None \<Rightarrow> 0 | Some ord \<Rightarrow> mCoreOrderId ord)
       (getOrderByClientOrderId_core (iteration E) clOrdId (mTradingCore s))"

definition handleCancelOrderRequest ::
  "'q fix_env \<Rightarrow> u32 \<Rightarrow> string \<Rightarrow> 'q fix_server \<Rightarrow> 'q fix_server option" where
  "handleCancelOrderRequest E sid fixMessage s =
     (case BinaryToCancelOrderRequest (zone E) fixMessage of
        None \<Rightarrow> Some s
      | Some r \<Rightarrow> do {
          orderId \<leftarrow> (if co_orderID r = 0
                     then id_by_client E (if co_origClOrdID r \<noteq> [] then co_origClOrdID r
                                          else co_clOrdID r) s
                     else Some (co_orderID r));
          if orderId = 0 then Some s
          else core_step_of E (Request (CancelOrder (to_string_u sid) (co_transactTime r) orderId)) s
        })"

definition handleModifyOrderRequest ::
  "'q fix_env \<Rightarrow> u32 \<Rightarrow> string \<Rightarrow> 'q fix_server \<Rightarrow> 'q fix_server option" where
  "handleModifyOrderRequest E sid fixMessage s =
     (case BinaryToModifyOrderRequest (zone E) fixMessage of
        None \<Rightarrow> Some s
      | Some r \<Rightarrow> do {
          orderId \<leftarrow> (if mo_orderID r = 0 \<and> mo_origClOrdID r \<noteq> []
                     then id_by_client E (mo_origClOrdID r) s
                     else Some (mo_orderID r));
          if orderId = 0 then Some s
          else core_step_of E (Request (ModifyOrder (to_string_u sid) (mo_transactTime r) orderId
                                 (mo_price r) (mo_orderQty r))) s
        })"

definition set_request_id ::
  "u32 \<Rightarrow> instrument \<Rightarrow> string option \<Rightarrow> 'q fix_server \<Rightarrow> 'q fix_server" where
  "set_request_id sid symbol v s =
     s\<lparr>mSessions := (mSessions s)(sid := map_option
         (\<lambda>x. x\<lparr>mMarketDataReqIdMap := (mMarketDataReqIdMap x)(symbol := v)\<rparr>) (mSessions s sid))\<rparr>"

text \<open>
  Without tag 263 the subscription type is whatever byte the struct holds, \<open>garbage\<close>.
\<close>

definition handleMarketDataRequest ::
  "'q fix_env \<Rightarrow> u32 \<Rightarrow> string \<Rightarrow> 'q fix_server \<Rightarrow> 'q fix_server option" where
  "handleMarketDataRequest E sid fixMessage s =
     (case BinaryToMarketDataRequest fixMessage of
        None \<Rightarrow> Some s
      | Some r \<Rightarrow> (case md_symbols r of
          [] \<Rightarrow> Some s
        | targetSymbol # _ \<Rightarrow>
            let type = (case md_subscriptionRequestType r of None \<Rightarrow> garbage E | Some t \<Rightarrow> t)
            in if type = CHR ''0'' \<or> type = CHR ''1''
            then core_step_of E (Subscribe targetSymbol (ucast sid))
                   (set_request_id sid targetSymbol (Some (md_mdReqID r)) s)
            else if type = CHR ''2''
            then core_step_of E (Unsubscribe targetSymbol (ucast sid))
                   (set_request_id sid targetSymbol None s)
            else Some s))"

subsection \<open>The protocol handler\<close>

text \<open>The two searches at the top of \<open>handleFixMessage\<close> and the one for TestReqID.\<close>

definition text_value :: "string \<Rightarrow> string \<Rightarrow> string option" where
  "text_value s pat = (case find_text s pat 0 of
      Some (i, Some j) \<Rightarrow> Some (value_between s i j) | _ \<Rightarrow> None)"

definition text_or_empty :: "string \<Rightarrow> string \<Rightarrow> string" where
  "text_or_empty s pat = (case text_value s pat of None \<Rightarrow> [] | Some v \<Rightarrow> v)"

definition message_seq_num :: "string \<Rightarrow> exn + u32" where
  "message_seq_num s = (case text_value s ''34='' of
      None \<Rightarrow> Inr 0 | Some v \<Rightarrow> bind_exn (stoul v) (\<lambda>n. Inr (ucast n)))"

definition handleLogonMessage ::
  "'q fix_env \<Rightarrow> u32 \<Rightarrow> u32 \<Rightarrow> string \<Rightarrow> 'q fix_server \<Rightarrow> 'q fix_server option" where
  "handleLogonMessage E sid msgSeqNum sender s = do {
     (accepted, mw) \<leftarrow> authenticate sid sender (mSessionManager s) (mDatabaseWorker (mTradingCore s));
     let s1 = set_manager mw s;
     Some (if \<not> accepted
       then close_socket sid (doWrite sid
              (buildLogout (wall E (readings s1)) ''BETA_EXCHANGE'' sender 1 ''Invalid SenderCompID'')
              (s1\<lparr>readings := readings s1 + 1\<rparr>))
       else let (_, mw1) = validateSequence sid msgSeqNum (mSessionManager s1)
                             (mDatabaseWorker (mTradingCore s1))
            in send_numbered E sid 1 (\<lambda>now n. buildLogon (now 0) ''BETA_EXCHANGE'' sender n 30)
                 (set_manager mw1 s1))
   }"

text \<open>The number is drawn before the logout; then the acknowledgement, and the socket closes.\<close>

definition handleLogoutMessage ::
  "'q fix_env \<Rightarrow> u32 \<Rightarrow> string \<Rightarrow> 'q fix_server \<Rightarrow> 'q fix_server" where
  "handleLogoutMessage E sid sender s =
     (let (outSeq, m, w) = useNextOutboundSequence sid (mSessionManager s)
            (mDatabaseWorker (mTradingCore s));
          s1 = set_manager (handleLogout sid m, w) s;
          s2 = doWrite sid (buildLogout (wall E (readings s1)) ''BETA_EXCHANGE'' sender outSeq
                 ''Logout Acknowledged'') (s1\<lparr>readings := readings s1 + 1\<rparr>)
      in close_socket sid (s2\<lparr>mSessionManager := cleanupConnection sid (mSessionManager s2)\<rparr>))"

definition handleTestRequest ::
  "'q fix_env \<Rightarrow> u32 \<Rightarrow> string \<Rightarrow> string \<Rightarrow> 'q fix_server \<Rightarrow> 'q fix_server" where
  "handleTestRequest E sid sender fixMessage s =
     (let testReqId = text_or_empty fixMessage ''112=''
      in if getSessionState sid (mSessionManager s) = None then s
         else send_numbered E sid 1
                (\<lambda>now n. buildHeartbeat (now 0) ''BETA_EXCHANGE'' sender n testReqId) s)"

text \<open>The \<open>switch\<close>; heartbeats, resend requests, sequence resets and the rest are only logged.\<close>

definition handle_application ::
  "'q fix_env \<Rightarrow> u32 \<Rightarrow> u32 \<Rightarrow> string \<Rightarrow> string \<Rightarrow> char \<Rightarrow> 'q fix_server \<Rightarrow> 'q fix_server option" where
  "handle_application E sid msgSeqNum sender fixMessage msgType s =
     (if msgType = CHR ''1'' then Some (handleTestRequest E sid sender fixMessage s)
      else if msgType = CHR ''D'' then handleNewOrderSingle E sid msgSeqNum fixMessage s
      else if msgType = CHR ''F'' then handleCancelOrderRequest E sid fixMessage s
      else if msgType = CHR ''G'' then handleModifyOrderRequest E sid fixMessage s
      else if msgType = CHR ''V'' then handleMarketDataRequest E sid fixMessage s
      else Some s)"

text \<open>
  An exception inside is logged and the message dropped: only the sequence number can throw
  one, before anything has changed. The verdict on the sequence number is not used.
\<close>

definition handleFixMessage ::
  "'q fix_env \<Rightarrow> u32 \<Rightarrow> string \<Rightarrow> char \<Rightarrow> 'q fix_server \<Rightarrow> 'q fix_server option" where
  "handleFixMessage E sid fixMessage msgType s = (case message_seq_num fixMessage of
      Inl _ \<Rightarrow> Some s
    | Inr msgSeqNum \<Rightarrow>
        let sender = text_or_empty fixMessage ''49=''
        in if msgType = CHR ''A'' then handleLogonMessage E sid msgSeqNum sender s
           else if msgType = CHR ''5'' then Some (handleLogoutMessage E sid sender s)
           else case getSessionState sid (mSessionManager s) of
             None \<Rightarrow> Some (close_socket sid s)
           | Some st \<Rightarrow>
               if \<not> isLoggedOn st then Some (close_socket sid s)
               else let (_, mw) = validateSequence sid msgSeqNum (mSessionManager s)
                                    (mDatabaseWorker (mTradingCore s))
                    in handle_application E sid msgSeqNum sender fixMessage msgType (set_manager mw s))"

subsection \<open>Reading\<close>

text \<open>
  The loop of the read callback over what is buffered. It goes on after a handler closed the
  socket. Behind a malformed frame it looks for the next begin string.
\<close>

definition resync :: "string \<Rightarrow> string" where
  "resync buffer = (case find buffer ''8=FIX.'' 1 of None \<Rightarrow> [] | Some nextBegin \<Rightarrow> drop nextBegin buffer)"

definition handle_frame ::
  "'q fix_env \<Rightarrow> u32 \<Rightarrow> string \<Rightarrow> (int \<rightharpoonup> string) \<Rightarrow> 'q fix_server \<Rightarrow> 'q fix_server option" where
  "handle_frame E sid message tagMap s = (case tagMap 35 of
      Some (msgType # _) \<Rightarrow> handleFixMessage E sid message msgType s
    | _ \<Rightarrow> Some (sendReject E sid 0 ''Missing MsgType (Tag 35)'' s))"

lemma find_at_least: "find s pat from = Some i \<Longrightarrow> from \<le> i"
  by (auto simp: find_def split: if_splits)

lemma resync_shorter: "buffer \<noteq> [] \<Longrightarrow> length (resync buffer) < length buffer"
  by (auto simp: resync_def dest!: find_at_least split: option.split)

lemma complete_consumes:
  "extractNextFrame buffer = Inr r \<Longrightarrow> status r = Complete \<Longrightarrow> 0 < consumed r"
proof -
  assume "extractNextFrame buffer = Inr r" and c: "status r = Complete"
  then obtain p n where "frame_body buffer p n = Inr r" using extract_body by blast
  then show "0 < consumed r" using c
    by (auto simp: frame_body_def substr_def Let_def need_more_def malformed_def
        split: if_splits option.splits)
qed

function read_loop ::
  "'q fix_env \<Rightarrow> u32 \<Rightarrow> string \<Rightarrow> 'q fix_server \<Rightarrow> (exn + string \<times> 'q fix_server) option" where
  "read_loop E sid buffer s =
     (if buffer = [] then Some (Inr (buffer, s))
      else case extractNextFrame buffer of
        Inl e \<Rightarrow> Some (Inl e)
      | Inr r \<Rightarrow>
          (case status r of
             NeedMoreData \<Rightarrow> Some (Inr (buffer, s))
           | Malformed \<Rightarrow> read_loop E sid (resync buffer) (sendReject E sid 0 (err r) s)
           | Complete \<Rightarrow>
               (case splitToMap (frame r) SOH of
                  Inl e \<Rightarrow> Some (Inl e)
                | Inr tagMap \<Rightarrow>
                    (case handle_frame E sid (frame r) tagMap s of
                       None \<Rightarrow> None
                     | Some s1 \<Rightarrow> read_loop E sid (drop (consumed r) buffer) s1))))"
  by pat_completeness auto
termination
  by (relation "measure (\<lambda>(E, sid, buffer, s). length buffer)")
    (auto simp: resync_shorter dest: complete_consumes)

declare read_loop.simps [simp del]

text \<open>A completed read on an open socket; the rest of the buffer stays for the next one.\<close>

definition receive ::
  "'q fix_env \<Rightarrow> u32 \<Rightarrow> string \<Rightarrow> 'q fix_server \<Rightarrow> (exn + 'q fix_server) option" where
  "receive E sid bytes s = (case mSessions s sid of
      None \<Rightarrow> Some (Inr s)
    | Some x \<Rightarrow>
        if \<not> mSocketOpen x then Some (Inr s)
        else do {
          r \<leftarrow> read_loop E sid (mReadBuffer x @ bytes) s;
          Some (bind_exn r (\<lambda>(rest, s1). Inr (s1\<lparr>mSessions := (mSessions s1)(sid :=
            map_option (\<lambda>x. x\<lparr>mReadBuffer := rest\<rparr>) (mSessions s1 sid))\<rparr>)))
        })"

subsection \<open>The server\<close>

definition registerSession :: "u32 \<Rightarrow> 'q fix_server \<Rightarrow> 'q fix_server" where
  "registerSession sid s = s\<lparr>mSessions := (mSessions s)(sid \<mapsto>
     \<lparr>mReadBuffer = [], mMarketDataReqIdMap = Map.empty, mSocketOpen = True\<rparr>)\<rparr>"

definition accept_connection :: "'q fix_server \<Rightarrow> 'q fix_server" where
  "accept_connection s =
     registerSession (mNextSessionId s) (s\<lparr>mNextSessionId := mNextSessionId s + 1\<rparr>)"

text \<open>A read that fails, as every read on a socket closed by either side does.\<close>

definition unregisterSession :: "u32 \<Rightarrow> 'q fix_server \<Rightarrow> 'q fix_server" where
  "unregisterSession sid s =
     s\<lparr>mSessions := (mSessions s)(sid := None),
       mTradingCore := unsubscribeSession (ucast sid) (mTradingCore s)\<rparr>"

text \<open>A turn of the database worker; the reply to the client query is its callback.\<close>

fun on_reply :: "db_reply \<Rightarrow> 'q fix_server \<Rightarrow> 'q fix_server" where
  "on_reply (ClientsReply clients) s = s\<lparr>mSessionManager := loadConfig clients (mSessionManager s)\<rparr>"
| "on_reply _ s = s"

definition database_turn :: "'q fix_server \<Rightarrow> 'q fix_server option" where
  "database_turn s = do {
     (w, rs) \<leftarrow> worker_turn (mDatabaseWorker (mTradingCore s));
     Some (fold on_reply rs (s\<lparr>mTradingCore := (mTradingCore s)\<lparr>mDatabaseWorker := w\<rparr>\<rparr>))
   }"

datatype fix_step =
    Accept
  | Receive u32 string
  | ReadFails u32
  | EngineTurn instrument
  | DatabaseTurn

fun step_server ::
  "'q fix_env \<Rightarrow> fix_step \<Rightarrow> 'q fix_server \<Rightarrow> (exn + 'q fix_server) option" where
  "step_server E Accept s = Some (Inr (accept_connection s))"
| "step_server E (Receive sid bytes) s = receive E sid bytes s"
| "step_server E (ReadFails sid) s = Some (Inr (unregisterSession sid s))"
| "step_server E (EngineTurn i) s = map_option Inr (core_step_of E (Turn i) s)"
| "step_server E DatabaseTurn s = map_option Inr (database_turn s)"

text \<open>A run of the process; an exception ends it.\<close>

fun server_run ::
  "'q fix_env \<Rightarrow> fix_step list \<Rightarrow> 'q fix_server \<Rightarrow> (exn + 'q fix_server) option" where
  "server_run E [] s = Some (Inr s)"
| "server_run E (x # xs) s = do {
     r \<leftarrow> step_server E x s;
     (case r of Inl e \<Rightarrow> Some (Inl e) | Inr s1 \<Rightarrow> server_run E xs s1)
   }"

end
