(* ===== verification/FixWireProperties.thy ===== *)
theory FixWireProperties
  imports FixServer
begin

text \<open>
  The theorems about the bytes: what the framer makes of built messages, and the two ways a
  peer can end the process with a single message.
\<close>

subsection \<open>Framing\<close>

text \<open>
  C30: the framer takes apart what the builder put together. In front of any further input, a
  message of \<open>OutboundMessageBuilder\<close> comes out of \<open>extractNextFrame\<close> exactly as it was
  built, with its length consumed, as long as the sum of its signed bytes did not leave a
  negative remainder; a message with a negative remainder (mostly bytes above 127) is refused
  for its checksum field.
\<close>

theorem framer_inverts_builder:
  assumes "int (length (buildMessage now sender target n msgType body @ rest)) < 2 ^ 64"
  shows "extractNextFrame (buildMessage now sender target n msgType body @ rest) =
     (if 0 \<le> builder_checksum (built_text now sender target n msgType body)
      then Inr \<lparr>status = Complete, consumed = length (buildMessage now sender target n msgType body),
                frame = buildMessage now sender target n msgType body, err = []\<rparr>
      else Inr (malformed ''FIX checksum field is malformed''))"
  by (rule extract_built [OF assms])

theorem framer_inverts_builder_demo:
  "extractNextFrame (buildMessage 0 ''A'' ''B'' 7 ''0'' [] @ ''8=F'') =
     Inr \<lparr>status = Complete, consumed = length (buildMessage 0 ''A'' ''B'' 7 ''0'' []),
          frame = buildMessage 0 ''A'' ''B'' 7 ''0'' [], err = []\<rparr>"
proof -
  have "int (length (buildMessage 0 ''A'' ''B'' 7 ''0'' [] @ ''8=F'')) < 2 ^ 64" by code_simp
  moreover have "0 \<le> builder_checksum (built_text 0 ''A'' ''B'' 7 ''0'' [])" by code_simp
  ultimately show ?thesis
    using framer_inverts_builder [of 0 "''A''" "''B''" 7 "''0''" "[]" "''8=F''"] by simp
qed

text \<open>
  A text of bytes above 127 is not understood by the peer. A logout whose reason consists
  of enough such bytes is built with a negative checksum, which the framer refuses.
\<close>

theorem non_ascii_text_breaks_the_checksum:
  "extractNextFrame (buildLogout 0 ''A'' ''B'' 7 (replicate 80 (CHR 0x80))) =
     Inr (malformed ''FIX checksum field is malformed'')"
  by code_simp

subsection \<open>Messages that end the process\<close>

lemma buildMessage_fields:
  "buildMessage now sender target n msgType body =
     field BeginString ''FIX.4.4''
     @ field BodyLength (dec (length (built_payload now sender target n msgType body)))
     @ field MsgType msgType @ field SenderCompID sender @ field TargetCompID target
     @ field MsgSeqNum (to_string_u n) @ field SendingTime (generateTimestamp now) @ body
     @ field CheckSum (pad0 3 (to_string_i (builder_checksum (built_text now sender target n msgType body))))"
proof -
  have "built_text now sender target n msgType body =
      field BeginString ''FIX.4.4''
      @ field BodyLength (dec (length (built_payload now sender target n msgType body)))
      @ built_payload now sender target n msgType body"
    by (simp add: built_text_def Let_def unframed_def field_texts)
  then show ?thesis
    unfolding buildMessage_def Let_def built_payload_def [symmetric] by (simp add: built_payload_def)
qed

lemma split_built:
  assumes "SOH \<notin> set msgType" "SOH \<notin> set sender" "SOH \<notin> set target"
  shows "splitToMap (buildMessage now sender target n msgType body) SOH =
     split_fields SOH (body @ field CheckSum
       (pad0 3 (to_string_i (builder_checksum (built_text now sender target n msgType body)))))
       [8 \<mapsto> ''FIX.4.4'', 9 \<mapsto> dec (length (built_payload now sender target n msgType body)),
        35 \<mapsto> msgType, 49 \<mapsto> sender, 56 \<mapsto> target, 34 \<mapsto> to_string_u n,
        52 \<mapsto> generateTimestamp now]"
proof -
  have "SOH \<notin> set ''FIX.4.4''" by (simp add: SOH_eq)
  then show ?thesis
    using assms by (simp add: splitToMap_def buildMessage_fields split_field)
qed

text \<open>An open connection that has sent nothing yet, or only whole messages.\<close>

definition idle_connection :: "u32 \<Rightarrow> 'q fix_server \<Rightarrow> bool" where
  "idle_connection sid s \<longleftrightarrow> (\<exists>x. mSessions s sid = Some x \<and> mSocketOpen x \<and> mReadBuffer x = [])"

lemma receive_idle:
  "idle_connection sid s \<Longrightarrow> receive E sid bytes s =
     Option.bind (read_loop E sid bytes s)
       (\<lambda>r. Some (bind_exn r (\<lambda>(rest, s1). Inr (s1\<lparr>mSessions := (mSessions s1)(sid :=
          map_option (\<lambda>x. x\<lparr>mReadBuffer := rest\<rparr>) (mSessions s1 sid))\<rparr>))))"
  by (auto simp: idle_connection_def receive_def)

text \<open>
  A field with a tag that is not a number ends the exchange. Any peer that has connected,
  logged on or not, ends the process with one message that is framed correctly (length and
  checksum) and holds such a field: \<open>splitToMap\<close> throws in the read callback, outside of
  every handler.
\<close>

theorem non_numeric_tag_ends_the_process:
  assumes "idle_connection sid s" and key: "stoi key = Inl e" "CHR ''='' \<notin> set key" "SOH \<notin> set key"
    and "SOH \<notin> set v" "SOH \<notin> set msgType" "SOH \<notin> set sender" "SOH \<notin> set target"
    and body: "body = key @ CHR ''='' # v @ SOH # body'"
    and sum: "0 \<le> builder_checksum (built_text now sender target n msgType body)"
    and len: "int (length (buildMessage now sender target n msgType body)) < 2 ^ 64"
  shows "step_server E (Receive sid (buildMessage now sender target n msgType body)) s = Some (Inl e)"
proof -
  let ?m = "buildMessage now sender target n msgType body"
  have frame: "extractNextFrame ?m = Inr \<lparr>status = Complete, consumed = length ?m, frame = ?m, err = []\<rparr>"
    using extract_built [of now sender target n msgType body "[]"] len sum by simp
  have bad: "put_field (key @ CHR ''='' # v) mm = Inl e" for mm
    using key by (simp add: put_field_def find_char_before)
  have token: "SOH \<notin> set (key @ CHR ''='' # v)" using assms(3,4,5) by (auto simp: key(3))
  have "splitToMap ?m SOH = Inl e"
    using assms(6-8) split_token [OF token] bad by (simp add: split_built body)
  moreover have "?m \<noteq> []" by (simp add: buildMessage_fields field_texts)
  ultimately have "read_loop E sid ?m s = Some (Inl e)"
    using frame by (subst read_loop.simps) simp
  then show ?thesis by (simp add: receive_idle [OF assms(1)])
qed

definition demo_fix_env :: "(nat \<times> command list) fix_env" where
  "demo_fix_env = \<lparr>queue_ops = list_queue, core_env = \<lparr>clk = int, has_callback = True\<rparr>, wall = int,
     zone = (\<lambda>_. 0), iteration = (\<lambda>_. []), garbage = CHR ''0''\<rparr>"

definition demo_server :: "'q core \<Rightarrow> 'q fix_server" where
  "demo_server c = accept_connection (init_server True c)"

lemma demo_idle: "idle_connection 1 (demo_server c)"
  by (simp add: idle_connection_def demo_server_def accept_connection_def registerSession_def
      init_server_def Let_def)

theorem non_numeric_tag_ends_the_process_demo:
  "\<forall>c. step_server demo_fix_env (Receive 1 (buildMessage 0 ''A'' ''B'' 1 ''0'' (''x=1'' @ [SOH]))) (demo_server c) =
     Some (Inl InvalidArgument)"
proof (rule allI, rule non_numeric_tag_ends_the_process [OF demo_idle, where key = "''x''" and v = "''1''" and body' = "[]"])
  show "stoi ''x'' = Inl InvalidArgument" by code_simp
  show "0 \<le> builder_checksum (built_text 0 ''A'' ''B'' 1 ''0'' (''x=1'' @ [SOH]))" by code_simp
  show "int (length (buildMessage 0 ''A'' ''B'' 1 ''0'' (''x=1'' @ [SOH]))) < 2 ^ 64" by code_simp
qed (simp_all add: SOH_eq)

text \<open>
  C31: a body length just below the largest \<open>size_t\<close> ends the exchange. When the start of the
  checksum field is computed within 3 of the wrap-around, the bounds test passes and
  \<open>substr\<close> throws out of the read callback, for any connected peer.
\<close>

theorem huge_body_length_ends_the_process:
  assumes "idle_connection sid s" and ds: "ds \<noteq> []" "\<forall>c\<in>set ds. isdigit c"
    and big: "2 ^ 64 - 3 \<le> 13 + int (length ds) + int (digits_val 0 ds)"
      "13 + int (length ds) + int (digits_val 0 ds) < 2 ^ 64"
    and len: "int (length rest) < 2 ^ 63" "int (length ds) < 2 ^ 62"
  shows "step_server E (Receive sid (begin_text @ SOH # ''9='' @ ds @ SOH # rest)) s =
     Some (Inl OutOfRange)"
proof -
  let ?b = "begin_text @ SOH # ''9='' @ ds @ SOH # rest"
  have "int (length ?b) < 2 ^ 64 - 3" using len by simp
  then have "extractNextFrame ?b = Inl OutOfRange" by (rule extract_wraps [OF ds big refl])
  moreover have "?b \<noteq> []" by simp
  ultimately have "read_loop E sid ?b s = Some (Inl OutOfRange)" by (subst read_loop.simps) simp
  then show ?thesis by (simp add: receive_idle [OF assms(1)])
qed

theorem huge_body_length_ends_the_process_demo:
  "\<forall>c. step_server demo_fix_env (Receive 1 (begin_text @ SOH # ''9='' @ ''18446744073709551580'' @ [SOH]))
     (demo_server c) = Some (Inl OutOfRange)"
proof -
  have ds: "\<forall>c\<in>set ''18446744073709551580''. isdigit c" by code_simp
  show ?thesis
    by (rule allI, rule huge_body_length_ends_the_process [OF demo_idle _ ds]) (simp_all add: digit_val_def byte_def)
qed

end
