(* ===== verification/FixSequenceProperties.thy ===== *)
theory FixSequenceProperties
  imports FixSessionManager
begin

text \<open>
  The theorems about the session manager alone: the numbers of a client over any run of its
  operations, and what a restart finds of them in the database.
\<close>

subsection \<open>Runs of the manager\<close>

text \<open>The calls of the session layer, by whichever connection.\<close>

datatype manager_call =
    Authenticate u32 string
  | Validate u32 u32
  | LogOut u32
  | Cleanup u32
  | Draw u32

text \<open>What a call shows to the outside: a number drawn or accepted for a client.\<close>

datatype manager_event = Drew string u32 | Accepted string u32

text \<open>The client a connection counts for.\<close>

definition client_of :: "u32 \<Rightarrow> session_manager \<Rightarrow> string option" where
  "client_of sid m = map_option senderCompId (getSessionState sid m)"

fun manager_step :: "manager_call \<Rightarrow> session_manager \<Rightarrow> db_worker \<Rightarrow>
    (manager_event list \<times> session_manager \<times> db_worker) option" where
  "manager_step (Authenticate sid c) m w = map_option (\<lambda>(_, mw). ([], mw)) (authenticate sid c m w)"
| "manager_step (Validate sid n) m w =
     (let (ok, mw) = validateSequence sid n m w
      in Some ((case client_of sid m of Some c \<Rightarrow> if ok then [Accepted c n] else [] | None \<Rightarrow> []), mw))"
| "manager_step (LogOut sid) m w = Some ([], handleLogout sid m, w)"
| "manager_step (Cleanup sid) m w = Some ([], cleanupConnection sid m, w)"
| "manager_step (Draw sid) m w =
     (let (n, mw) = useNextOutboundSequence sid m w
      in Some ((case client_of sid m of Some c \<Rightarrow> [Drew c n] | None \<Rightarrow> []), mw))"

fun manager_run :: "manager_call list \<Rightarrow> session_manager \<Rightarrow> db_worker \<Rightarrow>
    (manager_event list \<times> session_manager \<times> db_worker) option" where
  "manager_run [] m w = Some ([], m, w)"
| "manager_run (x # xs) m w = do {
     (evs, m1, w1) \<leftarrow> manager_step x m w;
     (evs', m2, w2) \<leftarrow> manager_run xs m1 w1;
     Some (evs @ evs', m2, w2)
   }"

fun drawn_by :: "string \<Rightarrow> manager_event list \<Rightarrow> u32 list" where
  "drawn_by c [] = []"
| "drawn_by c (Drew d n # evs) = (if d = c then n # drawn_by c evs else drawn_by c evs)"
| "drawn_by c (Accepted d n # evs) = drawn_by c evs"

fun accepted_from :: "string \<Rightarrow> manager_event list \<Rightarrow> u32 list" where
  "accepted_from c [] = []"
| "accepted_from c (Drew d n # evs) = accepted_from c evs"
| "accepted_from c (Accepted d n # evs) = (if d = c then n # accepted_from c evs else accepted_from c evs)"

text \<open>\<open>k\<close> numbers counted up from \<open>n\<close>.\<close>

fun count_from :: "u32 \<Rightarrow> nat \<Rightarrow> u32 list" where
  "count_from n 0 = []"
| "count_from n (Suc k) = n # count_from (n + 1) k"

lemma drawn_append [simp]: "drawn_by c (xs @ ys) = drawn_by c xs @ drawn_by c ys"
  by (induction xs rule: drawn_by.induct) simp_all

lemma accepted_append [simp]: "accepted_from c (xs @ ys) = accepted_from c xs @ accepted_from c ys"
  by (induction xs rule: accepted_from.induct) simp_all

lemma length_count_from [simp]: "length (count_from n k) = k"
  by (induction k arbitrary: n) simp_all

lemma sessions_ok_step:
  assumes "sessions_ok m" and "manager_step x m w = Some (evs, m1, w1)"
  shows "sessions_ok m1"
proof (cases x)
  case (Validate sid n)
  then show ?thesis using assms sessions_ok_validate [of m sid n w]
    by (auto simp: Let_def split: prod.splits)
next
  case (Draw sid)
  then show ?thesis using assms sessions_ok_next [of m sid w]
    by (auto simp: Let_def split: prod.splits)
qed (use assms in \<open>auto simp: inv_intros dest: sessions_ok_authenticate\<close>)

text \<open>One step moves the numbers of a client by what it shows.\<close>

lemma numbers_step:
  assumes ok: "sessions_ok m" and run: "manager_step x m w = Some (evs, m1, w1)"
    and st: "mSessionStates m c = Some st"
  shows "\<exists>st1. mSessionStates m1 c = Some st1 \<and>
     drawn_by c evs = count_from (outSeqNum st) (length (drawn_by c evs)) \<and>
     outSeqNum st1 = outSeqNum st + of_nat (length (drawn_by c evs)) \<and>
     accepted_from c evs = count_from (inSeqNum st + 1) (length (accepted_from c evs)) \<and>
     inSeqNum st1 = inSeqNum st + of_nat (length (accepted_from c evs))"
proof (cases x)
  case (Authenticate sid d)
  then show ?thesis using run st
    by (auto simp: authenticate_def Let_def bind_eq_Some_conv split: if_splits option.splits)
next
  case (Validate sid n)
  then show ?thesis using run st ok
    by (auto simp: validateSequence_def client_of_def getSessionState_def Let_def
        dest: sessions_ok_state split: if_splits option.splits)
next
  case (LogOut sid)
  then show ?thesis using run st
    by (auto simp: handleLogout_def split: option.splits)
next
  case (Cleanup sid)
  then show ?thesis using run st by (auto simp: cleanupConnection_def)
next
  case (Draw sid)
  then show ?thesis using run st ok
    by (auto simp: useNextOutboundSequence_def client_of_def getSessionState_def Let_def
        dest: sessions_ok_state split: if_splits option.splits)
qed

lemma count_from_append:
  "count_from n j @ count_from (n + of_nat j) k = count_from n (j + k)"
  by (induction j arbitrary: n) (simp_all add: add.assoc [symmetric])

text \<open>
  C28: the sequence numbers of a client have no gap and no repetition. Over any run of logons,
  logouts, reconnects and validations, on any number of connections, the outbound numbers
  drawn for a client count up by one from its state, and so do the inbound numbers accepted
  from it; the state ends behind the last of both.
\<close>

theorem sequence_numbers_count_up:
  assumes "sessions_ok m" and "manager_run xs m w = Some (evs, m', w')"
    and "mSessionStates m c = Some st"
  shows "\<exists>st'. mSessionStates m' c = Some st' \<and>
     drawn_by c evs = count_from (outSeqNum st) (length (drawn_by c evs)) \<and>
     outSeqNum st' = outSeqNum st + of_nat (length (drawn_by c evs)) \<and>
     accepted_from c evs = count_from (inSeqNum st + 1) (length (accepted_from c evs)) \<and>
     inSeqNum st' = inSeqNum st + of_nat (length (accepted_from c evs))"
  using assms
proof (induction xs arbitrary: m w st evs)
  case (Cons x xs)
  obtain evs1 m1 w1 evs2 where run: "manager_step x m w = Some (evs1, m1, w1)"
      "manager_run xs m1 w1 = Some (evs2, m', w')" and evs: "evs = evs1 @ evs2"
    using Cons.prems(2) by (auto simp: bind_eq_Some_conv)
  from numbers_step [OF Cons.prems(1) run(1) Cons.prems(3)]
  obtain st1 where st1: "mSessionStates m1 c = Some st1"
      "drawn_by c evs1 = count_from (outSeqNum st) (length (drawn_by c evs1))"
      "outSeqNum st1 = outSeqNum st + of_nat (length (drawn_by c evs1))"
      "accepted_from c evs1 = count_from (inSeqNum st + 1) (length (accepted_from c evs1))"
      "inSeqNum st1 = inSeqNum st + of_nat (length (accepted_from c evs1))" by blast
  from Cons.IH [OF sessions_ok_step [OF Cons.prems(1) run(1)] run(2) st1(1)]
  obtain st' where st': "mSessionStates m' c = Some st'"
      "drawn_by c evs2 = count_from (outSeqNum st1) (length (drawn_by c evs2))"
      "outSeqNum st' = outSeqNum st1 + of_nat (length (drawn_by c evs2))"
      "accepted_from c evs2 = count_from (inSeqNum st1 + 1) (length (accepted_from c evs2))"
      "inSeqNum st' = inSeqNum st1 + of_nat (length (accepted_from c evs2))" by blast
  let ?j = "length (drawn_by c evs1)" and ?k = "length (accepted_from c evs1)"
  have "drawn_by c evs = drawn_by c evs1 @ drawn_by c evs2" by (simp add: evs)
  also have "\<dots> = count_from (outSeqNum st) ?j
      @ count_from (outSeqNum st + of_nat ?j) (length (drawn_by c evs2))"
    by (rule arg_cong2 [where f = "(@)", OF st1(2) st'(2) [unfolded st1(3)]])
  also have "\<dots> = count_from (outSeqNum st) (length (drawn_by c evs))"
    by (simp add: evs count_from_append)
  finally have drawn: "drawn_by c evs = count_from (outSeqNum st) (length (drawn_by c evs))" .
  have next_in: "inSeqNum st1 + 1 = inSeqNum st + 1 + of_nat ?k" by (simp add: st1(5))
  have "accepted_from c evs = accepted_from c evs1 @ accepted_from c evs2" by (simp add: evs)
  also have "\<dots> = count_from (inSeqNum st + 1) ?k
      @ count_from (inSeqNum st + 1 + of_nat ?k) (length (accepted_from c evs2))"
    by (rule arg_cong2 [where f = "(@)", OF st1(4) st'(4) [unfolded next_in]])
  also have "\<dots> = count_from (inSeqNum st + 1) (length (accepted_from c evs))"
    by (simp add: evs count_from_append)
  finally have "accepted_from c evs = count_from (inSeqNum st + 1) (length (accepted_from c evs))" .
  then show ?case using drawn st1(3,5) st'(1,3,5) by (simp add: evs add.assoc)
qed simp

definition demo_manager :: session_manager where
  "demo_manager = \<lparr>mValidClients = [''alice'' \<mapsto> True],
     mSessionStates = [''alice'' \<mapsto> \<lparr>isLoggedOn = True, inSeqNum = 4, outSeqNum = 9, senderCompId = ''alice''\<rparr>],
     mConnectionToCompId = [1 \<mapsto> ''alice''], mSeqRepo = True\<rparr>"

lemma demo_manager_ok: "sessions_ok demo_manager"
  by (auto simp: sessions_ok_def demo_manager_def intro: exI [of _ True])

theorem sequence_numbers_count_up_demo:
  "\<exists>evs m' w'. manager_run [Draw 1, Validate 1 5, Draw 1] demo_manager \<lparr>mTasks = [], mDatabase = empty_db\<rparr>
     = Some (evs, m', w') \<and> drawn_by ''alice'' evs = [9, 10]"
proof -
  have "map_option fst (manager_run [Draw 1, Validate 1 5, Draw 1] demo_manager
      \<lparr>mTasks = [], mDatabase = empty_db\<rparr>) = Some [Drew ''alice'' 9, Accepted ''alice'' 5, Drew ''alice'' 10]"
    by code_simp
  then obtain r where r: "manager_run [Draw 1, Validate 1 5, Draw 1] demo_manager
      \<lparr>mTasks = [], mDatabase = empty_db\<rparr> = Some r"
      "fst r = [Drew ''alice'' 9, Accepted ''alice'' 5, Drew ''alice'' 10]"
    unfolding map_option_eq_Some by blast
  obtain evs m' w' where e: "r = (evs, m', w')" by (cases r)
  have run: "manager_run [Draw 1, Validate 1 5, Draw 1] demo_manager
      \<lparr>mTasks = [], mDatabase = empty_db\<rparr> = Some (evs, m', w')" "length (drawn_by ''alice'' evs) = 2"
    using r(2) by (simp_all only: r(1) e) simp_all
  from sequence_numbers_count_up [OF demo_manager_ok run(1), of "''alice''"]
  have "drawn_by ''alice'' evs = count_from 9 2" using run(2) by (auto simp: demo_manager_def)
  then show ?thesis using run(1) by (auto simp: eval_nat_numeral)
qed

subsection \<open>The numbers in the database\<close>

text \<open>The tables agree with the numbers of every client in memory, once the queue is empty.\<close>

definition stored :: "session_manager \<Rightarrow> db \<Rightarrow> bool" where
  "stored m d \<longleftrightarrow> table_ok (tbl_sequences d) \<and>
     (\<forall>c st. mSessionStates m c = Some st \<longrightarrow> exec_getSequenceNumbers c d = (inSeqNum st, outSeqNum st))"

definition numbers_stored :: "session_manager \<Rightarrow> db_worker \<Rightarrow> bool" where
  "numbers_stored m w \<longleftrightarrow> (\<exists>d. exec_tasks (mTasks w) (mDatabase w) = Some d \<and> stored m d)"

lemma exec_tasks_append:
  "exec_tasks (xs @ ys) d = Option.bind (exec_tasks xs d) (exec_tasks ys)"
  by (induction xs arbitrary: d) (auto split: option.split bind_split)

lemma get_after_update:
  assumes "table_ok (tbl_sequences d)"
  shows "table_ok (tbl_sequences (exec_updateSequenceNumbers c i j d))"
    and "exec_getSequenceNumbers e (exec_updateSequenceNumbers c i j d) =
       (if e = c then (i, j) else exec_getSequenceNumbers e d)"
proof -
  obtain rows where rows: "tbl_sequences d = Some rows" "keys_sorted (<) rows"
    using assms by (auto simp: table_ok_def split: option.splits)
  have s: "keys_sorted (<) (map_set (<) c (i, j) rows)"
    by (rule linorder_map.sorted_map_upd [OF rows(2)])
  show "table_ok (tbl_sequences (exec_updateSequenceNumbers c i j d))"
    using s by (simp add: exec_updateSequenceNumbers_def upsert_row_def logged_def rows table_ok_def)
  show "exec_getSequenceNumbers e (exec_updateSequenceNumbers c i j d) =
       (if e = c then (i, j) else exec_getSequenceNumbers e d)"
    using s rows(2)
    by (simp add: exec_updateSequenceNumbers_def exec_getSequenceNumbers_def upsert_row_def
        logged_def rows linorder_map.map_find_sorted linorder_map.map_of_map_upd)
qed

text \<open>Saving a state keeps the agreement; a state that differs only in the logon flag needs no saving.\<close>

lemma stored_save:
  assumes "numbers_stored m w" and "mSeqRepo m"
  shows "numbers_stored (set_state c st m) (save_sequences m c st w)"
  using assms get_after_update
  by (fastforce simp: numbers_stored_def stored_def save_sequences_def enqueue_task_def
      exec_tasks_append)

lemma stored_flag:
  assumes "numbers_stored m w" and "mSessionStates m c = Some st"
  shows "numbers_stored (set_state c (st\<lparr>isLoggedOn := b\<rparr>) m) w"
  using assms by (auto simp: numbers_stored_def stored_def)

lemma stored_connection:
  "numbers_stored (m\<lparr>mConnectionToCompId := f\<rparr>) w \<longleftrightarrow> numbers_stored m w"
  by (simp add: numbers_stored_def stored_def)

lemma stored_authenticate:
  assumes "numbers_stored m w" and "mSeqRepo m" and "authenticate sid c m w = Some (b, m', w')"
  shows "numbers_stored m' w' \<and> mSeqRepo m'"
proof (cases "mSessionStates m c")
  case None
  then show ?thesis using assms
    by (auto simp: authenticate_def wait_sequences_def numbers_stored_def stored_def Let_def
        bind_eq_Some_conv split: if_splits prod.splits)
next
  case (Some st)
  let ?m1 = "m\<lparr>mConnectionToCompId := (mConnectionToCompId m)(sid \<mapsto> c)\<rparr>"
  have "numbers_stored (set_state c (st\<lparr>isLoggedOn := True\<rparr>) ?m1) w"
    by (rule stored_flag) (use assms(1) Some in \<open>simp_all add: stored_connection\<close>)
  then show ?thesis using assms Some by (auto simp: authenticate_def split: if_splits)
qed

lemma stored_step:
  assumes ok: "sessions_ok m" and "numbers_stored m w" and "mSeqRepo m"
    and "manager_step x m w = Some (evs, m', w')"
  shows "numbers_stored m' w' \<and> mSeqRepo m'"
proof (cases x)
  case (Authenticate sid c)
  then show ?thesis using assms stored_authenticate [OF assms(2,3)] by auto
next
  case (Validate sid n)
  then show ?thesis using assms
    by (auto simp: validateSequence_def Let_def intro: stored_save split: if_splits option.splits)
next
  case (LogOut sid)
  then show ?thesis using assms stored_flag [OF assms(2)]
    by (auto simp: handleLogout_def split: option.splits)
next
  case (Cleanup sid)
  then show ?thesis using assms by (auto simp: cleanupConnection_def stored_connection)
next
  case (Draw sid)
  then show ?thesis using assms
    by (auto simp: useNextOutboundSequence_def Let_def intro!: stored_save dest: sessions_ok_state
        split: option.splits)
qed

lemma stored_run:
  assumes "sessions_ok m" and "numbers_stored m w" and "mSeqRepo m"
    and "manager_run xs m w = Some (evs, m', w')"
  shows "numbers_stored m' w'"
  using assms
proof (induction xs arbitrary: m w evs)
  case (Cons x xs)
  obtain evs1 m1 w1 evs2 where run: "manager_step x m w = Some (evs1, m1, w1)"
      "manager_run xs m1 w1 = Some (evs2, m', w')"
    using Cons.prems(4) by (auto simp: bind_eq_Some_conv)
  show ?case
    using Cons.IH [OF sessions_ok_step [OF Cons.prems(1) run(1)] _ _ run(2)]
      stored_step [OF Cons.prems(1-3) run(1)] by blast
qed simp

text \<open>
  C29: a restart resumes the sequence numbers. After any run of the session layer on a created
  table, once the database worker has finished its queue, a new session manager that
  authenticates the client continues with exactly the two numbers the old one had.
\<close>

theorem restart_resumes_the_numbers:
  assumes "sessions_ok m" and "numbers_stored m w" and "mSeqRepo m"
    and "manager_run xs m w = Some (evs, m', w')" and st: "mSessionStates m' c = Some st"
    and valid: "c \<in> set clients"
  shows "\<exists>d m2 w2 st2. exec_tasks (mTasks w') (mDatabase w') = Some d \<and>
     authenticate sid c (loadConfig clients (init_manager True)) \<lparr>mTasks = [], mDatabase = d\<rparr>
       = Some (True, m2, w2) \<and>
     getSessionState sid m2 = Some st2 \<and> isLoggedOn st2 \<and>
     inSeqNum st2 = inSeqNum st \<and> outSeqNum st2 = outSeqNum st"
proof -
  obtain d where d: "exec_tasks (mTasks w') (mDatabase w') = Some d" "stored m' d"
    using stored_run [OF assms(1-4)] by (auto simp: numbers_stored_def)
  have "foldl (\<lambda>f client. f(client \<mapsto> True)) f clients c = Some True" if "f c = Some True \<or> c \<in> set clients" for f
    using that by (induction clients arbitrary: f) (auto simp: fun_upd_apply)
  then have v: "mValidClients (loadConfig clients (init_manager True)) c = Some True"
    using valid by (simp add: loadConfig_def)
  have "exec_getSequenceNumbers c d = (inSeqNum st, outSeqNum st)" using d(2) st by (simp add: stored_def)
  then show ?thesis
    using d(1) v
    by (simp add: authenticate_def wait_sequences_def loadConfig_def init_manager_def getSessionState_def)
qed

theorem restart_resumes_the_numbers_demo:
  "\<exists>d m2 w2 st2. exec_tasks [InitSequences] empty_db = Some d \<and>
     authenticate 5 ''alice'' (loadConfig [''alice''] (init_manager True)) \<lparr>mTasks = [], mDatabase = d\<rparr>
       = Some (True, m2, w2) \<and> getSessionState 5 m2 = Some st2 \<and> outSeqNum st2 = 1"
proof -
  let ?w = "\<lparr>mTasks = [InitSequences], mDatabase = empty_db\<rparr>"
  let ?m = "demo_manager\<lparr>mSessionStates := [''alice'' \<mapsto> \<lparr>isLoggedOn = True, inSeqNum = 0, outSeqNum = 1,
      senderCompId = ''alice''\<rparr>]\<rparr>"
  have "sessions_ok ?m" by (auto simp: sessions_ok_def demo_manager_def intro: exI [of _ True])
  moreover have "numbers_stored ?m ?w"
    by (auto simp: numbers_stored_def stored_def empty_db_def create_if_missing_def table_ok_def
        exec_getSequenceNumbers_def seq_defaultValues_def)
  moreover have "mSeqRepo ?m" by (simp add: demo_manager_def)
  moreover have "manager_run [] ?m ?w = Some ([], ?m, ?w)" by simp
  ultimately show ?thesis
    using restart_resumes_the_numbers [of ?m ?w "[]" "[]" ?m ?w "''alice''" _ "[''alice'']" 5] by fastforce
qed

end
