(* ===== verification/FixServerProperties.thy ===== *)
theory FixServerProperties
  imports FixWireProperties CoreProperties
begin

text \<open>
  The theorems about the session layer in front of the core: who reaches the engine, what
  becomes of an order message, and where reports go.
\<close>

subsection \<open>What writing leaves alone\<close>

lemma doWrite_simps [simp]:
  "mTradingCore (doWrite sid msg s) = mTradingCore s"
  "mSessionManager (doWrite sid msg s) = mSessionManager s"
  "mSessions (doWrite sid msg s) = mSessions s"
  "readings (doWrite sid msg s) = readings s"
  by (simp_all add: doWrite_def split: option.split)

lemma close_socket_simps [simp]:
  "mTradingCore (close_socket sid s) = mTradingCore s"
  "mSessionManager (close_socket sid s) = mSessionManager s"
  by (simp_all add: close_socket_def split: option.split)

lemma set_manager_simps [simp]:
  "mSessionManager (set_manager mw s) = fst mw"
  "mTradingCore (set_manager mw s) = (mTradingCore s)\<lparr>mDatabaseWorker := snd mw\<rparr>"
  "mSessions (set_manager mw s) = mSessions s"
  "wire_log (set_manager mw s) = wire_log s"
  "readings (set_manager mw s) = readings s"
  by (simp_all add: set_manager_def)

subsection \<open>Strangers\<close>

text \<open>Nobody is known yet: no valid client, no session state, no connection of a client.\<close>

definition no_clients :: "session_manager \<Rightarrow> bool" where
  "no_clients m \<longleftrightarrow> mValidClients m = Map.empty \<and> mSessionStates m = Map.empty \<and>
     mConnectionToCompId m = Map.empty"

definition same_engine :: "'q fix_server \<Rightarrow> 'q fix_server \<Rightarrow> bool" where
  "same_engine s s' \<longleftrightarrow> mTradingCore s' = mTradingCore s \<and> mSessionManager s' = mSessionManager s"

lemma same_engine_refl [simp]: "same_engine s s"
  by (simp add: same_engine_def)

lemma same_engine_trans: "same_engine s s1 \<Longrightarrow> same_engine s1 s2 \<Longrightarrow> same_engine s s2"
  by (simp add: same_engine_def)

lemma send_numbered_stranger:
  "no_clients (mSessionManager s) \<Longrightarrow> same_engine s (send_numbered E sid k mk s)"
  by (simp add: same_engine_def send_numbered_def useNextOutboundSequence_def no_clients_def)

lemma handle_stranger:
  assumes "no_clients (mSessionManager s)" and "handleFixMessage E sid msg t s = Some s'"
  shows "same_engine s s'"
proof -
  have none: "getSessionState sid (mSessionManager s) = None"
    and auth: "authenticate sid c (mSessionManager s) w = Some (False, mSessionManager s, w)" for c w
    using assms(1) by (simp_all add: no_clients_def getSessionState_def authenticate_def)
  have "same_engine s (handleLogoutMessage E sid c s)" for c
    using assms(1)
    by (simp add: same_engine_def handleLogoutMessage_def useNextOutboundSequence_def handleLogout_def
        cleanupConnection_def no_clients_def)
  then show ?thesis
    using assms(2) none auth
    by (auto simp: handleFixMessage_def handleLogonMessage_def Let_def same_engine_def
        split: sum.splits if_splits)
qed

lemma read_loop_stranger:
  assumes "no_clients (mSessionManager s)" and "read_loop E sid buffer s = Some (Inr (rest, s'))"
  shows "same_engine s s'"
  using assms
proof (induction E sid buffer s rule: read_loop.induct)
  case (1 E sid buffer s)
  have run: "read_loop E sid buffer s = Some (Inr (rest, s'))" by (rule 1(4))
  note next_frame = 1(2,1)
  have reject: "same_engine s (sendReject E sid 0 why s)" for why
    unfolding sendReject_def by (rule send_numbered_stranger [OF 1(3)])
  have keep: "no_clients (mSessionManager s1)" if "same_engine s s1" for s1
    using that 1(3) by (simp add: same_engine_def)
  show ?case
  proof (cases "buffer = []")
    case True
    then show ?thesis using run by (subst (asm) read_loop.simps) simp
  next
    case False
    obtain r where r: "extractNextFrame buffer = Inr r"
      using run False by (subst (asm) read_loop.simps) (auto split: sum.splits)
    show ?thesis
    proof (cases "status r")
      case NeedMoreData
      then show ?thesis using run False r by (subst (asm) read_loop.simps) simp
    next
      case Malformed
      have "read_loop E sid (resync buffer) (sendReject E sid 0 (err r) s) = Some (Inr (rest, s'))"
        using run False r Malformed by (subst (asm) read_loop.simps) simp
      from next_frame(1) [OF False r Malformed keep [OF reject] this]
      show ?thesis using same_engine_trans [OF reject] by blast
    next
      case Complete
      obtain m s1 where m: "splitToMap (frame r) SOH = Inr m"
          "handle_frame E sid (frame r) m s = Some s1"
          "read_loop E sid (drop (consumed r) buffer) s1 = Some (Inr (rest, s'))"
        using run False r Complete
        by (subst (asm) read_loop.simps) (auto split: sum.splits option.splits)
      have "same_engine s s1"
        using m(2) handle_stranger [OF 1(3)] reject
        by (auto simp: handle_frame_def split: option.splits list.splits)
      then show ?thesis
        using next_frame(2) [OF False r Complete m(1,2) keep m(3)] same_engine_trans by blast
    qed
  qed
qed

text \<open>
  C26: nobody reaches the engine without being a known client. As long as the list of clients
  has not been loaded, any number of connections may send any bytes whatsoever: the order
  books, the command queues, the subscriptions, the database queue and the session states
  stay as they are.
\<close>

theorem strangers_never_reach_the_engine:
  assumes "no_clients (mSessionManager s)"
    and "\<forall>x\<in>set xs. x = Accept \<or> (\<exists>sid bytes. x = Receive sid bytes)"
    and "server_run E xs s = Some (Inr s')"
  shows "mTradingCore s' = mTradingCore s \<and> mSessionManager s' = mSessionManager s"
  using assms
proof (induction xs arbitrary: s)
  case (Cons x xs)
  obtain s1 where s1: "step_server E x s = Some (Inr s1)" "server_run E xs s1 = Some (Inr s')"
    using Cons.prems(3) by (cases "step_server E x s") (auto split: sum.splits)
  consider "x = Accept" | sid bytes where "x = Receive sid bytes" using Cons.prems(2) by auto
  then have "same_engine s s1"
  proof cases
    case 1
    then show ?thesis using s1(1) by (auto simp: accept_connection_def registerSession_def same_engine_def)
  next
    case 2
    have "same_engine s s2" if "read_loop E sid b s = Some (Inr (rest, s2))" for b rest s2
      by (rule read_loop_stranger [OF Cons.prems(1) that])
    then show ?thesis using s1(1) 2
      by (fastforce simp: receive_def bind_eq_Some_conv same_engine_def
          split: option.splits if_splits sum.splits elim!: bind_exn.elims)
  qed
  then show ?case using Cons.IH [OF _ _ s1(2)] Cons.prems(1,2) by (simp add: same_engine_def)
qed simp

lemma read_loop_Nil: "read_loop E sid [] s = Some (Inr ([], s))"
  by (subst read_loop.simps) simp

theorem strangers_never_reach_the_engine_demo:
  "\<exists>s'. server_run demo_fix_env [Accept, Receive 1 ''hello''] (init_server True demo_core) = Some (Inr s') \<and>
     mTradingCore s' = mTradingCore (init_server True demo_core)"
proof -
  have bad: "extractNextFrame ''hello'' = Inr (malformed ''FIX frame must start with BeginString (Tag 8)'')"
    and rest: "resync ''hello'' = []" by code_simp+
  have "\<exists>s1. read_loop demo_fix_env 1 ''hello'' s = Some (Inr ([], s1))" for s :: "(nat \<times> command list) fix_server"
    by (subst read_loop.simps) (simp add: bad rest malformed_def read_loop_Nil)
  then obtain s1 where s1: "read_loop demo_fix_env 1 ''hello'' (demo_server demo_core) = Some (Inr ([], s1))" by blast
  obtain s' where run:
      "server_run demo_fix_env [Accept, Receive 1 ''hello''] (init_server True demo_core) = Some (Inr s')"
    using receive_idle [OF demo_idle [of demo_core], of demo_fix_env "''hello''"] s1 by (simp add: demo_server_def)
  have "no_clients (mSessionManager (init_server True demo_core))"
    by (simp add: no_clients_def init_server_def Let_def init_manager_def)
  from strangers_never_reach_the_engine [OF this _ run] run show ?thesis by simp
qed

end
