(* ===== verification/EngineTasks.thy ===== *)
theory EngineTasks
  imports EngineProperties
begin

text \<open>
  The tasks the engine queues for the database worker are ones it can execute: the name
  tables of the code cover the types of all orders that are stored. Market and limit orders
  are the only ones the FIX layer and the database can bring in, and no command changes the
  type of an order.
\<close>

subsection \<open>Executable tasks\<close>

definition printable :: "order \<Rightarrow> bool" where
  "printable ord \<longleftrightarrow> mOrderType ord = Limit \<or> mOrderType ord = Market"

fun safe_task :: "db_task \<Rightarrow> bool" where
  "safe_task (SaveOrder ord) = printable ord"
| "safe_task (InsertClient c a) = False"
| "safe_task RemoveAllClients = False"
| "safe_task _ = True"

lemma enum_names:
  "\<exists>n. order_side_to_string sd = Some n" "\<exists>n. order_status_to_string st = Some n"
  "\<exists>n. time_in_force_to_string tif = Some n"
  by (cases sd; cases st; cases tif; simp add: enum_string_defs)+

lemma exec_safe_task:
  assumes "safe_task t" shows "\<exists>r. exec_task t d = Some r"
proof (cases t)
  case (SaveOrder ord)
  obtain n1 n2 n3 where "order_side_to_string (mOrderSide ord) = Some n1"
      "order_status_to_string (mOrderStatus ord) = Some n2"
      "time_in_force_to_string (mTimeInForce ord) = Some n3"
    using enum_names by metis
  then show ?thesis using assms SaveOrder
    by (auto simp: printable_def exec_saveOrder_def row_of_order_def order_type_to_string_eq)
next
  case (UpdateOrder ord)
  then show ?thesis using enum_names(2) [of "mOrderStatus ord"] by (auto simp: exec_updateOrder_def)
qed (use assms in simp_all)

lemma exec_safe_tasks: "list_all safe_task ts \<Longrightarrow> \<exists>d'. exec_tasks ts d = Some d'"
proof (induction ts arbitrary: d)
  case (Cons t ts)
  then show ?case using exec_safe_task [of t d] by fastforce
qed simp

subsection \<open>What commands queue\<close>

definition printable_heap :: "worker \<Rightarrow> bool" where
  "printable_heap s \<longleftrightarrow> (\<forall>x ord. w_heap s x = Some ord \<longrightarrow> printable ord)"

definition safe_log :: "worker \<Rightarrow> bool" where
  "safe_log s \<longleftrightarrow> list_all safe_task (tasks_of (w_log s))"

lemma safe_matched: "list_all safe_task (new_tasks s (matched_state e post a inc s))"
proof -
  have "list_all safe_task (tasks_of (matched_log e post h inc' ts fs))" for h inc' ts fs
  proof (induction ts fs rule: list_induct2')
    case (4 u ts p fs)
    then show ?case by (cases p) (simp add: matched_log_def tasks_settle_log)
  qed (simp_all add: matched_log_def)
  moreover have "list_all safe_task (tasks_of (concat (map (stored post) ts)))" for ts
    by (induction ts) (simp_all add: stored_def)
  ultimately show ?thesis by (simp add: tasks_matched trade_loop_log_def)
qed

text \<open>A step that queues only executable tasks behind what was queued.\<close>

definition queues_safely :: "worker \<Rightarrow> worker \<Rightarrow> bool" where
  "queues_safely s s' \<longleftrightarrow> (\<exists>ts. tasks_of (w_log s') = tasks_of (w_log s) @ ts \<and> list_all safe_task ts)"

lemma queues_safely_refl: "queues_safely s s"
  by (simp add: queues_safely_def)

lemma queues_safely_trans: "queues_safely s s1 \<Longrightarrow> queues_safely s1 s2 \<Longrightarrow> queues_safely s s2"
  unfolding queues_safely_def by fastforce

lemma queues_safely_new_tasks:
  "tasks_of (w_log s') = tasks_of (w_log s) @ ts \<Longrightarrow> list_all safe_task (new_tasks s s') \<Longrightarrow> queues_safely s s'"
  unfolding queues_safely_def by (auto dest: new_tasks_eq)

lemma new_order_safe:
  assumes "printable ord" shows "queues_safely s (new_order_state e ord s)"
proof -
  have "\<exists>ts. tasks_of (w_log (new_order_state e ord s)) = tasks_of (w_log s) @ ts"
    by (simp add: new_order_state_def Let_def w_log_matched del: matched_state_simps)
  moreover have "list_all safe_task (new_tasks s (new_order_state e ord s))"
    using assms safe_matched by (simp add: new_tasks_new_order)
  ultimately show ?thesis using queues_safely_new_tasks by blast
qed

lemma modified_safe:
  assumes "printable ord" shows "queues_safely s (modified_state e i a ord p q s)"
proof -
  have "\<exists>ts. tasks_of (w_log (modified_state e i a ord p q s)) = tasks_of (w_log s) @ ts"
    unfolding modified_state_def Let_def
    by (simp add: w_log_matched w_log_replaced del: matched_state_simps replaced_state_simps)
  moreover have "list_all safe_task (new_tasks s (modified_state e i a ord p q s))"
    using assms safe_matched by (simp add: new_tasks_modified printable_def)
  ultimately show ?thesis using queues_safely_new_tasks by blast
qed

lemma reject_safe: "queues_safely s (reject e i c sy sd r s)" "w_heap (reject e i c sy sd r s) = w_heap s"
  by (simp_all add: queues_safely_def reject_def)

lemma printable_new_order:
  "printable_heap s \<Longrightarrow> printable ord \<Longrightarrow> printable_heap (new_order_state e ord s)"
  unfolding printable_heap_def using new_order_fixed [of e ord s]
  by (fastforce simp: printable_def split: if_splits)

lemma printable_modified:
  "printable_heap s \<Longrightarrow> w_heap s a = Some ord \<Longrightarrow> printable_heap (modified_state e i a ord p q s)"
  unfolding printable_heap_def using modified_fixed [of e i a ord p q s]
  by (fastforce simp: printable_def split: if_splits)

lemma cancel_safe:
  assumes inv: "worker_inv s" and pr: "printable_heap s" and run: "processCancelOrder e c i s = Some s'"
  shows "printable_heap s' \<and> queues_safely s s'"
proof (cases "w_own s i")
  case None
  then show ?thesis using run pr reject_safe by (auto simp: processCancelOrder_unknown printable_heap_def)
next
  case (Some a)
  obtain ord where ord: "w_heap s a = Some ord" by (rule worker_inv_live [OF inv Some])
  show ?thesis
  proof (cases "a \<in> book_addrs (w_book s)")
    case True
    have "w_heap (cancelled_state e i a ord s) x = Some ord' \<Longrightarrow> w_heap s x = Some ord'" for x ord'
      unfolding cancelled_state_def by (drule heap_removed) simp
    moreover have "queues_safely s (cancelled_state e i a ord s)"
      by (simp add: queues_safely_def cancelled_state_def)
    ultimately show ?thesis
      using True run processCancelOrder_found [OF inv Some ord] pr unfolding printable_heap_def
      by (metis option.inject)
  next
    case False
    then show ?thesis
      using run processCancelOrder_not_in_book [OF inv Some ord] pr reject_safe
      by (auto simp: printable_heap_def)
  qed
qed

lemma command_safe:
  assumes inv: "worker_inv s" and pr: "printable_heap s" and run: "process_command e c s = Some s'"
    and fresh: "set (new_ids [c]) \<inter> dom (w_own s) = {}"
    and new: "\<forall>client ts ord. c = NewOrder client ts ord \<longrightarrow> printable ord"
  shows "printable_heap s' \<and> queues_safely s s'"
proof (cases c)
  case (NewOrder client ts ord)
  then have own: "w_own s (mCoreOrderId ord) = None" and p: "printable ord"
    and r: "processNewOrder e ord s = Some s'" using fresh new run by auto
  from inv own r show ?thesis
  proof (cases rule: new_order_cases)
    case rejected
    then show ?thesis using pr reject_safe by (simp add: printable_heap_def)
  next
    case accepted
    then show ?thesis using printable_new_order [OF pr p] new_order_safe [OF p] by simp
  qed
next
  case (CancelOrder client ts i)
  then show ?thesis using cancel_safe [OF inv pr] run by simp
next
  case (ModifyOrder client ts i p q)
  show ?thesis
  proof (cases "w_own s i")
    case None
    then show ?thesis using run pr reject_safe ModifyOrder
      by (auto simp: processModifyOrder_unknown printable_heap_def)
  next
    case (Some a)
    obtain ord where ord: "w_heap s a = Some ord" by (rule worker_inv_live [OF inv Some])
    then have "printable ord" using pr by (simp add: printable_heap_def)
    then show ?thesis
      using run ModifyOrder processModifyOrder_eq [OF inv Some ord] printable_modified [OF pr ord] modified_safe
      by auto
  qed
qed

definition new_orders_printable :: "command list \<Rightarrow> bool" where
  "new_orders_printable cs \<longleftrightarrow> (\<forall>client ts ord. NewOrder client ts ord \<in> set cs \<longrightarrow> printable ord)"

lemma batch_safe:
  assumes "worker_inv s" and "printable_heap s" and "processBatch e cs s = Some s'"
    and "distinct (new_ids cs)" and "set (new_ids cs) \<inter> dom (w_own s) = {}"
    and "new_orders_printable cs"
  shows "printable_heap s' \<and> queues_safely s s'"
  using assms
proof (induction cs arbitrary: s)
  case (Cons c cs)
  have ids: "new_ids (c # cs) = new_ids [c] @ new_ids cs" using new_ids_append [of "[c]" cs] by simp
  then have fresh: "set (new_ids [c]) \<inter> dom (w_own s) = {}" using Cons.prems(5) by auto
  obtain s1 where s1: "process_command e c s = Some s1" "processBatch e cs s1 = Some s'"
    using Cons.prems(3) by (auto simp: bind_eq_Some_conv)
  have ok: "worker_inv s1" "dom (w_own s1) \<subseteq> set (new_ids [c]) \<union> dom (w_own s)"
    using process_command_ok [OF Cons.prems(1) fresh, of e] s1(1) by auto
  have step: "printable_heap s1 \<and> queues_safely s s1"
    using command_safe [OF Cons.prems(1,2) s1(1) fresh] Cons.prems(6) by (auto simp: new_orders_printable_def)
  have disj: "set (new_ids cs) \<inter> dom (w_own s1) = {}"
    using ok(2) Cons.prems(4,5) unfolding ids by auto
  have "printable_heap s' \<and> queues_safely s1 s'"
    by (rule Cons.IH [OF ok(1) _ s1(2) _ disj])
      (use step Cons.prems(4,6) ids in \<open>auto simp: new_orders_printable_def\<close>)
  then show ?case using step queues_safely_trans by blast
qed (simp add: queues_safely_refl)

end
