(* ===== verification/FixServerSafety.thy ===== *)
theory FixServerSafety
  imports FixServerProperties EngineTasks
begin

text \<open>
  The exchange as a whole: session layer, core and database worker together never reach
  undefined behaviour, whatever the peers send and however the threads interleave; the only
  way the process ends is an exception that leaves the read callback.
\<close>

subsection \<open>The core with its database queue\<close>

definition core_safe :: "('q \<Rightarrow> command list) \<Rightarrow> 'q core \<Rightarrow> bool" where
  "core_safe view c \<longleftrightarrow> core_ok view c \<and>
     (\<forall>i p. mPartitions c i = Some p \<longrightarrow>
        printable_heap (p_worker p) \<and> new_orders_printable (view (mCommandQueue p))) \<and>
     list_all safe_task (mTasks (mDatabaseWorker c))"

lemma core_safe_same:
  assumes "core_safe view c" and "mPartitions c' = mPartitions c"
    and "mOrderIDGenerator c' = mOrderIDGenerator c" and "list_all safe_task (mTasks (mDatabaseWorker c'))"
  shows "core_safe view c'"
  using assms core_ok_same [of view c c'] by (simp add: core_safe_def)

lemma deliver_tasks:
  "mTasks (mDatabaseWorker (fold deliver vs c)) = mTasks (mDatabaseWorker c) @ tasks_of vs"
proof (induction vs arbitrary: c)
  case (Cons v vs)
  then show ?case by (cases v) (simp_all add: enqueue_task_def)
qed simp

lemma enqueue_at_safe:
  assumes laws: "spsc_laws Q view cap" and safe: "core_safe view c"
    and run: "enqueue_at Q i cmd (c\<lparr>mOrderIDGenerator := g\<rparr>) = Some c'" and ok: "core_ok view c'"
    and new: "new_orders_printable [cmd]"
  shows "core_safe view c'"
proof -
  obtain p where p: "mPartitions c i = Some p"
      "c' = set_partition i (enqueue Q cmd p) (c\<lparr>mOrderIDGenerator := g\<rparr>)"
    using run by (auto simp: enqueue_at_def bind_eq_Some_conv)
  have "new_orders_printable (view (mCommandQueue (enqueue Q cmd p)))"
    using safe p(1) new enqueue_view(1) [OF laws, of cmd p]
    by (auto simp: core_safe_def new_orders_printable_def)
  then show ?thesis
    using safe p ok enqueue_view(3) [OF laws, of cmd p] unfolding core_safe_def
    by (auto simp: set_partition_def)
qed

lemma submit_safe:
  assumes laws: "spsc_laws Q view cap" and safe: "core_safe view c"
    and run: "submitCommand Q cmd c = Some c'" and ok: "core_ok view c'" and no: "new_ids [cmd] = []"
  shows "core_safe view c'"
proof -
  have enq: "core_safe view c'" if "enqueue_at Q i cmd c = Some c'" for i
    by (rule enqueue_at_safe [OF laws safe, of i cmd "mOrderIDGenerator c"])
      (use that no ok in \<open>auto simp: new_orders_printable_def\<close>)
  show ?thesis
    using run no safe enq by (cases cmd) (auto split: option.splits)
qed

lemma turn_safe:
  assumes laws: "spsc_laws Q view cap" and safe: "core_safe view c"
    and run: "with_partition i (processNextCommand Q e) c = Some c'" and ok: "core_ok view c'"
  shows "core_safe view c'"
proof -
  obtain p p1 where p: "mPartitions c i = Some p"
      "processNextCommand Q e (p\<lparr>p_worker := (p_worker p)\<lparr>w_tid := mTradeIDGenerator c, w_log := []\<rparr>\<rparr>) = Some p1"
      "c' = fold deliver (w_log (p_worker p1))
        (set_partition i (p1\<lparr>p_worker := (p_worker p1)\<lparr>w_log := []\<rparr>\<rparr>)
          (c\<lparr>mTradeIDGenerator := w_tid (p_worker p1)\<rparr>))"
    using run by (auto simp: with_partition_def Let_def bind_eq_Some_conv)
  let ?w0 = "(p_worker p)\<lparr>w_tid := mTradeIDGenerator c, w_log := []\<rparr>" and ?cs = "view (mCommandQueue p)"
  have old: "printable_heap (p_worker p)" "new_orders_printable ?cs"
    and tasks: "list_all safe_task (mTasks (mDatabaseWorker c))" and ok0: "core_ok view c"
    using safe p(1) by (auto simp: core_safe_def)
  have pok: "partition_ok view (mOrderIDGenerator c) i p"
    by (rule core_okD [OF ok0, of i]) (use p(1) in simp)
  have batch: "processBatch e (take BATCH_SIZE ?cs) ?w0 = Some (p_worker p1)"
    and rest: "view (mCommandQueue p1) = drop BATCH_SIZE ?cs"
    using processNextCommand_view [OF laws p(2)] by simp_all
  have ids: "new_ids ?cs = new_ids (take BATCH_SIZE ?cs) @ new_ids (drop BATCH_SIZE ?cs)"
    by (metis append_take_drop_id new_ids_append)
  have "printable_heap (p_worker p1) \<and> queues_safely ?w0 (p_worker p1)"
  proof (rule batch_safe [OF _ _ batch])
    show "worker_inv ?w0"
      using pok worker_inv_cong [of ?w0 "p_worker p"] by (simp add: partition_ok_def)
    show "printable_heap ?w0" using old(1) by (simp add: printable_heap_def)
    show "distinct (new_ids (take BATCH_SIZE ?cs))"
      "set (new_ids (take BATCH_SIZE ?cs)) \<inter> dom (w_own ?w0) = {}"
      using pok ids by (auto simp: partition_ok_def)
    show "new_orders_printable (take BATCH_SIZE ?cs)"
      using old(2) by (auto simp: new_orders_printable_def dest: in_set_takeD)
  qed
  then have new: "printable_heap (p_worker p1)" "list_all safe_task (tasks_of (w_log (p_worker p1)))"
    by (auto simp: queues_safely_def)
  have "new_orders_printable (view (mCommandQueue p1))"
    using old(2) unfolding rest by (auto simp: new_orders_printable_def dest: in_set_dropD)
  then show ?thesis
    using safe ok new tasks unfolding core_safe_def p(3)
    by (auto simp: deliver_tasks set_partition_def printable_heap_def)
qed

lemma core_step_safe:
  assumes laws: "spsc_laws Q view cap" and safe: "core_safe view c"
    and ids: "unat (mOrderIDGenerator c) + 1 < 2 ^ 64" and x: "x \<noteq> DbTurn"
    and new: "\<forall>client ts ord. x = Place client ts ord \<longrightarrow> printable ord"
  shows "\<exists>c'. step_core Q e x c = Some c' \<and> core_safe view c' \<and>
     unat (mOrderIDGenerator c') \<le> unat (mOrderIDGenerator c) + 1"
proof -
  have ok: "core_ok view c" using safe by (simp add: core_safe_def)
  obtain c' where c': "step_core Q e x c = Some c'" "core_ok view c'"
      "unat (mOrderIDGenerator c') \<le> unat (mOrderIDGenerator c) + 1"
    using step_ok [OF laws ok ids x] by blast
  have "core_safe view c'"
  proof (cases x)
    case (Place client ts ord)
    then show ?thesis
      using c'(1,2) new
      by (auto simp: nextId_def Let_def new_orders_printable_def printable_def
          intro!: enqueue_at_safe [OF laws safe])
  next
    case (Request cmd)
    then show ?thesis
      using c'(1,2) safe submit_safe [OF laws safe, of cmd c'] by (cases cmd) (auto split: if_splits)
  next
    case (Turn i)
    then show ?thesis using c'(1,2) turn_safe [OF laws safe] by simp
  next
    case (Subscribe i k)
    then have same: "mPartitions c' = mPartitions c" "mOrderIDGenerator c' = mOrderIDGenerator c"
        "mDatabaseWorker c' = mDatabaseWorker c"
      using c'(1) by (auto simp: subscribeToMarketData_def Let_def bind_eq_Some_conv split: option.splits)
    show ?thesis by (rule core_safe_same [OF safe same(1,2)]) (use safe same(3) in \<open>simp add: core_safe_def\<close>)
  next
    case (Unsubscribe i k)
    then have c: "c' = unsubscribeFromMarketData i k c" using c'(1) by simp
    show ?thesis
      by (rule core_safe_same [OF safe])
        (use safe in \<open>simp_all add: c unsubscribeFromMarketData_def core_safe_def\<close>)
  next
    case (Disconnect k)
    then have c: "c' = unsubscribeSession k c" using c'(1) by simp
    show ?thesis
      by (rule core_safe_same [OF safe])
        (use safe in \<open>simp_all add: c unsubscribeSession_def core_safe_def\<close>)
  qed (use x in simp)
  then show ?thesis using c' by blast
qed

subsection \<open>The server\<close>

definition server_safe :: "('q \<Rightarrow> command list) \<Rightarrow> 'q fix_server \<Rightarrow> bool" where
  "server_safe view s \<longleftrightarrow> core_safe view (mTradingCore s)"

abbreviation ids_used :: "'q fix_server \<Rightarrow> nat" where
  "ids_used s \<equiv> unat (mOrderIDGenerator (mTradingCore s))"

text \<open>What is buffered of a session, which only the read callback changes.\<close>

definition buffers :: "'q fix_server \<Rightarrow> u32 \<Rightarrow> string option" where
  "buffers s sid = map_option mReadBuffer (mSessions s sid)"

text \<open>Safe, no further id used, nothing read.\<close>

definition keeps :: "('q \<Rightarrow> command list) \<Rightarrow> 'q fix_server \<Rightarrow> 'q fix_server \<Rightarrow> bool" where
  "keeps view s s' \<longleftrightarrow> (server_safe view s \<longrightarrow> server_safe view s') \<and>
     ids_used s' = ids_used s \<and> buffers s' = buffers s"

lemma keeps_refl [simp]: "keeps view s s"
  by (simp add: keeps_def)

lemma keeps_trans: "keeps view s s1 \<Longrightarrow> keeps view s1 s2 \<Longrightarrow> keeps view s s2"
  by (simp add: keeps_def)

lemma keepsI:
  assumes "mTradingCore s' = mTradingCore s" and "buffers s' = buffers s"
  shows "keeps view s s'"
  using assms by (simp add: keeps_def server_safe_def)

lemma buffers_simps [simp]:
  "buffers (doWrite sid msg s) = buffers s" "buffers (close_socket sid s) = buffers s"
  "buffers (set_manager mw s) = buffers s" "buffers (s\<lparr>readings := r\<rparr>) = buffers s"
  "buffers (s\<lparr>mTradingCore := c\<rparr>) = buffers s" "buffers (s\<lparr>mSessionManager := m\<rparr>) = buffers s"
  by (auto simp: buffers_def fun_eq_iff close_socket_def split: option.split)

lemma set_request_id_simps [simp]:
  "mTradingCore (set_request_id sid symbol v s) = mTradingCore s"
  "mSessionManager (set_request_id sid symbol v s) = mSessionManager s"
  by (simp_all add: set_request_id_def)

lemma buffers_request [simp]: "buffers (set_request_id sid symbol v s) = buffers s"
  by (auto simp: buffers_def fun_eq_iff set_request_id_def option.map_comp comp_def)

lemma keeps_write [simp]: "keeps view s (doWrite sid msg s)" "keeps view s (close_socket sid s)"
  "keeps view s (set_request_id i symbol v s)" "keeps view s (s\<lparr>readings := r\<rparr>)"
  by (rule keepsI; simp)+

text \<open>The session manager with a worker that got at most one safe task more.\<close>

lemma keeps_manager:
  assumes "list_all safe_task (mTasks (mDatabaseWorker (mTradingCore s))) \<Longrightarrow> list_all safe_task (mTasks w)"
  shows "keeps view s (set_manager (m, w) s)"
proof -
  have "core_safe view (mTradingCore s) \<Longrightarrow> core_safe view ((mTradingCore s)\<lparr>mDatabaseWorker := w\<rparr>)"
    by (rule core_safe_same) (use assms in \<open>simp_all add: core_safe_def\<close>)
  then show ?thesis by (simp add: keeps_def server_safe_def)
qed

lemma safe_save: "list_all safe_task (mTasks w) \<Longrightarrow> list_all safe_task (mTasks (save_sequences m c st w))"
  by (simp add: save_sequences_def enqueue_task_def)

lemma safe_next:
  "list_all safe_task (mTasks w) \<Longrightarrow>
     list_all safe_task (mTasks (snd (snd (useNextOutboundSequence sid m w))))"
  by (simp add: useNextOutboundSequence_def Let_def safe_save split: option.split)

lemma safe_validate:
  "list_all safe_task (mTasks w) \<Longrightarrow>
     list_all safe_task (mTasks (snd (snd (validateSequence sid n m w))))"
  by (simp add: validateSequence_def Let_def safe_save split: option.split)

lemma keeps_next:
  assumes "useNextOutboundSequence sid (mSessionManager s) (mDatabaseWorker (mTradingCore s)) = (n, mw)"
  shows "keeps view s (set_manager mw s)"
  using assms keeps_manager [of s "snd mw" view "fst mw"]
    safe_next [of "mDatabaseWorker (mTradingCore s)" sid]
  by (metis fst_conv snd_conv prod.collapse)

lemma keeps_validate:
  assumes "validateSequence sid n (mSessionManager s) (mDatabaseWorker (mTradingCore s)) = (b, mw)"
  shows "keeps view s (set_manager mw s)"
  using assms keeps_manager [of s "snd mw" view "fst mw"]
    safe_validate [of "mDatabaseWorker (mTradingCore s)" sid n]
  by (metis fst_conv snd_conv prod.collapse)

lemma keeps_send: "keeps view s (send_numbered E sid k mk s)"
proof -
  obtain n mw where n: "useNextOutboundSequence sid (mSessionManager s) (mDatabaseWorker (mTradingCore s)) = (n, mw)"
    by (rule prod.exhaust)
  have "keeps view s (set_manager mw (s\<lparr>readings := r\<rparr>))" for r
    using keeps_next [OF n, of view] by (simp add: keeps_def server_safe_def)
  then show ?thesis
    using keeps_trans keeps_write(1) by (fastforce simp: send_numbered_def n)
qed

lemma keeps_sends [simp]:
  "keeps view s (sendExecutionReport E sid r s)"
  "keeps view s (sendMarketDataSnapshotFullRefresh E sid m s)"
  "keeps view s (sendMarketDataIncrementalRefresh E sid i s)"
  "keeps view s (sendReject E sid n txt1 s)"
  "keeps view s (sendBusinessMessageReject E sid n t k txt1 s)"
  by (simp_all add: sendExecutionReport_def sendMarketDataSnapshotFullRefresh_def
      sendMarketDataIncrementalRefresh_def sendReject_def sendBusinessMessageReject_def Let_def keeps_send)

lemma keeps_dispatch: "keeps view s (dispatch E v s)"
  by (cases v) (simp_all add: onExecutionReport_def onMarketDataSnapshotFullRefresh_def
      onMarketDataIncrementalRefresh_def Let_def split: option.split)

lemma keeps_flush: "keeps view s (flush E s)"
proof -
  have "keeps view s1 (fold (dispatch E) vs s1)" for vs s1
    by (induction vs arbitrary: s1) (auto intro: keeps_trans keeps_dispatch)
  moreover have "core_safe view (c\<lparr>outs := []\<rparr>)" if "core_safe view c" for c
    by (rule core_safe_same [OF that]) (use that in \<open>simp_all add: core_safe_def\<close>)
  then have "keeps view s (s\<lparr>mTradingCore := (mTradingCore s)\<lparr>outs := []\<rparr>\<rparr>)"
    by (simp add: keeps_def server_safe_def)
  ultimately show ?thesis unfolding flush_def using keeps_trans by blast
qed

subsection \<open>The handlers\<close>

text \<open>A handler that ends, safely, using at most \<open>k\<close> ids.\<close>

definition fine :: "('q \<Rightarrow> command list) \<Rightarrow> nat \<Rightarrow> 'q fix_server \<Rightarrow> 'q fix_server option \<Rightarrow> bool" where
  "fine view k s r \<longleftrightarrow> (\<exists>s'. r = Some s' \<and> server_safe view s' \<and> ids_used s' \<le> ids_used s + k \<and>
     buffers s' = buffers s)"

lemma fine_keeps: "server_safe view s \<Longrightarrow> keeps view s s' \<Longrightarrow> fine view k s (Some s')"
  by (simp add: fine_def keeps_def)

lemma fine_after:
  assumes "keeps view s s1" and "fine view k s1 r" shows "fine view k s r"
  using assms by (auto simp: fine_def keeps_def)

lemma on_core_fine:
  assumes "server_safe view s" and "f (mTradingCore s) = Some c"
    and "core_safe view c" and "unat (mOrderIDGenerator c) \<le> ids_used s + k"
  shows "fine view k s (on_core E f s)"
proof -
  let ?s1 = "s\<lparr>mTradingCore := c\<rparr>"
  have "server_safe view ?s1" using assms by (simp add: server_safe_def)
  moreover have "buffers ?s1 = buffers s" by (simp add: buffers_def fun_eq_iff)
  ultimately show ?thesis
    using keeps_flush [of view ?s1 E] assms(2,4) by (auto simp: fine_def keeps_def on_core_def)
qed

text \<open>What the environment is assumed to be: any queue with its contract, any hash order.\<close>

definition env_ok :: "('q \<Rightarrow> command list) \<Rightarrow> ('q \<Rightarrow> nat) \<Rightarrow> 'q fix_env \<Rightarrow> bool" where
  "env_ok view cap E \<longleftrightarrow> spsc_laws (queue_ops E) view cap \<and> iterates (iteration E)"

lemma core_step_fine:
  assumes "env_ok view cap E" and "server_safe view s" and "ids_used s + 1 < 2 ^ 64" and "x \<noteq> DbTurn"
    and "\<forall>client ts ord. x = Place client ts ord \<longrightarrow> printable ord"
  shows "fine view 1 s (core_step_of E x s)"
proof -
  have laws: "spsc_laws (queue_ops E) view cap" and safe: "core_safe view (mTradingCore s)"
    using assms(1,2) by (simp_all add: env_ok_def server_safe_def)
  show ?thesis
    using core_step_safe [OF laws safe assms(3,4,5), of "core_env E"] on_core_fine [OF assms(2)]
    unfolding core_step_of_def by blast
qed

lemma order_by_client_total:
  assumes "iterates iter" and ok: "core_ok view c"
  shows "\<exists>r. order_by_client iter cl is c = Some r"
proof (induction "is")
  case (Cons i "is")
  obtain p where p: "mPartitions c i = Some p" "partition_ok view (mOrderIDGenerator c) i p"
    by (rule core_okD [OF ok])
  let ?m = "w_mgr (p_worker p)"
  have inv: "worker_inv (p_worker p)" using p(2) by (simp add: partition_ok_def)
  then have m: "manager_inv ?m" by (simp add: worker_inv_def)
  then have "set (iter ?m) \<subseteq> dom (mOrderMap ?m)"
    using assms(1) unfolding iterates_def manager_inv_def by blast
  from find_client_spec [OF m this, of cl] obtain r where
    r: "find_client cl (iter ?m) ?m = Some r"
      "\<forall>a. r = Some a \<longrightarrow> (\<exists>ord. heap ?m a = Some ord)"
    by (fastforce split: option.splits)
  then show ?case using Cons p(1) by (cases r) (auto simp: getOrderByClientOrderId_def)
qed simp

lemma id_by_client_total:
  assumes "env_ok view cap E" and "server_safe view s"
  shows "\<exists>i. id_by_client E cl s = Some i"
  using order_by_client_total [of "iteration E" view "mTradingCore s" cl instruments] assms
  by (auto simp: id_by_client_def getOrderByClientOrderId_core_def env_ok_def server_safe_def core_safe_def)

lemma new_order_fine:
  assumes "env_ok view cap E" and "server_safe view s" and "ids_used s + 1 < 2 ^ 64"
  shows "fine view 1 s (handleNewOrderSingle E sid n msg s)"
proof (cases "BinaryToOrderRequest msg")
  case None
  then show ?thesis using fine_keeps [OF assms(2) keeps_sends(5)] by (simp add: handleNewOrderSingle_def)
next
  case (Some r)
  let ?s1 = "s\<lparr>readings := readings s + 1\<rparr>"
  have "server_safe view ?s1" "ids_used ?s1 = ids_used s" using assms(2) by (simp_all add: server_safe_def)
  then have placed: "fine view 1 ?s1 (core_step_of E (Place client ts (mk_order cl i sy client sc sd Limit DAY q p ts)) ?s1)"
    for client ts cl i sy sc sd q p
    using core_step_fine [OF assms(1), of ?s1] assms(3) by (simp add: printable_def mk_order_def)
  show ?thesis
    unfolding handleNewOrderSingle_def Some option.case Let_def
    by (rule fine_after [OF keeps_write(4) placed])
qed

lemma requests_fine:
  assumes "env_ok view cap E" and "server_safe view s" and "ids_used s + 1 < 2 ^ 64"
  shows "fine view 1 s (handleCancelOrderRequest E sid msg s)"
    and "fine view 1 s (handleModifyOrderRequest E sid msg s)"
proof -
  have same: "fine view 1 s (Some s)" by (rule fine_keeps [OF assms(2) keeps_refl])
  have req: "fine view 1 s (core_step_of E (Request cmd) s)" for cmd
    by (rule core_step_fine [OF assms]) simp_all
  obtain f where f: "id_by_client E cl s = Some (f cl)" for cl
    using id_by_client_total [OF assms(1,2)] by metis
  show "fine view 1 s (handleCancelOrderRequest E sid msg s)"
    using same req f by (simp add: handleCancelOrderRequest_def split: option.split)
  show "fine view 1 s (handleModifyOrderRequest E sid msg s)"
    using same req f by (simp add: handleModifyOrderRequest_def split: option.split)
qed

lemma market_data_fine:
  assumes "env_ok view cap E" and "server_safe view s" and "ids_used s + 1 < 2 ^ 64"
  shows "fine view 1 s (handleMarketDataRequest E sid msg s)"
proof -
  have same: "fine view 1 s (Some s)" by (rule fine_keeps [OF assms(2) keeps_refl])
  have sub: "fine view 1 s (core_step_of E x (set_request_id sid symbol v s))"
    if "x = Subscribe symbol k \<or> x = Unsubscribe symbol k" for x symbol k v
  proof (rule fine_after [OF keeps_write(3)])
    show "fine view 1 (set_request_id sid symbol v s) (core_step_of E x (set_request_id sid symbol v s))"
      by (rule core_step_fine [OF assms(1)]) (use assms that in \<open>auto simp: server_safe_def\<close>)
  qed
  show ?thesis
    using same sub by (simp add: handleMarketDataRequest_def Let_def split: option.split list.split)
qed

lemma authenticate_safe:
  assumes "list_all safe_task (mTasks w)"
  shows "\<exists>b m' w'. authenticate sid c m w = Some (b, m', w') \<and> list_all safe_task (mTasks w')"
proof -
  obtain d where d: "exec_tasks (mTasks w) (mDatabase w) = Some d" using exec_safe_tasks [OF assms] by blast
  show ?thesis
  proof (cases "mValidClients m c = None \<or> mSessionStates m c \<noteq> None \<or> \<not> mSeqRepo m")
    case True
    then show ?thesis using assms by (auto simp: authenticate_def Let_def split: option.split)
  next
    case False
    obtain i out where "exec_getSequenceNumbers c d = (i, out)" by (rule prod.exhaust)
    then show ?thesis using False d by (auto simp: authenticate_def Let_def wait_sequences_def)
  qed
qed

lemma logon_fine:
  assumes "server_safe view s" shows "fine view 1 s (handleLogonMessage E sid n sender s)"
proof -
  let ?m = "mSessionManager s" and ?w = "mDatabaseWorker (mTradingCore s)"
  have tasks: "list_all safe_task (mTasks ?w)" using assms by (simp add: server_safe_def core_safe_def)
  obtain b m w where auth: "authenticate sid sender ?m ?w = Some (b, m, w)" "list_all safe_task (mTasks w)"
    using authenticate_safe [OF tasks] by blast
  let ?s1 = "set_manager (m, w) s"
  have k1: "keeps view s ?s1"
    by (rule keeps_manager) (rule auth(2))
  obtain b2 mw where v: "validateSequence sid n (mSessionManager ?s1) (mDatabaseWorker (mTradingCore ?s1)) = (b2, mw)"
    by (rule prod.exhaust)
  have k2: "keeps view s (set_manager mw ?s1)" by (rule keeps_trans [OF k1 keeps_validate [OF v]])
  have refuse: "keeps view s (close_socket sid (doWrite sid msg (?s1\<lparr>readings := r\<rparr>)))" for msg r
    using keeps_trans [OF k1] keeps_trans [OF keeps_write(4)] keeps_trans [OF keeps_write(1)] keeps_write(2)
    by blast
  show ?thesis
    unfolding handleLogonMessage_def auth(1) Option.bind.bind_lunit prod.case Let_def v
    using fine_keeps [OF assms refuse] fine_keeps [OF assms keeps_trans [OF k2 keeps_send]] by simp
qed

lemma logout_fine:
  assumes "server_safe view s" shows "fine view 1 s (Some (handleLogoutMessage E sid sender s))"
proof -
  obtain n m w where u: "useNextOutboundSequence sid (mSessionManager s) (mDatabaseWorker (mTradingCore s)) = (n, m, w)"
    by (metis prod.exhaust)
  have "keeps view s (set_manager (handleLogout sid m, w) s)"
    by (rule keeps_manager)
      (use safe_next [of "mDatabaseWorker (mTradingCore s)" sid "mSessionManager s"] u
        in simp)
  moreover have "keeps view s1 (doWrite sid msg (s1\<lparr>readings := r\<rparr>))" for s1 msg r
    by (rule keeps_trans [OF keeps_write(4) keeps_write(1)])
  moreover have "keeps view s1 (close_socket sid
      (s1\<lparr>mSessionManager := cleanupConnection sid (mSessionManager s1)\<rparr>))" for s1
    by (rule keeps_trans [OF _ keeps_write(2)])
      (simp add: keeps_def server_safe_def)
  ultimately have "keeps view s (handleLogoutMessage E sid sender s)"
    unfolding handleLogoutMessage_def u prod.case Let_def by (meson keeps_trans)
  then show ?thesis by (rule fine_keeps [OF assms])
qed

lemma message_fine:
  assumes env: "env_ok view cap E" and safe: "server_safe view s" and ids: "ids_used s + 1 < 2 ^ 64"
  shows "fine view 1 s (handleFixMessage E sid msg t s)"
proof -
  have app: "fine view 1 s (handle_application E sid n sender msg t (set_manager mw s))"
    if "validateSequence sid n (mSessionManager s) (mDatabaseWorker (mTradingCore s)) = (b, mw)" for n sender b mw
  proof (rule fine_after [OF keeps_validate [OF that]])
    let ?s1 = "set_manager mw s"
    have s1: "server_safe view ?s1" "ids_used ?s1 + 1 < 2 ^ 64"
      using keeps_validate [OF that, of view] safe ids by (simp_all add: keeps_def)
    have "keeps view ?s1 (handleTestRequest E sid sender msg ?s1)"
      by (simp add: handleTestRequest_def Let_def keeps_send)
    then show "fine view 1 ?s1 (handle_application E sid n sender msg t ?s1)"
      unfolding handle_application_def
      using new_order_fine [OF env s1] requests_fine [OF env s1] market_data_fine [OF env s1]
        fine_keeps [OF s1(1)] by (simp del: set_manager_simps)
  qed
  have quiet: "fine view 1 s (Some s)" "fine view 1 s (Some (close_socket sid s))"
    by (rule fine_keeps [OF safe], simp)+
  show ?thesis
    unfolding handleFixMessage_def Let_def
    using quiet logon_fine [OF safe] logout_fine [OF safe] app
    by (auto split: sum.split option.split prod.split)
qed

lemma frame_fine:
  assumes "env_ok view cap E" and "server_safe view s" and "ids_used s + 1 < 2 ^ 64"
  shows "fine view 1 s (handle_frame E sid msg m s)"
  unfolding handle_frame_def
  using message_fine [OF assms] fine_keeps [OF assms(2) keeps_sends(4)]
  by (auto split: option.split list.split)

subsection \<open>Reading\<close>

lemma read_loop_fine:
  assumes "env_ok view cap E" and "server_safe view s" and "ids_used s + length buffer + 1 < 2 ^ 64"
  shows "\<exists>r. read_loop E sid buffer s = Some r \<and>
     (\<forall>rest s'. r = Inr (rest, s') \<longrightarrow> server_safe view s' \<and> buffers s' = buffers s \<and>
        ids_used s' + length rest \<le> ids_used s + length buffer)"
  using assms
proof (induction E sid buffer s rule: read_loop.induct)
  case (1 E sid buffer s)
  note IH = 1(2,1) and env = 1(3) and safe = 1(4) and ids = 1(5)
  show ?case
  proof (cases "buffer = [] \<or> (\<exists>e. extractNextFrame buffer = Inl e)")
    case True
    then show ?thesis using safe by (subst read_loop.simps) auto
  next
    case False
    then obtain r where r: "buffer \<noteq> []" "extractNextFrame buffer = Inr r"
      by (cases "extractNextFrame buffer") auto
    show ?thesis
    proof (cases "status r")
      case NeedMoreData
      then show ?thesis using r safe by (subst read_loop.simps) auto
    next
      case Malformed
      let ?s1 = "sendReject E sid 0 (err r) s" and ?b = "resync buffer"
      have k: "keeps view s ?s1" by simp
      have shorter: "length ?b < length buffer" by (rule resync_shorter [OF r(1)])
      have "ids_used ?s1 + length ?b + 1 < 2 ^ 64" using k shorter ids by (simp add: keeps_def)
      moreover have "server_safe view ?s1" using k safe by (simp add: keeps_def)
      ultimately obtain q where q: "read_loop E sid ?b ?s1 = Some q"
          "\<forall>rest s'. q = Inr (rest, s') \<longrightarrow> server_safe view s' \<and> buffers s' = buffers ?s1 \<and>
             ids_used s' + length rest \<le> ids_used ?s1 + length ?b"
        using IH(1) [OF r Malformed env] by blast
      have "read_loop E sid buffer s = Some q"
        using r Malformed q(1) by (subst read_loop.simps) simp
      then show ?thesis using q(2) k shorter by (fastforce simp: keeps_def)
    next
      case Complete
      show ?thesis
      proof (cases "splitToMap (frame r) SOH")
        case (Inl e)
        then show ?thesis using r Complete by (subst read_loop.simps) simp
      next
        case (Inr m)
        let ?b = "drop (consumed r) buffer"
        have shorter: "length ?b + 1 \<le> length buffer"
          using complete_consumes [OF r(2) Complete] r(1) by (cases buffer) auto
        have "ids_used s + 1 < 2 ^ 64" using ids by linarith
        then obtain s1 where s1: "handle_frame E sid (frame r) m s = Some s1" "server_safe view s1"
            "ids_used s1 \<le> ids_used s + 1" "buffers s1 = buffers s"
          using frame_fine [OF env safe] unfolding fine_def by blast
        have "ids_used s1 + length ?b + 1 < 2 ^ 64" using s1(3) shorter ids by linarith
        then obtain q where q: "read_loop E sid ?b s1 = Some q"
            "\<forall>rest s'. q = Inr (rest, s') \<longrightarrow> server_safe view s' \<and> buffers s' = buffers s1 \<and>
               ids_used s' + length rest \<le> ids_used s1 + length ?b"
          using IH(2) [OF r Complete Inr s1(1) env s1(2)] by blast
        have "read_loop E sid buffer s = Some q"
          using r Complete Inr s1(1) q(1) by (subst read_loop.simps) simp
        then show ?thesis using q(2) s1(3,4) shorter by fastforce
      qed
    qed
  qed
qed

subsection \<open>Every step\<close>

text \<open>The bytes that are buffered, and the bytes a step brings in.\<close>

definition unread :: "'q fix_server \<Rightarrow> u32 \<Rightarrow> nat" where
  "unread s sid = (case buffers s sid of None \<Rightarrow> 0 | Some b \<Rightarrow> length b)"

definition pending :: "'q fix_server \<Rightarrow> nat" where
  "pending s = sum (unread s) UNIV"

fun bytes_in :: "fix_step \<Rightarrow> nat" where
  "bytes_in (Receive sid bytes) = length bytes"
| "bytes_in _ = 0"

lemma pending_split: "pending s = unread s sid + sum (unread s) (UNIV - {sid})"
  unfolding pending_def by (subst sum.remove [of _ sid]) simp_all

lemma pending_other:
  assumes "\<forall>k. k \<noteq> sid \<longrightarrow> buffers s' k = buffers s k"
  shows "pending s' + unread s sid = pending s + unread s' sid"
proof -
  have "sum (unread s') (UNIV - {sid}) = sum (unread s) (UNIV - {sid})"
    by (rule sum.cong) (use assms in \<open>simp_all add: unread_def\<close>)
  then show ?thesis by (simp add: pending_split [of _ sid])
qed

text \<open>Ids drawn and bytes unread grow together by no more than what is read.\<close>

definition step_fine :: "('q \<Rightarrow> command list) \<Rightarrow> nat \<Rightarrow> 'q fix_server \<Rightarrow> (exn + 'q fix_server) option \<Rightarrow> bool" where
  "step_fine view k s r \<longleftrightarrow> (\<exists>q. r = Some q \<and> (\<forall>s'. q = Inr s' \<longrightarrow>
     server_safe view s' \<and> ids_used s' + pending s' \<le> ids_used s + pending s + k))"

lemma pending_same: "buffers s' = buffers s \<Longrightarrow> pending s' = pending s"
  by (simp add: pending_def unread_def)

lemma receive_fine:
  assumes env: "env_ok view cap E" and safe: "server_safe view s"
    and ids: "ids_used s + pending s + length bytes + 1 < 2 ^ 64"
  shows "step_fine view (length bytes) s (receive E sid bytes s)"
proof (cases "mSessions s sid")
  case None
  then show ?thesis using safe by (simp add: receive_def step_fine_def)
next
  case (Some x)
  let ?b = "mReadBuffer x @ bytes"
  have u: "unread s sid = length (mReadBuffer x)" using Some by (simp add: unread_def buffers_def)
  then have "length (mReadBuffer x) \<le> pending s" using pending_split [of s sid] by simp
  then obtain r where r: "read_loop E sid ?b s = Some r"
      "\<forall>rest s1. r = Inr (rest, s1) \<longrightarrow> server_safe view s1 \<and> buffers s1 = buffers s \<and>
         ids_used s1 + length rest \<le> ids_used s + length ?b"
    using read_loop_fine [OF env safe, of ?b sid] ids by auto
  have stored: "ids_used s' + pending s' \<le> ids_used s + pending s + length bytes \<and> server_safe view s'"
    if q: "r = Inr (rest, s1)" and s': "s' = s1\<lparr>mSessions := (mSessions s1)(sid :=
        map_option (\<lambda>x. x\<lparr>mReadBuffer := rest\<rparr>) (mSessions s1 sid))\<rparr>" for rest s1 s'
  proof -
    have s1: "server_safe view s1" "buffers s1 = buffers s"
        "ids_used s1 + length rest \<le> ids_used s + length ?b" using r(2) q by auto
    have "\<forall>k. k \<noteq> sid \<longrightarrow> buffers s' k = buffers s k"
      using s1(2) by (auto simp: s' buffers_def fun_eq_iff)
    then have "pending s' + unread s sid = pending s + unread s' sid" by (rule pending_other)
    moreover have "unread s' sid \<le> length rest"
      by (simp add: unread_def buffers_def s' split: option.split)
    moreover have "ids_used s' = ids_used s1" by (simp add: s')
    ultimately have "ids_used s' + pending s' \<le> ids_used s + pending s + length bytes"
      using s1(3) u by simp
    then show ?thesis using s1(1) by (simp add: s' server_safe_def)
  qed
  then show ?thesis
    using r(1) Some safe by (cases r) (auto simp: receive_def step_fine_def)
qed

lemma turn_fine:
  assumes env: "env_ok view cap E" and safe: "server_safe view s" and ids: "ids_used s + 1 < 2 ^ 64"
  shows "fine view 0 s (core_step_of E (Turn i) s)"
proof -
  have laws: "spsc_laws (queue_ops E) view cap" and cs: "core_safe view (mTradingCore s)"
    using env safe by (simp_all add: env_ok_def server_safe_def)
  obtain c where c: "step_core (queue_ops E) (core_env E) (Turn i) (mTradingCore s) = Some c" "core_safe view c"
    using core_step_safe [OF laws cs ids, of "Turn i" "core_env E"] by auto
  have "mOrderIDGenerator c = mOrderIDGenerator (mTradingCore s)"
    using c(1) by (auto simp: with_partition_def Let_def bind_eq_Some_conv set_partition_def)
  then have "unat (mOrderIDGenerator c) \<le> ids_used s + 0" by (rule ssubst) simp
  then show ?thesis unfolding core_step_of_def by (rule on_core_fine [where f = "step_core (queue_ops E) (core_env E) (Turn i)", OF safe c])
qed

lemma database_fine:
  assumes "server_safe view s" shows "fine view 0 s (database_turn s)"
proof -
  have replies: "keeps view s1 (fold on_reply rs s1)" for rs s1
  proof (induction rs arbitrary: s1)
    case (Cons r rs)
    have "keeps view s1 (on_reply r s1)" by (cases r) (auto intro: keepsI)
    then show ?case using Cons keeps_trans by fastforce
  qed simp
  have tasks: "list_all safe_task (mTasks (mDatabaseWorker (mTradingCore s)))"
    using assms by (simp add: server_safe_def core_safe_def)
  obtain w rs where w: "worker_turn (mDatabaseWorker (mTradingCore s)) = Some (w, rs)" "list_all safe_task (mTasks w)"
  proof (cases "mTasks (mDatabaseWorker (mTradingCore s))")
    case (Cons t ts)
    then show ?thesis using that tasks exec_safe_task [of t "mDatabase (mDatabaseWorker (mTradingCore s))"]
      by (auto simp: worker_turn_def)
  qed (use that in \<open>simp add: worker_turn_def\<close>)
  have "keeps view s (s\<lparr>mTradingCore := (mTradingCore s)\<lparr>mDatabaseWorker := w\<rparr>\<rparr>)"
    using keeps_manager [of s w view "mSessionManager s"] w(2) by (simp add: set_manager_def keeps_def)
  then show ?thesis using fine_keeps [OF assms keeps_trans [OF _ replies]] w(1) by (simp add: database_turn_def)
qed

lemma step_fine_of_fine: "fine view 0 s r \<Longrightarrow> step_fine view k s (map_option Inr r)"
  using pending_same by (fastforce simp: fine_def step_fine_def)

lemma step_server_fine:
  assumes env: "env_ok view cap E" and safe: "server_safe view s"
    and ids: "ids_used s + pending s + bytes_in x + 1 < 2 ^ 64"
  shows "step_fine view (bytes_in x) s (step_server E x s)"
proof (cases x)
  case Accept
  let ?s' = "accept_connection s" and ?n = "mNextSessionId s"
  have "\<forall>k. k \<noteq> ?n \<longrightarrow> buffers ?s' k = buffers s k"
    by (simp add: accept_connection_def registerSession_def buffers_def)
  from pending_other [OF this] have "pending ?s' \<le> pending s"
    by (simp add: unread_def buffers_def accept_connection_def registerSession_def)
  then show ?thesis using safe Accept
    by (simp add: step_fine_def server_safe_def accept_connection_def registerSession_def)
next
  case (Receive sid bytes)
  then show ?thesis using receive_fine [OF env safe, of bytes sid] ids by simp
next
  case (ReadFails sid)
  let ?s' = "unregisterSession sid s"
  have "\<forall>k. k \<noteq> sid \<longrightarrow> buffers ?s' k = buffers s k" by (simp add: unregisterSession_def buffers_def)
  from pending_other [OF this] have "pending ?s' \<le> pending s"
    by (simp add: unread_def buffers_def unregisterSession_def)
  moreover have "core_safe view (unsubscribeSession k (mTradingCore s))" for k
    by (rule core_safe_same [of view "mTradingCore s"])
      (use safe in \<open>simp_all add: unsubscribeSession_def server_safe_def core_safe_def\<close>)
  ultimately show ?thesis using ReadFails
    by (simp add: step_fine_def server_safe_def unregisterSession_def) (simp add: unsubscribeSession_def)
next
  case (EngineTurn i)
  then show ?thesis using step_fine_of_fine [OF turn_fine [OF env safe]] ids by simp
next
  case DatabaseTurn
  then show ?thesis using step_fine_of_fine [OF database_fine [OF safe]] by simp
qed

lemma server_run_fine:
  assumes env: "env_ok view cap E" and "server_safe view s"
    and "ids_used s + pending s + sum_list (map bytes_in xs) + 1 < 2 ^ 64"
  shows "\<exists>r. server_run E xs s = Some r \<and> (\<forall>s'. r = Inr s' \<longrightarrow> server_safe view s')"
  using assms(2,3)
proof (induction xs arbitrary: s)
  case (Cons x xs)
  have "ids_used s + pending s + bytes_in x + 1 < 2 ^ 64" using Cons.prems(2) by simp
  from step_server_fine [OF env Cons.prems(1) this] obtain q where
    q: "step_server E x s = Some q"
      "\<forall>s'. q = Inr s' \<longrightarrow> server_safe view s' \<and>
         ids_used s' + pending s' \<le> ids_used s + pending s + bytes_in x"
    unfolding step_fine_def by blast
  show ?case
  proof (cases q)
    case (Inr s1)
    then have s1: "server_safe view s1" "ids_used s1 + pending s1 + sum_list (map bytes_in xs) + 1 < 2 ^ 64"
      using q(2) Cons.prems(2) by auto
    from Cons.IH [OF this] show ?thesis using q(1) Inr by simp
  qed (use q(1) in simp)
qed simp

lemma init_server_safe:
  assumes ok: "core_ok view c" "mOrderIDGenerator c = 0" "mPartitions c = (\<lambda>i. Some (fresh_partition Q i True))"
    "mTasks (mDatabaseWorker c) = []" and laws: "spsc_laws Q view cap"
  shows "server_safe view (init_server r c)" and "ids_used (init_server r c) = 0"
    and "pending (init_server r c) = 0"
proof -
  have "view (q_make Q 262144) = []" using laws by (simp add: spsc_laws_def)
  then have safe: "core_safe view c"
    using ok by (simp add: core_safe_def fresh_partition_def init_partition_def printable_heap_def
        init_worker_def empty_manager_def new_orders_printable_def)
  show "server_safe view (init_server r c)"
    unfolding server_safe_def
    by (rule core_safe_same [OF safe])
      (use ok(4) in \<open>simp_all add: init_server_def Let_def subscribeToExecutions_def enqueue_task_def\<close>)
  show "ids_used (init_server r c) = 0" "pending (init_server r c) = 0"
    using ok(2) by (simp_all add: init_server_def Let_def subscribeToExecutions_def pending_def unread_def buffers_def)
qed


definition live_env :: "(nat \<times> command list) fix_env" where
  "live_env = demo_fix_env\<lparr>iteration := by_id\<rparr>"


end
