(* ===== verification/FixFields.thy ===== *)
theory FixFields
  imports FixText
begin

text \<open>
  Messages as lists of fields: the text of a list of fields, the map it splits into, and where
  a plain search for \<open>tag=\<close> finds its first match in it.
\<close>

subsection \<open>Text and map\<close>

type_synonym fields = "(tag \<times> string) list"

definition fields_text :: "fields \<Rightarrow> string" where
  "fields_text fs = concat (map (\<lambda>(t, v). field t v) fs)"

definition fields_map :: "fields \<Rightarrow> (int \<rightharpoonup> string) \<Rightarrow> int \<rightharpoonup> string" where
  "fields_map fs m = foldl (\<lambda>m (t, v). m(tag_no t \<mapsto> v)) m fs"

definition clean_fields :: "fields \<Rightarrow> bool" where
  "clean_fields fs \<longleftrightarrow> list_all (\<lambda>(t, v). SOH \<notin> set v) fs"

lemma fields_text_simps [simp]:
  "fields_text [] = []" "fields_text ((t, v) # fs) = field t v @ fields_text fs"
  "fields_text (fs @ gs) = fields_text fs @ fields_text gs"
  by (simp_all add: fields_text_def)

lemma fields_map_simps [simp]:
  "fields_map [] m = m" "fields_map ((t, v) # fs) m = fields_map fs (m(tag_no t \<mapsto> v))"
  "fields_map (fs @ gs) m = fields_map gs (fields_map fs m)"
  by (simp_all add: fields_map_def)

lemma fields_map_other: "k \<notin> tag_no ` fst ` set fs \<Longrightarrow> fields_map fs m k = m k"
  by (induction fs arbitrary: m) auto

lemma clean_fields_simps [simp]:
  "clean_fields []" "clean_fields ((t, v) # fs) \<longleftrightarrow> SOH \<notin> set v \<and> clean_fields fs"
  "clean_fields (fs @ gs) \<longleftrightarrow> clean_fields fs \<and> clean_fields gs"
  by (simp_all add: clean_fields_def)

lemma split_fields_text:
  "clean_fields fs \<Longrightarrow>
     split_fields SOH (fields_text fs @ rest) m = split_fields SOH rest (fields_map fs m)"
  by (induction fs arbitrary: m) (auto simp: split_field)

lemma split_fields_all: "clean_fields fs \<Longrightarrow> split_fields SOH (fields_text fs) m = Inr (fields_map fs m)"
  using split_fields_text [of fs "[]" m] split_rest [of SOH "[]"] by simp

lemma field_last: "\<exists>ys. field t v = ys @ [SOH]"
  by (simp add: field_def)

lemma fields_text_last: "\<exists>ys. field t v @ fields_text fs = ys @ [SOH]"
proof (induction fs arbitrary: t v)
  case (Cons a fs)
  then show ?case by (cases a) (metis append_assoc fields_text_simps(2))
qed (simp add: field_last)

text \<open>Fields with any number as their tag.\<close>

type_synonym numbered = "(nat \<times> string) list"

definition numbered_text :: "numbered \<Rightarrow> string" where
  "numbered_text ns = concat (map (\<lambda>(n, v). dec n @ CHR ''='' # v @ [SOH]) ns)"

definition numbered_map :: "numbered \<Rightarrow> (int \<rightharpoonup> string) \<Rightarrow> int \<rightharpoonup> string" where
  "numbered_map ns m = foldl (\<lambda>m (n, v). m(int n \<mapsto> v)) m ns"

lemma numbered_simps [simp]:
  "numbered_text [] = []" "numbered_text ((n, v) # ns) = dec n @ CHR ''='' # v @ SOH # numbered_text ns"
  "numbered_text (ns @ ms) = numbered_text ns @ numbered_text ms"
  "numbered_map [] m = m" "numbered_map ((n, v) # ns) m = numbered_map ns (m(int n \<mapsto> v))"
  by (simp_all add: numbered_text_def numbered_map_def)

lemma tag_number: "to_string_i (tag_no t) = dec (nat (tag_no t))"
  using tag_no_bounds [of t] by (simp add: to_string_i_def)

lemma fields_as_numbers: "fields_text fs = numbered_text (map (\<lambda>(t, v). (nat (tag_no t), v)) fs)"
  by (induction fs) (auto simp: field_def tag_number)

lemma split_numbered:
  "list_all (\<lambda>(n, v). n < 2 ^ 31 \<and> SOH \<notin> set v) ns \<Longrightarrow>
     split_fields SOH (numbered_text ns @ rest) m = split_fields SOH rest (numbered_map ns m)"
proof (induction ns arbitrary: m)
  case (Cons a ns)
  obtain n v where a: "a = (n, v)" by fastforce
  have "SOH \<notin> set (dec n @ CHR ''='' # v)" using Cons.prems by (auto simp: a)
  from split_token [OF this] show ?case
    using Cons put_field_number [of n v m] by (simp add: a)
qed simp

subsection \<open>Searching\<close>

text \<open>A name that can be searched for: no equals sign, no SOH.\<close>

definition plain :: "string \<Rightarrow> bool" where
  "plain s \<longleftrightarrow> CHR ''='' \<notin> set s \<and> SOH \<notin> set s"

definition plain_fields :: "fields \<Rightarrow> bool" where
  "plain_fields fs \<longleftrightarrow> list_all (\<lambda>(t, v). plain v) fs"

lemma plain_fields_simps [simp]:
  "plain_fields []" "plain_fields ((t, v) # fs) \<longleftrightarrow> plain v \<and> plain_fields fs"
  "plain_fields (fs @ gs) \<longleftrightarrow> plain_fields fs \<and> plain_fields gs"
  by (simp_all add: plain_fields_def)

lemma plain_clean: "plain_fields fs \<Longrightarrow> clean_fields fs"
  by (auto simp: plain_fields_def clean_fields_def plain_def list_all_iff)

lemma plain_simps [simp]:
  "plain []" "plain (c # s) \<longleftrightarrow> c \<noteq> CHR ''='' \<and> c \<noteq> SOH \<and> plain s" "plain (s @ t) \<longleftrightarrow> plain s \<and> plain t"
  by (auto simp: plain_def)

lemma plain_digits: "\<forall>c\<in>set ds. isdigit c \<Longrightarrow> plain ds"
  using isdigit_chars(1,2) by (auto simp: plain_def)

lemma plain_numbers [simp]:
  "plain (dec n)" "plain (to_string_u w)" "plain (pad0 k s) \<longleftrightarrow> plain s" "plain (to_string_i i)"
proof -
  show d: "plain (dec n)" for n by (rule plain_digits [OF dec_digits])
  then show "plain (to_string_u w)" "plain (to_string_i i)"
    by (simp_all add: to_string_u_def to_string_i_def SOH_eq)
  show "plain (pad0 k s) \<longleftrightarrow> plain s" by (auto simp: pad0_def plain_def)
qed

text \<open>A pattern \<open>tag=...\<close> does not match in front of the next equals sign, unless the tag ends there.\<close>

lemma match_ends:
  "CHR ''='' \<notin> set w \<Longrightarrow> CHR ''='' \<notin> set tt \<Longrightarrow> starts_with (tt @ CHR ''='' # q) (w @ CHR ''='' # r) \<Longrightarrow> w = tt"
proof (induction tt arbitrary: w)
  case Nil
  then show ?case by (cases w) auto
next
  case (Cons a tt)
  then show ?case by (cases w) auto
qed

lemma find_skip:
  assumes "CHR ''='' \<notin> set w" "CHR ''='' \<notin> set tt" and "\<nexists>u. w = u @ tt"
  shows "find_from_start (tt @ CHR ''='' # q) (w @ CHR ''='' # r) =
     map_option (\<lambda>i. Suc (length w + i)) (find_from_start (tt @ CHR ''='' # q) r)"
  using assms
proof (induction w)
  case Nil
  then show ?case by (cases tt) auto
next
  case (Cons c w)
  have "\<not> starts_with (tt @ CHR ''='' # q) ((c # w) @ CHR ''='' # r)"
    using match_ends [OF Cons.prems(1,2)] Cons.prems(3) by (metis append_Nil)
  moreover have "\<nexists>u. w = u @ tt" using Cons.prems(3) by (metis append_Cons)
  ultimately show ?case using Cons by (simp add: option.map_comp comp_def del: starts_with.simps)
qed

lemma starts_with_self: "starts_with pat (pat @ r)"
  by (induction pat) auto

lemma find_here:
  assumes "CHR ''='' \<notin> set w" "CHR ''='' \<notin> set tt"
  shows "find_from_start (tt @ CHR ''='' # q) (w @ tt @ CHR ''='' # q @ r) = Some (length w)"
  using assms(1)
proof (induction w)
  case Nil
  have "starts_with (tt @ CHR ''='' # q) ((tt @ CHR ''='' # q) @ r)" by (rule starts_with_self)
  then show ?case by (cases "tt @ CHR ''='' # q @ r") auto
next
  case (Cons c w)
  have "\<not> starts_with (tt @ CHR ''='' # q) ((c # w @ tt) @ CHR ''='' # q @ r)"
    using match_ends [of "c # w @ tt" tt q "q @ r"] Cons.prems assms(2) by auto
  then show ?case using Cons by simp
qed

lemma find_nowhere:
  "CHR ''='' \<notin> set w \<Longrightarrow> find_from_start (tt @ CHR ''='' # q) w = None"
proof (induction w)
  case (Cons c w)
  have "\<not> starts_with (tt @ CHR ''='' # q) (c # w)"
  proof
    assume "starts_with (tt @ CHR ''='' # q) (c # w)"
    moreover have "starts_with p s \<Longrightarrow> set p \<subseteq> set s" for p s
      by (induction p s rule: starts_with.induct) auto
    ultimately show False using Cons.prems by fastforce
  qed
  then show ?case using Cons by simp
qed simp

text \<open>The number of a tag, and whether it ends in a text.\<close>

definition ends_in :: "string \<Rightarrow> string \<Rightarrow> bool" where
  "ends_in tt s \<longleftrightarrow> drop (length s - length tt) s = tt"

definition tag_ends :: "string \<Rightarrow> tag \<Rightarrow> bool" where
  "tag_ends tt t = ends_in tt (to_string_i (tag_no t))"

lemma tag_texts:
  "to_string_i 8 = ''8''" "to_string_i 9 = ''9''" "to_string_i 35 = ''35''" "to_string_i 49 = ''49''"
  "to_string_i 56 = ''56''" "to_string_i 34 = ''34''" "to_string_i 52 = ''52''" "to_string_i 11 = ''11''"
  "to_string_i 41 = ''41''" "to_string_i 55 = ''55''" "to_string_i 54 = ''54''" "to_string_i 40 = ''40''"
  "to_string_i 38 = ''38''" "to_string_i 44 = ''44''" "to_string_i 59 = ''59''" "to_string_i 99 = ''99''"
  "to_string_i 63 = ''63''" "to_string_i 64 = ''64''" "to_string_i 37 = ''37''" "to_string_i 17 = ''17''"
  "to_string_i 39 = ''39''" "to_string_i 58 = ''58''" "to_string_i 14 = ''14''" "to_string_i 151 = ''151''"
  "to_string_i 31 = ''31''" "to_string_i 32 = ''32''" "to_string_i 60 = ''60''" "to_string_i 262 = ''262''"
  "to_string_i 263 = ''263''" "to_string_i 264 = ''264''" "to_string_i 146 = ''146''" "to_string_i 279 = ''279''"
  "to_string_i 269 = ''269''" "to_string_i 270 = ''270''" "to_string_i 271 = ''271''" "to_string_i 273 = ''273''"
  "to_string_i 268 = ''268''" "to_string_i 290 = ''290''" "to_string_i 10 = ''10''"
  by code_simp+

lemma tag_ends_iff:
  "tag_ends ''34'' t \<longleftrightarrow> t = MsgSeqNum" "tag_ends ''49'' t \<longleftrightarrow> t = SenderCompID"
  "tag_ends ''268'' t \<longleftrightarrow> t = NoMDEntries" "tag_ends ''269'' t \<longleftrightarrow> t = MDEntryType"
  "tag_ends ''279'' t \<longleftrightarrow> t = MDUpdateAction" "tag_ends ''10'' t \<longleftrightarrow> t = CheckSum"
  by (cases t; simp add: tag_ends_def ends_in_def tag_texts)+

lemma not_suffix:
  assumes "w = [] \<or> last w = SOH" "SOH \<notin> set tt" "\<not> ends_in tt s"
  shows "\<nexists>u. w @ s = u @ tt"
proof
  assume "\<exists>u. w @ s = u @ tt"
  then obtain u where "w @ s = u @ tt" ..
  then obtain us where "w = u @ us \<and> us @ s = tt \<or> w @ us = u \<and> s = us @ tt"
    unfolding append_eq_append_conv2 by blast
  then have "s = us @ tt \<or> s = [] @ tt \<or> us \<noteq> [] \<and> w = u @ us \<and> tt = us @ s"
    by (metis append_Nil)
  then show False
  proof (elim disjE)
    assume "us \<noteq> [] \<and> w = u @ us \<and> tt = us @ s"
    moreover from this have "last us = SOH" using assms(1) by (metis append_is_Nil_conv last_appendR)
    ultimately show False using assms(2) last_in_set [of us] by auto
  qed (use assms(3) in \<open>simp_all add: ends_in_def\<close>)
qed

lemma find_past_number:
  assumes "CHR ''='' \<notin> set w" "w = [] \<or> last w = SOH" "SOH \<notin> set tt" "CHR ''='' \<notin> set tt" "\<not> ends_in tt (dec n)"
  shows "find_from_start (tt @ CHR ''='' # q) (w @ dec n @ CHR ''='' # r) =
     map_option (\<lambda>i. Suc (length w + length (dec n) + i)) (find_from_start (tt @ CHR ''='' # q) r)"
proof -
  have "CHR ''='' \<notin> set (dec n)" using plain_numbers(1) by (simp add: plain_def)
  then have "find_from_start (tt @ CHR ''='' # q) ((w @ dec n) @ CHR ''='' # r) =
      map_option (\<lambda>i. Suc (length (w @ dec n) + i)) (find_from_start (tt @ CHR ''='' # q) r)"
    using assms not_suffix [OF assms(2,3,5)] by (intro find_skip) auto
  then show ?thesis by simp
qed

text \<open>The first match behind fields with other tags, and no match at all.\<close>

lemma find_behind_numbers:
  assumes "CHR ''='' \<notin> set w" "w = [] \<or> last w = SOH" "SOH \<notin> set tt" "CHR ''='' \<notin> set tt"
    and "list_all (\<lambda>(n, v). plain v \<and> \<not> ends_in tt (dec n)) ns"
  shows "find_from_start (tt @ CHR ''='' # q) (w @ numbered_text ns @ tt @ CHR ''='' # q @ r) =
      Some (length w + length (numbered_text ns))"
    and "find_from_start (tt @ CHR ''='' # q) (w @ numbered_text ns) = None"
proof -
  have "find_from_start (tt @ CHR ''='' # q) (w @ numbered_text ns @ tt @ CHR ''='' # q @ r) =
      Some (length w + length (numbered_text ns)) \<and>
    find_from_start (tt @ CHR ''='' # q) (w @ numbered_text ns) = None"
    using assms(1,2,5)
  proof (induction ns arbitrary: w)
    case Nil
    then show ?case using find_here [OF Nil(1) assms(4), of q r] find_nowhere [OF Nil(1)] by simp
  next
    case (Cons f ns)
    obtain n v where f: "f = (n, v)" by fastforce
    have v: "CHR ''='' \<notin> set (v @ [SOH])" and n: "\<not> ends_in tt (dec n)" using Cons.prems by (simp_all add: f plain_def)
    show ?case
      using Cons.IH [of "v @ [SOH]"] v Cons.prems(3) find_past_number [OF Cons.prems(1,2) assms(3,4) n, of q]
      by (simp add: f)
  qed
  then show "find_from_start (tt @ CHR ''='' # q) (w @ numbered_text ns @ tt @ CHR ''='' # q @ r) =
      Some (length w + length (numbered_text ns))"
    "find_from_start (tt @ CHR ''='' # q) (w @ numbered_text ns) = None" by blast+
qed

lemma find_past_field:
  assumes "CHR ''='' \<notin> set w" "w = [] \<or> last w = SOH" "SOH \<notin> set tt" "CHR ''='' \<notin> set tt" "\<not> tag_ends tt t"
  shows "find_from_start (tt @ CHR ''='' # q) (w @ field t v @ r) =
     map_option (\<lambda>i. Suc (length w + length (to_string_i (tag_no t)) + i))
       (find_from_start (tt @ CHR ''='' # q) ((v @ [SOH]) @ r))"
  using find_past_number [OF assms(1-4), of "nat (tag_no t)" q "v @ SOH # r"] assms(5)
  by (simp add: tag_ends_def tag_number field_def)

lemma find_behind_fields:
  assumes "CHR ''='' \<notin> set w" "w = [] \<or> last w = SOH" "SOH \<notin> set tt" "CHR ''='' \<notin> set tt"
    and "plain_fields fs" "list_all (\<lambda>(t, v). \<not> tag_ends tt t) fs"
  shows "find_from_start (tt @ CHR ''='' # q) (w @ fields_text fs @ tt @ CHR ''='' # q @ r) =
      Some (length w + length (fields_text fs))"
    and "find_from_start (tt @ CHR ''='' # q) (w @ fields_text fs) = None"
proof -
  have "list_all (\<lambda>(n, v). plain v \<and> \<not> ends_in tt (dec n)) (map (\<lambda>(t, v). (nat (tag_no t), v)) fs)"
    using assms(5,6) by (auto simp: plain_fields_def list_all_iff tag_ends_def tag_number)
  note behind = find_behind_numbers [OF assms(1-4) this, folded fields_as_numbers]
  show "find_from_start (tt @ CHR ''='' # q) (w @ fields_text fs @ tt @ CHR ''='' # q @ r) =
      Some (length w + length (fields_text fs))" by (rule behind)
  show "find_from_start (tt @ CHR ''='' # q) (w @ fields_text fs) = None" by (rule behind)
qed

end
