(* ===== verification/FixOrderProperties.thy ===== *)
theory FixOrderProperties
  imports FixServerProperties FixFields
begin

text \<open>
  An order on its way from the wire into the book: what the order converter reads of a built
  message, under which name the server places the order, and which session hears about it.
\<close>

subsection \<open>The end of a built message\<close>

lemma built_text_last: "\<exists>ys. built_text now sender target n msgType (fields_text fs) = ys @ [SOH]"
proof -
  obtain ys where "field SendingTime (generateTimestamp now) @ fields_text fs = ys @ [SOH]"
    using fields_text_last by blast
  then show ?thesis by (simp add: built_text_def built_payload_def Let_def unframed_def)
qed

subsection \<open>The last checksum field\<close>

lemma find_last_append:
  "find_last pat s = Some i \<Longrightarrow> find_last pat (xs @ s) = Some (length xs + i)"
  by (induction xs) simp_all

lemma find_last_no_SOH:
  "SOH \<notin> set s \<Longrightarrow> find_last (SOH # p # ps) (s @ [SOH]) = None"
  by (induction s) auto

lemma rfind_checksum:
  assumes "SOH \<notin> set cs"
  shows "rfind (ys @ SOH # ''10='' @ cs @ [SOH]) checksum_tag = Some (length ys)"
proof -
  have "find_last checksum_tag ((''10='' @ cs) @ [SOH]) = None"
    using assms find_last_no_SOH [of "''10='' @ cs" "CHR ''1''" "''0=''"]
    by (simp add: checksum_tag_def SOH_eq)
  then have "find_last checksum_tag (SOH # ''10='' @ cs @ [SOH]) = Some 0"
    by (simp add: checksum_tag_def)
  from find_last_append [OF this] show ?thesis by (simp add: rfind_def)
qed

lemma checksum_field_read:
  assumes "0 \<le> builder_checksum t"
  shows "stoi (pad0 3 (to_string_i (builder_checksum t)) @ [SOH]) = Inr (builder_checksum t)"
    and "word_of_int (builder_checksum t) = unsigned_checksum t"
proof -
  let ?k = "unat (checksum t)"
  have k: "builder_checksum t = int ?k" by (rule builder_checksum_nonneg [OF assms])
  have "int ?k < 256" using builder_checksum_bounds(2) [of t] unfolding k .
  then have "?k < 256" by linarith
  then have small: "?k < 2 ^ 31" "?k < 10 ^ Suc 2" by (auto elim: less_trans)
  have p: "pad0 3 (to_string_i (builder_checksum t)) = pad0 (Suc 2) (dec ?k)"
    by (simp add: k to_string_i_nonneg eval_nat_numeral)
  have "pad0 (Suc 2) (dec ?k) \<noteq> []" using pad0_dec(1) [OF small(2)] by auto
  then have "stoi (pad0 (Suc 2) (dec ?k) @ [SOH]) = Inr (int ?k)"
    using stoi_digits [of "pad0 (Suc 2) (dec ?k)" "[SOH]"] pad0_dec(2,3) [OF small(2)] small(1) by auto
  then show "stoi (pad0 3 (to_string_i (builder_checksum t)) @ [SOH]) = Inr (builder_checksum t)"
    unfolding p by (simp only: k)
  show "word_of_int (builder_checksum t) = unsigned_checksum t"
    by (simp add: k unsigned_checksum_eq)
qed

subsection \<open>The order converter on built messages\<close>

definition built_map :: "timestamp \<Rightarrow> string \<Rightarrow> string \<Rightarrow> u32 \<Rightarrow> string \<Rightarrow> fields \<Rightarrow> int \<rightharpoonup> string" where
  "built_map now sender target n msgType fs =
     (fields_map fs
       [8 \<mapsto> ''FIX.4.4'',
        9 \<mapsto> dec (length (built_payload now sender target n msgType (fields_text fs))),
        35 \<mapsto> msgType, 49 \<mapsto> sender, 56 \<mapsto> target, 34 \<mapsto> to_string_u n, 52 \<mapsto> generateTimestamp now])
     (10 \<mapsto> pad0 3 (to_string_i (builder_checksum (built_text now sender target n msgType (fields_text fs)))))"

lemma split_built_fields:
  assumes "SOH \<notin> set msgType" "SOH \<notin> set sender" "SOH \<notin> set target" "clean_fields fs"
  shows "splitToMap (buildMessage now sender target n msgType (fields_text fs)) SOH =
     Inr (built_map now sender target n msgType fs)"
  using assms split_field [of _ CheckSum "[]"] split_rest [of SOH "[]"]
  by (simp add: split_built split_fields_text built_map_def)

lemma catch_null_some: "catch_null (bind_exn r (\<lambda>x. Inr (Some x))) = catch_exn r"
  by (cases r) (simp_all add: catch_null_def)

lemma order_of_built:
  assumes "SOH \<notin> set sender" "SOH \<notin> set target" "clean_fields fs"
    and sum: "0 \<le> builder_checksum (built_text now sender target n ''D'' (fields_text fs))"
  shows "BinaryToOrderRequest (buildMessage now sender target n ''D'' (fields_text fs)) =
     catch_exn (parse_order (built_map now sender target n ''D'' fs))"
proof -
  let ?t = "built_text now sender target n ''D'' (fields_text fs)"
  let ?cs = "pad0 3 (to_string_i (builder_checksum ?t))" and ?m = "buildMessage now sender target n ''D'' (fields_text fs)"
  obtain ys where ys: "?t = ys @ [SOH]" using built_text_last by blast
  have m: "?m = ys @ SOH # ''10='' @ ?cs @ [SOH]"
    using ys by (simp add: buildMessage_eq Let_def framed_unframed built_text_def)
  have "SOH \<notin> set ?cs" by simp
  then have "rfind ?m checksum_tag = Some (length ys)" unfolding m by (rule rfind_checksum)
  moreover have "drop (length ys + length checksum_tag) ?m = ?cs @ [SOH]"
    unfolding m by (simp add: checksum_tag_def)
  moreover have "take (length ys + 1) ?m = ?t" unfolding m ys by simp
  moreover have "SOH \<notin> set ''D''" by (simp add: SOH_eq)
  ultimately show ?thesis
    using checksum_field_read [OF sum] split_built_fields [of "''D''" sender target fs now n] assms
    by (simp add: BinaryToOrderRequest_def catch_null_some)
qed

subsection \<open>Placing\<close>

lemma send_numbered_partitions:
  "mPartitions (mTradingCore (send_numbered E sid k mk s)) = mPartitions (mTradingCore s)"
  by (simp add: send_numbered_def Let_def split: prod.split)

lemma flush_partitions:
  "mPartitions (mTradingCore (flush E s)) = mPartitions (mTradingCore s)"
proof -
  have "mPartitions (mTradingCore (dispatch E v s1)) = mPartitions (mTradingCore s1)" for v s1
    by (cases v) (simp_all add: onExecutionReport_def onMarketDataSnapshotFullRefresh_def
        onMarketDataIncrementalRefresh_def sendExecutionReport_def sendMarketDataSnapshotFullRefresh_def
        sendMarketDataIncrementalRefresh_def Let_def send_numbered_partitions split: option.split)
  then have "mPartitions (mTradingCore (fold (dispatch E) vs s1)) = mPartitions (mTradingCore s1)" for vs s1
    by (induction vs arbitrary: s1) simp_all
  then show ?thesis by (simp add: flush_def)
qed

text \<open>
  C32: an order is placed under the name it carries. A logged-on connection sends an order
  message that the converter reads: whatever its sequence number, and whatever client logged
  on over the connection, the order with the fields of the message and the next order id is
  queued for the partition of its symbol (when that accepts commands and has room), as a limit
  order for the day, owned by the SenderCompID of the message. No other partition changes.
\<close>

theorem order_is_placed_under_the_name_it_carries:
  assumes laws: "spsc_laws (queue_ops E) view cap"
    and logged_on: "getSessionState sid (mSessionManager s) = Some st" "isLoggedOn st"
    and read: "message_seq_num msg = Inr n" "BinaryToOrderRequest msg = Some r"
    and p: "mPartitions (mTradingCore s) (or_symbol r) = Some p"
  shows "\<exists>s' p'. handleFixMessage E sid msg (CHR ''D'') s = Some s' \<and>
     mPartitions (mTradingCore s') = (mPartitions (mTradingCore s))(or_symbol r \<mapsto> p') \<and>
     p_worker p' = p_worker p \<and>
     view (mCommandQueue p') = view (mCommandQueue p) @
       (if mAcceptingCommands p \<and> length (view (mCommandQueue p)) < cap (mCommandQueue p)
        then [NewOrder (to_string_u sid) (wall E (readings s))
          (mk_order (or_clientOrderId r) (fst (nextId (mOrderIDGenerator (mTradingCore s)))) (or_symbol r)
            (to_string_u sid) (or_senderCompID r) (or_side r) Limit DAY (or_quantity r) (or_price r)
            (wall E (readings s)))]
        else [])"
proof -
  obtain b mw where v: "validateSequence sid n (mSessionManager s) (mDatabaseWorker (mTradingCore s)) = (b, mw)"
    by (rule prod.exhaust)
  obtain i g where g: "nextId (mOrderIDGenerator (mTradingCore s)) = (i, g)" by (rule prod.exhaust)
  let ?now = "wall E (readings s)" and ?client = "to_string_u sid"
  let ?cmd = "NewOrder ?client ?now (mk_order (or_clientOrderId r) i (or_symbol r) ?client
      (or_senderCompID r) (or_side r) Limit DAY (or_quantity r) (or_price r) ?now)"
  let ?p' = "enqueue (queue_ops E) ?cmd p"
  let ?s1 = "(set_manager mw s)\<lparr>readings := readings s + 1\<rparr>"
  let ?c = "set_partition (or_symbol r) ?p' ((mTradingCore ?s1)\<lparr>mOrderIDGenerator := g\<rparr>)"
  have "handleFixMessage E sid msg (CHR ''D'') s = Some (flush E (?s1\<lparr>mTradingCore := ?c\<rparr>))"
    using logged_on read p v g
    by (simp add: handleFixMessage_def handle_application_def handleNewOrderSingle_def Let_def
        core_step_of_def on_core_def enqueue_at_def mk_order_def)
  moreover have "mPartitions (mTradingCore (flush E (?s1\<lparr>mTradingCore := ?c\<rparr>))) =
      (mPartitions (mTradingCore s))(or_symbol r \<mapsto> ?p')"
    by (simp add: flush_partitions)
  moreover have "p_worker ?p' = p_worker p" by (rule enqueue_view(3) [OF laws])
  moreover have "view (mCommandQueue ?p') = view (mCommandQueue p) @
      (if mAcceptingCommands p \<and> length (view (mCommandQueue p)) < cap (mCommandQueue p) then [?cmd] else [])"
    by (simp add: enqueue_view(1) [OF laws])
  ultimately show ?thesis unfolding g fst_conv by blast
qed

text \<open>A connection over which bob has logged on.\<close>

definition bob_server :: "(nat \<times> command list) fix_server" where
  "bob_server = (demo_server demo_core)\<lparr>mSessionManager :=
     \<lparr>mValidClients = [''bob'' \<mapsto> True],
      mSessionStates = [''bob'' \<mapsto> \<lparr>isLoggedOn = True, inSeqNum = 1, outSeqNum = 2, senderCompId = ''bob''\<rparr>],
      mConnectionToCompId = [1 \<mapsto> ''bob''], mSeqRepo = False\<rparr>\<rparr>"

definition alice_order :: string where
  "alice_order = buildMessage 0 ''alice'' ''BETA_EXCHANGE'' 77 ''D''
     (fields_text [(ClOrdID, ''c1''), (SymbolTag, ''EURUSD''), (Side, ''1''), (OrderQty, ''5''), (Price, ''1.25'')])"

lemma alice_order_read:
  "message_seq_num alice_order = Inr 77"
  "BinaryToOrderRequest alice_order = Some \<lparr>or_senderCompID = ''alice'', or_clientOrderId = ''c1'',
     or_symbol = EURUSD, or_side = Buy, or_quantity = 5, or_price = Fin (5 / 4)\<rparr>"
  by code_simp+

theorem order_is_placed_under_the_name_it_carries_demo:
  "\<exists>s' p' ord. handleFixMessage demo_fix_env 1 alice_order (CHR ''D'') bob_server = Some s' \<and>
     mPartitions (mTradingCore s') EURUSD = Some p' \<and>
     snd (mCommandQueue p') = [NewOrder ''1'' 0 ord] \<and> mSenderCompID ord = ''alice''"
proof -
  let ?st = "\<lparr>isLoggedOn = True, inSeqNum = 1, outSeqNum = 2, senderCompId = ''bob''\<rparr>"
  have laws: "spsc_laws (queue_ops demo_fix_env) snd fst" by (simp add: demo_fix_env_def list_queue_laws)
  have on: "getSessionState 1 (mSessionManager bob_server) = Some ?st" "isLoggedOn ?st"
    by (simp_all add: bob_server_def getSessionState_def)
  have core: "mTradingCore bob_server = mTradingCore (demo_server demo_core)" "readings bob_server = 0"
    by (simp_all add: bob_server_def demo_server_def accept_connection_def registerSession_def
        init_server_def Let_def)
  have p: "mPartitions (mTradingCore bob_server) EURUSD = Some (fresh_partition list_queue EURUSD True)"
    by (simp add: core demo_server_def accept_connection_def registerSession_def init_server_def Let_def
        subscribeToExecutions_def demo_core_def)
  have one: "to_string_u (1 :: u32) = ''1''" by code_simp
  from order_is_placed_under_the_name_it_carries [OF laws on alice_order_read] p show ?thesis
    by (fastforce simp: core one fresh_partition_def init_partition_def list_queue_def demo_fix_env_def mk_order_def)
qed

subsection \<open>Reports\<close>

lemma ucast_word32: "ucast (ucast (w :: u32) :: u64) = w"
  by transfer simp

lemma stoul_safe_number: "stoul_safe_ep (to_string_u (w :: u32)) = w"
proof -
  have "to_string_u w = to_string_u (ucast w :: u64)"
    unfolding to_string_u_def by transfer simp
  then have "stoul (to_string_u w) = Inr (ucast w)" by simp
  moreover have "to_string_u w \<noteq> []" by (simp add: to_string_u_def)
  ultimately show ?thesis by (simp add: stoul_safe_ep_def ucast_word32)
qed

lemma order_report_target:
  "mRTargetCompId (execution_of ord action) = stoul_safe_ep (mClientId ord)"
  by (simp add: execution_of_def Let_def)



text \<open>
  After a restart a report can go to a stranger. Connections are numbered from 1 again, while
  a reloaded order still carries the number of the connection it was placed over: a report on an
  order placed over connection 1 is sent to the first peer that connects, which has not logged on.
\<close>

theorem restart_sends_reports_to_a_stranger:
  assumes "mClientId ord = ''1''" and "s = accept_connection (init_server seqRepo c)"
  shows "getSessionState 1 (mSessionManager s) = None \<and>
     wire_log (dispatch E (OutReport (execution_of ord action)) s) =
       [Sent 1 (ExecutionReportToBinary (wall E 0) (execution_of ord action) 1)]"
proof -
  have one: "stoul_safe_ep ''1'' = 1" by code_simp
  show ?thesis
    by (simp add: assms one onExecutionReport_def order_report_target sendExecutionReport_def
        send_numbered_def Let_def doWrite_def accept_connection_def registerSession_def init_server_def
        init_manager_def getSessionState_def useNextOutboundSequence_def)
qed

theorem restart_sends_reports_to_a_stranger_demo:
  "wire_log (dispatch demo_fix_env (OutReport (execution_of (demo_low\<lparr>mClientId := ''1''\<rparr>) ''CANCELED''))
     (accept_connection (init_server True demo_core))) =
   [Sent 1 (ExecutionReportToBinary 0 (execution_of (demo_low\<lparr>mClientId := ''1''\<rparr>) ''CANCELED'') 1)]"
  using restart_sends_reports_to_a_stranger [of "demo_low\<lparr>mClientId := ''1''\<rparr>" _ True demo_core demo_fix_env "''CANCELED''"]
  by (simp add: demo_fix_env_def)

end
