(* ===== verification/FixSearch.thy ===== *)
theory FixSearch
  imports FixWireProperties FixFields
begin

text \<open>
  Searching a message for \<open>tag=\<close> as plain text, the way both sides do it in places: what the
  searches read of a built message whose names contain no equals sign.
\<close>

lemma text_value_at:
  assumes "find s pat 0 = Some (length pre)" and s: "s = pre @ pat @ v @ SOH # rest"
    and "SOH \<notin> set pat" "SOH \<notin> set v"
  shows "text_value s pat = Some v"
proof -
  have "find_from_start [SOH] ((pat @ v) @ SOH # rest) = Some (length (pat @ v))"
    by (rule find_char_app) (use assms in auto)
  then have "find_char s SOH (length pre) = Some (length pre + length (pat @ v))"
    by (simp add: find_char_def find_def s)
  then show ?thesis
    using assms(1) by (simp add: text_value_def find_text_def value_between_def s)
qed

text \<open>The value behind the first field with a tag, found by searching for the tag's number.\<close>

lemma text_value_field:
  assumes s: "s = fields_text fs @ field t v @ rest" and tt: "tt = to_string_i (tag_no t)"
    and "plain_fields fs" "list_all (\<lambda>(t', v). \<not> tag_ends tt t') fs" "SOH \<notin> set v"
  shows "text_value s (tt @ ''='') = Some v"
proof (rule text_value_at)
  have clean: "SOH \<notin> set tt" "CHR ''='' \<notin> set tt" using plain_numbers(4) by (simp_all add: tt plain_def)
  have "find_from_start (tt @ ''='') (fields_text fs @ tt @ CHR ''='' # v @ SOH # rest) = Some (length (fields_text fs))"
    using find_behind_fields(1) [of "[]" tt fs "[]" "v @ SOH # rest"] assms(3,4) clean by simp
  then show "find s (tt @ ''='') 0 = Some (length (fields_text fs))"
    by (simp add: s find_def field_def tt)
  show "SOH \<notin> set (tt @ ''='')" using clean by (simp add: SOH_eq)
qed (use assms in \<open>simp_all add: field_def\<close>)

text \<open>What the server's plain searches read of a built message.\<close>

lemma built_searches:
  assumes "plain sender" "plain target" "plain msgType"
  shows "message_seq_num (buildMessage now sender target n msgType body) = Inr n"
    and "text_or_empty (buildMessage now sender target n msgType body) ''49='' = sender"
proof -
  let ?m = "buildMessage now sender target n msgType body"
  let ?head = "[(BeginString, ''FIX.4.4''),
      (BodyLength, dec (length (built_payload now sender target n msgType body))), (MsgType, msgType)]"
  let ?tail = "field SendingTime (generateTimestamp now) @ body
      @ field CheckSum (pad0 3 (to_string_i (builder_checksum (built_text now sender target n msgType body))))"
  have head: "plain_fields ?head" using assms by (simp add: SOH_eq)
  have "text_value ?m (''49'' @ ''='') = Some sender"
    by (rule text_value_field [where fs = ?head and t = SenderCompID])
      (use head assms in \<open>simp_all add: buildMessage_fields tag_texts tag_ends_iff plain_def\<close>)
  then show "text_or_empty ?m ''49='' = sender" by (simp add: text_or_empty_def)
  have "text_value ?m (''34'' @ ''='') = Some (to_string_u n)"
    by (rule text_value_field [where fs = "?head @ [(SenderCompID, sender), (TargetCompID, target)]" and t = MsgSeqNum
          and rest = ?tail])
      (use head assms in \<open>simp_all add: buildMessage_fields tag_texts tag_ends_iff\<close>)
  moreover have "stoul (to_string_u n) = Inr (ucast n)"
  proof -
    have "to_string_u n = to_string_u (ucast n :: u64)" unfolding to_string_u_def by transfer simp
    then show ?thesis by simp
  qed
  moreover have "ucast (ucast n :: u64) = n" by transfer simp
  ultimately show "message_seq_num ?m = Inr n" by (simp add: message_seq_num_def)
qed

end
