(* ===== verification/ClientParser.thy ===== *)
theory ClientParser
  imports FixConverters
begin

text \<open>
  \<open>client_fix/FixMessageParser\<close>: what the client reads of the messages of the exchange. The
  enum classes of the market data structs have \<open>char\<close> as underlying type and are cast from
  the wire, so their members are characters here, 0 after value-initialisation.
\<close>

subsection \<open>Results\<close>

record client_entry =
  ce_updateAction :: char
  ce_entryType :: char
  ce_price :: dbl
  ce_size :: u64
  ce_entryPosition :: u32

definition new_entry :: client_entry where
  "new_entry = \<lparr>ce_updateAction = CHR 0x00, ce_entryType = CHR 0x00, ce_price = Fin 0, ce_size = 0,
     ce_entryPosition = 0\<rparr>"

record client_snapshot =
  cs_mdReqID :: string
  cs_symbol :: instrument
  cs_entries :: "client_entry list"

text \<open>The symbol of a refresh is set by its entries; \<open>None\<close> is the indeterminate value.\<close>

record client_refresh =
  cr_mdReqID :: string
  cr_symbol :: "instrument option"
  cr_entries :: "client_entry list"

datatype parsed_message =
    Unhandled
  | ParsedReport execution_report
  | ParsedSnapshot client_snapshot
  | ParsedRefresh client_refresh

subsection \<open>Execution reports\<close>

definition get_str :: "(int \<rightharpoonup> string) \<Rightarrow> tag \<Rightarrow> string" where
  "get_str m t = (case m (tag_no t) of None \<Rightarrow> [] | Some v \<Rightarrow> v)"

text \<open>\<open>s[0]\<close> of a \<open>std::string\<close> is the terminating zero when it is empty.\<close>

fun first_char :: "string \<Rightarrow> char" where
  "first_char [] = CHR 0x00"
| "first_char (c # cs) = c"

definition charToStatus :: "char \<Rightarrow> exn + order_status" where
  "charToStatus c =
     (if c = CHR ''0'' then Inr New else if c = CHR ''1'' then Inr PartiallyFilled
      else if c = CHR ''2'' then Inr Filled else if c = CHR ''4'' then Inr Cancelled
      else if c = CHR ''8'' then Inr Rejected else Inl InvalidArgument)"

definition report_of_map :: "(int \<Rightarrow> int) \<Rightarrow> (int \<rightharpoonup> string) \<Rightarrow> exn + execution_report" where
  "report_of_map zone m =
     bind_exn (stoull (get_str m MsgSeqNum)) (\<lambda>seq.
     bind_exn (stoull (get_str m OrderID)) (\<lambda>exchangeOrderId.
     bind_exn (charToStatus (first_char (get_str m OrdStatus))) (\<lambda>status.
     bind_exn (instrument_from_string (get_str m SymbolTag)) (\<lambda>symbol.
     bind_exn (charToOrderSide (first_char (get_str m Side))) (\<lambda>side.
     bind_exn (stoull (get_str m OrderQty)) (\<lambda>orderQty.
     bind_exn (stoull (get_str m CumQty)) (\<lambda>cumQty.
     bind_exn (stoull (get_str m LeavesQty)) (\<lambda>leavesQty.
     bind_exn (if get_str m LastPx = [] then Inr (Fin 0) else stod (get_str m LastPx)) (\<lambda>lastPrice.
     bind_exn (if get_str m LastQty = [] then Inr 0 else stoull (get_str m LastQty)) (\<lambda>lastQty.
     bind_exn (parseTimestamp zone (get_str m TransactTime)) (\<lambda>t.
     Inr \<lparr>mRSenderCompId = 0, mRTargetCompId = 0, mMessageSequenceNumber = seq,
          mExchangeOrderId = exchangeOrderId, mRClientOrderId = get_str m ClOrdID,
          mExecutionId = get_str m ExecID, mStatus = status, mText = get_str m Text,
          mRSymbol = symbol, mSide = side, mOrderQuantity = orderQty, mCumulativeQuantity = cumQty,
          mLeavesQuantity = leavesQty, mLastPrice = lastPrice, mLastQuantity = lastQty,
          mTransactionTime = t\<rparr>)))))))))))"

definition parseExecutionReport :: "(int \<Rightarrow> int) \<Rightarrow> string \<Rightarrow> execution_report option" where
  "parseExecutionReport zone fixMessage =
     catch_exn (bind_exn (splitToMap fixMessage SOH) (report_of_map zone))"

subsection \<open>Market data\<close>

text \<open>The common fields of an entry, when the block has them.\<close>

definition opt_field :: "(int \<rightharpoonup> string) \<Rightarrow> tag \<Rightarrow> (string \<Rightarrow> 'a \<Rightarrow> exn + 'a) \<Rightarrow> 'a \<Rightarrow> exn + 'a" where
  "opt_field m t f x = (case m (tag_no t) of None \<Rightarrow> Inr x | Some v \<Rightarrow> f v x)"

definition set_price :: "string \<Rightarrow> client_entry \<Rightarrow> exn + client_entry" where
  "set_price v x = bind_exn (stod v) (\<lambda>p. Inr (x\<lparr>ce_price := p\<rparr>))"

definition set_size :: "string \<Rightarrow> client_entry \<Rightarrow> exn + client_entry" where
  "set_size v x = bind_exn (stoull v) (\<lambda>q. Inr (x\<lparr>ce_size := q\<rparr>))"

definition set_position :: "string \<Rightarrow> client_entry \<Rightarrow> exn + client_entry" where
  "set_position v x = bind_exn (stoi v) (\<lambda>p. Inr (x\<lparr>ce_entryPosition := word_of_int p\<rparr>))"

definition common_fields :: "(int \<rightharpoonup> string) \<Rightarrow> client_entry \<Rightarrow> exn + client_entry" where
  "common_fields m x =
     bind_exn (opt_field m MDEntryPx set_price x) (\<lambda>x1.
     bind_exn (opt_field m MDEntrySize set_size x1) (opt_field m MDEntryPositionNo set_position))"

text \<open>
  The loop over a repeating group whose entries start with the field \<open>lead\<close>: the character
  behind the next \<open>lead\<close> (if there is one), and the block up to the one after it, which
  \<open>f\<close> reads.
\<close>

definition next_lead :: "string \<Rightarrow> string \<Rightarrow> nat \<Rightarrow> char option \<times> nat" where
  "next_lead lead msgView pos = (case find msgView lead pos of
      None \<Rightarrow> (None, pos)
    | Some p \<Rightarrow> (Some (first_char (drop (p + 4) msgView)), p + 6))"

fun group_loop ::
  "string \<Rightarrow> string \<Rightarrow> (char option \<Rightarrow> (int \<rightharpoonup> string) \<Rightarrow> 'm \<Rightarrow> exn + 'm) \<Rightarrow> nat \<Rightarrow> nat \<Rightarrow> 'm \<Rightarrow> exn + 'm"
  where
  "group_loop lead msgView f 0 pos msg = Inr msg"
| "group_loop lead msgView f (Suc n) pos msg =
     (let (c, pos1) = next_lead lead msgView pos;
          next = (case find msgView lead pos1 of None \<Rightarrow> length msgView | Some p \<Rightarrow> p)
      in bind_exn (substr msgView pos1 (next - pos1)) (\<lambda>blockStr.
         bind_exn (splitToMap blockStr SOH) (\<lambda>blockMap.
         bind_exn (f c blockMap msg) (group_loop lead msgView f n next))))"

text \<open>Both parsers: the number of entries, the place where the group starts, the loop.\<close>

definition parse_group ::
  "string \<Rightarrow> (char option \<Rightarrow> (int \<rightharpoonup> string) \<Rightarrow> 'm \<Rightarrow> exn + 'm) \<Rightarrow> (int \<rightharpoonup> string) \<Rightarrow> string \<Rightarrow> 'm \<Rightarrow> exn + 'm"
  where
  "parse_group lead f tagMap fixMessage msg =
     (let noMdEntriesStr = get_str tagMap NoMDEntries in
      if noMdEntriesStr = [] then Inr msg
      else bind_exn (stoi noMdEntriesStr) (\<lambda>noMdEntries.
        let startTag = ''268='' @ noMdEntriesStr @ [SOH] in
        case find fixMessage startTag 0 of
          None \<Rightarrow> Inr msg
        | Some pos \<Rightarrow> group_loop lead fixMessage f (nat noMdEntries) (pos + length startTag) msg))"

definition snapshot_entry ::
  "char option \<Rightarrow> (int \<rightharpoonup> string) \<Rightarrow> client_snapshot \<Rightarrow> exn + client_snapshot" where
  "snapshot_entry c m msg =
     bind_exn (common_fields m (case c of None \<Rightarrow> new_entry | Some t \<Rightarrow> new_entry\<lparr>ce_entryType := t\<rparr>))
       (\<lambda>x. Inr (msg\<lparr>cs_entries := cs_entries msg @ [x]\<rparr>))"

definition parseMarketDataSnapshot :: "string \<Rightarrow> client_snapshot option" where
  "parseMarketDataSnapshot fixMessage = catch_exn
     (bind_exn (splitToMap fixMessage SOH) (\<lambda>tagMap.
      bind_exn (instrument_from_string (get_str tagMap SymbolTag)) (\<lambda>symbol.
      parse_group ''269='' snapshot_entry tagMap fixMessage
        \<lparr>cs_mdReqID = get_str tagMap MDReqID, cs_symbol = symbol, cs_entries = []\<rparr>)))"

definition refresh_entry ::
  "char option \<Rightarrow> (int \<rightharpoonup> string) \<Rightarrow> client_refresh \<Rightarrow> exn + client_refresh" where
  "refresh_entry c m msg =
     bind_exn (case m (tag_no SymbolTag) of
                 None \<Rightarrow> Inr (cr_symbol msg)
               | Some v \<Rightarrow> bind_exn (instrument_from_string v) (\<lambda>s. Inr (Some s))) (\<lambda>symbol.
     let x = (case c of None \<Rightarrow> new_entry | Some a \<Rightarrow> new_entry\<lparr>ce_updateAction := a\<rparr>);
         x1 = (case m (tag_no MDEntryType) of None \<Rightarrow> x | Some v \<Rightarrow> x\<lparr>ce_entryType := front v\<rparr>)
     in bind_exn (common_fields m x1)
          (\<lambda>x2. Inr (msg\<lparr>cr_symbol := symbol, cr_entries := cr_entries msg @ [x2]\<rparr>)))"

definition parseMarketDataIncremental :: "string \<Rightarrow> client_refresh option" where
  "parseMarketDataIncremental fixMessage = catch_exn
     (bind_exn (splitToMap fixMessage SOH) (\<lambda>tagMap.
      parse_group ''279='' refresh_entry tagMap fixMessage
        \<lparr>cr_mdReqID = get_str tagMap MDReqID, cr_symbol = None, cr_entries = []\<rparr>))"

subsection \<open>Dispatch\<close>

definition checked_map :: "string \<Rightarrow> exn + (int \<rightharpoonup> string) option" where
  "checked_map fixMessage = (case rfind fixMessage checksum_tag of
      None \<Rightarrow> Inr None
    | Some pos \<Rightarrow>
        bind_exn (stoi (drop (pos + length checksum_tag) fixMessage)) (\<lambda>expected.
          if unsigned_checksum (take (pos + 1) fixMessage) \<noteq> word_of_int expected then Inr None
          else bind_exn (splitToMap fixMessage SOH) (\<lambda>m. Inr (Some m))))"

definition parse_message :: "(int \<Rightarrow> int) \<Rightarrow> string \<Rightarrow> parsed_message" where
  "parse_message zone fixMessage = (case catch_null (checked_map fixMessage) of
      None \<Rightarrow> Unhandled
    | Some m \<Rightarrow> (case m (tag_no MsgType) of
        Some (msgType # _) \<Rightarrow>
          if msgType = CHR ''8''
          then (case parseExecutionReport zone fixMessage of None \<Rightarrow> Unhandled | Some r \<Rightarrow> ParsedReport r)
          else if msgType = CHR ''W''
          then (case parseMarketDataSnapshot fixMessage of None \<Rightarrow> Unhandled | Some r \<Rightarrow> ParsedSnapshot r)
          else if msgType = CHR ''X''
          then (case parseMarketDataIncremental fixMessage of None \<Rightarrow> Unhandled | Some r \<Rightarrow> ParsedRefresh r)
          else Unhandled
      | _ \<Rightarrow> Unhandled))"

end
