(* ===== verification/DecimalText.thy ===== *)
theory DecimalText
  imports FixText
begin

text \<open>
  A price printed with a fixed number of decimals and read back with \<open>std::stod\<close>.
\<close>

subsection \<open>Decimals\<close>

lemma tolower_digit: "isdigit c \<Longrightarrow> tolower c = c"
  by (simp add: tolower_def isdigit_def)

lemma mantissa_digits:
  assumes "\<forall>c\<in>set ds. isdigit c" "\<forall>c\<in>set fs. isdigit c"
  shows "mantissa isdigit (ds @ CHR ''.'' # fs) = (ds, fs, [])"
proof -
  have "takeWhile isdigit (ds @ CHR ''.'' # fs) = ds" "dropWhile isdigit (ds @ CHR ''.'' # fs) = CHR ''.'' # fs"
    using assms(1) by (simp_all add: takeWhile_append2 dropWhile_append2)
  moreover have "takeWhile isdigit fs = fs" "dropWhile isdigit fs = []"
    using assms(2) by (simp_all add: takeWhile_eq_all_conv dropWhile_eq_Nil_conv)
  ultimately show ?thesis by (simp add: mantissa_def)
qed

lemma parse_decimal:
  assumes ds: "\<forall>c\<in>set ds. isdigit c" "ds \<noteq> []" and fs: "\<forall>c\<in>set fs. isdigit c"
  shows "parse_unsigned_float (ds @ CHR ''.'' # fs) =
     Some (FNum (of_nat (digits_val 0 (ds @ fs)) / 10 ^ length fs))"
proof -
  obtain c cs where c: "ds = c # cs" using ds(2) by (cases ds) auto
  let ?l = "map tolower (ds @ CHR ''.'' # fs)"
  have low: "?l = ds @ CHR ''.'' # fs"
  proof (rule map_idI)
    fix x assume "x \<in> set (ds @ CHR ''.'' # fs)"
    then have "isdigit x \<or> x = CHR ''.''" using ds(1) fs by auto
    then show "tolower x = x"
      by (elim disjE) (simp add: tolower_digit, simp add: tolower_def byte_def)
  qed
  have d: "isdigit c" using ds(1) c by simp
  have "c \<noteq> CHR ''i''" "c \<noteq> CHR ''n''" using d by (auto simp: isdigit_def byte_def)
  then have "\<not> starts_with ''inf'' ?l" "\<not> starts_with ''nan'' ?l" unfolding low by (simp_all add: c)
  moreover have "\<not> starts_with ''0x'' ?l"
  proof (cases cs)
    case (Cons d' ds')
    then have "isdigit d'" using ds(1) c by simp
    then have "d' \<noteq> CHR ''x''" by (auto simp: isdigit_def byte_def)
    then show ?thesis unfolding low by (simp add: c Cons)
  qed (use low in \<open>simp add: c\<close>)
  ultimately show ?thesis
    using ds(2) by (simp add: parse_unsigned_float_def mantissa_digits [OF ds(1) fs] Let_def exponent_def
        scale_def split: prod.split)
qed

lemma signed_digits:
  assumes "\<forall>c\<in>set ds. isdigit c" "ds \<noteq> []"
  shows "take_sign (dropWhile isspace ((if neg then ''-'' else []) @ ds @ r)) = (neg, ds @ r)"
proof -
  obtain c cs where c: "ds = c # cs" using assms(2) by (cases ds) auto
  have d: "isdigit c" using assms(1) by (simp add: c)
  have "\<not> isspace c" "byte c \<noteq> 45" "byte c \<noteq> 43"
    using isdigit_not_space [OF d] d by (auto simp: isdigit_def)
  moreover have "\<not> isspace (CHR ''-'')" "byte (CHR ''-'') = 45" by (simp_all add: isspace_def byte_def)
  ultimately show ?thesis by (simp add: c take_sign_def)
qed

lemma stod_number:
  "take_sign (dropWhile isspace s) = (neg, r) \<Longrightarrow> parse_unsigned_float r = Some (FNum x) \<Longrightarrow>
   rnd64 x \<noteq> PInf \<Longrightarrow> \<not> underflows x \<Longrightarrow> stod s = Inr (if neg then dneg (rnd64 x) else rnd64 x)"
  by (simp add: stod_def)

text \<open>What \<open>stod\<close> reads of a printed price is the nearest double of the printed decimal.\<close>

definition decimal :: "nat \<Rightarrow> rat \<Rightarrow> rat" where
  "decimal p q = of_int (round_half_even (\<bar>q\<bar> * 10 ^ p)) / 10 ^ p"

lemma round_half_even_nonneg: "0 \<le> q \<Longrightarrow> 0 \<le> round_half_even q"
  by (simp add: round_half_even_def Let_def)

lemma stod_printed:
  assumes "rnd64 (decimal (Suc p) q) \<noteq> PInf" "\<not> underflows (decimal (Suc p) q)"
  shows "stod (print_fixed (Suc p) (Fin q)) =
     Inr (if q < 0 then dneg (rnd64 (decimal (Suc p) q)) else rnd64 (decimal (Suc p) q))"
proof -
  let ?n = "Suc p" and ?k = "nat (round_half_even (\<bar>q\<bar> * 10 ^ Suc p))"
  let ?a = "dec (?k div 10 ^ ?n)" and ?b = "pad0 ?n (dec (?k mod 10 ^ ?n))"
  let ?r = "?a @ CHR ''.'' # ?b"
  have b: "?k mod 10 ^ ?n < 10 ^ ?n" by simp
  note pb = pad0_dec [OF b]
  have "digits_val 0 (?a @ ?b) = digits_val (?k div 10 ^ ?n) ?b"
    by (simp only: digits_val_append digits_val_dec)
  also have "\<dots> = ?k div 10 ^ ?n * 10 ^ ?n + ?k mod 10 ^ ?n"
    by (simp only: digits_val_mono [of "?k div 10 ^ ?n" ?b] pb(1,2))
  finally have val: "digits_val 0 (?a @ ?b) = ?k" by (simp only: div_mult_mod_eq)
  have k: "(of_nat ?k :: rat) = of_int (round_half_even (\<bar>q\<bar> * 10 ^ ?n))"
    by (simp add: round_half_even_nonneg)
  have parse: "parse_unsigned_float ?r = Some (FNum (decimal ?n q))"
    unfolding parse_decimal [OF dec_digits dec_not_Nil pb(3)] val k pb(1) decimal_def by (rule refl)
  have "print_fixed ?n (Fin q) = (if q < 0 then ''-'' else []) @ ?r"
    by (simp add: Let_def)
  then show ?thesis
    using stod_number [OF signed_digits [OF dec_digits dec_not_Nil] parse assms] by (simp only:)
qed

text \<open>A price that is the double next to a decimal of \<open>p\<close> places comes back unchanged.\<close>

fun quotable :: "nat \<Rightarrow> dbl \<Rightarrow> bool" where
  "quotable p (Fin q) = (rnd64 (decimal p q) = Fin \<bar>q\<bar> \<and> \<not> underflows (decimal p q))"
| "quotable p _ = False"

lemma stod_quotable: "quotable (Suc p) x \<Longrightarrow> stod (print_fixed (Suc p) x) = Inr x"
proof (cases x)
  case (Fin q)
  assume "quotable (Suc p) x"
  then have "rnd64 (decimal (Suc p) q) = Fin \<bar>q\<bar>" "\<not> underflows (decimal (Suc p) q)" by (simp_all add: Fin)
  then show ?thesis using stod_printed [of p q] unfolding Fin by (simp del: print_fixed.simps)
qed simp_all

end
