(* ===== verification/CalendarText.thy ===== *)
theory CalendarText
  imports FixConverters
begin

text \<open>
  The time text of \<open>OutboundMessageBuilder\<close> and of the converters read back by
  \<open>FixUtils::parseTimestamp\<close>: the calendar functions invert each other, and so do printing and
  reading, up to the milliseconds and the zone.
\<close>

subsection \<open>Years of an era\<close>

definition year_start :: "int \<Rightarrow> int" where
  "year_start y = 365 * y + y div 4 - y div 100"

definition year_key :: "int \<Rightarrow> int" where
  "year_key doe = doe - doe div 1460 + doe div 36524 - doe div 146096"

definition year_ok :: "int \<Rightarrow> bool" where
  "year_ok y \<longleftrightarrow> (let e = year_start (y + 1) - (if y = 399 then 0 else 1) in
     year_key (year_start y) div 365 = y \<and> year_key e div 365 = y \<and> year_start y \<le> e \<and> e - year_start y \<le> 365 \<and> e \<le> 146096)"

lemma years_ok: "list_all year_ok [0..399]"
  by code_simp

lemma key_step:
  "q' \<le> q + 1 \<Longrightarrow> r \<le> r' \<Longrightarrow> t = 0 \<Longrightarrow> t' = 0 \<Longrightarrow> d - q + r - t \<le> (d + 1) - q' + r' - (t' :: int)"
  by simp

lemma year_key_Suc:
  assumes "0 \<le> d" "d + 1 \<le> 146096"
  shows "year_key d \<le> year_key (d + 1)"
proof (cases "d + 1 = 146096")
  case True
  then have "d = 146095" by simp
  then show ?thesis by (simp add: year_key_def)
next
  case False
  then have "d div 146096 = 0" "(d + 1) div 146096 = 0" using assms by auto
  moreover have "(d + 1) div 1460 \<le> d div 1460 + 1"
  proof -
    have "(d + 1) div 1460 \<le> (d + 1460) div 1460" by (rule zdiv_mono1) simp_all
    also have "\<dots> = d div 1460 + 1" by simp
    finally show ?thesis .
  qed
  moreover have "d div 36524 \<le> (d + 1) div 36524" by (rule zdiv_mono1) simp_all
  ultimately show ?thesis unfolding year_key_def by (intro key_step)
qed

lemma year_key_mono:
  assumes "0 \<le> a" "a \<le> b" "b \<le> 146096"
  shows "year_key a \<le> year_key b"
  using assms(2,3)
proof (induction b rule: int_ge_induct)
  case (step i)
  then show ?case using year_key_Suc [of i] assms(1) by simp
qed simp

lemma year_exists:
  assumes "0 \<le> doe" "doe < year_start n" "0 \<le> n"
  shows "\<exists>y. 0 \<le> y \<and> y < n \<and> year_start y \<le> doe \<and> doe < year_start (y + 1)"
  using assms(3,2)
proof (induction n rule: int_ge_induct)
  case base
  then show ?case using assms(1) by (simp add: year_start_def)
next
  case (step i)
  show ?case
  proof (cases "doe < year_start i")
    case True
    then show ?thesis using step by force
  next
    case False
    then show ?thesis using step.hyps step.prems by (intro exI [of _ i]) simp
  qed
qed

text \<open>The year of the era, and the day of the year, are in range.\<close>

lemma year_of_era:
  assumes "0 \<le> doe" "doe \<le> 146096"
  defines "yoe \<equiv> year_key doe div 365"
  shows "0 \<le> yoe" "yoe < 400" "year_start yoe \<le> doe" "doe - year_start yoe \<le> 365"
proof -
  have "\<exists>y. 0 \<le> y \<and> y < 400 \<and> year_start y \<le> doe \<and>
      doe \<le> year_start (y + 1) - (if y = 399 then 0 else 1)"
  proof (cases "doe = 146096")
    case True
    then show ?thesis by (intro exI [of _ 399]) (simp add: year_start_def)
  next
    case False
    then have "doe < year_start 400" using assms(2) by (simp add: year_start_def)
    from year_exists [OF assms(1) this] obtain y where
      "0 \<le> y" "y < 400" "year_start y \<le> doe" "doe < year_start (y + 1)" by auto
    then show ?thesis by (intro exI [of _ y]) (cases "y = 399"; simp)
  qed
  then obtain y where y: "0 \<le> y" "y < 400" "year_start y \<le> doe"
    "doe \<le> year_start (y + 1) - (if y = 399 then 0 else 1)" by blast
  define e where e: "e = year_start (y + 1) - (if y = 399 then 0 else 1)"
  have ok: "year_ok y" using years_ok y by (simp add: list_all_iff)
  then have in_year: "year_start y \<le> doe" "doe \<le> e" "e \<le> 146096"
    using y by (simp_all add: year_ok_def Let_def e [symmetric])
  have s: "0 \<le> year_start y" using y(1) using zdiv_mono2 [of y 4 100] by (simp add: year_start_def)
  have "year_key (year_start y) \<le> year_key doe" "year_key doe \<le> year_key e"
    using year_key_mono [OF s in_year(1) assms(2)] year_key_mono [OF assms(1) in_year(2,3)] by auto
  then have "year_key (year_start y) div 365 \<le> yoe" "yoe \<le> year_key e div 365"
    by (simp_all add: yoe_def zdiv_mono1)
  then have "yoe = y" using ok by (simp add: year_ok_def Let_def e [symmetric])
  then show "0 \<le> yoe" "yoe < 400" "year_start yoe \<le> doe" "doe - year_start yoe \<le> 365"
    using y in_year ok by (auto simp: year_ok_def Let_def e [symmetric])
qed

text \<open>The two calendar functions invert each other, and the fields are in range.\<close>

lemma civil_days:
  assumes "civil_from_days z = (y, m, d)"
  shows "days_from_civil y m d = z" "1 \<le> m" "m \<le> 12" "1 \<le> d" "d \<le> 31"
    and "y = (z + 719468) div 146097 * 400 + year_key ((z + 719468) mod 146097) div 365
      + (if m \<le> 2 then 1 else 0)"
proof -
  define era where "era = (z + 719468) div 146097"
  define doe where "doe = (z + 719468) mod 146097"
  define yoe where "yoe = year_key doe div 365"
  define doy where "doy = doe - year_start yoe"
  define mp where "mp = (5 * doy + 2) div 153"
  have doe: "0 \<le> doe" "doe \<le> 146096" by (simp_all add: doe_def)
  note yoe = year_of_era [OF doe, folded yoe_def]
  have doy: "0 \<le> doy" "doy \<le> 365" using yoe(3,4) by (simp_all add: doy_def)
  have mp: "0 \<le> mp" "mp \<le> 11" "153 * mp \<le> 5 * doy + 2" "5 * doy + 2 < 153 * mp + 153"
    unfolding mp_def using doy by auto
  have "civil_from_days z = ((if (if mp < 10 then mp + 3 else mp - 9) \<le> 2 then 1 else 0) + yoe + 400 * era,
      (if mp < 10 then mp + 3 else mp - 9), doy - (153 * mp + 2) div 5 + 1)"
    unfolding civil_from_days_def Let_def era_def [symmetric] doe_def [symmetric] mp_def doy_def yoe_def
      year_start_def year_key_def
    by (simp add: algebra_simps)
  then have m: "m = (if mp < 10 then mp + 3 else mp - 9)" and y: "y = (if m \<le> 2 then 1 else 0) + yoe + 400 * era"
    and d: "d = doy - (153 * mp + 2) div 5 + 1"
    using assms by auto
  show "1 \<le> m" "m \<le> 12" using m mp(1,2) by auto
  show "1 \<le> d" "d \<le> 31" using d mp(3,4) by linarith+
  have "(if m > 2 then m - 3 else m + 9) = mp" using m mp(1,2) by auto
  moreover have "(if m \<le> 2 then y - 1 else y) = era * 400 + yoe" using y by auto
  moreover have "(era * 400 + yoe) div 400 = era" "(era * 400 + yoe) mod 400 = yoe" using yoe(1,2) by auto
  moreover have "era * 146097 + doe = z + 719468" by (simp add: era_def doe_def)
  ultimately show "days_from_civil y m d = z"
    unfolding days_from_civil_def Let_def d by (simp add: doy_def year_start_def)
  show "y = (z + 719468) div 146097 * 400 + year_key ((z + 719468) mod 146097) div 365 + (if m \<le> 2 then 1 else 0)"
    using y by (simp add: era_def yoe_def doe_def)
qed

lemma timegm_gmtime: "timegm (gmtime t) = t"
proof -
  obtain y m d where c: "civil_from_days (t div 86400) = (y, m, d)" by (rule prod_cases3)
  define s where "s = t mod 86400"
  have s: "s div 3600 * 3600 + s div 60 mod 60 * 60 + s mod 60 = s"
  proof -
    have "s div 60 div 60 = s div 3600" using zdiv_zmult2_eq [of 60 s 60] by simp
    then show ?thesis using div_mult_mod_eq [of s 60] div_mult_mod_eq [of "s div 60" 60] by linarith
  qed
  have "gmtime t = (y, m, d, s div 3600, s div 60 mod 60, s mod 60)"
    unfolding gmtime_def Let_def c by (simp only: prod.case s_def)
  then have "timegm (gmtime t) = t div 86400 * 86400 + (s div 3600 * 3600 + s div 60 mod 60 * 60 + s mod 60)"
    using civil_days(1) [OF c] unfolding timegm_def by (simp only: prod.case)
  also have "\<dots> = t" unfolding s unfolding s_def by (rule div_mult_mod_eq)
  finally show ?thesis .
qed

subsection \<open>Printing and reading a time\<close>

lemma get_num_digits:
  assumes "\<forall>c\<in>set ds. isdigit c" "length ds = n" "lo \<le> int (digits_val 0 ds)" "int (digits_val 0 ds) \<le> hi"
  shows "get_num n lo hi (ds @ rest) = Some (int (digits_val 0 ds), rest)"
  using assms by (simp add: get_num_def list_all_iff)

lemma get_two:
  assumes "0 \<le> x" "x < 100" "lo \<le> x" "x \<le> hi"
  shows "get_num 2 lo hi (two_digits x @ rest) = Some (x, rest)"
proof -
  have small: "nat x < 10 ^ Suc 1" using assms(2) by simp
  have p: "two_digits x = pad0 (Suc 1) (dec (nat x))" by (simp add: two_digits_def numeral_2_eq_2)
  show ?thesis
    using get_num_digits [OF pad0_dec(3) [OF small] pad0_dec(1) [OF small], of lo hi rest] pad0_dec(2) [OF small] assms
    by (simp add: p numeral_2_eq_2)
qed

lemma length_dec_ge: "10 ^ k \<le> n \<Longrightarrow> Suc k \<le> length (dec n)"
proof (induction k arbitrary: n)
  case (Suc k)
  then have "10 ^ k \<le> n div 10" by (simp add: less_eq_div_iff_mult_less_eq mult.commute)
  moreover have "10 * 1 \<le> 10 * (10 :: nat) ^ k" by (intro mult_left_mono) simp_all
  then have "\<not> n < 10" using Suc.prems unfolding power_Suc by linarith
  ultimately show ?case using Suc.IH [of "n div 10"] by (subst dec.simps) simp
qed (simp add: Suc_le_eq)

lemma length_year: "1000 \<le> y \<Longrightarrow> y \<le> 9999 \<Longrightarrow> length (dec (nat y)) = 4"
  using length_dec [of "nat y" 3] length_dec_ge [of 3 "nat y"] by (simp add: nat_less_iff le_nat_iff)

lemma get_year:
  assumes "1000 \<le> y" "y \<le> 9999"
  shows "get_num 4 0 9999 (dropWhile isspace (to_string_i y @ rest)) = Some (y, rest)"
proof -
  have y: "to_string_i y = dec (nat y)" using assms by (simp add: to_string_i_nonneg)
  obtain c cs where c: "dec (nat y) = c # cs" using dec_not_Nil by (cases "dec (nat y)") blast+
  have "isdigit c" using dec_digits [of "nat y"] unfolding c by simp
  then have d: "dropWhile isspace (dec (nat y) @ rest) = dec (nat y) @ rest"
    using isdigit_not_space unfolding c by simp
  have "length (dec (nat y)) = 4" using assms by (rule length_year)
  from get_num_digits [OF dec_digits this, of 0 9999 rest] show ?thesis
    using assms unfolding y d by (simp add: digits_val_dec)
qed

lemma length_two_digits: "0 \<le> x \<Longrightarrow> x < 100 \<Longrightarrow> length (two_digits x) = 2"
  using pad0_dec(1) [of "nat x" 1] by (simp add: two_digits_def numeral_2_eq_2)

text \<open>A time in the year range of four digits.\<close>

definition printable_time :: "tm \<Rightarrow> bool" where
  "printable_time t = (case t of (y, m, d, hh, mm, ss) \<Rightarrow>
     1000 \<le> y \<and> y \<le> 9999 \<and> 1 \<le> m \<and> m \<le> 12 \<and> 1 \<le> d \<and> d \<le> 31 \<and>
     0 \<le> hh \<and> hh \<le> 23 \<and> 0 \<le> mm \<and> mm \<le> 59 \<and> 0 \<le> ss \<and> ss \<le> 59)"

lemma get_put_time:
  assumes "printable_time t"
  shows "get_time (put_time t) = Some t" "length (put_time t) = 17"
proof -
  obtain y m d hh mm ss where t: "t = (y, m, d, hh, mm, ss)" by (cases t) blast
  note b = assms [unfolded printable_time_def t prod.case]
  have year: "get_num 4 0 9999 (dropWhile isspace (put_time t)) =
      Some (y, two_digits m @ two_digits d @ ''-'' @ put_clock t)"
    using get_year [of y] b unfolding put_time_def t by simp
  have ss: "get_num 2 0 60 (two_digits ss) = Some (ss, [])" using get_two [of ss 0 60 "[]"] b by simp
  show "get_time (put_time t) = Some t"
    unfolding get_time_def year using b ss
    by (simp add: get_two t put_clock_def get_lit_def)
  have "length (to_string_i y) = 4"
    using length_year [of y] b by (simp add: to_string_i_nonneg)
  then show "length (put_time t) = 17"
    using b by (simp add: put_time_def put_clock_def t length_two_digits)
qed

lemma gmtime_printable:
  assumes "0 \<le> t" "t < 9300000000"
  shows "printable_time (gmtime t)"
proof -
  obtain y m d where c: "civil_from_days (t div 86400) = (y, m, d)" by (rule prod_cases3)
  define n where "n = t div 86400 + 719468"
  have n: "719468 \<le> n" "n \<le> 827106" using assms by (auto simp: n_def)
  then have "4 \<le> n div 146097" "n div 146097 \<le> 5" by linarith+
  moreover have "0 \<le> year_key (n mod 146097) div 365" "year_key (n mod 146097) div 365 < 400"
    using year_of_era [of "n mod 146097"] by auto
  ultimately have "1000 \<le> y" "y \<le> 9999"
    using civil_days(6) [OF c, folded n_def] by (auto split: if_splits)
  moreover have "0 \<le> t mod 86400" "t mod 86400 < 86400" by simp_all
  then have "t mod 86400 div 3600 \<le> 23" "0 \<le> t mod 86400 div 3600" by linarith+
  ultimately show ?thesis
    using civil_days(2-5) [OF c] unfolding gmtime_def Let_def c printable_time_def by (auto simp del: mod_mod_trivial)
qed

subsection \<open>Milliseconds, and the whole text\<close>

lemma tdiv_nonneg: "0 \<le> a \<Longrightarrow> 0 < b \<Longrightarrow> tdiv a b = a div b"
  by (simp add: tdiv_def)

lemma trem_nonneg: "0 \<le> a \<Longrightarrow> 0 < b \<Longrightarrow> trem a b = a mod b"
  by (simp add: trem_def tdiv_nonneg minus_mult_div_eq_mod)

lemma no_dot_digits: "\<forall>c\<in>set ds. isdigit c \<Longrightarrow> CHR ''.'' \<notin> set ds"
  using isdigit_chars(3) by blast

lemma no_dot_time: "printable_time t \<Longrightarrow> CHR ''.'' \<notin> set (put_time t)"
  using no_dot_digits [OF dec_digits]
  by (cases t) (auto simp: put_time_def put_clock_def two_digits_def pad0_def printable_time_def to_string_i_nonneg)

text \<open>
  A time of the years the 64-bit clock can hold is printed in UTC and read as local time: what
  comes back is the time to the millisecond, shifted by the zone.
\<close>

lemma parse_printed_time:
  assumes "0 \<le> ts" "ts < 2 ^ 63"
  shows "parseTimestamp tz (timestampToString ts) =
     Inr (to_ns (ts div 1000000000 - tz (ts div 1000000000)) (ts div 1000000 mod 1000))"
proof -
  let ?t = "ts div 1000000000" and ?ms = "ts div 1000000 mod 1000"
  let ?ds = "pad0 3 (to_string_i ?ms)"
  have t: "0 \<le> ?t" "?t < 9300000000" using assms by auto
  note pt = get_put_time [OF gmtime_printable [OF t]]
  have printed: "timestampToString ts = put_time (gmtime ?t) @ CHR ''.'' # ?ds"
    using assms(1) by (simp add: timestampToString_def time_text_def tdiv_nonneg trem_nonneg pos_imp_zdiv_nonneg_iff)
  have ms: "0 \<le> ?ms" "?ms < 1000" by simp_all
  then have small: "nat ?ms < 10 ^ Suc 2" by simp
  have p: "?ds = pad0 (Suc 2) (dec (nat ?ms))" using ms by (simp add: to_string_i_nonneg eval_nat_numeral)
  have "?ds \<noteq> []" using pad0_dec(1) [OF small] by (auto simp: p)
  then have milli: "stoi ?ds = Inr ?ms"
    using stoi_digits [of ?ds "[]"] pad0_dec(2,3) [OF small] ms by (simp add: p)
  have "length ?ds = 3" using pad0_dec(1) [OF small] by (simp add: p)
  then have "substr (timestampToString ts) (17 + 1) 3 = Inr ?ds"
    unfolding printed by (simp add: substr_def pt(2))
  moreover have "find_char (timestampToString ts) (CHR ''.'') 0 = Some 17"
    unfolding printed using find_char_before [OF no_dot_time [OF gmtime_printable [OF t]]] pt(2) by simp
  moreover have "take 17 (timestampToString ts) = put_time (gmtime ?t)" unfolding printed by (simp add: pt(2))
  ultimately show ?thesis
    using pt(1) milli by (simp add: parseTimestamp_def mktime_def timegm_gmtime)
qed

lemma sint_small: "0 \<le> x \<Longrightarrow> x < 2 ^ 63 \<Longrightarrow> sint (word_of_int x :: u64) = x"
  by transfer (simp add: signed_take_bit_int_eq_self)

lemma parse_printed_utc:
  assumes "0 \<le> ts" "ts < 2 ^ 63"
  shows "parseTimestamp (\<lambda>_. 0) (timestampToString ts) = Inr (ts - ts mod 1000000)"
proof -
  have "ts div 1000000 div 1000 = ts div 1000000000" using zdiv_zmult2_eq [of 1000 ts 1000000] by simp
  then have "ts div 1000000000 * 1000 + ts div 1000000 mod 1000 = ts div 1000000"
    using div_mult_mod_eq [of "ts div 1000000" 1000] by simp
  then have n: "ts div 1000000000 * 1000000000 + ts div 1000000 mod 1000 * 1000000 = ts - ts mod 1000000"
    using div_mult_mod_eq [of ts 1000000] by linarith
  have b: "0 \<le> ts - ts mod 1000000" "ts - ts mod 1000000 < 2 ^ 63" using assms by (simp_all add: zmod_le_nonneg_dividend)
  show ?thesis unfolding parse_printed_time [OF assms] to_ns_def by (simp only: diff_zero n sint_small [OF b])
qed
end
