(* ===== verification/ClientWire.thy ===== *)
theory ClientWire
  imports FixOrderProperties FixSearch ClientParser DecimalText CalendarText
begin

text \<open>
  What the client reads of the messages of the exchange: the message a converter seals passes
  the checksum test of the parser, and an execution report arrives with its fields.
\<close>

subsection \<open>Sealed messages\<close>

definition sealed_text :: "string \<Rightarrow> fields \<Rightarrow> string" where
  "sealed_text bs fs = field BeginString bs @ field BodyLength (dec (length (fields_text fs))) @ fields_text fs"

definition sealed_map :: "string \<Rightarrow> fields \<Rightarrow> int \<rightharpoonup> string" where
  "sealed_map bs fs = (fields_map fs [8 \<mapsto> bs, 9 \<mapsto> dec (length (fields_text fs))])
     (10 \<mapsto> pad0 3 (to_string_u (unsigned_checksum (sealed_text bs fs))))"

lemma seal_fields:
  "seal bs (fields_text fs) =
     sealed_text bs fs @ field CheckSum (pad0 3 (to_string_u (unsigned_checksum (sealed_text bs fs))))"
  by (simp add: seal_def sealed_text_def Let_def)

lemma sealed_text_last: "\<exists>ys. sealed_text bs fs = ys @ [SOH]"
proof -
  obtain ys where "field BodyLength (dec (length (fields_text fs))) @ fields_text fs = ys @ [SOH]"
    using fields_text_last by blast
  then show ?thesis by (simp add: sealed_text_def)
qed

lemma unsigned_checksum_read:
  "stoi (pad0 3 (to_string_u (unsigned_checksum t)) @ [SOH]) = Inr (int (unat (unsigned_checksum t)))"
proof -
  let ?k = "unat (unsigned_checksum t)"
  have "?k < 256" by (simp add: unsigned_checksum_eq checksum_eq)
  then have small: "?k < 2 ^ 31" "?k < 10 ^ Suc 2" by (auto elim: less_trans)
  have p: "pad0 3 (to_string_u (unsigned_checksum t)) = pad0 (Suc 2) (dec ?k)"
    by (simp add: to_string_u_def eval_nat_numeral)
  have "pad0 (Suc 2) (dec ?k) \<noteq> []" using pad0_dec(1) [OF small(2)] by auto
  then show ?thesis
    using stoi_digits [of "pad0 (Suc 2) (dec ?k)" "[SOH]"] pad0_dec(2,3) [OF small(2)] small(1)
    by (simp add: p)
qed

lemma checked_map_seal:
  assumes "SOH \<notin> set bs" "clean_fields fs"
  shows "checked_map (seal bs (fields_text fs)) = Inr (Some (sealed_map bs fs))"
    and "splitToMap (seal bs (fields_text fs)) SOH = Inr (sealed_map bs fs)"
proof -
  let ?t = "sealed_text bs fs" and ?m = "seal bs (fields_text fs)"
  let ?cs = "pad0 3 (to_string_u (unsigned_checksum ?t))"
  obtain ys where ys: "?t = ys @ [SOH]" using sealed_text_last by blast
  have ten: "field CheckSum v = ''10='' @ v @ [SOH]" for v
  proof -
    have "to_string_i 10 = ''10''" by code_simp
    then show ?thesis by (simp add: field_def)
  qed
  have m: "?m = ys @ SOH # ''10='' @ ?cs @ [SOH]" unfolding seal_fields ten ys by simp
  have "SOH \<notin> set ?cs" by simp
  then have "rfind ?m checksum_tag = Some (length ys)" unfolding m by (rule rfind_checksum)
  moreover have "drop (length ys + length checksum_tag) ?m = ?cs @ [SOH]"
    unfolding m by (simp add: checksum_tag_def)
  moreover have "take (length ys + 1) ?m = ?t" unfolding m ys by simp
  moreover show split: "splitToMap ?m SOH = Inr (sealed_map bs fs)"
    using assms split_field [of _ CheckSum "[]"] split_rest [of SOH "[]"]
    by (simp add: splitToMap_def seal_fields sealed_text_def split_field split_fields_text sealed_map_def)
  ultimately show "checked_map ?m = Inr (Some (sealed_map bs fs))"
    using unsigned_checksum_read [of ?t] by (simp add: checked_map_def)
qed

subsection \<open>Texts without the delimiter\<close>

lemma SOH_notin_instrument [simp]: "SOH \<notin> set (instrument_to_string i)"
  by (cases i) (simp_all add: instrument_to_string_def symbol_names_def name_at_def SOH_eq)

lemma SOH_notin_timestamp [simp]: "SOH \<notin> set (timestampToString t)"
  using SOH_notin_time [of t] by (simp add: generateTimestamp_def timestampToString_def)

lemma SOH_notin_price [simp]: "SOH \<notin> set (print_fixed p x)"
  by (cases x) (auto simp: Let_def SOH_eq [symmetric], simp_all add: SOH_eq)

lemma SOH_neq_status [simp]: "SOH \<noteq> orderStatusToChar st" "SOH \<noteq> orderSideToChar sd"
  by (cases st; simp add: SOH_eq) (cases sd; simp add: SOH_eq)

subsection \<open>Execution reports\<close>

definition report_fields :: "timestamp \<Rightarrow> execution_report \<Rightarrow> u32 \<Rightarrow> fields" where
  "report_fields now r n =
     [(MsgType, ''8''), (SenderCompID, to_string_u (mRSenderCompId r)),
      (TargetCompID, to_string_u (mRTargetCompId r)), (MsgSeqNum, to_string_u n),
      (SendingTime, timestampToString now), (OrderID, to_string_u (mExchangeOrderId r)),
      (ClOrdID, mRClientOrderId r), (ExecID, mExecutionId r),
      (OrdStatus, [orderStatusToChar (mStatus r)])]
     @ (if mText r = [] then [] else [(Text, mText r)])
     @ [(SymbolTag, instrument_to_string (mRSymbol r)), (Side, [orderSideToChar (mSide r)]),
      (OrderQty, to_string_u (mOrderQuantity r)), (CumQty, to_string_u (mCumulativeQuantity r)),
      (LeavesQty, to_string_u (mLeavesQuantity r)), (LastPx, print_fixed 4 (mLastPrice r)),
      (LastQty, to_string_u (mLastQuantity r)), (TransactTime, timestampToString (mTransactionTime r))]"

lemma report_as_fields:
  "ExecutionReportToBinary now r n = seal ''FIX.4.4'' (fields_text (report_fields now r n))"
  by (simp add: ExecutionReportToBinary_def report_fields_def)

lemma stoull_u32: "stoull (to_string_u (w :: u32)) = Inr (ucast w)"
proof -
  have "to_string_u w = to_string_u (ucast w :: u64)" unfolding to_string_u_def by transfer simp
  then show ?thesis by (simp add: stoull_def)
qed

lemma stoull_to_string [simp]: "stoull (to_string_u (w :: u64)) = Inr w"
  by (simp add: stoull_def)

lemma number_not_Nil [simp]: "to_string_u w \<noteq> []"
  by (simp add: to_string_u_def)

lemma print_fixed_not_Nil [simp]: "print_fixed p x \<noteq> []"
  by (cases x) (simp_all add: Let_def)

lemma char_round_trips [simp]:
  "charToStatus (orderStatusToChar st) = Inr st" "charToOrderSide (orderSideToChar sd) = Inr sd"
  by (cases st; simp add: charToStatus_def) (cases sd; simp add: charToOrderSide_def)

lemma parse_report:
  assumes "SOH \<notin> set (mRClientOrderId r)" "SOH \<notin> set (mExecutionId r)" "SOH \<notin> set (mText r)"
    and price: "stod (print_fixed 4 (mLastPrice r)) = Inr p"
    and time: "parseTimestamp tz (timestampToString (mTransactionTime r)) = Inr t"
  shows "parse_message tz (ExecutionReportToBinary now r n) =
     ParsedReport (r\<lparr>mRSenderCompId := 0, mRTargetCompId := 0, mMessageSequenceNumber := ucast n,
       mLastPrice := p, mTransactionTime := t\<rparr>)"
proof -
  let ?fs = "report_fields now r n" and ?m = "sealed_map ''FIX.4.4'' (report_fields now r n)"
  have "SOH \<notin> set ''FIX.4.4''" by (simp add: SOH_eq)
  moreover have "clean_fields ?fs"
    using assms(1-3) by (simp add: clean_fields_def report_fields_def) (simp add: SOH_eq)
  ultimately have "checked_map (ExecutionReportToBinary now r n) = Inr (Some ?m)"
    and split: "splitToMap (ExecutionReportToBinary now r n) SOH = Inr ?m"
    unfolding report_as_fields by (rule checked_map_seal)+
  moreover have "?m 35 = Some ''8''" by (simp add: sealed_map_def report_fields_def fields_map_def)
  moreover have "report_of_map tz ?m = Inr (r\<lparr>mRSenderCompId := 0, mRTargetCompId := 0,
      mMessageSequenceNumber := ucast n, mLastPrice := p, mTransactionTime := t\<rparr>)"
    using price time
    by (simp add: report_of_map_def get_str_def sealed_map_def report_fields_def fields_map_def stoull_u32)
  ultimately show ?thesis
    by (simp add: parse_message_def catch_null_def parseExecutionReport_def)
qed

text \<open>
  C14: an execution report reaches the client as the engine issued it. The client's parser takes
  the message the exchange built for a report and returns that report with every field
  unchanged, except that the two comp ids become 0, the message carries its sequence number,
  and the time, which the exchange prints in UTC, is read as local time and cut to
  milliseconds. The texts of the report must not contain the delimiter, and the price must be
  the double next to a decimal of four places.
\<close>

theorem report_reaches_the_client:
  assumes "SOH \<notin> set (mRClientOrderId r)" "SOH \<notin> set (mExecutionId r)" "SOH \<notin> set (mText r)"
    and "quotable 4 (mLastPrice r)" and "0 \<le> mTransactionTime r" "mTransactionTime r < 2 ^ 63"
  shows "parse_message tz (ExecutionReportToBinary now r n) =
     ParsedReport (r\<lparr>mRSenderCompId := 0, mRTargetCompId := 0, mMessageSequenceNumber := ucast n,
       mTransactionTime := to_ns (mTransactionTime r div 1000000000 - tz (mTransactionTime r div 1000000000))
         (mTransactionTime r div 1000000 mod 1000)\<rparr>)"
proof -
  have four: "4 = Suc 3" by simp
  have "stod (print_fixed 4 (mLastPrice r)) = Inr (mLastPrice r)"
    using assms(4) unfolding four by (rule stod_quotable)
  from parse_report [OF assms(1-3) this parse_printed_time [OF assms(5,6)]] show ?thesis by simp
qed

theorem report_reaches_the_client_demo:
  "\<exists>r. parse_message (\<lambda>_. 3600) (ExecutionReportToBinary 0 (execution_of (demo_low\<lparr>mTimestamp := 3600000000000\<rparr>) ''NEW'') 7) =
       ParsedReport r \<and>
     mRClientOrderId r = mClientOrderId demo_low \<and> mLastPrice r = Fin 99 \<and> mTransactionTime r = 0"
proof -
  let ?o = "demo_low\<lparr>mTimestamp := 3600000000000\<rparr>"
  let ?r = "execution_of ?o ''NEW''"
  have clean: "SOH \<notin> set (mRClientOrderId ?r)" "SOH \<notin> set (mExecutionId ?r)" "SOH \<notin> set (mText ?r)"
    by code_simp+
  have vals: "mLastPrice ?r = Fin 99" "mTransactionTime ?r = 3600000000000" "mRClientOrderId ?r = mClientOrderId demo_low"
    by (simp_all add: execution_of_def Let_def demo_low_def demo_order_def mk_order_def)
  have "decimal 4 99 = 99" by (simp add: decimal_def round_half_even_def)
  moreover have "rnd64 99 = Fin 99" "\<not> underflows 99" by code_simp+
  ultimately have price: "quotable 4 (mLastPrice ?r)" by (simp add: vals)
  have "to_ns 0 0 = 0" by code_simp
  then show ?thesis
    using report_reaches_the_client [OF clean price, of "\<lambda>_. 3600" 0 7] by (simp add: vals)
qed

end
