(* ===== verification/SeqNumStore.thy ===== *)
theory SeqNumStore
  imports CppFormat
begin

text \<open>
  \<open>client_fix/SeqNumStore\<close>: the two numbers of a client, kept in one line of a text file. The
  state holds the file (\<open>None\<close> when it does not exist) and whether it can be opened for
  writing; every method holds the mutex for its whole body.
\<close>

record seq_store =
  mInSeqNum :: u32
  mOutSeqNum :: u32
  seq_file :: "string option"
  seq_writable :: bool

text \<open>
  \<open>iss >> n\<close> for a \<open>uint32_t\<close>: white space, an optional sign, digits. A value that does not fit
  sets the fail bit; a negative one that fits is negated modulo 2^32.
\<close>

definition extract_u32 :: "string \<Rightarrow> (u32 \<times> string) option" where
  "extract_u32 s =
     (let (neg, r) = take_sign (dropWhile isspace s); ds = takeWhile isdigit r; n = digits_val 0 ds
      in if ds = [] \<or> 2 ^ 32 \<le> int n then None
         else Some (if neg then - of_nat n else of_nat n, dropWhile isdigit r))"

text \<open>The first line of the file; \<open>getline\<close> fails on an empty file.\<close>

definition first_line :: "string \<Rightarrow> string option" where
  "first_line s = (if s = [] then None else Some (takeWhile (\<lambda>c. c \<noteq> CHR 0x0A) s))"

definition save :: "seq_store \<Rightarrow> seq_store" where
  "save s =
     (if seq_writable s
      then s\<lparr>seq_file := Some (to_string_u (mInSeqNum s) @ '' '' @ to_string_u (mOutSeqNum s) @ [CHR 0x0A])\<rparr>
      else s)"

definition read_numbers :: "string option \<Rightarrow> (u32 \<times> u32) option" where
  "read_numbers f = do {
     text \<leftarrow> f;
     line \<leftarrow> first_line text;
     (i, rest) \<leftarrow> extract_u32 line;
     (out, _) \<leftarrow> extract_u32 rest;
     Some (i, out)
   }"

definition load :: "seq_store \<Rightarrow> seq_store" where
  "load s = (case read_numbers (seq_file s) of
      Some (i, out) \<Rightarrow> s\<lparr>mInSeqNum := i, mOutSeqNum := out\<rparr>
    | None \<Rightarrow> save (s\<lparr>mInSeqNum := 1, mOutSeqNum := 1\<rparr>))"

text \<open>The constructor, on the file it finds.\<close>

definition open_store :: "string option \<Rightarrow> bool \<Rightarrow> seq_store" where
  "open_store file writable =
     load \<lparr>mInSeqNum = 1, mOutSeqNum = 1, seq_file = file, seq_writable = writable\<rparr>"

definition getNextTargetSeqNum :: "seq_store \<Rightarrow> u32" where
  "getNextTargetSeqNum s = mInSeqNum s"

definition getNextSenderSeqNum :: "seq_store \<Rightarrow> u32" where
  "getNextSenderSeqNum s = mOutSeqNum s"

definition setSeqNums :: "u32 \<Rightarrow> u32 \<Rightarrow> seq_store \<Rightarrow> seq_store" where
  "setSeqNums inSeq outSeq s = save (s\<lparr>mInSeqNum := inSeq, mOutSeqNum := outSeq\<rparr>)"

definition reset_store :: "seq_store \<Rightarrow> seq_store" where
  "reset_store s = save (s\<lparr>mInSeqNum := 1, mOutSeqNum := 1\<rparr>)"

lemmas store_defs = getNextTargetSeqNum_def getNextSenderSeqNum_def setSeqNums_def reset_store_def save_def

lemma save_simps [simp]:
  "mInSeqNum (save s) = mInSeqNum s" "mOutSeqNum (save s) = mOutSeqNum s" "seq_writable (save s) = seq_writable s"
  by (simp_all add: save_def)

lemma setSeqNums_simps [simp]:
  "mInSeqNum (setSeqNums i out s) = i" "mOutSeqNum (setSeqNums i out s) = out"
  "seq_writable (setSeqNums i out s) = seq_writable s"
  by (simp_all add: setSeqNums_def)

subsection \<open>The file holds the numbers\<close>

lemma isdigit_space [simp]: "\<not> isdigit (CHR '' '')" "\<not> isdigit (CHR 0x0A)" "isspace (CHR '' '')"
  by (simp_all add: isdigit_def isspace_def byte_def)

lemma extract_dec:
  assumes "rest = [] \<or> \<not> isdigit (hd rest)"
  shows "extract_u32 (dec (unat (w :: u32)) @ rest) = Some (w, rest)"
proof -
  let ?ds = "dec (unat w)"
  obtain c cs where c: "?ds = c # cs" using dec_not_Nil by (cases ?ds) blast+
  have digs: "\<forall>x\<in>set ?ds. isdigit x" by (rule dec_digits)
  then have "isdigit c" by (simp add: c)
  then have "dropWhile isspace (?ds @ rest) = ?ds @ rest" and "take_sign (?ds @ rest) = (False, ?ds @ rest)"
    using isdigit_not_space [of c] by (simp_all add: c take_sign_def isdigit_def)
  moreover have "takeWhile isdigit (?ds @ rest) = ?ds" "dropWhile isdigit (?ds @ rest) = rest"
    using digs assms by (cases rest; simp add: takeWhile_append2 dropWhile_append2)+
  moreover have "unat w < 2 ^ LENGTH(32)" by (rule unsigned_less)
  ultimately show ?thesis by (simp add: extract_u32_def digits_val_dec Let_def)
qed

lemma extract_space: "extract_u32 (CHR '' '' # s) = extract_u32 s"
  by (simp add: extract_u32_def)

lemma read_saved:
  "read_numbers (Some (to_string_u i @ '' '' @ to_string_u out @ [CHR 0x0A])) = Some (i, out)"
proof -
  let ?l = "dec (unat i) @ '' '' @ dec (unat out)"
  have "\<forall>c\<in>set ?l. c \<noteq> CHR 0x0A"
    using dec_digits [of "unat i"] dec_digits [of "unat out"] isdigit_space(2) by auto
  then have "takeWhile (\<lambda>c. c \<noteq> CHR 0x0A) (?l @ [CHR 0x0A]) = ?l"
    by (subst takeWhile_append2) auto
  then have line: "first_line (to_string_u i @ '' '' @ to_string_u out @ [CHR 0x0A]) = Some ?l"
    by (simp add: first_line_def to_string_u_def)
  have "extract_u32 ?l = Some (i, '' '' @ dec (unat out))" by (rule extract_dec) simp
  moreover have "extract_u32 ('' '' @ dec (unat out)) = Some (out, [])"
    using extract_dec [of "[]" out] by (simp add: extract_space)
  ultimately show ?thesis using line by (simp add: read_numbers_def)
qed

text \<open>A store whose file reads back what it holds.\<close>

definition store_ok :: "seq_store \<Rightarrow> bool" where
  "store_ok s \<longleftrightarrow> read_numbers (seq_file s) = Some (mInSeqNum s, mOutSeqNum s)"

lemma store_ok_save [intro]: "seq_writable s \<Longrightarrow> store_ok (save s)"
  using read_saved [of "mInSeqNum s" "mOutSeqNum s"] by (simp add: store_ok_def save_def)

lemma store_ok_set [intro]: "seq_writable s \<Longrightarrow> store_ok (setSeqNums i out s)"
  unfolding setSeqNums_def by (rule store_ok_save) simp

lemma open_saved:
  "store_ok s \<Longrightarrow> mInSeqNum (open_store (seq_file s) b) = mInSeqNum s \<and>
     mOutSeqNum (open_store (seq_file s) b) = mOutSeqNum s"
  by (simp add: store_ok_def open_store_def load_def)

end
