(* ===== verification/ClientSession.thy ===== *)
theory ClientSession
  imports ClientParser SeqNumStore
begin

text \<open>
  \<open>client_fix/FixClientSession\<close>: the FIX client. The socket is an open flag; calls of the
  registered callbacks and writes to the open socket are recorded in order. The completions
  of asynchronous operations and the firing of the heartbeat timer are steps. An exception
  that leaves a completion handler is the left value of a step; \<open>None\<close> is undefined behaviour.
\<close>

subsection \<open>State\<close>

datatype client_state = Disconnected | Connecting | Connected | LogonSent | Active | LoggingOut

datatype client_event_type = SessionEvent | RejectEvent | ExecutionEvent | MarketDataEvent | TransportError

record new_order_intent =
  ni_clientOrderId :: string
  ni_symbol :: string
  ni_side :: char
  ni_price :: dbl
  ni_quantity :: int
  ni_orderType :: char
  ni_timeInForce :: char

datatype client_out =
    Wrote string
  | StateChanged client_state
  | EventOut client_event_type string
  | MessageOut parsed_message
  | IntentOut new_order_intent

record client_session =
  cState :: client_state
  cSenderCompId :: string
  cTargetCompId :: string
  cHeartbeatInterval :: int
  cSeqStore :: seq_store
  cReadBuffer :: string
  cSocketOpen :: bool
  cTimerArmed :: bool
  cOut :: "client_out list"
  cReadings :: nat

text \<open>The clock, by number of the reading, and the local time zone.\<close>

record client_env =
  c_wall :: "nat \<Rightarrow> timestamp"
  c_zone :: "int \<Rightarrow> int"

definition init_client :: "string \<Rightarrow> string \<Rightarrow> string option \<Rightarrow> bool \<Rightarrow> client_session" where
  "init_client senderCompId targetCompId file writable =
     \<lparr>cState = Disconnected, cSenderCompId = senderCompId, cTargetCompId = targetCompId,
      cHeartbeatInterval = 30, cSeqStore = open_store file writable, cReadBuffer = [],
      cSocketOpen = False, cTimerArmed = False, cOut = [], cReadings = 0\<rparr>"

subsection \<open>Callbacks, writing, disconnecting\<close>

definition changeState :: "client_state \<Rightarrow> client_session \<Rightarrow> client_session" where
  "changeState newState s = s\<lparr>cState := newState, cOut := cOut s @ [StateChanged newState]\<rparr>"

definition emitEvent :: "client_event_type \<Rightarrow> string \<Rightarrow> client_session \<Rightarrow> client_session" where
  "emitEvent type message s = s\<lparr>cOut := cOut s @ [EventOut type message]\<rparr>"

definition client_write :: "string \<Rightarrow> client_session \<Rightarrow> client_session" where
  "client_write message s = (if cSocketOpen s then s\<lparr>cOut := cOut s @ [Wrote message]\<rparr> else s)"

definition disconnect :: "client_session \<Rightarrow> client_session" where
  "disconnect s =
     (if cState s \<noteq> Disconnected
      then changeState Disconnected (s\<lparr>cTimerArmed := False, cSocketOpen := False\<rparr>)
      else s)"

definition startHeartbeatTimer :: "client_session \<Rightarrow> client_session" where
  "startHeartbeatTimer s = (if cState s \<noteq> Active then s else s\<lparr>cTimerArmed := True\<rparr>)"

text \<open>
  The pattern of every numbered message: take the next sender number, build, store the number
  behind it, write.
\<close>

definition next_out :: "client_session \<Rightarrow> u32" where
  "next_out s = getNextSenderSeqNum (cSeqStore s)"

definition store_next :: "client_session \<Rightarrow> client_session" where
  "store_next s = s\<lparr>cSeqStore := setSeqNums (getNextTargetSeqNum (cSeqStore s)) (next_out s + 1) (cSeqStore s)\<rparr>"

definition write_numbered ::
  "client_env \<Rightarrow> (timestamp \<Rightarrow> u32 \<Rightarrow> string) \<Rightarrow> client_session \<Rightarrow> client_session" where
  "write_numbered E mk s =
     client_write (mk (c_wall E (cReadings s)) (next_out s)) (store_next (s\<lparr>cReadings := cReadings s + 1\<rparr>))"

subsection \<open>Sending\<close>

definition client_connect :: "client_session \<Rightarrow> client_session" where
  "client_connect s = changeState Connecting s"

text \<open>
  The logon. With a reset the message is built a second time, with tag 141, when the first one
  contains \<open>108=\<close>.
\<close>

definition sendLogon :: "client_env \<Rightarrow> int \<Rightarrow> bool \<Rightarrow> client_session \<Rightarrow> client_session" where
  "sendLogon E heartbeatInterval forceReset s =
     (if cState s \<noteq> Connected \<and> cState s \<noteq> Disconnected then s
      else let s1 = (if forceReset then s\<lparr>cSeqStore := reset_store (cSeqStore s)\<rparr> else s);
               s2 = s1\<lparr>cHeartbeatInterval := heartbeatInterval\<rparr>;
               outSeq = next_out s2;
               logonMsg = buildLogon (c_wall E (cReadings s2)) (cSenderCompId s2) (cTargetCompId s2) outSeq
                 heartbeatInterval;
               again = (forceReset \<and> find logonMsg ''108='' 0 \<noteq> None);
               message = (if again
                 then buildMessage (c_wall E (cReadings s2 + 1)) (cSenderCompId s2) (cTargetCompId s2) outSeq
                   ''A'' (''98=0'' @ [SOH] @ ''108='' @ to_string_i heartbeatInterval @ [SOH] @ ''141=Y'' @ [SOH])
                 else logonMsg);
               s3 = store_next (s2\<lparr>cReadings := cReadings s2 + (if again then 2 else 1)\<rparr>)
           in emitEvent SessionEvent ''Logon sent'' (changeState LogonSent (client_write message s3)))"

definition sendLogout :: "client_env \<Rightarrow> string \<Rightarrow> client_session \<Rightarrow> client_session" where
  "sendLogout E reason s =
     (if cState s = Active \<or> cState s = LogonSent
      then emitEvent SessionEvent ''Logout sent'' (changeState LoggingOut
             (write_numbered E (\<lambda>now n. buildLogout now (cSenderCompId s) (cTargetCompId s) n reason) s))
      else s)"

definition sendMessage :: "client_env \<Rightarrow> string \<Rightarrow> string \<Rightarrow> client_session \<Rightarrow> client_session" where
  "sendMessage E msgType bodyStr s =
     (if cState s \<noteq> Active then s
      else write_numbered E (\<lambda>now n. buildMessage now (cSenderCompId s) (cTargetCompId s) n msgType bodyStr) s)"

definition order_body ::
  "string \<Rightarrow> string \<Rightarrow> char \<Rightarrow> timestamp \<Rightarrow> int \<Rightarrow> char \<Rightarrow> dbl \<Rightarrow> char \<Rightarrow> string" where
  "order_body clOrdId symbol side now qty type price tif =
     ''11='' @ clOrdId @ [SOH] @ ''55='' @ symbol @ [SOH] @ ''54='' @ [side, SOH]
     @ ''60='' @ generateTimestamp now @ [SOH] @ ''38='' @ to_string_i qty @ [SOH] @ ''40='' @ [type, SOH]
     @ (if type \<noteq> CHR ''1'' then ''44='' @ print_fixed 5 price @ [SOH] else [])
     @ (if tif \<noteq> CHR ''0'' then ''59='' @ [tif, SOH] else [])"

text \<open>The client order id is the clock in microseconds.\<close>

definition sendNewOrder ::
  "client_env \<Rightarrow> string \<Rightarrow> char \<Rightarrow> dbl \<Rightarrow> int \<Rightarrow> char \<Rightarrow> char \<Rightarrow> client_session \<Rightarrow> client_session" where
  "sendNewOrder E symbol side price qty type tif s =
     (if cState s \<noteq> Active then s
      else let clOrdId = to_string_i (tdiv (c_wall E (cReadings s)) 1000);
               body = order_body clOrdId symbol side (c_wall E (cReadings s + 1)) qty type price tif;
               s1 = sendMessage E ''D'' body (s\<lparr>cReadings := cReadings s + 2\<rparr>)
           in s1\<lparr>cOut := cOut s1 @ [IntentOut \<lparr>ni_clientOrderId = clOrdId, ni_symbol = symbol, ni_side = side,
                ni_price = price, ni_quantity = qty, ni_orderType = type, ni_timeInForce = tif\<rparr>]\<rparr>)"

definition sendMarketDataRequest :: "client_env \<Rightarrow> string \<Rightarrow> char \<Rightarrow> client_session \<Rightarrow> client_session" where
  "sendMarketDataRequest E symbol subscriptionRequestType s =
     (let mdReqId = ''req_'' @ symbol @ ''_'' @ to_string_i (c_wall E (cReadings s))
      in sendMessage E ''V''
           (''262='' @ mdReqId @ [SOH] @ ''263='' @ [subscriptionRequestType, SOH] @ ''264=0'' @ [SOH]
            @ ''267=2'' @ [SOH] @ ''269=0'' @ [SOH] @ ''269=1'' @ [SOH] @ ''146=1'' @ [SOH]
            @ ''55='' @ symbol @ [SOH])
           (s\<lparr>cReadings := cReadings s + 1\<rparr>))"

subsection \<open>Event texts\<close>

definition boundedText :: "string \<Rightarrow> string" where
  "boundedText value = take 160 value"

definition safeEventText :: "string \<Rightarrow> string" where
  "safeEventText value =
     (let lowerValue = map tolower value
      in if find lowerValue ''password'' 0 \<noteq> None \<or> find lowerValue ''secret'' 0 \<noteq> None
            \<or> find lowerValue ''token'' 0 \<noteq> None \<or> find lowerValue ''api_key'' 0 \<noteq> None
         then ''[redacted sensitive detail]'' else boundedText value)"

definition fieldValue :: "(int \<rightharpoonup> string) \<Rightarrow> int \<Rightarrow> string" where
  "fieldValue m t = (case m t of None \<Rightarrow> [] | Some v \<Rightarrow> v)"

definition executionSummary :: "execution_report \<Rightarrow> string option" where
  "executionSummary r = do {
     st \<leftarrow> order_status_to_string (mStatus r);
     Some (''Order '' @ mRClientOrderId r @ '' '' @ st @ '' '' @ instrument_to_string (mRSymbol r)
           @ '' cumulative='' @ to_string_u (mCumulativeQuantity r)
           @ '' leaves='' @ to_string_u (mLeavesQuantity r))
   }"

subsection \<open>Handlers\<close>

type_synonym client_result = "(exn + client_session) option"

definition map_number :: "(int \<rightharpoonup> string) \<Rightarrow> int \<Rightarrow> exn + u32" where
  "map_number m tag = (case m tag of None \<Rightarrow> Inr 0 | Some v \<Rightarrow> bind_exn (stoul v) (\<lambda>n. Inr (ucast n)))"

definition handleLogonResponse :: "client_session \<Rightarrow> client_session" where
  "handleLogonResponse s =
     startHeartbeatTimer (emitEvent SessionEvent ''Logon accepted; session active'' (changeState Active s))"

definition handleLogoutResponse :: "client_session \<Rightarrow> client_session" where
  "handleLogoutResponse s = disconnect (emitEvent SessionEvent ''Logout acknowledged'' s)"

definition client_TestRequest :: "client_env \<Rightarrow> (int \<rightharpoonup> string) \<Rightarrow> client_session \<Rightarrow> client_session" where
  "client_TestRequest E m s =
     write_numbered E
       (\<lambda>now n. buildHeartbeat now (cSenderCompId s) (cTargetCompId s) n (fieldValue m 112)) s"

text \<open>The gap fill carries the first requested number and uses up none.\<close>

definition handleResendRequest ::
  "client_env \<Rightarrow> (int \<rightharpoonup> string) \<Rightarrow> client_session \<Rightarrow> exn + client_session" where
  "handleResendRequest E m s =
     bind_exn (map_number m 7) (\<lambda>beginSeqNo. bind_exn (map_number m 16) (\<lambda>endSeqNo.
     Inr (client_write
       (buildMessage (c_wall E (cReadings s)) (cSenderCompId s) (cTargetCompId s) beginSeqNo ''4''
          (''123=Y'' @ [SOH] @ ''36='' @ to_string_u (next_out s) @ [SOH]))
       (s\<lparr>cReadings := cReadings s + 1\<rparr>))))"

definition handleSequenceReset :: "(int \<rightharpoonup> string) \<Rightarrow> client_session \<Rightarrow> exn + client_session" where
  "handleSequenceReset m s = (case m 36 of
      None \<Rightarrow> Inr s
    | Some v \<Rightarrow> bind_exn (stoul v) (\<lambda>newSeqNo.
        Inr (s\<lparr>cSeqStore := setSeqNums (ucast newSeqNo) (next_out s) (cSeqStore s)\<rparr>)))"

definition client_Reject :: "(int \<rightharpoonup> string) \<Rightarrow> client_session \<Rightarrow> client_session" where
  "client_Reject m s =
     (let reason = fieldValue m 58
      in emitEvent RejectEvent
           (if reason = [] then ''FIX reject received'' else ''FIX reject: '' @ safeEventText reason) s)"

text \<open>The summary of a refresh without a symbol reads an uninitialised member.\<close>

definition client_application :: "client_env \<Rightarrow> string \<Rightarrow> client_session \<Rightarrow> client_session option" where
  "client_application E msgStr s = (let parsed = parse_message (c_zone E) msgStr in
     (case parsed of
        Unhandled \<Rightarrow> Some s
      | ParsedReport r \<Rightarrow> do {
          summary \<leftarrow> executionSummary r;
          s1 \<leftarrow> Some (emitEvent ExecutionEvent summary s);
          Some (s1\<lparr>cOut := cOut s1 @ [MessageOut parsed]\<rparr>)
        }
      | ParsedSnapshot m \<Rightarrow>
          (let s1 = emitEvent MarketDataEvent (''Snapshot '' @ instrument_to_string (cs_symbol m)
                 @ '' entries='' @ dec (length (cs_entries m))) s
           in Some (s1\<lparr>cOut := cOut s1 @ [MessageOut parsed]\<rparr>))
      | ParsedRefresh m \<Rightarrow> do {
          symbol \<leftarrow> cr_symbol m;
          s1 \<leftarrow> Some (emitEvent MarketDataEvent (''Incremental '' @ instrument_to_string symbol
                 @ '' entries='' @ dec (length (cr_entries m))) s);
          Some (s1\<lparr>cOut := cOut s1 @ [MessageOut parsed]\<rparr>)
        }))"

definition client_switch ::
  "client_env \<Rightarrow> string \<Rightarrow> (int \<rightharpoonup> string) \<Rightarrow> char \<Rightarrow> client_session \<Rightarrow> client_result" where
  "client_switch E msgStr m msgType s =
     (if msgType = CHR ''A'' then Some (Inr (handleLogonResponse s))
      else if msgType = CHR ''0'' then Some (Inr s)
      else if msgType = CHR ''1'' then Some (Inr (client_TestRequest E m s))
      else if msgType = CHR ''2'' then Some (handleResendRequest E m s)
      else if msgType = CHR ''4'' then Some (handleSequenceReset m s)
      else if msgType = CHR ''5'' then Some (Inr (handleLogoutResponse s))
      else if msgType = CHR ''3'' \<or> msgType = CHR ''j'' then Some (Inr (client_Reject m s))
      else map_option Inr (client_application E msgStr s))"

text \<open>The verdict on the number of the exchange: the next one, a gap (caught up), or too low.\<close>

definition accept_number :: "u32 \<Rightarrow> client_session \<Rightarrow> client_session option" where
  "accept_number seqNum s =
     (let expectedSeq = getNextTargetSeqNum (cSeqStore s)
      in if expectedSeq \<le> seqNum
         then Some (s\<lparr>cSeqStore := setSeqNums (seqNum + 1) (next_out s) (cSeqStore s)\<rparr>)
         else None)"

definition handleProtocolMessage :: "client_env \<Rightarrow> string \<Rightarrow> client_session \<Rightarrow> client_result" where
  "handleProtocolMessage E msgStr s = (case splitToMap msgStr SOH of
      Inl e \<Rightarrow> Some (Inl e)
    | Inr m \<Rightarrow> (case map_number m 34 of
        Inl e \<Rightarrow> Some (Inl e)
      | Inr seqNum \<Rightarrow> (case fieldValue m 35 of
          [] \<Rightarrow> Some (Inr s)
        | msgType # _ \<Rightarrow>
            if msgType = CHR ''4'' \<or> msgType = CHR ''5'' then client_switch E msgStr m msgType s
            else (case accept_number seqNum s of
              None \<Rightarrow> Some (Inr (disconnect s))
            | Some s1 \<Rightarrow> client_switch E msgStr m msgType s1))))"

subsection \<open>Reading\<close>

definition findMessageStart :: "string \<Rightarrow> nat option" where
  "findMessageStart buffer =
     (case (find buffer (''8=FIX.4.4'' @ [SOH] @ ''9='') 0, find buffer (''8=FIXT.1.1'' @ [SOH] @ ''9='') 0) of
        (Some a, Some b) \<Rightarrow> Some (min a b)
      | (Some a, None) \<Rightarrow> Some a
      | (None, b) \<Rightarrow> b)"

text \<open>The bounds of the first message: from its begin string to the SOH behind the next \<open>10=\<close>.\<close>

definition message_bounds :: "string \<Rightarrow> (nat \<times> nat) option" where
  "message_bounds buffer = do {
     pos \<leftarrow> findMessageStart buffer;
     checksumEnd \<leftarrow> find buffer ''10='' pos;
     endOfMessage \<leftarrow> find_char buffer SOH checksumEnd;
     Some (pos, endOfMessage + 1)
   }"

lemma find_from_start_less: "find_from_start (c # cs) s = Some i \<Longrightarrow> i < length s"
  by (induction s arbitrary: i) (auto split: if_splits)

lemma find_char_less: "find_char s c from = Some i \<Longrightarrow> i < length s"
  by (auto simp: find_char_def find_def split: if_splits dest!: find_from_start_less)

lemma message_bounds_end: "message_bounds buffer = Some (pos, e) \<Longrightarrow> 0 < e \<and> e \<le> length buffer"
  by (auto simp: message_bounds_def bind_eq_Some_conv dest: find_char_less)

function client_read_loop ::
  "client_env \<Rightarrow> string \<Rightarrow> client_session \<Rightarrow> (exn + string \<times> client_session) option" where
  "client_read_loop E buffer s = (case message_bounds buffer of
      None \<Rightarrow> Some (Inr (buffer, s))
    | Some (pos, endOfMessage) \<Rightarrow>
        (case handleProtocolMessage E (take (endOfMessage - pos) (drop pos buffer)) s of
           None \<Rightarrow> None
         | Some (Inl e) \<Rightarrow> Some (Inl e)
         | Some (Inr s1) \<Rightarrow> client_read_loop E (drop endOfMessage buffer) s1))"
  by pat_completeness auto
termination
  by (relation "measure (\<lambda>(E, buffer, s). length buffer)") (auto dest: message_bounds_end)

declare client_read_loop.simps [simp del]

definition client_receive :: "client_env \<Rightarrow> string \<Rightarrow> client_session \<Rightarrow> client_result" where
  "client_receive E bytes s = do {
     r \<leftarrow> client_read_loop E (cReadBuffer s @ bytes) s;
     Some (bind_exn r (\<lambda>(rest, s1). Inr (s1\<lparr>cReadBuffer := rest\<rparr>)))
   }"

definition transport_error :: "string \<Rightarrow> client_session \<Rightarrow> client_session" where
  "transport_error text s = disconnect (emitEvent TransportError text s)"

text \<open>The heartbeat timer fires: a heartbeat without a request id, and the timer starts again.\<close>

definition heartbeat_fires :: "client_env \<Rightarrow> client_session \<Rightarrow> client_session" where
  "heartbeat_fires E s =
     (if cTimerArmed s \<and> cState s = Active
      then startHeartbeatTimer (write_numbered E
             (\<lambda>now n. buildHeartbeat now (cSenderCompId s) (cTargetCompId s) n [])
             (s\<lparr>cTimerArmed := False\<rparr>))
      else s\<lparr>cTimerArmed := False\<rparr>)"

subsection \<open>Steps\<close>

datatype client_step =
    Connect
  | ResolveFails string
  | ConnectFails string
  | ConnectDone
  | Logon int bool
  | Logout string
  | NewOrderEntry string char dbl int char char
  | MarketDataEntry string char
  | UserMessage string string
  | Bytes string
  | ReadError string
  | WriteError string
  | HeartbeatTimer
  | Disconnect_now

fun step_client :: "client_env \<Rightarrow> client_step \<Rightarrow> client_session \<Rightarrow> client_result" where
  "step_client E Connect s = Some (Inr (client_connect s))"
| "step_client E (ResolveFails t) s =
     Some (Inr (changeState Disconnected (emitEvent TransportError (''Resolve failed: '' @ t) s)))"
| "step_client E (ConnectFails t) s =
     Some (Inr (changeState Disconnected (emitEvent TransportError (''Connect failed: '' @ t) s)))"
| "step_client E ConnectDone s = Some (Inr (changeState Connected (s\<lparr>cSocketOpen := True\<rparr>)))"
| "step_client E (Logon hb reset) s = Some (Inr (sendLogon E hb reset s))"
| "step_client E (Logout reason) s = Some (Inr (sendLogout E reason s))"
| "step_client E (NewOrderEntry sy sd p q ty tif) s = Some (Inr (sendNewOrder E sy sd p q ty tif s))"
| "step_client E (MarketDataEntry sy ty) s = Some (Inr (sendMarketDataRequest E sy ty s))"
| "step_client E (UserMessage ty body) s = Some (Inr (sendMessage E ty body s))"
| "step_client E (Bytes b) s = (if cSocketOpen s then client_receive E b s else Some (Inr s))"
| "step_client E (ReadError t) s = Some (Inr (transport_error (''Read failed: '' @ t) s))"
| "step_client E (WriteError t) s = Some (Inr (transport_error (''Write failed: '' @ t) s))"
| "step_client E HeartbeatTimer s = Some (Inr (heartbeat_fires E s))"
| "step_client E Disconnect_now s = Some (Inr (disconnect s))"

fun client_run :: "client_env \<Rightarrow> client_step list \<Rightarrow> client_session \<Rightarrow> client_result" where
  "client_run E [] s = Some (Inr s)"
| "client_run E (x # xs) s = do {
     r \<leftarrow> step_client E x s;
     (case r of Inl e \<Rightarrow> Some (Inl e) | Inr s1 \<Rightarrow> client_run E xs s1)
   }"

end
