(* ===== verification/ClientOrderBook.thy ===== *)
theory ClientOrderBook
  imports ClientParser CppMap
begin

text \<open>
  \<open>client_orderbook/OrderBook\<close>: the ladder of one symbol in the client, two maps from price to
  quantity, each in its own order. Every method holds the mutex for its whole body.
\<close>

record ladder =
  l_symbol :: string
  mBids :: "(dbl \<times> u64) list"
  mAsks :: "(dbl \<times> u64) list"

definition new_ladder :: "string \<Rightarrow> ladder" where
  "new_ladder symbol = \<lparr>l_symbol = symbol, mBids = [], mAsks = []\<rparr>"

definition snapshot_level :: "client_entry \<Rightarrow> ladder \<Rightarrow> ladder" where
  "snapshot_level x l =
     (if ce_entryType x = CHR ''0'' then l\<lparr>mBids := map_set dgt (ce_price x) (ce_size x) (mBids l)\<rparr>
      else if ce_entryType x = CHR ''1'' then l\<lparr>mAsks := map_set dlt (ce_price x) (ce_size x) (mAsks l)\<rparr>
      else l)"

definition handleSnapshot :: "client_snapshot \<Rightarrow> ladder \<Rightarrow> ladder" where
  "handleSnapshot snapshot l = fold snapshot_level (cs_entries snapshot) (l\<lparr>mBids := [], mAsks := []\<rparr>)"

text \<open>One side of \<open>updateLevel\<close>; the two tests on the action follow each other.\<close>

definition update_side ::
  "(dbl \<Rightarrow> dbl \<Rightarrow> bool) \<Rightarrow> dbl \<Rightarrow> u64 \<Rightarrow> char \<Rightarrow> (dbl \<times> u64) list \<Rightarrow> (dbl \<times> u64) list" where
  "update_side lt price qty action m =
     (let m1 = (if action = CHR ''0'' \<or> action = CHR ''1'' then map_set lt price qty m
                else if action = CHR ''2'' then map_erase lt price m else m)
      in if action \<noteq> CHR ''2'' \<and> qty = 0 then map_erase lt price m1 else m1)"

definition updateLevel :: "char \<Rightarrow> dbl \<Rightarrow> u64 \<Rightarrow> char \<Rightarrow> ladder \<Rightarrow> ladder" where
  "updateLevel type price qty action l =
     (if type = CHR ''0'' then l\<lparr>mBids := update_side dgt price qty action (mBids l)\<rparr>
      else l\<lparr>mAsks := update_side dlt price qty action (mAsks l)\<rparr>)"

definition handleIncremental :: "client_refresh \<Rightarrow> ladder \<Rightarrow> ladder" where
  "handleIncremental refresh l =
     fold (\<lambda>x. updateLevel (ce_entryType x) (ce_price x) (ce_size x) (ce_updateAction x)) (cr_entries refresh) l"

record ui_snapshot =
  ui_symbol :: string
  ui_bids :: "(dbl \<times> u64) list"
  ui_asks :: "(dbl \<times> u64) list"
  ui_spread :: dbl
  ui_midPrice :: dbl

definition getUISnapshot :: "nat \<Rightarrow> ladder \<Rightarrow> ui_snapshot" where
  "getUISnapshot maxDepth l =
     (let bids = take maxDepth (mBids l); asks = take maxDepth (mAsks l);
          both = (bids \<noteq> [] \<and> asks \<noteq> [])
      in \<lparr>ui_symbol = l_symbol l, ui_bids = bids, ui_asks = asks,
          ui_spread = (if both then dsub (fst (hd asks)) (fst (hd bids)) else Fin 0),
          ui_midPrice = (if both then ddiv (dadd (fst (hd asks)) (fst (hd bids))) (Fin 2) else Fin 0)\<rparr>)"

text \<open>What the message callback of \<open>App\<close> does with market data: only the selected symbol counts.\<close>

fun route_market_data :: "string \<Rightarrow> parsed_message \<Rightarrow> ladder \<Rightarrow> ladder" where
  "route_market_data selected (ParsedSnapshot m) l =
     (if instrument_to_string (cs_symbol m) \<noteq> selected then l else handleSnapshot m l)"
| "route_market_data selected (ParsedRefresh m) l = (case cr_symbol m of
      None \<Rightarrow> l
    | Some symbol \<Rightarrow> if instrument_to_string symbol \<noteq> selected then l else handleIncremental m l)"
| "route_market_data selected _ l = l"

end
