(* ===== verification/BlotterModel.thy ===== *)
theory BlotterModel
  imports CppFormat FixMessages CppMap
begin

text \<open>
  \<open>client_blotter/BlotterModel\<close>: the open orders and the execution history of the client, fed
  by order intents and execution reports. The map of orders is a \<open>std::map\<close> with string keys;
  the set of seen keys is only searched and extended, so it is a list.
\<close>

subsection \<open>Strings as keys, numbers as text\<close>

text \<open>\<open>operator<\<close> of \<open>std::string\<close>: lexicographic, on unsigned bytes.\<close>

fun str_less :: "string \<Rightarrow> string \<Rightarrow> bool" where
  "str_less [] t = (t \<noteq> [])"
| "str_less (a # s) [] = False"
| "str_less (a # s) (b # t) = (byte a < byte b \<or> byte a = byte b \<and> str_less s t)"

lemma byte_inject: "byte a = byte b \<Longrightarrow> a = b"
  unfolding byte_def by (metis char_of_char)

lemma str_less_irrefl: "\<not> str_less s s"
  by (induction s) auto

lemma str_less_trans: "str_less s t \<Longrightarrow> str_less t u \<Longrightarrow> str_less s u"
proof (induction s t arbitrary: u rule: str_less.induct)
  case (1 t)
  then show ?case by (cases t; cases u) auto
next
  case (3 a s b t)
  then show ?case by (cases u) auto
qed simp

lemma str_less_total: "\<not> str_less s t \<Longrightarrow> \<not> str_less t s \<Longrightarrow> s = t"
proof (induction s t rule: str_less.induct)
  case (1 t)
  then show ?case by (cases t) auto
next
  case (3 a s b t)
  then show ?case using byte_inject [of a b] by auto
qed simp

interpretation string_map: key_order str_less "\<lambda>_. True"
  by unfold_locales (use str_less_irrefl str_less_trans str_less_total in blast)+

text \<open>
  A \<open>double\<close> in a stream without manipulators: six significant digits, trailing zeros dropped,
  with an exponent when that is below -4 or above 5.
\<close>

function below_one :: "rat \<Rightarrow> int" where
  "below_one q = (if q \<le> 0 \<or> 1 \<le> q then 0 else below_one (q * 10) - 1)"
  by auto
termination
proof (relation "measure (\<lambda>q. nat \<lceil>1 / q\<rceil>)")
  fix q :: rat assume "\<not> (q \<le> 0 \<or> 1 \<le> q)"
  then have q: "0 < q" "q < 1" by auto
  have one: "1 < 1 / q" using q by (simp add: field_simps)
  then have "2 \<le> \<lceil>1 / q\<rceil>" by linarith
  moreover have "\<lceil>1 / (q * 10)\<rceil> \<le> \<lceil>1 / q\<rceil> - 1"
  proof (rule ceiling_le)
    have "(2 :: rat) \<le> of_int \<lceil>1 / q\<rceil>" using \<open>2 \<le> \<lceil>1 / q\<rceil>\<close> by simp
    moreover have "1 / q \<le> of_int \<lceil>1 / q\<rceil>" by simp
    moreover have "1 / (q * 10) = (1 / q) / 10" by simp
    ultimately show "1 / (q * 10) \<le> of_int (\<lceil>1 / q\<rceil> - 1)" unfolding of_int_diff of_int_1 by linarith
  qed
  ultimately have "nat \<lceil>1 / (q * 10)\<rceil> < nat \<lceil>1 / q\<rceil>" by linarith
  then show "(q * 10, q) \<in> measure (\<lambda>q. nat \<lceil>1 / q\<rceil>)" by simp
qed simp

declare below_one.simps [simp del]

definition dec_exponent :: "rat \<Rightarrow> int" where
  "dec_exponent q = (if 1 \<le> q then int (length (dec (nat \<lfloor>q\<rfloor>))) - 1 else below_one q)"

definition ten_power :: "int \<Rightarrow> rat" where
  "ten_power k = (if 0 \<le> k then 10 ^ nat k else 1 / 10 ^ nat (- k))"

definition drop_zeros :: "string \<Rightarrow> string" where
  "drop_zeros s = rev (dropWhile (\<lambda>c. c = CHR ''0'') (rev s))"

text \<open>The six digits and the exponent of the first one; rounding can carry into a seventh.\<close>

definition six_digits :: "rat \<Rightarrow> string \<times> int" where
  "six_digits q =
     (let e = dec_exponent q; k = nat (round_half_even (q * ten_power (5 - e)))
      in if k = 1000000 then (''100000'', e + 1) else (dec k, e))"

definition with_point :: "string \<Rightarrow> string \<Rightarrow> string" where
  "with_point ip fp = (let fp' = drop_zeros fp in if fp' = [] then ip else ip @ ''.'' @ fp')"

fun print_general :: "dbl \<Rightarrow> string" where
  "print_general (Fin q) =
     (if q = 0 then ''0''
      else let (ds, e) = six_digits \<bar>q\<bar>
      in (if q < 0 then ''-'' else []) @
         (if - 4 \<le> e \<and> e < 0 then with_point ''0'' (replicate (nat (- e - 1)) (CHR ''0'') @ ds)
          else if 0 \<le> e \<and> e \<le> 5 then with_point (take (nat e + 1) ds) (drop (nat e + 1) ds)
          else with_point (take 1 ds) (drop 1 ds) @ ''e'' @ (if e < 0 then ''-'' else ''+'')
               @ pad0 2 (dec (nat \<bar>e\<bar>))))"
| "print_general PInf = ''inf''"
| "print_general NInf = ''-inf''"
| "print_general NaN = ''nan''"

subsection \<open>State\<close>

record blotter_intent =
  bi_clientOrderId :: string
  bi_symbol :: instrument
  bi_side :: order_side
  bi_orderType :: order_type
  bi_price :: dbl
  bi_originalQuantity :: u64

record blotter_row =
  br_clientOrderId :: string
  br_symbol :: instrument
  br_side :: order_side
  br_orderType :: order_type
  br_orderTypeKnown :: bool
  br_price :: dbl
  br_originalQuantity :: u64
  br_remainingQuantity :: u64
  br_status :: order_status
  br_exchangeOrderId :: u64
  br_reason :: string

definition new_row :: blotter_row where
  "new_row = \<lparr>br_clientOrderId = [], br_symbol = EURUSD, br_side = Buy, br_orderType = Limit,
     br_orderTypeKnown = False, br_price = Fin 0, br_originalQuantity = 0, br_remainingQuantity = 0,
     br_status = New, br_exchangeOrderId = 0, br_reason = []\<rparr>"

record history_row =
  hr_clientOrderId :: string
  hr_exchangeOrderId :: u64
  hr_symbol :: instrument
  hr_side :: order_side
  hr_status :: order_status
  hr_timestamp :: timestamp
  hr_lastPrice :: dbl
  hr_lastQuantity :: u64
  hr_reason :: string

record blotter =
  mOrders :: "(string \<times> blotter_row) list"
  mHistory :: "history_row list"
  mSeenExecutionKeys :: "string list"

definition empty_blotter :: blotter where
  "empty_blotter = \<lparr>mOrders = [], mHistory = [], mSeenExecutionKeys = []\<rparr>"

subsection \<open>Operations\<close>

definition executionKey :: "execution_report \<Rightarrow> string" where
  "executionKey r =
     mExecutionId r @ ''|'' @ mRClientOrderId r @ ''|''
     @ (case order_status_to_string (mStatus r) of None \<Rightarrow> [] | Some t \<Rightarrow> t) @ ''|''
     @ to_string_u (mCumulativeQuantity r) @ ''|'' @ to_string_u (mLeavesQuantity r) @ ''|''
     @ print_general (mLastPrice r) @ ''|'' @ to_string_u (mLastQuantity r) @ ''|'' @ mText r"

definition recordOrderIntent :: "blotter_intent \<Rightarrow> blotter \<Rightarrow> blotter" where
  "recordOrderIntent i b = b\<lparr>mOrders := map_upd str_less (bi_clientOrderId i) new_row
     (\<lambda>row. row\<lparr>br_clientOrderId := bi_clientOrderId i, br_symbol := bi_symbol i, br_side := bi_side i,
        br_orderType := bi_orderType i, br_orderTypeKnown := True, br_price := bi_price i,
        br_originalQuantity := bi_originalQuantity i, br_remainingQuantity := bi_originalQuantity i,
        br_status := New, br_reason := []\<rparr>) (mOrders b)\<rparr>"

definition fresh_row :: "execution_report \<Rightarrow> blotter_row" where
  "fresh_row r = new_row\<lparr>br_clientOrderId := mRClientOrderId r, br_symbol := mRSymbol r,
     br_side := mSide r, br_price := mLastPrice r, br_originalQuantity := mOrderQuantity r\<rparr>"

text \<open>\<open>x != 0.0\<close> is true for a NaN.\<close>

definition update_open_row :: "execution_report \<Rightarrow> blotter_row \<Rightarrow> blotter_row" where
  "update_open_row r row = row\<lparr>br_symbol := mRSymbol r, br_side := mSide r,
     br_exchangeOrderId := mExchangeOrderId r, br_status := mStatus r,
     br_remainingQuantity := mLeavesQuantity r,
     br_originalQuantity := (if mOrderQuantity r = 0 then br_originalQuantity row else mOrderQuantity r),
     br_price := (if \<not> br_orderTypeKnown row \<and> mLastPrice r \<noteq> Fin 0 then mLastPrice r else br_price row),
     br_reason := mText r\<rparr>"

definition history_of :: "execution_report \<Rightarrow> history_row" where
  "history_of r = \<lparr>hr_clientOrderId = mRClientOrderId r, hr_exchangeOrderId = mExchangeOrderId r,
     hr_symbol = mRSymbol r, hr_side = mSide r, hr_status = mStatus r, hr_timestamp = mTransactionTime r,
     hr_lastPrice = mLastPrice r, hr_lastQuantity = mLastQuantity r, hr_reason = mText r\<rparr>"

definition terminal :: "order_status \<Rightarrow> bool" where
  "terminal st \<longleftrightarrow> st = Filled \<or> st = Cancelled \<or> st = Rejected"

definition apply_execution :: "execution_report \<Rightarrow> blotter \<Rightarrow> blotter" where
  "apply_execution r b =
     (let orders = map_upd str_less (mRClientOrderId r) (fresh_row r) (update_open_row r) (mOrders b)
      in b\<lparr>mOrders := (if terminal (mStatus r) then map_erase str_less (mRClientOrderId r) orders else orders),
           mHistory := mHistory b @ [history_of r]\<rparr>)"

definition processExecution :: "execution_report \<Rightarrow> blotter \<Rightarrow> blotter" where
  "processExecution r b =
     (if mExecutionId r = [] then apply_execution r b
      else if executionKey r \<in> set (mSeenExecutionKeys b) then b
      else apply_execution r (b\<lparr>mSeenExecutionKeys := executionKey r # mSeenExecutionKeys b\<rparr>))"

definition activeOrders :: "blotter \<Rightarrow> blotter_row list" where
  "activeOrders b = map snd (mOrders b)"

definition history :: "blotter \<Rightarrow> history_row list" where
  "history b = mHistory b"

end
