(* ===== verification/ClientApp.thy ===== *)
theory ClientApp
  imports ClientSession ClientOrderBook BlotterModel
begin

text \<open>
  The client around its session: \<open>client_ui/OrderTicket\<close> and the order entry of
  \<open>TradingPanel\<close>, \<open>client_ui/MarketDataState\<close>, \<open>client_ui/ClientEventLog\<close>,
  \<open>client_fix/AuthManager\<close>, and the callbacks of \<open>App\<close> that feed the blotter and the ladder.
\<close>

subsection \<open>Order tickets\<close>

record order_ticket =
  ot_symbol :: string
  ot_side :: char
  ot_price :: dbl
  ot_quantity :: int
  ot_orderType :: char
  ot_timeInForce :: char

fun isfinite :: "dbl \<Rightarrow> bool" where
  "isfinite (Fin q) = True"
| "isfinite _ = False"

definition validateOrderTicket :: "order_ticket \<Rightarrow> string option" where
  "validateOrderTicket t =
     (if ot_symbol t = [] then Some ''Symbol is required.''
      else if catch_exn (instrument_from_string (ot_symbol t)) = None then Some ''Symbol is not supported.''
      else if ot_side t \<noteq> CHR ''1'' \<and> ot_side t \<noteq> CHR ''2'' then Some ''Side must be BUY or SELL.''
      else if ot_quantity t \<le> 0 then Some ''Quantity must be positive.''
      else if ot_orderType t \<noteq> CHR ''1'' \<and> ot_orderType t \<noteq> CHR ''2''
      then Some ''Order type is unsupported.''
      else if ot_orderType t = CHR ''2'' \<and> (\<not> isfinite (ot_price t) \<or> dle (ot_price t) (Fin 0))
      then Some ''Limit orders require a positive price.''
      else if ot_timeInForce t \<noteq> CHR ''0'' \<and> ot_timeInForce t \<noteq> CHR ''1''
           \<and> ot_timeInForce t \<noteq> CHR ''3'' \<and> ot_timeInForce t \<noteq> CHR ''4''
      then Some ''Time-in-force is unsupported.''
      else None)"

text \<open>The answer, the validation message, and the session.\<close>

definition trySubmitOrder ::
  "client_env \<Rightarrow> order_ticket \<Rightarrow> client_session option \<Rightarrow> bool \<times> string \<times> client_session option" where
  "trySubmitOrder E t session = (case validateOrderTicket t of
      Some message \<Rightarrow> (False, message, session)
    | None \<Rightarrow> (case session of
        None \<Rightarrow> (False, ''Session not active. Cannot trade.'', session)
      | Some s \<Rightarrow>
          if cState s \<noteq> Active then (False, ''Session not active. Cannot trade.'', session)
          else (True, [], Some (sendNewOrder E (ot_symbol t) (ot_side t) (ot_price t) (ot_quantity t)
                 (ot_orderType t) (ot_timeInForce t) s))))"

subsection \<open>Market data state\<close>

datatype md_status = MdDisconnected | MdReady | MdSubscribed

record market_data_state =
  md_symbol :: string
  md_status :: md_status

definition new_market_data :: market_data_state where
  "new_market_data = \<lparr>md_symbol = ''EURUSD'', md_status = MdDisconnected\<rparr>"

definition selectSymbol :: "string \<Rightarrow> market_data_state \<Rightarrow> bool \<times> market_data_state" where
  "selectSymbol symbol m =
     (if catch_exn (instrument_from_string symbol) = None then (False, m)
      else if md_symbol m = symbol then (True, m)
      else (True, m\<lparr>md_symbol := symbol,
        md_status := (if md_status m = MdSubscribed then MdReady else md_status m)\<rparr>))"

definition canSubscribe :: "client_state \<Rightarrow> market_data_state \<Rightarrow> bool" where
  "canSubscribe st m \<longleftrightarrow> st = Active \<and> md_status m \<noteq> MdSubscribed"

definition markSessionReady :: "market_data_state \<Rightarrow> market_data_state" where
  "markSessionReady m = (if md_status m = MdDisconnected then m\<lparr>md_status := MdReady\<rparr> else m)"

definition markSubscribed :: "market_data_state \<Rightarrow> market_data_state" where
  "markSubscribed m = m\<lparr>md_status := MdSubscribed\<rparr>"

definition markDisconnected :: "market_data_state \<Rightarrow> market_data_state" where
  "markDisconnected m = m\<lparr>md_status := MdDisconnected\<rparr>"

subsection \<open>Event log\<close>

record event_log =
  el_capacity :: nat
  el_entries :: "(string \<times> client_event_type \<times> string) list"

definition new_event_log :: "nat \<Rightarrow> event_log" where
  "new_event_log capacity = \<lparr>el_capacity = max 1 capacity, el_entries = []\<rparr>"

definition append_event :: "string \<Rightarrow> client_event_type \<Rightarrow> string \<Rightarrow> event_log \<Rightarrow> event_log" where
  "append_event time type message l =
     (let entries = el_entries l @ [(time, type, message)]
      in l\<lparr>el_entries := drop (length entries - el_capacity l) entries\<rparr>)"

definition clear_events :: "event_log \<Rightarrow> event_log" where
  "clear_events l = l\<lparr>el_entries := []\<rparr>"

subsection \<open>Authentication\<close>

text \<open>
  \<open>AuthManager\<close>: the callback is pending or not; its calls are recorded. \<open>now\<close> is the clock in
  nanoseconds.
\<close>

record auth_manager =
  am_pending :: bool
  am_reqId :: string
  am_calls :: "(bool \<times> string) list"

definition new_auth :: auth_manager where
  "new_auth = \<lparr>am_pending = False, am_reqId = [], am_calls = []\<rparr>"

definition auth_authenticate ::
  "client_env \<Rightarrow> int \<Rightarrow> string \<Rightarrow> string \<Rightarrow> client_session option \<Rightarrow> auth_manager \<Rightarrow>
   client_session option \<times> auth_manager" where
  "auth_authenticate E now username password session a = (case session of
      None \<Rightarrow> (session, a\<lparr>am_calls := am_calls a @ [(False, ''Session not active'')]\<rparr>)
    | Some s \<Rightarrow>
        if cState s \<noteq> Active
        then (session, a\<lparr>am_calls := am_calls a @ [(False, ''Session not active'')]\<rparr>)
        else let reqId = ''REQ_'' @ to_string_i now;
                 body = ''923='' @ reqId @ [SOH] @ ''924=1'' @ [SOH] @ ''553='' @ username @ [SOH]
                        @ ''554='' @ password @ [SOH]
             in (Some (sendMessage E ''BE'' body s), a\<lparr>am_pending := True, am_reqId := reqId\<rparr>))"

definition auth_handleMessage :: "string \<Rightarrow> auth_manager \<Rightarrow> exn + bool \<times> auth_manager" where
  "auth_handleMessage rawFix a = bind_exn (splitToMap rawFix SOH) (\<lambda>m.
     if m 35 \<noteq> Some ''BF'' then Inr (False, a)
     else if m 923 \<noteq> None \<and> m 923 \<noteq> Some (am_reqId a) then Inr (False, a)
     else let success = (m 926 = Some ''1''); text = fieldValue m 927
          in Inr (True, if am_pending a
               then a\<lparr>am_calls := am_calls a @ [(success, text)], am_pending := False, am_reqId := []\<rparr>
               else a))"

subsection \<open>The callbacks of the application\<close>

record client_app =
  ap_blotter :: blotter
  ap_ladder :: ladder
  ap_marketData :: market_data_state

definition on_intent :: "new_order_intent \<Rightarrow> client_app \<Rightarrow> client_app" where
  "on_intent i a = (case catch_exn (instrument_from_string (ni_symbol i)) of
      None \<Rightarrow> a
    | Some symbol \<Rightarrow> a\<lparr>ap_blotter := recordOrderIntent
        \<lparr>bi_clientOrderId = ni_clientOrderId i, bi_symbol = symbol,
         bi_side = (if ni_side i = CHR ''1'' then Buy else Sell),
         bi_orderType = (if ni_orderType i = CHR ''1'' then Market else Limit),
         bi_price = ni_price i, bi_originalQuantity = word_of_int (ni_quantity i)\<rparr> (ap_blotter a)\<rparr>)"

fun on_message :: "parsed_message \<Rightarrow> client_app \<Rightarrow> client_app" where
  "on_message (ParsedReport r) a = a\<lparr>ap_blotter := processExecution r (ap_blotter a)\<rparr>"
| "on_message msg a = a\<lparr>ap_ladder := route_market_data (md_symbol (ap_marketData a)) msg (ap_ladder a)\<rparr>"

fun on_client_out :: "client_out \<Rightarrow> client_app \<Rightarrow> client_app" where
  "on_client_out (MessageOut msg) a = on_message msg a"
| "on_client_out (IntentOut i) a = on_intent i a"
| "on_client_out _ a = a"

text \<open>A newly selected symbol gets an empty ladder, in the next pass of the render loop.\<close>

definition render_symbol :: "client_app \<Rightarrow> client_app" where
  "render_symbol a =
     (if md_symbol (ap_marketData a) \<noteq> l_symbol (ap_ladder a)
      then a\<lparr>ap_ladder := new_ladder (md_symbol (ap_marketData a))\<rparr> else a)"

end
