(* ===== verification/ClientOrders.thy ===== *)
theory ClientOrders
  imports ClientWire ClientApp
begin

text \<open>
  An order on its way from the client's order entry to the exchange: the message
  \<open>FixClientSession::sendNewOrder\<close> writes, as the order converter of the exchange reads it.
\<close>

subsection \<open>ASCII texts\<close>

definition ascii :: "string \<Rightarrow> bool" where
  "ascii s \<longleftrightarrow> list_all (\<lambda>c. byte c < 128) s"

lemma ascii_simps [simp]:
  "ascii []" "ascii (c # s) \<longleftrightarrow> byte c < 128 \<and> ascii s" "ascii (s @ t) \<longleftrightarrow> ascii s \<and> ascii t"
  "ascii (replicate n c) \<longleftrightarrow> n = 0 \<or> byte c < 128"
  by (auto simp: ascii_def list_all_iff)

lemma ascii_digits: "\<forall>c\<in>set ds. isdigit c \<Longrightarrow> ascii ds"
  by (auto simp: ascii_def list_all_iff isdigit_def intro: le_less_trans)

lemma ascii_numbers [simp]: "ascii (dec n)" "ascii (to_string_i i)" "ascii (to_string_u w)"
  "ascii (pad0 k s) \<longleftrightarrow> ascii s" "ascii (two_digits i)"
proof -
  show d: "ascii (dec n)" for n by (rule ascii_digits [OF dec_digits])
  show p: "ascii (pad0 k s) \<longleftrightarrow> ascii s" for k s by (auto simp: pad0_def byte_def)
  show "ascii (to_string_i i)" "ascii (to_string_u w)" "ascii (two_digits i)"
    using d by (simp_all add: to_string_i_def to_string_u_def two_digits_def p) (simp add: byte_def)
qed

lemma byte_SOH [simp]: "byte SOH = 1"
  by (simp add: SOH_def byte_char_of)

lemma byte_chars [simp]: "byte (CHR ''='') = 61" "byte (CHR ''.'') = 46" "byte (CHR ''-'') = 45" "byte (CHR '':'') = 58"
  by (simp_all add: byte_def)

lemma ascii_field [simp]: "ascii (field t v) \<longleftrightarrow> ascii v"
  by (simp add: field_def)

lemma ascii_fields [simp]: "ascii (fields_text fs) \<longleftrightarrow> list_all (\<lambda>(t, v). ascii v) fs"
  by (induction fs) auto

lemma ascii_time [simp]: "ascii (generateTimestamp now)"
  by (cases "gmtime (tdiv now 1000000000)")
    (simp add: generateTimestamp_def time_text_def put_time_def put_clock_def)

lemma ascii_price [simp]: "ascii (print_fixed p x)"
  by (cases x) (simp_all add: Let_def byte_def)

lemma ascii_instrument [simp]: "ascii (instrument_to_string i)"
  by (cases i) (simp_all add: instrument_to_string_def symbol_names_def name_at_def byte_def)

lemma built_fields:
  "built_text now sender target n msgType body =
     field BeginString ''FIX.4.4''
     @ field BodyLength (dec (length (built_payload now sender target n msgType body)))
     @ field MsgType msgType @ field SenderCompID sender @ field TargetCompID target
     @ field MsgSeqNum (to_string_u n) @ field SendingTime (generateTimestamp now) @ body"
  using buildMessage_fields [of now sender target n msgType body]
  by (simp add: buildMessage_eq Let_def framed_unframed built_text_def unframed_def field_texts built_payload_def)

text \<open>A message of ASCII texts has the checksum the receivers expect.\<close>

lemma ascii_checksum:
  assumes "ascii sender" "ascii target" "ascii msgType" "ascii body"
  shows "0 \<le> builder_checksum (built_text now sender target n msgType body)"
proof -
  have "ascii (built_text now sender target n msgType body)"
    using assms by (simp add: built_fields) (simp add: byte_def)
  then show ?thesis by (simp add: builder_checksum_ascii ascii_def list_all_iff)
qed

subsection \<open>The order message\<close>

definition order_fields :: "string \<Rightarrow> string \<Rightarrow> char \<Rightarrow> timestamp \<Rightarrow> int \<Rightarrow> char \<Rightarrow> dbl \<Rightarrow> char \<Rightarrow> fields" where
  "order_fields clOrdId symbol side now qty type price tif =
     [(ClOrdID, clOrdId), (SymbolTag, symbol), (Side, [side]), (TransactTime, generateTimestamp now),
      (OrderQty, to_string_i qty), (OrdType, [type])]
     @ (if type \<noteq> CHR ''1'' then [(Price, print_fixed 5 price)] else [])
     @ (if tif \<noteq> CHR ''0'' then [(TimeInForce, [tif])] else [])"

lemma order_body_fields:
  "order_body clOrdId symbol side now qty type price tif =
     fields_text (order_fields clOrdId symbol side now qty type price tif)"
proof -
  have "to_string_i 11 = ''11''" "to_string_i 55 = ''55''" "to_string_i 54 = ''54''" "to_string_i 60 = ''60''"
    "to_string_i 38 = ''38''" "to_string_i 40 = ''40''" "to_string_i 44 = ''44''" "to_string_i 59 = ''59''"
    by code_simp+
  then show ?thesis by (simp add: order_body_def order_fields_def field_def)
qed

lemma stoull_nonneg:
  assumes "0 \<le> q" "q < 2 ^ 64"
  shows "stoull (to_string_i q) = Inr (word_of_int q)"
proof -
  have "uint (word_of_int q :: u64) = q" using assms by (simp add: uint_word_of_int)
  then have "to_string_i q = to_string_u (word_of_int q :: u64)"
    using assms by (simp add: to_string_i_nonneg to_string_u_def unat_eq_nat_uint)
  then show ?thesis by simp
qed

lemma charToOrderSide_SOH: "charToOrderSide c = Inr sd \<Longrightarrow> c \<noteq> SOH \<and> byte c < 128"
  by (auto simp: charToOrderSide_def SOH_eq byte_def split: if_splits)

text \<open>The converter reads the order, unless the message carries no price.\<close>

lemma order_fields_read:
  assumes side: "charToOrderSide side = Inr sd"
    and qty: "0 \<le> qty" "qty < 2 ^ 64" and price: "type \<noteq> CHR ''1'' \<Longrightarrow> quotable 5 price"
  shows "catch_exn (parse_order (built_map now sender target n ''D''
      (order_fields clOrdId (instrument_to_string i) side now' qty type price tif))) =
    (if type = CHR ''1'' then None
     else Some \<lparr>or_senderCompID = sender, or_clientOrderId = clOrdId, or_symbol = i, or_side = sd,
       or_quantity = word_of_int qty, or_price = price\<rparr>)"
proof -
  have five: "5 = Suc 4" by simp
  have p: "type \<noteq> CHR ''1'' \<Longrightarrow> stod (print_fixed 5 price) = Inr price"
    using price unfolding five by (rule stod_quotable)
  show ?thesis
    using side p
    by (simp add: parse_order_def tag_at_def built_map_def order_fields_def fields_map_def stoull_nonneg [OF qty])
qed

text \<open>What \<open>sendNewOrder\<close> hands out while the session is active: the message, and the intent.\<close>

definition order_message ::
  "client_env \<Rightarrow> string \<Rightarrow> char \<Rightarrow> dbl \<Rightarrow> int \<Rightarrow> char \<Rightarrow> char \<Rightarrow> client_session \<Rightarrow> string" where
  "order_message E symbol side price qty type tif s =
     buildMessage (c_wall E (cReadings s + 2)) (cSenderCompId s) (cTargetCompId s) (next_out s) ''D''
       (order_body (to_string_i (tdiv (c_wall E (cReadings s)) 1000)) symbol side
          (c_wall E (cReadings s + 1)) qty type price tif)"

lemma sendNewOrder_writes:
  assumes "cState s = Active" "cSocketOpen s"
  shows "cOut (sendNewOrder E symbol side price qty type tif s) = cOut s @
      [Wrote (order_message E symbol side price qty type tif s),
       IntentOut \<lparr>ni_clientOrderId = to_string_i (tdiv (c_wall E (cReadings s)) 1000), ni_symbol = symbol,
         ni_side = side, ni_price = price, ni_quantity = qty, ni_orderType = type, ni_timeInForce = tif\<rparr>]"
    and "mOutSeqNum (cSeqStore (sendNewOrder E symbol side price qty type tif s)) = next_out s + 1"
  using assms
  by (simp_all add: sendNewOrder_def sendMessage_def write_numbered_def client_write_def store_next_def
      next_out_def order_message_def getNextSenderSeqNum_def Let_def)

lemma order_message_read:
  assumes names: "SOH \<notin> set (cSenderCompId s)" "SOH \<notin> set (cTargetCompId s)"
      "ascii (cSenderCompId s)" "ascii (cTargetCompId s)"
    and side: "charToOrderSide side = Inr sd" and chars: "type \<noteq> SOH" "byte type < 128" "tif \<noteq> SOH" "byte tif < 128"
    and qty: "0 \<le> qty" "qty < 2 ^ 64" and price: "type \<noteq> CHR ''1'' \<Longrightarrow> quotable 5 price"
  shows "BinaryToOrderRequest (order_message E (instrument_to_string i) side price qty type tif s) =
    (if type = CHR ''1'' then None
     else Some \<lparr>or_senderCompID = cSenderCompId s,
       or_clientOrderId = to_string_i (tdiv (c_wall E (cReadings s)) 1000), or_symbol = i, or_side = sd,
       or_quantity = word_of_int qty, or_price = price\<rparr>)"
proof -
  let ?fs = "order_fields (to_string_i (tdiv (c_wall E (cReadings s)) 1000)) (instrument_to_string i) side
    (c_wall E (cReadings s + 1)) qty type price tif"
  have "clean_fields ?fs"
    using charToOrderSide_SOH [OF side] chars(1,3) by (auto simp: clean_fields_def order_fields_def)
  moreover have "list_all (\<lambda>(t, v). ascii v) ?fs"
    using charToOrderSide_SOH [OF side] chars(2,4) by (auto simp: order_fields_def)
  then have "0 \<le> builder_checksum (built_text (c_wall E (cReadings s + 2)) (cSenderCompId s) (cTargetCompId s)
      (next_out s) ''D'' (fields_text ?fs))"
    by (intro ascii_checksum names) (simp_all add: byte_def)
  ultimately show ?thesis
    unfolding order_message_def order_body_fields
    using order_of_built [OF names(1,2)] order_fields_read [OF side qty price] by simp
qed

subsection \<open>From the ticket to the exchange\<close>

lemma instrument_from_stringD: "instrument_from_string v = Inr i \<Longrightarrow> v = instrument_to_string i"
  by (auto simp: enum_string_defs split: option.splits if_splits)

lemma ticket_parts:
  assumes "validateOrderTicket t = None"
  obtains i sd where "ot_symbol t = instrument_to_string i" "charToOrderSide (ot_side t) = Inr sd"
    "0 < ot_quantity t" "ot_orderType t = CHR ''1'' \<or> ot_orderType t = CHR ''2''"
    "ot_timeInForce t \<noteq> SOH" "byte (ot_timeInForce t) < 128"
proof -
  have "catch_exn (instrument_from_string (ot_symbol t)) \<noteq> None"
    using assms by (auto simp: validateOrderTicket_def split: if_splits)
  then obtain i where "instrument_from_string (ot_symbol t) = Inr i"
    by (cases "instrument_from_string (ot_symbol t)") auto
  then have "ot_symbol t = instrument_to_string i" by (rule instrument_from_stringD)
  moreover have "ot_side t = CHR ''1'' \<or> ot_side t = CHR ''2''" "0 < ot_quantity t"
    "ot_orderType t = CHR ''1'' \<or> ot_orderType t = CHR ''2''"
    "ot_timeInForce t = CHR ''0'' \<or> ot_timeInForce t = CHR ''1'' \<or> ot_timeInForce t = CHR ''3'' \<or> ot_timeInForce t = CHR ''4''"
    using assms by (auto simp: validateOrderTicket_def split: if_splits)
  ultimately show thesis using that by (auto simp: charToOrderSide_def SOH_eq byte_def)
qed

text \<open>Names a client and its exchange can have: ASCII, no equals sign, no delimiter.\<close>

definition good_names :: "client_session \<Rightarrow> bool" where
  "good_names s \<longleftrightarrow> plain (cSenderCompId s) \<and> ascii (cSenderCompId s) \<and> plain (cTargetCompId s) \<and> ascii (cTargetCompId s)"

abbreviation ticket_message :: "client_env \<Rightarrow> order_ticket \<Rightarrow> client_session \<Rightarrow> string" where
  "ticket_message E t s \<equiv> order_message E (ot_symbol t) (ot_side t) (ot_price t) (ot_quantity t)
     (ot_orderType t) (ot_timeInForce t) s"

lemma submit_ticket:
  assumes valid: "validateOrderTicket t = None" "ot_quantity t < 2 ^ 31"
    and price: "ot_orderType t \<noteq> CHR ''1'' \<Longrightarrow> quotable 5 (ot_price t)"
    and session: "cState s = Active" "cSocketOpen s" "good_names s"
  obtains s' intent i sd where "trySubmitOrder E t (Some s) = (True, [], Some s')"
    "cOut s' = cOut s @ [Wrote (ticket_message E t s), IntentOut intent]"
    "instrument_from_string (ot_symbol t) = Inr i" "charToOrderSide (ot_side t) = Inr sd"
    "ni_quantity intent = ot_quantity t" "ni_price intent = ot_price t"
    "BinaryToOrderRequest (ticket_message E t s) = (if ot_orderType t = CHR ''1'' then None
       else Some \<lparr>or_senderCompID = cSenderCompId s, or_clientOrderId = ni_clientOrderId intent,
         or_symbol = i, or_side = sd, or_quantity = word_of_int (ot_quantity t), or_price = ot_price t\<rparr>)"
proof -
  obtain i sd where t: "ot_symbol t = instrument_to_string i" "charToOrderSide (ot_side t) = Inr sd"
    "0 < ot_quantity t" "ot_orderType t = CHR ''1'' \<or> ot_orderType t = CHR ''2''"
    "ot_timeInForce t \<noteq> SOH" "byte (ot_timeInForce t) < 128"
    by (rule ticket_parts [OF valid(1)])
  have type: "ot_orderType t \<noteq> SOH" "byte (ot_orderType t) < 128"
    using t(4) by (auto simp: SOH_eq byte_def)
  have names: "SOH \<notin> set (cSenderCompId s)" "SOH \<notin> set (cTargetCompId s)"
    "ascii (cSenderCompId s)" "ascii (cTargetCompId s)"
    using session(3) by (simp_all add: good_names_def plain_def)
  have qty: "0 \<le> ot_quantity t" "ot_quantity t < 2 ^ 64" using t(3) valid(2) by simp_all
  note read = order_message_read [OF names t(2) type t(5,6) qty price, of E i, folded t(1)]
  let ?intent = "\<lparr>ni_clientOrderId = to_string_i (tdiv (c_wall E (cReadings s)) 1000), ni_symbol = ot_symbol t,
    ni_side = ot_side t, ni_price = ot_price t, ni_quantity = ot_quantity t, ni_orderType = ot_orderType t,
    ni_timeInForce = ot_timeInForce t\<rparr>"
  show thesis
  proof (rule that [of _ ?intent i sd])
    show "trySubmitOrder E t (Some s) = (True, [], Some (sendNewOrder E (ot_symbol t) (ot_side t) (ot_price t)
        (ot_quantity t) (ot_orderType t) (ot_timeInForce t) s))"
      using session(1) valid(1) by (simp add: trySubmitOrder_def)
  qed (use sendNewOrder_writes(1) [OF session(1,2)] t(1,2) read in simp_all)
qed

text \<open>An active client with an empty store, a ticket, a clock that ticks in milliseconds.\<close>

definition demo_client :: client_session where
  "demo_client = (init_client ''CLIENT1'' ''BETA_EXCHANGE'' None True)\<lparr>cState := Active, cSocketOpen := True\<rparr>"

definition demo_client_env :: client_env where
  "demo_client_env = \<lparr>c_wall = (\<lambda>k. int k * 1000000), c_zone = (\<lambda>_. 0)\<rparr>"

definition demo_ticket :: "char \<Rightarrow> order_ticket" where
  "demo_ticket type = \<lparr>ot_symbol = ''EURUSD'', ot_side = CHR ''1'', ot_price = Fin (5 / 4), ot_quantity = 5,
     ot_orderType = type, ot_timeInForce = CHR ''0''\<rparr>"

lemma demo_client_session: "cState demo_client = Active" "cSocketOpen demo_client" "good_names demo_client"
  "cOut demo_client = []" "cSenderCompId demo_client = ''CLIENT1''"
  by (simp_all add: demo_client_def init_client_def good_names_def plain_def SOH_eq byte_def)

lemma demo_ticket_fields: "ot_symbol (demo_ticket c) = ''EURUSD''" "ot_side (demo_ticket c) = CHR ''1''"
  "ot_price (demo_ticket c) = Fin (5 / 4)" "ot_quantity (demo_ticket c) = 5" "ot_orderType (demo_ticket c) = c"
  by (simp_all add: demo_ticket_def)

lemma demo_tickets:
  "validateOrderTicket (demo_ticket (CHR ''2'')) = None" "validateOrderTicket (demo_ticket (CHR ''1'')) = None"
  "charToOrderSide (CHR ''1'') = Inr Buy" "instrument_from_string ''EURUSD'' = Inr EURUSD"
  by code_simp+

lemma demo_price: "quotable 5 (Fin (5 / 4))"
proof -
  have d: "decimal 5 (5 / 4) = 5 / 4" by (simp add: decimal_def round_half_even_def)
  have "rnd64 (5 / 4) = Fin (5 / 4)" "\<not> underflows (5 / 4)" by code_simp+
  then show ?thesis unfolding quotable.simps d by simp
qed

text \<open>
  C17: a limit order arrives at the exchange as it was entered. The order entry accepts a valid
  limit ticket on an active session; exactly one message is written and one order intent is
  reported. The exchange's converter reads from that message the symbol, side, quantity and
  price of the ticket, the client's own name, and the client order id of the intent, when the
  price is the double next to a decimal of five places and the quantity fits an \<open>int\<close>.
\<close>

theorem limit_order_reaches_the_exchange:
  assumes valid: "validateOrderTicket t = None" "ot_orderType t = CHR ''2''" "ot_quantity t < 2 ^ 31"
    and price: "quotable 5 (ot_price t)"
    and session: "cState s = Active" "cSocketOpen s" "good_names s"
  shows "\<exists>s' m intent i sd. trySubmitOrder E t (Some s) = (True, [], Some s') \<and>
     cOut s' = cOut s @ [Wrote m, IntentOut intent] \<and>
     instrument_from_string (ot_symbol t) = Inr i \<and> charToOrderSide (ot_side t) = Inr sd \<and>
     ni_quantity intent = ot_quantity t \<and> ni_price intent = ot_price t \<and>
     BinaryToOrderRequest m = Some \<lparr>or_senderCompID = cSenderCompId s,
       or_clientOrderId = ni_clientOrderId intent, or_symbol = i, or_side = sd,
       or_quantity = word_of_int (ot_quantity t), or_price = ot_price t\<rparr>"
proof -
  have "ot_orderType t \<noteq> CHR ''1''" by (simp add: valid(2))
  then show ?thesis
    using submit_ticket [OF valid(1,3) price session, of E] by (metis (no_types, lifting))
qed

theorem limit_order_reaches_the_exchange_demo:
  "\<exists>s' m intent. trySubmitOrder demo_client_env (demo_ticket (CHR ''2'')) (Some demo_client) = (True, [], Some s') \<and>
     cOut s' = [Wrote m, IntentOut intent] \<and>
     BinaryToOrderRequest m = Some \<lparr>or_senderCompID = ''CLIENT1'', or_clientOrderId = ni_clientOrderId intent,
       or_symbol = EURUSD, or_side = Buy, or_quantity = 5, or_price = Fin (5 / 4)\<rparr>"
proof -
  have "ot_orderType (demo_ticket (CHR ''2'')) = CHR ''2''" "ot_quantity (demo_ticket (CHR ''2'')) < 2 ^ 31"
    "quotable 5 (ot_price (demo_ticket (CHR ''2'')))"
    by (simp_all add: demo_ticket_fields demo_price del: quotable.simps)
  from limit_order_reaches_the_exchange [OF demo_tickets(1) this demo_client_session(1-3), of demo_client_env]
  show ?thesis unfolding demo_ticket_fields demo_tickets(3,4) demo_client_session(4,5) by auto
qed

text \<open>
  C21: market orders never reach the book. The order entry accepts a market ticket, the client
  writes the message without a price, and the exchange, which needs one for every order, answers
  with a business reject under the message's number: no partition gets a command.
\<close>

theorem market_order_is_refused:
  assumes valid: "validateOrderTicket t = None" "ot_orderType t = CHR ''1''" "ot_quantity t < 2 ^ 31"
    and session: "cState s = Active" "cSocketOpen s" "good_names s"
    and server: "getSessionState sid (mSessionManager srv) = Some st" "isLoggedOn st"
  shows "\<exists>s' m intent srv1 srv'. trySubmitOrder E t (Some s) = (True, [], Some s') \<and>
     cOut s' = cOut s @ [Wrote m, IntentOut intent] \<and>
     handleFixMessage F sid m (CHR ''D'') srv = Some srv' \<and>
     srv' = sendBusinessMessageReject F sid (next_out s) (CHR ''D'') 5 ''Invalid NewOrderSingle'' srv1 \<and>
     mPartitions (mTradingCore srv') = mPartitions (mTradingCore srv)"
proof -
  let ?m = "ticket_message E t s" 
  obtain s' intent where sent: "trySubmitOrder E t (Some s) = (True, [], Some s')"
    "cOut s' = cOut s @ [Wrote ?m, IntentOut intent]" and unread: "BinaryToOrderRequest ?m = None"
    using submit_ticket [OF valid(1,3) _ session, of E] valid(2) by metis
  have "plain (cSenderCompId s)" "plain (cTargetCompId s)" using session(3) by (simp_all add: good_names_def)
  then have num: "message_seq_num ?m = Inr (next_out s)"
    unfolding order_message_def by (rule built_searches) (simp add: plain_def SOH_eq)
  obtain b mw where v: "validateSequence sid (next_out s) (mSessionManager srv) (mDatabaseWorker (mTradingCore srv)) = (b, mw)"
    by (rule prod.exhaust)
  let ?srv' = "sendBusinessMessageReject F sid (next_out s) (CHR ''D'') 5 ''Invalid NewOrderSingle'' (set_manager mw srv)"
  have "handleFixMessage F sid ?m (CHR ''D'') srv = Some ?srv'"
    using server num unread v by (simp add: handleFixMessage_def handle_application_def handleNewOrderSingle_def Let_def)
  moreover have "mPartitions (mTradingCore ?srv') = mPartitions (mTradingCore srv)"
    by (simp add: sendBusinessMessageReject_def send_numbered_partitions set_manager_def)
  ultimately show ?thesis using sent by blast
qed

theorem market_order_is_refused_demo:
  "\<exists>s' m intent srv'. trySubmitOrder demo_client_env (demo_ticket (CHR ''1'')) (Some demo_client) = (True, [], Some s') \<and>
     cOut s' = [Wrote m, IntentOut intent] \<and>
     handleFixMessage demo_fix_env 1 m (CHR ''D'') bob_server = Some srv' \<and>
     mPartitions (mTradingCore srv') = mPartitions (mTradingCore bob_server)"
proof -
  have on: "getSessionState 1 (mSessionManager bob_server) =
      Some \<lparr>isLoggedOn = True, inSeqNum = 1, outSeqNum = 2, senderCompId = ''bob''\<rparr>"
    by (simp add: bob_server_def getSessionState_def)
  have "ot_orderType (demo_ticket (CHR ''1'')) = CHR ''1''" "ot_quantity (demo_ticket (CHR ''1'')) < 2 ^ 31"
    by (simp_all add: demo_ticket_fields)
  from market_order_is_refused [OF demo_tickets(2) this demo_client_session(1-3) on, of demo_client_env demo_fix_env]
  show ?thesis unfolding demo_client_session(4) by auto
qed

end
