(* ===== verification/ClientStream.thy ===== *)
theory ClientStream
  imports ClientSession
begin

text \<open>
  The byte stream of the client: how the bytes of the exchange are cut into reads does not
  matter, and the numbers of the session survive a restart.
\<close>

subsection \<open>The first match in a longer text\<close>

lemma starts_with_append: "starts_with pat s \<Longrightarrow> starts_with pat (s @ t)"
  by (induction pat s rule: starts_with.induct) auto

lemma starts_with_iff: "starts_with pat s \<longleftrightarrow> (\<exists>u. s = pat @ u)"
  by (induction pat s rule: starts_with.induct) auto

lemma starts_with_app_iff: "length pat \<le> length s \<Longrightarrow> starts_with pat (s @ t) \<longleftrightarrow> starts_with pat s"
  by (induction pat s rule: starts_with.induct) auto

lemma find_from_start_append:
  "find_from_start pat s = Some i \<Longrightarrow> find_from_start pat (s @ t) = Some i"
proof (induction s arbitrary: i)
  case Nil
  then show ?case by (cases t) (auto split: if_splits)
next
  case (Cons c s)
  show ?case
  proof (cases "starts_with pat (c # s)")
    case True
    then show ?thesis using Cons.prems starts_with_append [of pat "c # s" t] by simp
  next
    case False
    then obtain j where j: "i = Suc j" "find_from_start pat s = Some j" using Cons.prems by auto
    have bound: "j + length pat \<le> length s" using find_from_start_SomeD [OF j(2)] by simp
    then have "\<not> starts_with pat (c # s @ t)"
      using False starts_with_app_iff [of pat "c # s" t] by simp
    then show ?thesis using Cons.IH [OF j(2)] j(1) by simp
  qed
qed

lemma find_append: "find s pat from = Some i \<Longrightarrow> find (s @ t) pat from = Some i"
  using find_from_start_append [of pat "drop from s" _ t]
  by (auto simp: find_def split: if_splits)

lemma find_bound: "find s pat from = Some i \<Longrightarrow> from \<le> i \<and> i + length pat \<le> length s"
  using find_from_start_SomeD by (fastforce simp: find_def split: if_splits)

lemma find_starts: "find s pat from = Some i \<Longrightarrow> starts_with pat (drop i s)"
  using find_from_start_SomeD [of pat "drop from s"] by (auto simp: find_def add.commute split: if_splits)

text \<open>A match that is new in the longer text reaches into the added part.\<close>

lemma find_from_start_restrict:
  "find_from_start pat (s @ t) = Some i \<Longrightarrow> i + length pat \<le> length s \<Longrightarrow> find_from_start pat s = Some i"
proof (induction s arbitrary: i)
  case (Cons c s)
  have restrict: "starts_with pat (c # s)" if "starts_with pat (c # s @ t)" "length pat \<le> Suc (length s)"
    using that starts_with_app_iff [of pat "c # s" t] by simp
  show ?case
  proof (cases "starts_with pat (c # s @ t)")
    case True
    then show ?thesis using Cons.prems restrict by simp
  next
    case False
    then obtain j where j: "i = Suc j" "find_from_start pat (s @ t) = Some j" using Cons.prems by auto
    moreover have "\<not> starts_with pat (c # s)" using False starts_with_append by fastforce
    ultimately show ?thesis using Cons by simp
  qed
qed (simp split: if_splits)

lemma find_restrict:
  "find (s @ t) pat 0 = Some i \<Longrightarrow> i + length pat \<le> length s \<Longrightarrow> find s pat 0 = Some i"
  using find_from_start_restrict [of pat s t i] by (simp add: find_def)

subsection \<open>The bounds of the first message\<close>

abbreviation begin_fix :: string where
  "begin_fix \<equiv> ''8=FIX.4.4'' @ [SOH] @ ''9=''"

abbreviation begin_fixt :: string where
  "begin_fixt \<equiv> ''8=FIXT.1.1'' @ [SOH] @ ''9=''"

lemma message_start_append:
  assumes "findMessageStart s = Some p" and room: "p + 16 \<le> length s"
  shows "findMessageStart (s @ t) = Some p"
proof -
  have later: "p \<le> i" if "find (s @ t) pat 0 = Some i" "find s pat 0 = None" "length pat \<le> 16" for pat i
    using find_restrict [OF that(1)] that(2,3) room by (cases "i + length pat \<le> length s") auto
  have len: "length begin_fix \<le> 16" "length begin_fixt \<le> 16" by simp_all
  show ?thesis
  proof (cases "find s begin_fix 0")
    case None
    then have b: "find s begin_fixt 0 = Some p" using assms(1) by (simp add: findMessageStart_def)
    show ?thesis
      using find_append [OF b, of t] later [OF _ None len(1)]
      by (cases "find (s @ t) begin_fix 0") (auto simp: findMessageStart_def)
  next
    case (Some a)
    note a = find_append [OF this, of t]
    show ?thesis
    proof (cases "find s begin_fixt 0")
      case None
      then have "a = p" using assms(1) Some by (simp add: findMessageStart_def)
      then show ?thesis
        using a later [OF _ None len(2)]
        by (cases "find (s @ t) begin_fixt 0") (auto simp: findMessageStart_def)
    next
      case (Some b)
      then show ?thesis
        using find_append [OF Some, of t] a assms(1) \<open>find s begin_fix 0 = Some a\<close>
        by (simp add: findMessageStart_def)
    qed
  qed
qed

lemma message_start_begins:
  assumes "findMessageStart s = Some p"
  shows "starts_with begin_fix (drop p s) \<or> starts_with begin_fixt (drop p s)"
  using assms find_from_start_SomeD [of begin_fix s] find_from_start_SomeD [of begin_fixt s]
  by (auto simp: findMessageStart_def find_def min_def split: option.splits if_splits)

lemma starts_with_nth:
  "starts_with pat (drop i s) \<Longrightarrow> i \<le> length s \<Longrightarrow> k < length pat \<Longrightarrow> s ! (i + k) = pat ! k"
proof -
  assume "starts_with pat (drop i s)" "i \<le> length s" "k < length pat"
  then obtain u where "drop i s = pat @ u" by (auto simp: starts_with_iff)
  then have "drop i s ! k = pat ! k" using \<open>k < length pat\<close> by (simp add: nth_append)
  then show "s ! (i + k) = pat ! k" using \<open>i \<le> length s\<close> by simp
qed

text \<open>The checksum tag cannot overlap the begin string.\<close>

lemma tag_behind_begin:
  assumes "findMessageStart s = Some p" "find s ''10='' p = Some q"
  shows "p + 12 \<le> q"
proof (rule ccontr)
  assume "\<not> p + 12 \<le> q"
  have q: "p \<le> q" "q + 3 \<le> length s" using find_bound [OF assms(2)] by simp_all
  have "starts_with ''10='' (drop q s)"
    by (rule find_starts [OF assms(2)])
  then have one: "s ! q = CHR ''1''" and zero: "s ! (q + 1) = CHR ''0''"
    using starts_with_nth [of "''10=''" q s 0] starts_with_nth [of "''10=''" q s 1] q by simp_all
  define k where "k = q - p"
  have k: "q = p + k" "k < 12" using q \<open>\<not> p + 12 \<le> q\<close> by (simp_all add: k_def)
  then have cases: "k = 0 \<or> k = 1 \<or> k = 2 \<or> k = 3 \<or> k = 4 \<or> k = 5 \<or> k = 6 \<or> k = 7 \<or> k = 8 \<or> k = 9 \<or> k = 10 \<or> k = 11"
    by arith
  have p: "p \<le> length s" using q by simp
  from message_start_begins [OF assms(1)] show False
  proof
    assume b: "starts_with begin_fix (drop p s)"
    then have "begin_fix ! k = CHR ''1''" using starts_with_nth [OF b p, of k] one k by simp
    then show False using cases by (auto simp: SOH_eq)
  next
    assume b: "starts_with begin_fixt (drop p s)"
    then have "begin_fixt ! k = CHR ''1''" "begin_fixt ! (k + 1) = CHR ''0''"
      using starts_with_nth [OF b p, of k] starts_with_nth [OF b p, of "k + 1"] one zero k by simp_all
    then show False using cases by (auto simp: SOH_eq)
  qed
qed

lemma message_bounds_append:
  assumes "message_bounds s = Some (p, e)"
  shows "message_bounds (s @ t) = Some (p, e)"
proof -
  obtain q i where parts: "findMessageStart s = Some p" "find s ''10='' p = Some q" "find_char s SOH q = Some i"
    and e: "e = i + 1"
    using assms by (auto simp: message_bounds_def bind_eq_Some_conv)
  have q: "q + 3 \<le> length s" using find_bound [OF parts(2)] by simp
  have i: "q \<le> i" "i < length s" using find_bound [of s "[SOH]" q i] parts(3) by (simp_all add: find_char_def)
  have "starts_with ''10='' (drop q s)"
    by (rule find_starts [OF parts(2)])
  then have not_soh: "s ! q = CHR ''1''" "s ! (q + 1) = CHR ''0''" "s ! (q + 2) = CHR ''=''"
    using starts_with_nth [of "''10=''" q s 0] starts_with_nth [of "''10=''" q s 1]
      starts_with_nth [of "''10=''" q s 2] q by simp_all
  have "s ! i = SOH"
    using starts_with_nth [of "[SOH]" i s 0] find_starts [of s "[SOH]" q i] parts(3) i by (simp add: find_char_def)
  then have "i \<noteq> q" "i \<noteq> q + 1" "i \<noteq> q + 2" using not_soh by (auto simp: SOH_eq)
  then have "p + 16 \<le> length s" using tag_behind_begin [OF parts(1,2)] i by simp
  then show ?thesis
    using message_start_append [OF parts(1)] find_append [OF parts(2)] find_append [of s "[SOH]" q i] parts(3) e
    by (simp add: message_bounds_def find_char_def)
qed

lemma message_bounds_start: "message_bounds s = Some (p, e) \<Longrightarrow> p \<le> e"
  by (auto simp: message_bounds_def bind_eq_Some_conv find_char_def dest!: find_bound)

subsection \<open>Reading in pieces\<close>

text \<open>Continue after a result: an exception and undefined behaviour end it.\<close>

definition and_then ::
  "(exn + 'a) option \<Rightarrow> ('a \<Rightarrow> (exn + 'b) option) \<Rightarrow> (exn + 'b) option" where
  "and_then r f = Option.bind r (\<lambda>x. case x of Inl e \<Rightarrow> Some (Inl e) | Inr a \<Rightarrow> f a)"

lemma and_then_simps [simp]:
  "and_then None f = None" "and_then (Some (Inl e)) f = Some (Inl e)" "and_then (Some (Inr a)) f = f a"
  by (simp_all add: and_then_def)

definition map_result :: "('a \<Rightarrow> 'b) \<Rightarrow> (exn + 'a) option \<Rightarrow> (exn + 'b) option" where
  "map_result f r = map_option (map_sum id f) r"

lemma map_result_simps [simp]:
  "map_result f None = None" "map_result f (Some (Inl e)) = Some (Inl e)"
  "map_result f (Some (Inr a)) = Some (Inr (f a))"
  by (simp_all add: map_result_def)

lemma read_loop_append:
  "client_read_loop E (b @ c) s =
     and_then (client_read_loop E b s) (\<lambda>(rest, s1). client_read_loop E (rest @ c) s1)"
proof (induction E b s rule: client_read_loop.induct)
  case (1 E b s)
  show ?case
  proof (cases "message_bounds b")
    case None
    then show ?thesis by (subst (2) client_read_loop.simps) simp
  next
    case (Some pe)
    obtain p e where pe: "message_bounds b = Some (p, e)" using Some by (cases pe) simp
    have e: "e \<le> length b" "p \<le> e" using message_bounds_end [OF pe] message_bounds_start [OF pe] by simp_all
    show ?thesis
    proof (cases "handleProtocolMessage E (take (e - p) (drop p b)) s")
      case None
      then show ?thesis
        using pe message_bounds_append [OF pe, of c] e by (simp add: client_read_loop.simps)
    next
      case (Some r)
      then show ?thesis
        using pe message_bounds_append [OF pe, of c] e "1.IH" [OF pe refl Some]
        by (cases r) (simp_all add: client_read_loop.simps [of E b] client_read_loop.simps [of E "b @ c"])
    qed
  qed
qed

text \<open>The handlers leave the read buffer alone.\<close>

lemmas client_handler_defs = handleLogonResponse_def handleLogoutResponse_def client_TestRequest_def
  handleSequenceReset_def client_Reject_def changeState_def emitEvent_def
  startHeartbeatTimer_def disconnect_def write_numbered_def store_next_def next_out_def client_write_def

lemma resend_buffer:
  "handleResendRequest E m (s\<lparr>cReadBuffer := x\<rparr>) =
     map_sum id (\<lambda>s. s\<lparr>cReadBuffer := x\<rparr>) (handleResendRequest E m s)"
  by (cases "map_number m 7"; cases "map_number m 16")
    (auto simp: handleResendRequest_def client_write_def next_out_def)

lemma application_buffer:
  "client_application E msg (s\<lparr>cReadBuffer := x\<rparr>) =
     map_option (\<lambda>s. s\<lparr>cReadBuffer := x\<rparr>) (client_application E msg s)"
  by (auto simp: client_application_def emitEvent_def Let_def split: parsed_message.split Option.bind_split)

lemma reset_buffer:
  "handleSequenceReset m (s\<lparr>cReadBuffer := x\<rparr>) =
     map_sum id (\<lambda>s. s\<lparr>cReadBuffer := x\<rparr>) (handleSequenceReset m s)"
  by (cases "m 36"; cases "stoul (the (m 36))") (auto simp: handleSequenceReset_def next_out_def)

lemma switch_buffer:
  "client_switch E msg m t (s\<lparr>cReadBuffer := x\<rparr>) =
     map_result (\<lambda>s. s\<lparr>cReadBuffer := x\<rparr>) (client_switch E msg m t s)"
  by (simp add: client_switch_def application_buffer resend_buffer reset_buffer handleLogonResponse_def
      handleLogoutResponse_def client_TestRequest_def client_Reject_def changeState_def emitEvent_def
      startHeartbeatTimer_def disconnect_def write_numbered_def store_next_def next_out_def client_write_def
      map_result_def option.map_comp comp_def Let_def)

lemma protocol_buffer:
  "handleProtocolMessage E msg (s\<lparr>cReadBuffer := x\<rparr>) =
     map_result (\<lambda>s. s\<lparr>cReadBuffer := x\<rparr>) (handleProtocolMessage E msg s)"
proof -
  have d: "disconnect (s\<lparr>cReadBuffer := x\<rparr>) = (disconnect s)\<lparr>cReadBuffer := x\<rparr>"
    by (simp add: disconnect_def changeState_def)
  have a: "accept_number n (s\<lparr>cReadBuffer := x\<rparr>) = map_option (\<lambda>s. s\<lparr>cReadBuffer := x\<rparr>) (accept_number n s)" for n
    by (simp add: accept_number_def next_out_def)
  show ?thesis
    by (auto simp: handleProtocolMessage_def switch_buffer d a split: sum.split list.split option.split)
qed

lemma read_loop_buffer:
  "client_read_loop E b (s\<lparr>cReadBuffer := x\<rparr>) =
     map_result (\<lambda>(rest, s). (rest, s\<lparr>cReadBuffer := x\<rparr>)) (client_read_loop E b s)"
proof (induction E b s rule: client_read_loop.induct)
  case (1 E b s)
  show ?case
  proof (cases "message_bounds b")
    case None
    then show ?thesis by (simp add: client_read_loop.simps)
  next
    case (Some pe)
    obtain p e where pe: "message_bounds b = Some (p, e)" using Some by (cases pe) simp
    show ?thesis
    proof (cases "handleProtocolMessage E (take (e - p) (drop p b)) s")
      case None
      then show ?thesis using pe by (simp add: client_read_loop.simps protocol_buffer)
    next
      case (Some r)
      then show ?thesis
        using pe "1.IH" [OF pe refl Some]
        by (cases r) (simp_all add: client_read_loop.simps [of E b] protocol_buffer)
    qed
  qed
qed

lemma and_then_map:
  "map_result f (and_then r g) = and_then r (\<lambda>x. map_result f (g x))"
  "and_then (map_result h r) k = and_then r (\<lambda>x. k (h x))"
  "map_result f (map_result h r') = map_result (\<lambda>x. f (h x)) r'"
proof -
  show "map_result f (and_then r g) = and_then r (\<lambda>x. map_result f (g x))"
    "and_then (map_result h r) k = and_then r (\<lambda>x. k (h x))"
    by (cases r; auto simp: and_then_def map_result_def split: sum.split)+
  show "map_result f (map_result h r') = map_result (\<lambda>x. f (h x)) r'"
    by (cases r') (auto simp: map_result_def sum.map_comp comp_def id_def)
qed

lemma receive_loop:
  "client_receive E bs s = map_result (\<lambda>(rest, s). s\<lparr>cReadBuffer := rest\<rparr>)
     (client_read_loop E (cReadBuffer s @ bs) s)"
  by (cases "client_read_loop E (cReadBuffer s @ bs) s"; cases "the (client_read_loop E (cReadBuffer s @ bs) s)")
    (auto simp: client_receive_def)

lemma receive_append:
  "client_receive E (b @ c) s = and_then (client_receive E b s) (client_receive E c)"
proof -
  have "client_receive E c = (\<lambda>s. map_result (\<lambda>(rest, s). s\<lparr>cReadBuffer := rest\<rparr>)
      (client_read_loop E (cReadBuffer s @ c) s))"
    by (rule ext) (rule receive_loop)
  then show ?thesis
    using read_loop_append [of E "cReadBuffer s @ b" c s]
    by (simp add: receive_loop and_then_map read_loop_buffer case_prod_unfold)
qed

text \<open>One completion of the read operation per piece.\<close>

fun receive_pieces :: "client_env \<Rightarrow> string list \<Rightarrow> client_session \<Rightarrow> client_result" where
  "receive_pieces E [] s = Some (Inr s)"
| "receive_pieces E (b # bs) s = and_then (client_receive E b s) (receive_pieces E bs)"

lemma receive_pieces_concat:
  "receive_pieces E (b # bs) s = client_receive E (concat (b # bs)) s"
proof (induction bs arbitrary: b s)
  case Nil
  have "and_then r (\<lambda>s. Some (Inr s)) = r" for r :: client_result
    by (cases r) (auto simp: and_then_def split: sum.split)
  moreover have "receive_pieces E [] = (\<lambda>s. Some (Inr s))" by (rule ext) simp
  ultimately show ?case by simp
next
  case (Cons c bs)
  have "receive_pieces E (c # bs) = client_receive E (concat (c # bs))" by (rule ext) (rule Cons.IH)
  then show ?case using receive_append [of E b "concat (c # bs)" s] by simp
qed


end
