(* ===== verification/ClientNumbers.thy ===== *)
theory ClientNumbers
  imports ClientSession
begin

text \<open>
  The sequence numbers of the client: its file always holds the numbers of the session, so a
  client that is started again goes on where the last one stopped.
\<close>

definition saved :: "client_session \<Rightarrow> bool" where
  "saved s \<longleftrightarrow> seq_writable (cSeqStore s) \<and> store_ok (cSeqStore s)"

lemma saved_set [simp]: "seq_writable x \<Longrightarrow> seq_writable (setSeqNums i out x) \<and> store_ok (setSeqNums i out x)"
  by (simp add: store_ok_set)

lemma saved_updates [simp]:
  "saved (s\<lparr>cState := st\<rparr>) = saved s" "saved (s\<lparr>cOut := os\<rparr>) = saved s" "saved (s\<lparr>cReadings := n\<rparr>) = saved s"
  "saved (s\<lparr>cTimerArmed := b\<rparr>) = saved s" "saved (s\<lparr>cSocketOpen := b\<rparr>) = saved s"
  "saved (s\<lparr>cReadBuffer := bs\<rparr>) = saved s" "saved (s\<lparr>cHeartbeatInterval := h\<rparr>) = saved s"
  by (simp_all add: saved_def)

lemma saved_quiet [simp]:
  "saved (changeState st s) = saved s" "saved (emitEvent t m s) = saved s" "saved (client_write m s) = saved s"
  "saved (startHeartbeatTimer s) = saved s" "saved (disconnect s) = saved s"
  by (simp_all add: changeState_def emitEvent_def client_write_def startHeartbeatTimer_def disconnect_def)

lemma saved_new: "saved s \<Longrightarrow> saved (s\<lparr>cSeqStore := setSeqNums i out (cSeqStore s)\<rparr>)"
  by (simp add: saved_def)

lemma saved_write_numbered: "saved s \<Longrightarrow> saved (write_numbered E mk s)"
  using saved_new [of "s\<lparr>cReadings := cReadings s + 1\<rparr>"] by (simp add: write_numbered_def store_next_def)

lemma saved_reset: "saved s \<Longrightarrow> saved (s\<lparr>cSeqStore := reset_store (cSeqStore s)\<rparr>)"
  by (simp add: saved_def reset_store_def store_ok_save)

lemma saved_send:
  assumes "saved s"
  shows "saved (sendLogon E hb reset s)" "saved (sendLogout E reason s)" "saved (sendMessage E t b s)"
    "saved (sendNewOrder E sy sd p q ty tif s)" "saved (sendMarketDataRequest E sy ty s)" "saved (heartbeat_fires E s)"
proof -
  have next_saved: "saved s' \<Longrightarrow> saved (store_next s')" for s' by (simp add: store_next_def saved_new)
  show "saved (sendLogon E hb reset s)"
    using assms saved_reset [OF assms] by (simp add: sendLogon_def Let_def next_saved)
  show m: "saved (sendMessage E t b s)" using assms by (simp add: sendMessage_def saved_write_numbered)
  show "saved (sendLogout E reason s)" "saved (heartbeat_fires E s)"
    using assms by (simp_all add: sendLogout_def heartbeat_fires_def saved_write_numbered)
  show "saved (sendNewOrder E sy sd p q ty tif s)" "saved (sendMarketDataRequest E sy ty s)"
    using assms by (simp_all add: sendNewOrder_def sendMarketDataRequest_def sendMessage_def saved_write_numbered Let_def)
qed

lemma saved_switch:
  assumes "saved s" "client_switch E msg m t s = Some (Inr s')"
  shows "saved s'"
proof -
  have "handleResendRequest E m s = Inr s' \<Longrightarrow> saved s'"
    using assms(1) by (cases "map_number m 7"; cases "map_number m 16") (auto simp: handleResendRequest_def)
  moreover have "handleSequenceReset m s = Inr s' \<Longrightarrow> saved s'"
    using assms(1) saved_new by (cases "m 36"; cases "stoul (the (m 36))") (auto simp: handleSequenceReset_def)
  moreover have "client_application E msg s = Some s' \<Longrightarrow> saved s'"
    using assms(1) by (cases "parse_message (c_zone E) msg") (auto simp: client_application_def Let_def bind_eq_Some_conv)
  moreover have "saved (handleLogonResponse s)" "saved (handleLogoutResponse s)" "saved (client_TestRequest E m s)"
    "saved (client_Reject m s)"
    using assms(1) by (simp_all add: handleLogonResponse_def handleLogoutResponse_def client_TestRequest_def
        client_Reject_def saved_write_numbered Let_def)
  ultimately show ?thesis
    using assms by (auto simp: client_switch_def split: if_splits)
qed

lemma saved_protocol:
  assumes "saved s" "handleProtocolMessage E msg s = Some (Inr s')"
  shows "saved s'"
proof -
  have accept: "accept_number n s = Some s1 \<Longrightarrow> saved s1" for n s1
    using assms(1) saved_new by (auto simp: accept_number_def Let_def split: if_splits)
  then show ?thesis
    using assms
    by (auto simp: handleProtocolMessage_def split: sum.splits list.splits if_splits option.splits
        dest: saved_switch accept)
qed

lemma saved_read_loop:
  "saved s \<Longrightarrow> client_read_loop E b s = Some (Inr (rest, s')) \<Longrightarrow> saved s'"
proof (induction E b s rule: client_read_loop.induct)
  case (1 E b s)
  then show ?case
    using saved_protocol [OF 1(2)]
    by (subst (asm) (2) client_read_loop.simps) (auto split: option.splits sum.splits prod.splits)
qed

lemma saved_step: "saved s \<Longrightarrow> step_client E x s = Some (Inr s') \<Longrightarrow> saved s'"
proof (cases x)
  case (Bytes b)
  assume s: "saved s" and step: "step_client E x s = Some (Inr s')"
  show ?thesis
  proof (cases "cSocketOpen s")
    case True
    then obtain rest s1 where "client_read_loop E (cReadBuffer s @ b) s = Some (Inr (rest, s1))" "s' = s1\<lparr>cReadBuffer := rest\<rparr>"
      using step by (cases "client_read_loop E (cReadBuffer s @ b) s"; cases "the (client_read_loop E (cReadBuffer s @ b) s)")
        (auto simp: Bytes client_receive_def)
    then show ?thesis using saved_read_loop [OF s] by simp
  qed (use s step in \<open>simp add: Bytes\<close>)
qed (auto simp: client_connect_def transport_error_def saved_send)

lemma saved_run: "saved s \<Longrightarrow> client_run E xs s = Some (Inr s') \<Longrightarrow> saved s'"
  by (induction xs arbitrary: s)
    (auto split: Option.bind_splits sum.splits dest: saved_step)

lemma saved_open: "saved (init_client sender target file True)"
proof -
  have "store_ok (open_store file True)"
  proof (cases "read_numbers file")
    case (Some p)
    then show ?thesis by (cases p) (simp add: open_store_def load_def store_ok_def)
  qed (simp add: open_store_def load_def store_ok_save)
  moreover have "seq_writable (open_store file True)"
    by (simp add: open_store_def load_def split: option.split)
  ultimately show ?thesis by (simp add: saved_def init_client_def)
qed

text \<open>
  C36: the numbers of a client survive a restart. Start a client on any sequence file that it
  can write, whatever it holds (also none, also garbage), and let it do anything: a client that
  is then started on the file it left expects the same number from the exchange and sends the
  same next number.
\<close>

theorem numbers_survive_a_restart:
  assumes "client_run E xs (init_client sender target file True) = Some (Inr s)"
  shows "\<exists>left. seq_file (cSeqStore s) = Some left \<and>
     getNextTargetSeqNum (cSeqStore (init_client sender target (Some left) w)) = getNextTargetSeqNum (cSeqStore s) \<and>
     getNextSenderSeqNum (cSeqStore (init_client sender target (Some left) w)) = getNextSenderSeqNum (cSeqStore s)"
proof -
  have ok: "store_ok (cSeqStore s)" using saved_run [OF saved_open assms] by (simp add: saved_def)
  then obtain left where left: "seq_file (cSeqStore s) = Some left"
    by (cases "seq_file (cSeqStore s)") (auto simp: store_ok_def read_numbers_def)
  then show ?thesis
    using open_saved [OF ok, of w] by (simp add: init_client_def getNextTargetSeqNum_def getNextSenderSeqNum_def)
qed

text \<open>A client that logs on, loses the connection, and is started again.\<close>

theorem numbers_survive_a_restart_demo:
  "\<exists>left. getNextSenderSeqNum (cSeqStore (init_client ''A'' ''B'' (Some left) True)) = 2"
proof -
  let ?E = "\<lparr>c_wall = int, c_zone = (\<lambda>_. 0)\<rparr>" and ?xs = "[Connect, ConnectDone, Logon 30 False, Disconnect_now]"
  obtain s where s: "client_run ?E ?xs (init_client ''A'' ''B'' None True) = Some (Inr s)" by simp
  have "read_numbers None = None" by (simp add: read_numbers_def)
  then have "getNextSenderSeqNum (cSeqStore s) = 2"
    using s by (auto simp: init_client_def open_store_def load_def client_connect_def sendLogon_def changeState_def
        emitEvent_def client_write_def store_next_def next_out_def disconnect_def Let_def getNextSenderSeqNum_def)
  then show ?thesis using numbers_survive_a_restart [OF s, of True] by auto
qed

end
