(* ===== verification/ClientMarketData.thy ===== *)
theory ClientMarketData
  imports ClientWire ClientOrderBook CoreProperties
begin

text \<open>
  Market data on the wire: what the client's parser makes of the snapshots and refreshes the
  exchange sends, through the repeating groups, and what its ladder shows afterwards.
\<close>

subsection \<open>Plain values\<close>

lemma plain_price [simp]: "plain (print_fixed p x)"
  by (cases x) (simp_all add: Let_def SOH_eq)

lemma plain_chars [simp]: "CHR ''='' \<noteq> CHR ''0''" "SOH \<noteq> CHR ''1''" "SOH \<noteq> CHR ''2''"
  "md_entry_type_char x \<noteq> CHR ''=''" "md_entry_type_char x \<noteq> SOH"
  "md_update_action_char y \<noteq> CHR ''=''" "md_update_action_char y \<noteq> SOH"
  by (simp_all add: SOH_eq) (cases x; simp; fail | cases y; simp)+

lemma plain_two_digits [simp]: "plain (two_digits i)"
  by (simp add: two_digits_def)

lemma plain_clock [simp]: "plain (time_text put_clock t)" "plain (timestampToString t)"
  by (cases "gmtime (tdiv t 1000000000)";
      simp add: time_text_def timestampToString_def put_clock_def put_time_def SOH_eq)+

lemma plain_instrument [simp]: "plain (instrument_to_string i)"
  by (cases i) (simp_all add: instrument_to_string_def symbol_names_def name_at_def SOH_eq)

subsection \<open>The loop over a group\<close>

lemma find_now:
  assumes "drop from s = pat @ r" "from \<le> length s"
  shows "find s pat from = Some from"
proof (cases "pat @ r")
  case (Cons a l)
  then have "starts_with pat (a # l)" using starts_with_self [of pat r] by simp
  then show ?thesis using assms Cons by (simp add: find_def)
qed (use assms in \<open>simp add: find_def\<close>)

text \<open>
  A group is a list of entries, each a character behind the lead tag and further fields. The
  loop reads one entry after the other; the last block reaches to the end of the message.
\<close>

type_synonym group_entry = "char \<times> fields"

definition group_text :: "tag \<Rightarrow> group_entry list \<Rightarrow> string" where
  "group_text lead xs = concat (map (\<lambda>(c, fs). field lead [c] @ fields_text fs) xs)"

lemma group_text_simps [simp]:
  "group_text lead [] = []"
  "group_text lead ((c, fs) # xs) = field lead [c] @ fields_text fs @ group_text lead xs"
  by (simp_all add: group_text_def)

definition good_entry :: "string \<Rightarrow> group_entry \<Rightarrow> bool" where
  "good_entry tt x \<longleftrightarrow> plain_fields (snd x) \<and> list_all (\<lambda>(t, v). \<not> tag_ends tt t) (snd x)"

lemma split_block:
  assumes "clean_fields fs"
  shows "splitToMap (fields_text fs) SOH = Inr (fields_map fs Map.empty)"
  using split_fields_all [OF assms] by (simp add: splitToMap_def)

text \<open>The map a block splits into: the fields of the entry, and the checksum behind the last one.\<close>

definition block_map :: "fields \<Rightarrow> bool \<Rightarrow> string \<Rightarrow> int \<rightharpoonup> string" where
  "block_map fs final cs = fields_map (fs @ (if final then [(CheckSum, cs)] else [])) Map.empty"

lemma group_step:
  assumes msg: "msg = pre @ group_text lead ((c, fs) # xs) @ field CheckSum cs"
    and tt: "tt = to_string_i (tag_no lead)" "length tt = 3" and ends: "\<not> tag_ends tt CheckSum"
    and good: "good_entry tt (c, fs)" "plain cs" "c \<noteq> SOH"
  shows "group_loop (tt @ ''='') msg f (Suc n) (length pre) acc =
     bind_exn (f (Some c) (block_map fs (xs = []) cs) acc)
       (group_loop (tt @ ''='') msg f n (if xs = [] then length msg
          else length (pre @ field lead [c] @ fields_text fs)))"
proof -
  let ?P = "tt @ ''=''" and ?head = "field lead [c]"
  have clean: "SOH \<notin> set tt" "CHR ''='' \<notin> set tt" using plain_numbers(4) by (simp_all add: tt plain_def)
  have head: "?head = tt @ CHR ''='' # c # [SOH]" and len: "length ?head = 6" using tt by (simp_all add: field_def)
  have "drop (length pre) msg = ?P @ (c # SOH # fields_text fs @ group_text lead xs @ field CheckSum cs)"
    by (simp add: msg head)
  then have "find msg ?P (length pre) = Some (length pre)"
    by (rule find_now) (simp add: msg)
  moreover have "drop (length pre + 4) msg = c # SOH # fields_text fs @ group_text lead xs @ field CheckSum cs"
    using tt(2) by (simp add: msg head)
  ultimately have lead: "next_lead ?P msg (length pre) = (Some c, length pre + 6)" by (simp add: next_lead_def)
  have rest: "drop (length pre + 6) msg = fields_text fs @ group_text lead xs @ field CheckSum cs"
    using len by (simp add: msg drop_append)
  have fs: "plain_fields fs" "list_all (\<lambda>(t, v). \<not> tag_ends tt t) fs" using good(1) by (simp_all add: good_entry_def)
  have bound: "length pre + 6 \<le> length msg" using len by (simp add: msg)
  show ?thesis
  proof (cases xs)
    case Nil
    have all: "drop (length pre + 6) msg = fields_text (fs @ [(CheckSum, cs)])" using rest Nil by simp
    have "find_from_start ?P ([] @ fields_text (fs @ [(CheckSum, cs)])) = None"
      by (rule find_behind_fields(2)) (use clean fs good ends in auto)
    then have "find msg ?P (length pre + 6) = None" using bound all by (simp add: find_def del: fields_text_simps)
    moreover have "substr msg (length pre + 6) (length msg - (length pre + 6)) = Inr (fields_text (fs @ [(CheckSum, cs)]))"
      using bound unfolding substr_def all [symmetric] by simp
    moreover have "splitToMap (fields_text (fs @ [(CheckSum, cs)])) SOH = Inr (block_map fs True cs)"
      using plain_clean [OF fs(1)] good(2) by (subst split_block) (simp_all add: block_map_def plain_def)
    ultimately show ?thesis using lead Nil by simp
  next
    case (Cons x xs')
    obtain d gs where x: "x = (d, gs)" by fastforce
    have all: "drop (length pre + 6) msg =
        fields_text fs @ tt @ CHR ''='' # d # SOH # fields_text gs @ group_text lead xs' @ field CheckSum cs"
      using rest Cons x tt by (simp add: field_def)
    have "find_from_start ?P ([] @ fields_text fs @ tt @ CHR ''='' # [] @ d # SOH # fields_text gs
        @ group_text lead xs' @ field CheckSum cs) = Some (length ([] :: string) + length (fields_text fs))"
      by (rule find_behind_fields(1)) (use clean fs in auto)
    then have after: "find msg ?P (length pre + 6) = Some (length pre + 6 + length (fields_text fs))"
      using bound all by (simp add: find_def)
    have "substr msg (length pre + 6) (length (fields_text fs)) = Inr (fields_text fs)"
      using bound all by (simp add: substr_def)
    moreover have "splitToMap (fields_text fs) SOH = Inr (block_map fs False cs)"
      using plain_clean [OF fs(1)] by (simp add: split_block block_map_def)
    ultimately show ?thesis using lead after Cons len by (simp add: algebra_simps)
  qed
qed

text \<open>The whole loop, for an \<open>f\<close> that reads every block, whether it is the last or not.\<close>

lemma group_loop_reads:
  assumes tt: "tt = to_string_i (tag_no lead)" "length tt = 3" and ends: "\<not> tag_ends tt CheckSum" and cs: "plain cs"
    and good: "\<And>y. y \<in> set ys \<Longrightarrow> good_entry tt (h y) \<and> fst (h y) \<noteq> SOH"
    and step: "\<And>y final acc. y \<in> set ys \<Longrightarrow>
      f (Some (fst (h y))) (block_map (snd (h y)) final cs) acc = Inr (g y acc)"
  shows "group_loop (tt @ ''='') (pre @ group_text lead (map h ys) @ field CheckSum cs) f (length ys) (length pre) acc =
     Inr (fold g ys acc)"
  using good step
proof (induction ys arbitrary: pre acc)
  case (Cons y ys)
  obtain c fs where x: "h y = (c, fs)" by fastforce
  let ?pre = "pre @ field lead [c] @ fields_text fs"
  let ?msg = "pre @ group_text lead (map h (y # ys)) @ field CheckSum cs"
  have "good_entry tt (c, fs)" "c \<noteq> SOH" using Cons.prems(1) [of y] by (simp_all add: x)
  from group_step [OF refl tt ends this(1) cs this(2), of pre "map h ys" f "length ys" acc]
  have "group_loop (tt @ ''='') ?msg f (length (y # ys)) (length pre) acc =
      group_loop (tt @ ''='') ?msg f (length ys) (if ys = [] then length ?msg else length ?pre) (g y acc)"
    using Cons.prems(2) [of y "ys = []" acc] by (simp add: x)
  moreover have "?msg = ?pre @ group_text lead (map h ys) @ field CheckSum cs"
    by (simp add: x)
  moreover have "ys \<noteq> [] \<Longrightarrow> group_loop (tt @ ''='') (?pre @ group_text lead (map h ys) @ field CheckSum cs) f (length ys)
      (length ?pre) (g y acc) = Inr (fold g ys (g y acc))"
    using Cons.IH [of ?pre "g y acc"] Cons.prems by (metis list.set_intros(2))
  ultimately show ?case
    by (cases "ys = []") (simp_all only: list.size group_loop.simps fold.simps comp_apply if_True if_False simp_thms id_apply)
qed simp

definition group_fields :: "tag \<Rightarrow> group_entry list \<Rightarrow> fields" where
  "group_fields lead xs = concat (map (\<lambda>(c, fs). (lead, [c]) # fs) xs)"

lemma group_fields_simps [simp]:
  "group_fields lead [] = []" "group_fields lead (x # xs) = (lead, [fst x]) # snd x @ group_fields lead xs"
  by (simp_all add: group_fields_def case_prod_beta)

lemma group_fields_text: "fields_text (group_fields lead xs) = group_text lead xs"
  by (induction xs) (auto simp: case_prod_beta)

lemma stoi_u32: "unat (w :: u32) < 2 ^ 31 \<Longrightarrow> stoi (to_string_u w) = Inr (int (unat w))"
  by (simp add: to_string_u_def stoi_dec)

lemma parse_group_reads:
  assumes msg: "msg = fields_text hs @ field NoMDEntries (dec (length ys)) @ group_text lead (map h ys) @ field CheckSum cs"
    and hs: "plain_fields hs" "list_all (\<lambda>(t, v). \<not> tag_ends ''268'' t) hs"
    and count: "m (tag_no NoMDEntries) = Some (dec (length ys))" "length ys < 2 ^ 31"
    and tt: "tt = to_string_i (tag_no lead)" "length tt = 3" "\<not> tag_ends tt CheckSum" "plain cs"
    and good: "\<And>y. y \<in> set ys \<Longrightarrow> good_entry tt (h y) \<and> fst (h y) \<noteq> SOH"
    and step: "\<And>y final acc. y \<in> set ys \<Longrightarrow>
      f (Some (fst (h y))) (block_map (snd (h y)) final cs) acc = Inr (g y acc)"
  shows "parse_group (tt @ ''='') f m msg acc = Inr (fold g ys acc)"
proof -
  let ?n = "dec (length ys)"
  let ?pre = "fields_text hs @ field NoMDEntries ?n"
  have start: "field NoMDEntries ?n = ''268'' @ CHR ''='' # ?n @ [SOH]" by (simp add: field_def tag_texts)
  have "find_from_start (''268'' @ CHR ''='' # (?n @ [SOH])) ([] @ fields_text hs @ ''268'' @ CHR ''='' # (?n @ [SOH])
      @ group_text lead (map h ys) @ field CheckSum cs) = Some (length ([] :: string) + length (fields_text hs))"
    by (rule find_behind_fields(1)) (use hs in \<open>auto simp: SOH_eq\<close>)
  then have found: "find msg (''268='' @ ?n @ [SOH]) 0 = Some (length (fields_text hs))"
    by (simp add: find_def msg start)
  have "length (fields_text hs) + length (''268='' @ ?n @ [SOH]) = length ?pre" by (simp add: start)
  moreover have "group_loop (tt @ ''='') msg f (length ys) (length ?pre) acc = Inr (fold g ys acc)"
    using group_loop_reads [where pre = ?pre and f = f and g = g and ys = ys and h = h, OF tt good step] by (simp add: msg)
  ultimately have loop: "group_loop (tt @ ''='') msg f (length ys)
      (length (fields_text hs) + length (''268='' @ ?n @ [SOH])) acc = Inr (fold g ys acc)" by (simp only:)
  show ?thesis
    using count loop by (simp add: parse_group_def get_str_def Let_def stoi_dec found [simplified])
qed

text \<open>A sealed message with a group at its end: its map, and the loop over the group.\<close>

definition group_message :: "fields \<Rightarrow> tag \<Rightarrow> group_entry list \<Rightarrow> fields" where
  "group_message hs lead xs = hs @ [(NoMDEntries, dec (length xs))] @ group_fields lead xs"

lemma group_tags: "tag_no ` fst ` set (group_fields lead xs) \<subseteq> insert (tag_no lead) (\<Union>x\<in>set xs. tag_no ` fst ` set (snd x))"
  proof -
  have "(a, v) \<in> set (group_fields lead xs) \<Longrightarrow> a = lead \<or> (\<exists>x\<in>set xs. (a, v) \<in> set (snd x))" for a v
    by (induction xs) auto
  then show ?thesis by fastforce
qed

lemma plain_group: "\<forall>x\<in>set xs. good_entry tt x \<and> plain [fst x] \<Longrightarrow> plain_fields (group_fields lead xs)"
  by (induction xs) (auto simp: good_entry_def)

lemma sealed_group:
  assumes hs: "plain bs" "plain_fields hs" "list_all (\<lambda>(t, v). \<not> tag_ends ''268'' t) hs"
    and tt: "tt = to_string_i (tag_no lead)" "length tt = 3" "\<not> tag_ends tt CheckSum" and count: "length ys < 2 ^ 31"
    and good: "\<And>y. y \<in> set ys \<Longrightarrow> good_entry tt (h y) \<and> plain [fst (h y)]"
    and tags: "tag_no lead \<in> K" "268 \<notin> K" "\<And>y. y \<in> set ys \<Longrightarrow> tag_no ` fst ` set (snd (h y)) \<subseteq> K"
  defines "fs \<equiv> group_message hs lead (map h ys)"
  defines "msg \<equiv> seal bs (fields_text fs)"
  shows "checked_map msg = Inr (Some (sealed_map bs fs))" "splitToMap msg SOH = Inr (sealed_map bs fs)"
    and "k \<notin> K \<Longrightarrow> k \<noteq> 10 \<Longrightarrow> k \<noteq> 268 \<Longrightarrow> sealed_map bs fs k =
      (fields_map hs [8 \<mapsto> bs, 9 \<mapsto> dec (length (fields_text fs))]) k"
    and "(\<And>y final cs acc. y \<in> set ys \<Longrightarrow> f (Some (fst (h y))) (block_map (snd (h y)) final cs) acc = Inr (g y acc)) \<Longrightarrow>
      parse_group (tt @ ''='') f (sealed_map bs fs) msg acc = Inr (fold g ys acc)"
proof -
  let ?cs = "pad0 3 (to_string_u (unsigned_checksum (sealed_text bs fs)))"
  let ?hs = "[(BeginString, bs), (BodyLength, dec (length (fields_text fs)))] @ hs"
  have "plain_fields (group_fields lead (map h ys))" using good by (intro plain_group [of _ tt]) auto
  then have "clean_fields fs" using hs by (intro plain_clean) (simp add: fs_def group_message_def)
  moreover have "SOH \<notin> set bs" using hs(1) by (simp add: plain_def)
  ultimately show "checked_map msg = Inr (Some (sealed_map bs fs))" "splitToMap msg SOH = Inr (sealed_map bs fs)"
    using checked_map_seal by (simp_all add: msg_def)
  have notin: "j \<notin> tag_no ` fst ` set (group_fields lead (map h ys))" if "j \<notin> K" for j
    using that tags group_tags [of lead "map h ys"] by fastforce
  show "k \<notin> K \<Longrightarrow> k \<noteq> 10 \<Longrightarrow> k \<noteq> 268 \<Longrightarrow> sealed_map bs fs k =
      (fields_map hs [8 \<mapsto> bs, 9 \<mapsto> dec (length (fields_text fs))]) k"
    using notin by (simp add: sealed_map_def fs_def group_message_def fields_map_other)
  have "sealed_map bs fs (tag_no NoMDEntries) = Some (dec (length ys))"
    using notin [of 268] tags(2) by (simp add: sealed_map_def fs_def group_message_def fields_map_other)
  moreover have "msg = fields_text ?hs @ field NoMDEntries (dec (length ys)) @ group_text lead (map h ys) @ field CheckSum ?cs"
    unfolding msg_def seal_fields by (simp add: sealed_text_def fs_def group_message_def group_fields_text)
  moreover have "plain_fields ?hs" "list_all (\<lambda>(t, v). \<not> tag_ends ''268'' t) ?hs"
    using hs by (simp_all add: tag_ends_iff)
  moreover assume "\<And>y final cs acc. y \<in> set ys \<Longrightarrow> f (Some (fst (h y))) (block_map (snd (h y)) final cs) acc = Inr (g y acc)"
  ultimately show "parse_group (tt @ ''='') f (sealed_map bs fs) msg acc = Inr (fold g ys acc)"
    using tt count good by (intro parse_group_reads [where hs = ?hs and cs = ?cs and h = h]) auto
qed

subsection \<open>Snapshots\<close>

definition snapshot_group :: "md_entry \<Rightarrow> group_entry" where
  "snapshot_group x = (md_entry_type_char (s_entryType x),
     [(MDEntryPx, print_fixed 4 (s_price x)), (MDEntrySize, to_string_u (s_size x))]
     @ (if 0 < s_entryPosition x then [(MDEntryPositionNo, to_string_u (s_entryPosition x))] else []))"

definition snapshot_head :: "timestamp \<Rightarrow> md_snapshot \<Rightarrow> u32 \<Rightarrow> fields" where
  "snapshot_head now r n =
     [(MsgType, ''W''), (SenderCompID, ''TRADING_CORE''), (TargetCompID, to_string_u (s_targetSessionID r)),
      (MsgSeqNum, to_string_u n), (SendingTime, timestampToString now)]
     @ (if s_mdReqID r = [] then [] else [(MDReqID, s_mdReqID r)])
     @ [(SymbolTag, instrument_to_string (s_symbol r))]"

lemma snapshot_head_map:
  assumes "m 262 = None"
  shows "fields_map (snapshot_head now r n) m 35 = Some ''W''"
    "fields_map (snapshot_head now r n) m 55 = Some (instrument_to_string (s_symbol r))"
    "(case fields_map (snapshot_head now r n) m 262 of None \<Rightarrow> [] | Some v \<Rightarrow> v) = s_mdReqID r"
  using assms by (simp_all add: snapshot_head_def)

lemma snapshot_as_fields:
  "MarketDataSnapshotFullRefreshToBinary now r n =
     seal ''FIXT.1.1'' (fields_text (group_message (snapshot_head now r n) MDEntryType (map snapshot_group (s_entries r))))"
proof -
  have "concat (map snapshot_entry_text xs) = group_text MDEntryType (map snapshot_group xs)" for xs
    by (induction xs) (simp_all add: snapshot_entry_text_def snapshot_group_def)
  then show ?thesis
    by (simp add: MarketDataSnapshotFullRefreshToBinary_def group_message_def snapshot_head_def group_fields_text)
qed

text \<open>What the client makes of an entry.\<close>

definition client_entry_of :: "md_entry \<Rightarrow> client_entry" where
  "client_entry_of x = new_entry\<lparr>ce_entryType := md_entry_type_char (s_entryType x), ce_price := s_price x,
     ce_size := s_size x, ce_entryPosition := s_entryPosition x\<rparr>"

definition sendable_entry :: "md_entry \<Rightarrow> bool" where
  "sendable_entry x \<longleftrightarrow> quotable 4 (s_price x) \<and> unat (s_entryPosition x) < 2 ^ 31"

lemma stod_four: "quotable 4 x \<Longrightarrow> stod (print_fixed 4 x) = Inr x"
  using stod_quotable [of 3 x] by (simp add: eval_nat_numeral)

lemma snapshot_block:
  assumes "sendable_entry x"
  shows "common_fields (block_map (snd (snapshot_group x)) final cs)
      (new_entry\<lparr>ce_entryType := fst (snapshot_group x)\<rparr>) = Inr (client_entry_of x)"
proof -
  have "word_of_int (int (unat (s_entryPosition x))) = s_entryPosition x" by simp
  moreover have "s_entryPosition x = 0" if "\<not> 0 < s_entryPosition x" using that by (simp add: word_gt_0)
  ultimately show ?thesis
    using assms stod_four [of "s_price x"] stoi_u32 [of "s_entryPosition x"]
    by (cases "0 < s_entryPosition x"; cases final)
      (simp_all add: common_fields_def opt_field_def set_price_def set_size_def set_position_def block_map_def
        snapshot_group_def client_entry_of_def sendable_entry_def new_entry_def)
qed

lemma fold_entries:
  "fold (\<lambda>x msg. msg\<lparr>cs_entries := cs_entries msg @ [h x]\<rparr>) xs msg = msg\<lparr>cs_entries := cs_entries msg @ map h xs\<rparr>"
  by (induction xs arbitrary: msg) simp_all

text \<open>The client reads a snapshot as the exchange built it.\<close>

lemma parse_snapshot:
  assumes id: "plain (s_mdReqID r)" and entries: "list_all sendable_entry (s_entries r)" "length (s_entries r) < 2 ^ 31"
  shows "parse_message tz (MarketDataSnapshotFullRefreshToBinary now r n) =
     ParsedSnapshot \<lparr>cs_mdReqID = s_mdReqID r, cs_symbol = s_symbol r, cs_entries = map client_entry_of (s_entries r)\<rparr>"
proof -
  let ?hs = "snapshot_head now r n" and ?start = "\<lparr>cs_mdReqID = s_mdReqID r, cs_symbol = s_symbol r, cs_entries = []\<rparr>"
  have hs: "plain ''FIXT.1.1''" "plain_fields ?hs" "list_all (\<lambda>(t, v). \<not> tag_ends ''268'' t) ?hs"
    using id by (simp_all add: snapshot_head_def SOH_eq tag_ends_iff)
  have good: "good_entry ''269'' (snapshot_group x) \<and> plain [fst (snapshot_group x)]" for x
    by (simp add: good_entry_def snapshot_group_def tag_ends_iff)
  have tt: "''269'' = to_string_i (tag_no MDEntryType)" "length ''269'' = 3" "\<not> tag_ends ''269'' CheckSum"
    by (simp_all add: tag_texts tag_ends_iff)
  have tags: "tag_no MDEntryType \<in> {269, 270, 271, 290}" "(268 :: int) \<notin> {269, 270, 271, 290}"
    "tag_no ` fst ` set (snd (snapshot_group x)) \<subseteq> {269, 270, 271, 290}" for x
    by (auto simp: snapshot_group_def)
  note wire = sealed_group [where h = snapshot_group, OF hs tt entries(2) good tags, folded snapshot_as_fields]
  let ?m = "sealed_map ''FIXT.1.1'' (group_message ?hs MDEntryType (map snapshot_group (s_entries r)))"
  have "?m 35 = Some ''W''" "?m 55 = Some (instrument_to_string (s_symbol r))" "get_str ?m MDReqID = s_mdReqID r"
    by (simp_all add: wire(3) get_str_def snapshot_head_map)
  moreover have "parse_group (''269'' @ ''='') snapshot_entry ?m (MarketDataSnapshotFullRefreshToBinary now r n) ?start =
      Inr (fold (\<lambda>x msg. msg\<lparr>cs_entries := cs_entries msg @ [client_entry_of x]\<rparr>) (s_entries r) ?start)"
    by (rule wire(4)) (use entries(1) snapshot_block in \<open>simp add: snapshot_entry_def list_all_iff\<close>)
  ultimately show ?thesis
    using wire(1,2) by (simp add: parse_message_def catch_null_def parseMarketDataSnapshot_def get_str_def fold_entries)
qed

subsection \<open>The ladder after a snapshot\<close>

lemma map_set_last:
  assumes "strict_order lt" "\<forall>j\<in>fst ` set m. lt j k"
  shows "map_set lt k v m = m @ [(k, v)]"
  using assms(2) by (induction m) auto

lemma fold_levels:
  assumes "keys_sorted lt (m0 @ m)" "strict_order lt"
  shows "fold (\<lambda>(p, q). map_set lt p q) m m0 = m0 @ m"
  using assms(1)
proof (induction m arbitrary: m0)
  case (Cons x m)
  obtain p q where x: "x = (p, q)" by fastforce
  have "\<forall>j\<in>fst ` set m0. lt j p" using Cons.prems by (auto simp: x sorted_wrt_append)
  from map_set_last [OF assms(2) this] show ?case using Cons.IH [of "m0 @ [(p, q)]"] Cons.prems by (simp add: x)
qed simp

text \<open>The price and the total of every level.\<close>

definition level_totals :: "heap \<Rightarrow> levels \<Rightarrow> (dbl \<times> u64) list" where
  "level_totals h m = map (\<lambda>(p, l). (p, level_quantity h l)) m"

lemma level_totals_keys: "map fst (level_totals h m) = map fst m"
  by (induction m) (auto simp: level_totals_def)

lemma snapshot_side:
  assumes "length m \<le> length ns"
  shows "fold snapshot_level (map client_entry_of (map (\<lambda>(n, pl). entry_of_level Bid h n pl) (zip ns m))) l =
      l\<lparr>mBids := fold (\<lambda>(p, q). map_set dgt p q) (level_totals h m) (mBids l)\<rparr> \<and>
    fold snapshot_level (map client_entry_of (map (\<lambda>(n, pl). entry_of_level Offer h n pl) (zip ns m))) l =
      l\<lparr>mAsks := fold (\<lambda>(p, q). map_set dlt p q) (level_totals h m) (mAsks l)\<rparr>"
  using assms
proof (induction m arbitrary: ns l)
  case (Cons pl m)
  then show ?case
    by (cases ns; cases pl) (simp_all add: level_totals_def snapshot_level_def client_entry_of_def entry_of_level_def)
qed (simp add: level_totals_def)

lemma ladder_of_levels:
  assumes "keys_sorted dgt bids" "keys_sorted dlt asks" "cs_entries m = map client_entry_of (level_entries Bid h bids @ level_entries Offer h asks)"
  shows "handleSnapshot m l = l\<lparr>mBids := level_totals h bids, mAsks := level_totals h asks\<rparr>"
proof -
  have b: "fold (\<lambda>(p, q). map_set dgt p q) (level_totals h bids) [] = level_totals h bids"
    using fold_levels [of dgt "[]" "level_totals h bids"] assms(1) strict_orders(2) by (simp add: level_totals_keys)
  have a: "fold (\<lambda>(p, q). map_set dlt p q) (level_totals h asks) [] = level_totals h asks"
    using fold_levels [of dlt "[]" "level_totals h asks"] assms(2) strict_orders(1) by (simp add: level_totals_keys)
  show ?thesis
    using snapshot_side [of bids "[0..<length bids]" h "l\<lparr>mBids := [], mAsks := []\<rparr>"]
      snapshot_side [of asks "[0..<length asks]" h "l\<lparr>mAsks := [], mBids := level_totals h bids\<rparr>"] a b
    by (simp add: handleSnapshot_def assms(3) level_entries_def)
qed

text \<open>Prices the wire carries unchanged, and a number of levels the parser can count.\<close>

definition sendable_book :: "order_book \<Rightarrow> bool" where
  "sendable_book b \<longleftrightarrow> list_all (quotable 4) (map fst (mBidMap b)) \<and> list_all (quotable 4) (map fst (mAskMap b)) \<and>
     length (mBidMap b) + length (mAskMap b) < 2 ^ 31"

lemma sendable_levels:
  assumes "list_all (quotable 4) (map fst m)" "length m < 2 ^ 31"
  shows "list_all sendable_entry (level_entries ty h m)"
proof -
  have "unat (of_nat (n + 1) :: u32) < 2 ^ 31" if "n < length m" for n
    using that assms(2) by (simp add: unat_of_nat del: of_nat_Suc of_nat_add)
  then show ?thesis
    using assms(1)
    by (auto simp: level_entries_def list_all_iff sendable_entry_def entry_of_level_def set_zip simp del: of_nat_Suc of_nat_add)
      (metis fst_conv nth_mem)
qed

text \<open>
  C22: after a snapshot the client's ladder is the exchange's book. Take a consistent engine
  state, whose prices are doubles next to decimals of four places; the snapshot of its book is
  sent to a client that has selected the symbol. The client parses the message, and its ladder
  then has exactly the bid and ask levels of the book, in the book's order, each with the total
  of the orders that rest there.
\<close>

theorem ladder_shows_the_book:
  assumes "worker_inv s" "sendable_book (w_book s)" "plain reqId"
    and "selected = instrument_to_string (mBookSymbol (w_book s))"
  shows "\<exists>snap. book_snapshot sid (w_heap s) (w_book s) = Some snap \<and>
     route_market_data selected
       (parse_message tz (MarketDataSnapshotFullRefreshToBinary now (snap\<lparr>s_mdReqID := reqId\<rparr>) n)) l =
     l\<lparr>mBids := level_totals (w_heap s) (mBidMap (w_book s)), mAsks := level_totals (w_heap s) (mAskMap (w_book s))\<rparr>"
proof -
  let ?es = "level_entries Bid (w_heap s) (mBidMap (w_book s)) @ level_entries Offer (w_heap s) (mAskMap (w_book s))"
  let ?snap = "\<lparr>s_targetSessionID = ucast sid, s_mdReqID = [], s_symbol = mBookSymbol (w_book s), s_entries = ?es\<rparr>"
  have ok: "book_ok (w_heap s) (w_own s) (w_book s)" using assms(1) by (simp add: worker_inv_def)
  have sorted: "keys_sorted dgt (mBidMap (w_book s))" "keys_sorted dlt (mAskMap (w_book s))"
    using book_ok_sides [OF ok] by (simp_all add: side_ok_def)
  have "list_all sendable_entry ?es" "length ?es < 2 ^ 31"
    using assms(2) sendable_levels by (auto simp: sendable_book_def level_entries_def)
  then have "parse_message tz (MarketDataSnapshotFullRefreshToBinary now (?snap\<lparr>s_mdReqID := reqId\<rparr>) n) =
      ParsedSnapshot \<lparr>cs_mdReqID = reqId, cs_symbol = mBookSymbol (w_book s), cs_entries = map client_entry_of ?es\<rparr>"
    using parse_snapshot [of "?snap\<lparr>s_mdReqID := reqId\<rparr>"] assms(3) by simp
  then show ?thesis
    using snapshot_of_book [OF assms(1), of sid] assms(4) ladder_of_levels [OF sorted] by simp
qed

lemma quotable_100_101: "quotable 4 (Fin 100)" "quotable 4 (Fin 101)"
proof -
  have d: "decimal 4 100 = 100" "decimal 4 101 = 101" by (simp_all add: decimal_def round_half_even_def)
  have "rnd64 100 = Fin 100" "\<not> underflows 100" "rnd64 101 = Fin 101" "\<not> underflows 101" by code_simp+
  then show "quotable 4 (Fin 100)" "quotable 4 (Fin 101)" unfolding quotable.simps d by simp_all
qed

lemma demo_resting_book:
  "mBidMap (w_book demo_resting) = []"
  "map fst (mAskMap (w_book demo_resting)) = [Fin 100, Fin 101]"
  "level_totals (w_heap demo_resting) (mAskMap (w_book demo_resting)) = [(Fin 100, 10), (Fin 101, 10)]"
  "mBookSymbol (w_book demo_resting) = EURUSD"
  "instrument_to_string EURUSD = ''EURUSD''"
  by code_simp+

theorem ladder_shows_the_book_demo:
  "\<exists>snap. book_snapshot 4 (w_heap demo_resting) (w_book demo_resting) = Some snap \<and>
     route_market_data ''EURUSD''
       (parse_message (\<lambda>_. 0) (MarketDataSnapshotFullRefreshToBinary 0 (snap\<lparr>s_mdReqID := ''r1''\<rparr>) 2)) (new_ladder ''EURUSD'') =
     new_ladder ''EURUSD''\<lparr>mBids := [], mAsks := [(Fin 100, 10), (Fin 101, 10)]\<rparr>"
proof -
  have "length (mAskMap (w_book demo_resting)) = 2"
    using demo_resting_book(2) by (metis length_map length_Cons list.size(3) numeral_2_eq_2)
  then have "sendable_book (w_book demo_resting)"
    by (simp add: sendable_book_def demo_resting_book(1,2) quotable_100_101 del: quotable.simps)
  moreover have "plain ''r1''" "level_totals (w_heap demo_resting) [] = []"
    by (code_simp, simp add: level_totals_def)
  ultimately show ?thesis
    using ladder_shows_the_book [OF demo_resting_ok(1), of "''r1''" "''EURUSD''" 4 "\<lambda>_. 0" 0 2 "new_ladder ''EURUSD''"]
    by (simp add: demo_resting_book(1,3,4,5))
qed

end
