(* ===== verification/ClientHandshake.thy ===== *)
theory ClientHandshake
  imports ClientOrders ClientStream
begin

text \<open>
  The logon: the message \<open>FixClientSession::sendLogon\<close> writes, the exchange's answer to it, and
  what the client makes of that answer.
\<close>

subsection \<open>Built messages with numbered fields\<close>

definition number_ok :: "nat \<times> string \<Rightarrow> bool" where
  "number_ok = (\<lambda>(n, v). n < 2 ^ 31 \<and> n \<notin> {34, 35} \<and> plain v \<and> \<not> ends_in ''10'' (dec n))"

definition numbers_map :: "timestamp \<Rightarrow> string \<Rightarrow> string \<Rightarrow> u32 \<Rightarrow> string \<Rightarrow> numbered \<Rightarrow> int \<rightharpoonup> string" where
  "numbers_map now sender target n msgType ns =
     (numbered_map ns
       [8 \<mapsto> ''FIX.4.4'',
        9 \<mapsto> dec (length (built_payload now sender target n msgType (numbered_text ns))),
        35 \<mapsto> msgType, 49 \<mapsto> sender, 56 \<mapsto> target, 34 \<mapsto> to_string_u n, 52 \<mapsto> generateTimestamp now])
     (10 \<mapsto> pad0 3 (to_string_i (builder_checksum (built_text now sender target n msgType (numbered_text ns)))))"

lemma split_built_numbers:
  assumes "SOH \<notin> set msgType" "SOH \<notin> set sender" "SOH \<notin> set target" "list_all number_ok ns"
  shows "splitToMap (buildMessage now sender target n msgType (numbered_text ns)) SOH =
     Inr (numbers_map now sender target n msgType ns)"
proof -
  have "list_all (\<lambda>(n, v). n < 2 ^ 31 \<and> SOH \<notin> set v) ns"
    using assms(4) by (auto simp: list_all_iff number_ok_def plain_def)
  then show ?thesis
    using assms(1-3) split_field [of _ CheckSum "[]"] split_rest [of SOH "[]"]
    by (simp add: split_built split_numbered numbers_map_def)
qed

lemma numbered_map_other: "k \<notin> int ` fst ` set ns \<Longrightarrow> numbered_map ns m k = m k"
  by (induction ns arbitrary: m) auto

lemma numbers_map_at:
  assumes "list_all number_ok ns"
  shows "numbers_map now sender target n msgType ns 34 = Some (to_string_u n)"
    and "numbers_map now sender target n msgType ns 35 = Some msgType"
proof -
  have "\<forall>x\<in>set ns. fst x \<noteq> 34 \<and> fst x \<noteq> 35" using assms by (auto simp: list_all_iff number_ok_def)
  then have "(34 :: int) \<notin> int ` fst ` set ns" "(35 :: int) \<notin> int ` fst ` set ns" by fastforce+
  then show "numbers_map now sender target n msgType ns 34 = Some (to_string_u n)"
    "numbers_map now sender target n msgType ns 35 = Some msgType"
    by (simp_all add: numbers_map_def numbered_map_other)
qed

lemma bounds_at:
  assumes "findMessageStart s = Some 0" "s = t @ ''10='' @ cs @ [SOH]" "find s ''10='' 0 = Some (length t)" "SOH \<notin> set cs"
  shows "message_bounds s = Some (0, length s)"
proof -
  have "SOH \<notin> set (''10='' @ cs)" using assms(4) by (simp add: SOH_eq)
  then have "find_from_start [SOH] (''10='' @ cs @ [SOH]) = Some (length (''10='' @ cs))"
    using find_char_app [of SOH "''10='' @ cs" "[]"] by simp
  then have "find_char s SOH (length t) = Some (length t + length (''10='' @ cs))"
    unfolding assms(2) find_char_def find_def by (simp del: append_Cons add: eval_nat_numeral)
  then show ?thesis using assms(1,3) by (simp add: message_bounds_def assms(2))
qed

text \<open>The client's search for the bounds of a message finds exactly the built message.\<close>

lemma bounds_built:
  assumes "plain sender" "plain target" "plain msgType" "list_all number_ok ns"
  shows "message_bounds (buildMessage now sender target n msgType (numbered_text ns)) =
     Some (0, length (buildMessage now sender target n msgType (numbered_text ns)))"
proof -
  let ?body = "numbered_text ns" and ?msg = "buildMessage now sender target n msgType (numbered_text ns)"
  let ?len = "dec (length (built_payload now sender target n msgType ?body))"
  let ?cs = "pad0 3 (to_string_i (builder_checksum (built_text now sender target n msgType ?body)))"
  let ?ns = "[(8, ''FIX.4.4''), (9, ?len), (35, msgType), (49, sender), (56, target), (34, to_string_u n),
    (52, generateTimestamp now)] @ ns"
  have decs: "dec 8 = ''8''" "dec 9 = ''9''" "dec 35 = ''35''" "dec 49 = ''49''" "dec 56 = ''56''" "dec 34 = ''34''"
    "dec 52 = ''52''" "dec 10 = ''10''" by code_simp+
  have whole: "?msg = numbered_text ?ns @ ''10'' @ CHR ''='' # [] @ ?cs @ [SOH]"
    unfolding buildMessage_fields by (simp add: field_def tag_texts decs)
  have time: "plain (generateTimestamp now)"
    by (cases "gmtime (tdiv now 1000000000)")
      (simp add: generateTimestamp_def time_text_def put_time_def put_clock_def two_digits_def SOH_eq)
  have ends: "\<not> ends_in ''10'' (dec 8)" "\<not> ends_in ''10'' (dec 9)" "\<not> ends_in ''10'' (dec 35)"
    "\<not> ends_in ''10'' (dec 49)" "\<not> ends_in ''10'' (dec 56)" "\<not> ends_in ''10'' (dec 34)" "\<not> ends_in ''10'' (dec 52)"
    by (simp_all add: decs ends_in_def)
  have fields: "list_all (\<lambda>(n, v). plain v \<and> \<not> ends_in ''10'' (dec n)) ?ns"
    using assms time ends by (auto simp: list_all_iff number_ok_def) (simp_all add: SOH_eq)
  have ten: "find ?msg ''10='' 0 = Some (length (numbered_text ?ns))"
    using find_behind_numbers(1) [OF _ _ _ _ fields, of "[]" "[]" "?cs @ [SOH]"] unfolding whole find_def
    by (simp add: SOH_eq)
  have "findMessageStart ?msg = Some 0"
  proof -
    have "starts_with (''8=FIX.4.4'' @ SOH # ''9='') (''8=FIX.4.4'' @ SOH # ''9='' @ r)" for r
      using starts_with_self [of "''8=FIX.4.4'' @ SOH # ''9=''" r] by simp
    then have "find ?msg (''8=FIX.4.4'' @ [SOH] @ ''9='') 0 = Some 0"
      unfolding whole by (simp add: find_def decs)
    then show ?thesis by (simp add: findMessageStart_def split: option.split)
  qed
  then show ?thesis using bounds_at [OF _ _ ten] whole by simp
qed

text \<open>So the client handles exactly that message, and its buffer is empty again.\<close>

lemma client_receive_built:
  assumes "plain sender" "plain target" "plain msgType" "list_all number_ok ns" "cReadBuffer c = []"
    and handled: "handleProtocolMessage E (buildMessage now sender target n msgType (numbered_text ns)) c = Some (Inr c1)"
  shows "client_receive E (buildMessage now sender target n msgType (numbered_text ns)) c = Some (Inr (c1\<lparr>cReadBuffer := []\<rparr>))"
proof -
  let ?msg = "buildMessage now sender target n msgType (numbered_text ns)"
  have "message_bounds [] = None"
    by (simp add: message_bounds_def findMessageStart_def find_def)
  then have "client_read_loop E [] c1 = Some (Inr ([], c1))" by (subst client_read_loop.simps) simp
  then have "client_read_loop E ?msg c = Some (Inr ([], c1))"
    using handled bounds_built [OF assms(1-4)] by (subst client_read_loop.simps) simp
  then show ?thesis using assms(5) by (simp add: client_receive_def)
qed

text \<open>The exchange, idle on a connection, gets one whole message.\<close>

lemma receive_built:
  assumes idle: "idle_connection sid s"
    and clean: "plain sender" "plain target" "c \<noteq> SOH" "list_all number_ok ns"
    and sum: "0 \<le> builder_checksum (built_text now sender target n [c] (numbered_text ns))"
    and msg: "msg = buildMessage now sender target n [c] (numbered_text ns)" "int (length msg) < 2 ^ 64"
    and handled: "handleFixMessage F sid msg c s = Some s1"
  shows "\<exists>s'. receive F sid msg s = Some (Inr s') \<and> wire_log s' = wire_log s1 \<and> mSessionManager s' = mSessionManager s1"
proof -
  have frame: "extractNextFrame msg = Inr \<lparr>status = Complete, consumed = length msg, frame = msg, err = []\<rparr>"
    using extract_built [of now sender target n "[c]" "numbered_text ns" "[]"] msg sum by simp
  have "splitToMap msg SOH = Inr (numbers_map now sender target n [c] ns)"
    unfolding msg(1) using clean by (intro split_built_numbers) (auto simp: plain_def)
  moreover have "handle_frame F sid msg (numbers_map now sender target n [c] ns) s = Some s1"
    using handled by (simp add: handle_frame_def numbers_map_at(2) [OF clean(4)])
  moreover have "msg \<noteq> []" by (simp add: msg(1) buildMessage_fields field_texts)
  ultimately have "read_loop F sid msg s = Some (Inr ([], s1))"
    using frame by (subst read_loop.simps) (simp add: read_loop_Nil)
  then show ?thesis by (simp add: receive_idle [OF idle])
qed

subsection \<open>The logon message\<close>

definition logon_numbers :: "int \<Rightarrow> bool \<Rightarrow> numbered" where
  "logon_numbers hb reset = [(98, ''0''), (108, to_string_i hb)] @ (if reset then [(141, ''Y'')] else [])"

definition logon_number :: "bool \<Rightarrow> client_session \<Rightarrow> u32" where
  "logon_number reset c = (if reset then 1 else next_out c)"

definition logon_message :: "client_env \<Rightarrow> int \<Rightarrow> bool \<Rightarrow> client_session \<Rightarrow> string" where
  "logon_message E hb reset c =
     buildMessage (c_wall E (cReadings c + (if reset then 1 else 0))) (cSenderCompId c) (cTargetCompId c)
       (logon_number reset c) ''A'' (numbered_text (logon_numbers hb reset))"

lemma logon_decs: "dec 98 = ''98''" "dec 108 = ''108''" "dec 141 = ''141''"
  by code_simp+

lemma logon_numbers_ok: "list_all number_ok (logon_numbers hb reset)"
  by (simp add: logon_numbers_def number_ok_def ends_in_def logon_decs) (simp add: SOH_eq)

lemma buildLogon_numbers:
  "buildLogon now sender target n hb = buildMessage now sender target n ''A'' (numbered_text (logon_numbers hb False))"
  by (simp add: buildLogon_def logon_numbers_def logon_decs)

lemma heartbeat_field_found:
  assumes "plain sender" "plain target"
  shows "find (buildLogon now sender target n hb) ''108='' 0 \<noteq> None"
proof -
  let ?body = "numbered_text (logon_numbers hb False)"
  have "\<exists>xs. buildLogon now sender target n hb = xs @ ''108='' @ to_string_i hb @ [SOH] @ field CheckSum
      (pad0 3 (to_string_i (builder_checksum (built_text now sender target n ''A'' ?body))))"
    by (simp add: buildLogon_numbers buildMessage_fields logon_numbers_def logon_decs)
  then obtain xs ys where "buildLogon now sender target n hb = xs @ ''108='' @ ys" by blast
  moreover have "find_from_start pat (xs @ pat @ ys) \<noteq> None" for pat xs ys
    by (induction xs) (cases "pat @ ys"; auto simp: starts_with_self; cases pat; auto)+
  ultimately show ?thesis by (metis append_Cons append_Nil drop0 find_def less_nat_zero_code option.map_disc_iff)
qed

text \<open>The session behind the logon: the number is used up, the state is \<open>LogonSent\<close>.\<close>

lemma sendLogon_writes:
  assumes "cState c = Connected" "cSocketOpen c" "plain (cSenderCompId c)" "plain (cTargetCompId c)"
  shows "cOut (sendLogon E hb reset c) =
      cOut c @ [Wrote (logon_message E hb reset c), StateChanged LogonSent, EventOut SessionEvent ''Logon sent'']"
    and "mInSeqNum (cSeqStore (sendLogon E hb reset c)) = (if reset then 1 else mInSeqNum (cSeqStore c))"
    and "cReadBuffer (sendLogon E hb reset c) = cReadBuffer c"
  using assms heartbeat_field_found [OF assms(3,4)]
  by (simp_all add: sendLogon_def Let_def emitEvent_def changeState_def client_write_def store_next_def
      next_out_def logon_message_def logon_number_def buildLogon_numbers reset_store_def store_defs)
    (simp_all add: logon_numbers_def logon_decs)

subsection \<open>The exchange answers\<close>

lemma logon_answered:
  assumes plain: "plain sender" "plain target"
    and auth: "authenticate sid sender (mSessionManager s) (mDatabaseWorker (mTradingCore s)) = Some (True, m, w)"
    and st: "mSessionStates m sender = Some st"
    and idle: "idle_connection sid s"
  shows "\<exists>s1. handleFixMessage F sid (buildMessage now sender target n ''A'' body) (CHR ''A'') s = Some s1 \<and>
     wire_log s1 = wire_log s @ [Sent sid (buildLogon (wall F (readings s)) ''BETA_EXCHANGE'' sender (outSeqNum st) 30)] \<and>
     getSessionState sid (mSessionManager s1) =
       Some (st\<lparr>inSeqNum := (if n = inSeqNum st + 1 then n else inSeqNum st), outSeqNum := outSeqNum st + 1\<rparr>)"
proof -
  have on: "isLoggedOn st" and conn: "mConnectionToCompId m sid = Some sender"
    using auth st by (auto simp: authenticate_def Let_def bind_eq_Some_conv split: if_splits option.splits)
  have "plain ''A''" by (simp add: SOH_eq)
  note read = built_searches [OF plain this, of now n body]
  show ?thesis
    using on conn st idle
    by (auto simp: handleFixMessage_def read handleLogonMessage_def auth validateSequence_def send_numbered_def
        useNextOutboundSequence_def doWrite_def set_manager_def getSessionState_def idle_connection_def Let_def
        split: option.splits)
qed

subsection \<open>The client reads the answer\<close>

lemma logon_read:
  assumes "plain sender" "plain target"
  shows "handleProtocolMessage E (buildLogon now sender target n hb) c = Some (Inr
     (case accept_number n c of None \<Rightarrow> disconnect c | Some c1 \<Rightarrow> handleLogonResponse c1))"
proof -
  let ?m = "numbers_map now sender target n ''A'' (logon_numbers hb False)"
  have A: "SOH \<notin> set ''A''" by (simp add: SOH_eq)
  have "splitToMap (buildLogon now sender target n hb) SOH = Inr ?m"
    unfolding buildLogon_numbers using assms A logon_numbers_ok by (intro split_built_numbers) (auto simp: plain_def)
  moreover have "map_number ?m 34 = Inr n"
  proof -
    have "stoul (to_string_u n) = Inr (ucast n)" using stoull_u32 [of n] by (simp add: stoull_def)
    moreover have "ucast (ucast n :: u64) = n" by transfer simp
    ultimately show ?thesis by (simp add: map_number_def numbers_map_at(1) [OF logon_numbers_ok])
  qed
  ultimately show ?thesis
    by (simp add: handleProtocolMessage_def fieldValue_def numbers_map_at(2) [OF logon_numbers_ok] client_switch_def
        split: option.split)
qed

text \<open>The verdict: the client is active, or it has disconnected because the number is too low.\<close>

lemma accept_number_cases:
  assumes "c1 = (case accept_number n c of None \<Rightarrow> disconnect c | Some c1 \<Rightarrow> handleLogonResponse c1)" "cState c \<noteq> Disconnected"
  shows "if mInSeqNum (cSeqStore c) \<le> n then cState c1 = Active \<and> mInSeqNum (cSeqStore c1) = n + 1
    else cState c1 = Disconnected \<and> \<not> cSocketOpen c1"
  using assms
  by (auto simp: accept_number_def getNextTargetSeqNum_def handleLogonResponse_def startHeartbeatTimer_def
      emitEvent_def changeState_def disconnect_def Let_def)

text \<open>
  C27: a logon between a client and the exchange. A connected client sends its logon to an exchange
  that knows its name; the client's name and the exchange's are free of the delimiter and of
  equals signs. The exchange answers with exactly one message, a logon with its next number for
  that client, which it counts up; it takes over the client's number only when that is
  the one it expects. On reading the answer the client becomes active and expects the following
  number, unless it already expected a higher one: then it closes the connection. A reset
  makes the client expect 1, so a client that resets is always accepted, but the exchange, which
  ignores the reset flag, goes on with its own number and keeps expecting the old one.
\<close>

theorem logon_handshake:
  assumes client: "cState c = Connected" "cSocketOpen c" "cReadBuffer c = []" "good_names c"
    and server: "idle_connection sid s"
      "authenticate sid (cSenderCompId c) (mSessionManager s) (mDatabaseWorker (mTradingCore s)) = Some (True, m, w)"
      "mSessionStates m (cSenderCompId c) = Some st"
    and len: "int (length (logon_message E hb reset c)) < 2 ^ 64"
  shows "\<exists>c1 s' reply c2.
     sendLogon E hb reset c = c1 \<and>
     cOut c1 = cOut c @ [Wrote (logon_message E hb reset c), StateChanged LogonSent, EventOut SessionEvent ''Logon sent''] \<and>
     receive F sid (logon_message E hb reset c) s = Some (Inr s') \<and>
     wire_log s' = wire_log s @ [Sent sid reply] \<and>
     getSessionState sid (mSessionManager s') = Some (st\<lparr>
       inSeqNum := (if logon_number reset c = inSeqNum st + 1 then logon_number reset c else inSeqNum st),
       outSeqNum := outSeqNum st + 1\<rparr>) \<and>
     client_receive E reply c1 = Some (Inr c2) \<and>
     (if (if reset then 1 else mInSeqNum (cSeqStore c)) \<le> outSeqNum st
      then cState c2 = Active \<and> mInSeqNum (cSeqStore c2) = outSeqNum st + 1
      else cState c2 = Disconnected \<and> \<not> cSocketOpen c2)"
proof -
  let ?c1 = "sendLogon E hb reset c" and ?msg = "logon_message E hb reset c"
  have names: "plain (cSenderCompId c)" "plain (cTargetCompId c)" "ascii (cSenderCompId c)" "ascii (cTargetCompId c)"
    using client(4) by (simp_all add: good_names_def)
  obtain s1 where s1: "handleFixMessage F sid ?msg (CHR ''A'') s = Some s1"
    "wire_log s1 = wire_log s @ [Sent sid (buildLogon (wall F (readings s)) ''BETA_EXCHANGE'' (cSenderCompId c) (outSeqNum st) 30)]"
    "getSessionState sid (mSessionManager s1) = Some (st\<lparr>
       inSeqNum := (if logon_number reset c = inSeqNum st + 1 then logon_number reset c else inSeqNum st),
       outSeqNum := outSeqNum st + 1\<rparr>)"
    using logon_answered [OF names(1,2) server(2,3,1)] unfolding logon_message_def by blast
  have "ascii (numbered_text (logon_numbers hb reset))"
    by (simp add: logon_numbers_def) (simp add: byte_def)
  then have "0 \<le> builder_checksum (built_text now (cSenderCompId c) (cTargetCompId c) n ''A'' (numbered_text (logon_numbers hb reset)))" for now n
    by (intro ascii_checksum names) (simp_all add: byte_def)
  then obtain s' where s': "receive F sid ?msg s = Some (Inr s')" "wire_log s' = wire_log s1" "mSessionManager s' = mSessionManager s1"
    using receive_built [OF server(1) names(1,2) _ logon_numbers_ok _ logon_message_def len s1(1)] by (auto simp: SOH_eq)
  note c1 = sendLogon_writes [OF client(1,2) names(1,2), of E hb reset]
  let ?reply = "buildLogon (wall F (readings s)) ''BETA_EXCHANGE'' (cSenderCompId c) (outSeqNum st) 30"
  define c2 where "c2 = (case accept_number (outSeqNum st) ?c1 of None \<Rightarrow> disconnect ?c1 | Some c1 \<Rightarrow> handleLogonResponse c1)"
  have exchange: "plain ''BETA_EXCHANGE''" "plain ''A''" by (simp_all add: SOH_eq)
  have "client_receive E ?reply ?c1 = Some (Inr (c2\<lparr>cReadBuffer := []\<rparr>))"
    unfolding buildLogon_numbers
    by (rule client_receive_built [OF exchange(1) names(1) exchange(2) logon_numbers_ok])
      (use c1(3) client(3) logon_read [OF exchange(1) names(1)] in \<open>simp_all add: c2_def buildLogon_numbers\<close>)
  moreover have "cState ?c1 \<noteq> Disconnected"
    using client(1) by (simp add: sendLogon_def Let_def emitEvent_def changeState_def)
  note accept_number_cases [OF c2_def this]
  ultimately show ?thesis
    using c1 s1 s' by (intro exI [of _ ?c1] exI [of _ s'] exI [of _ ?reply] exI [of _ "c2\<lparr>cReadBuffer := []\<rparr>"]) simp
qed

text \<open>An exchange without a store that knows CLIENT1, and clients that have just connected.\<close>

definition demo_exchange :: "(nat \<times> command list) fix_server" where
  "demo_exchange = (accept_connection (init_server False demo_core))
     \<lparr>mSessionManager := loadConfig [''CLIENT1''] (init_manager False)\<rparr>"

definition demo_connected :: "string \<Rightarrow> client_session" where
  "demo_connected numbers = (init_client ''CLIENT1'' ''BETA_EXCHANGE'' (Some numbers) True)
     \<lparr>cState := Connected, cSocketOpen := True\<rparr>"

lemma demo_connected_simps: "cState (demo_connected f) = Connected" "cSocketOpen (demo_connected f)"
  "cReadBuffer (demo_connected f) = []" "good_names (demo_connected f)" "cSenderCompId (demo_connected f) = ''CLIENT1''"
  by (simp_all add: demo_connected_def init_client_def good_names_def plain_def SOH_eq byte_def)

lemma demo_stores: "mInSeqNum (cSeqStore (demo_connected ''1 1'')) = 1" "mInSeqNum (cSeqStore (demo_connected ''8 5'')) = 8"
  by code_simp+

lemma demo_exchange_logon:
  "idle_connection 1 demo_exchange"
  "\<exists>m w. authenticate 1 ''CLIENT1'' (mSessionManager demo_exchange) (mDatabaseWorker (mTradingCore demo_exchange)) = Some (True, m, w) \<and>
     mSessionStates m ''CLIENT1'' = Some \<lparr>isLoggedOn = True, inSeqNum = 0, outSeqNum = 1, senderCompId = ''CLIENT1''\<rparr>"
  by (simp_all add: demo_exchange_def idle_connection_def accept_connection_def registerSession_def init_server_def
      loadConfig_def init_manager_def authenticate_def Let_def)

text \<open>A fresh client becomes active; one that remembers higher numbers disconnects.\<close>

theorem logon_handshake_demo:
  "(\<exists>s' reply c2. receive demo_fix_env 1 (logon_message demo_client_env 30 False (demo_connected ''1 1'')) demo_exchange = Some (Inr s') \<and>
      wire_log s' = [Sent 1 reply] \<and>
      client_receive demo_client_env reply (sendLogon demo_client_env 30 False (demo_connected ''1 1'')) = Some (Inr c2) \<and>
      cState c2 = Active \<and> mInSeqNum (cSeqStore c2) = 2) \<and>
   (\<exists>reply c2. client_receive demo_client_env reply (sendLogon demo_client_env 30 False (demo_connected ''8 5'')) = Some (Inr c2) \<and>
      cState c2 = Disconnected)"
  (is "?fresh \<and> ?stale")
proof
  obtain m w where auth: "authenticate 1 ''CLIENT1'' (mSessionManager demo_exchange)
      (mDatabaseWorker (mTradingCore demo_exchange)) = Some (True, m, w)"
    "mSessionStates m ''CLIENT1'' = Some \<lparr>isLoggedOn = True, inSeqNum = 0, outSeqNum = 1, senderCompId = ''CLIENT1''\<rparr>"
    using demo_exchange_logon(2) by blast
  have log: "wire_log demo_exchange = []"
    by (simp add: demo_exchange_def accept_connection_def registerSession_def init_server_def Let_def)
  have len: "int (length (logon_message demo_client_env 30 False (demo_connected ''1 1''))) < 2 ^ 64"
    "int (length (logon_message demo_client_env 30 False (demo_connected ''8 5''))) < 2 ^ 64"
    by code_simp+
  note logon = logon_handshake [OF demo_connected_simps(1-4) demo_exchange_logon(1), where m = m and w = w and F = demo_fix_env,
      unfolded demo_connected_simps(5), OF auth]
  show ?fresh using logon [OF len(1)] by (auto simp: log demo_stores)
  have "\<not> (8 :: u32) \<le> 1" by (simp add: word_le_nat_alt)
  then show ?stale using logon [OF len(2)] by (auto simp: demo_stores)
qed

end
