(* ===== verification/BlotterProperties.thy ===== *)
theory BlotterProperties
  imports ClientWire ClientApp
begin

text \<open>
  The client's blotter: its invariant over every run of the application's callbacks, what a
  repeated report does, and what the reports of the engine do to it over the wire.
\<close>

subsection \<open>The invariant\<close>

text \<open>Rows stand in the order of their keys, under their own client order id, and are open.\<close>

definition blotter_ok :: "blotter \<Rightarrow> bool" where
  "blotter_ok b \<longleftrightarrow> keys_sorted str_less (mOrders b) \<and>
     (\<forall>k row. map_of (mOrders b) k = Some row \<longrightarrow> br_clientOrderId row = k \<and> \<not> terminal (br_status row))"

lemma not_terminal_New [simp]: "\<not> terminal New"
  by (simp add: terminal_def)

lemma keys_upd: "keys_sorted str_less m \<Longrightarrow> keys_sorted str_less (map_upd str_less k d f m)"
  by (rule string_map.sorted_map_upd)

lemma keys_erase: "keys_sorted str_less m \<Longrightarrow> keys_sorted str_less (map_erase str_less k m)"
  by (rule string_map.sorted_map_erase)

lemma find_upd:
  "keys_sorted str_less m \<Longrightarrow> map_of (map_upd str_less k d f m) = (map_of m)(k \<mapsto> f (case map_of m k of None \<Rightarrow> d | Some v \<Rightarrow> v))"
  by (rule string_map.map_of_map_upd) simp_all

lemma find_erase: "keys_sorted str_less m \<Longrightarrow> map_of (map_erase str_less k m) = (map_of m)(k := None)"
  by (rule string_map.map_of_map_erase) simp_all

lemma keys_distinct: "keys_sorted str_less m \<Longrightarrow> distinct (map fst m)"
  using str_less_irrefl by (induction m) fastforce+

lemma blotter_ok_intent: "blotter_ok b \<Longrightarrow> blotter_ok (recordOrderIntent i b)"
  by (simp add: blotter_ok_def recordOrderIntent_def keys_upd find_upd)

lemma update_open_row_simps [simp]:
  "br_clientOrderId (update_open_row r row) = br_clientOrderId row" "br_status (update_open_row r row) = mStatus r"
  "br_remainingQuantity (update_open_row r row) = mLeavesQuantity r" "br_exchangeOrderId (update_open_row r row) = mExchangeOrderId r"
  "br_symbol (update_open_row r row) = mRSymbol r" "br_side (update_open_row r row) = mSide r" "br_reason (update_open_row r row) = mText r"
  "br_clientOrderId (fresh_row r) = mRClientOrderId r"
  by (simp_all add: update_open_row_def fresh_row_def)

text \<open>What an execution does to the open orders, as a map.\<close>

lemma apply_execution_orders:
  assumes "keys_sorted str_less (mOrders b)"
  shows "map_of (mOrders (apply_execution r b)) =
      (map_of (mOrders b))(mRClientOrderId r := if terminal (mStatus r) then None
        else Some (update_open_row r (case map_of (mOrders b) (mRClientOrderId r) of None \<Rightarrow> fresh_row r | Some row \<Rightarrow> row)))"
    and "keys_sorted str_less (mOrders (apply_execution r b))"
  using assms by (simp_all add: apply_execution_def Let_def keys_upd keys_erase find_upd find_erase)

lemma apply_execution_simps [simp]:
  "mSeenExecutionKeys (apply_execution r b) = mSeenExecutionKeys b"
  "mHistory (apply_execution r b) = mHistory b @ [history_of r]"
  by (simp_all add: apply_execution_def Let_def)

lemma blotter_ok_apply: "blotter_ok b \<Longrightarrow> blotter_ok (apply_execution r b)"
  by (auto simp: blotter_ok_def apply_execution_orders split: option.splits if_splits)

lemma blotter_ok_seen [simp]: "blotter_ok (b\<lparr>mSeenExecutionKeys := ks\<rparr>) \<longleftrightarrow> blotter_ok b"
  by (simp add: blotter_ok_def)

lemma blotter_ok_execution: "blotter_ok b \<Longrightarrow> blotter_ok (processExecution r b)"
  by (simp add: processExecution_def blotter_ok_apply)

text \<open>The three ways the application's callbacks touch the blotter.\<close>

lemma on_client_out_cases:
  obtains "ap_blotter (on_client_out x a) = ap_blotter a"
  | i where "ap_blotter (on_client_out x a) = recordOrderIntent i (ap_blotter a)"
  | r where "x = MessageOut (ParsedReport r)" "ap_blotter (on_client_out x a) = processExecution r (ap_blotter a)"
proof (cases x)
  case (MessageOut p)
  then show ?thesis using that(1,3) by (cases p) auto
next
  case (IntentOut i)
  then show ?thesis
    using that(1,2) by (cases "catch_exn (instrument_from_string (ni_symbol i))") (auto simp: on_intent_def)
qed (use that(1) in auto)

lemma blotter_ok_out: "blotter_ok (ap_blotter a) \<Longrightarrow> blotter_ok (ap_blotter (on_client_out x a))"
  by (rule on_client_out_cases [of x a]) (auto simp: blotter_ok_intent blotter_ok_execution)

lemma blotter_ok_run: "blotter_ok (ap_blotter a) \<Longrightarrow> blotter_ok (ap_blotter (fold on_client_out evs a))"
  by (induction evs arbitrary: a) (simp_all add: blotter_ok_out)

text \<open>
  C16: the open orders of the blotter are open orders. However the application starts, after any
  sequence of callbacks of the session from an empty blotter (intents, reports, in any order,
  repeated or not, for known and unknown orders) the list the blotter panel shows holds its
  orders strictly sorted by client order id, so no order appears twice, and none of them is
  filled, cancelled or rejected.
\<close>

theorem blotter_shows_open_orders:
  "let rows = activeOrders (ap_blotter (fold on_client_out evs (a\<lparr>ap_blotter := empty_blotter\<rparr>)))
   in sorted_wrt str_less (map br_clientOrderId rows) \<and> distinct (map br_clientOrderId rows) \<and>
      list_all (\<lambda>row. br_status row \<notin> {Filled, Cancelled, Rejected}) rows"
proof -
  let ?b = "ap_blotter (fold on_client_out evs (a\<lparr>ap_blotter := empty_blotter\<rparr>))"
  have ok: "blotter_ok ?b"
    by (rule blotter_ok_run) (simp add: blotter_ok_def empty_blotter_def)
  then have d: "distinct (map fst (mOrders ?b))" and s: "keys_sorted str_less (mOrders ?b)"
    by (auto simp: blotter_ok_def keys_distinct)
  have rows: "br_clientOrderId row = k \<and> \<not> terminal (br_status row)" if "(k, row) \<in> set (mOrders ?b)" for k row
    using ok that map_of_eq_Some_iff [OF d] by (simp add: blotter_ok_def)
  then have "map br_clientOrderId (activeOrders ?b) = map fst (mOrders ?b)" by (auto simp: activeOrders_def)
  moreover have "list_all (\<lambda>row. br_status row \<notin> {Filled, Cancelled, Rejected}) (activeOrders ?b)"
    using rows by (fastforce simp: activeOrders_def list_all_iff terminal_def)
  ultimately show ?thesis using s d by (simp add: Let_def)
qed

subsection \<open>Repeated reports\<close>

lemma seen_grows: "k \<in> set (mSeenExecutionKeys (ap_blotter a)) \<Longrightarrow> k \<in> set (mSeenExecutionKeys (ap_blotter (on_client_out x a)))"
  by (rule on_client_out_cases [of x a]) (auto simp: recordOrderIntent_def processExecution_def)

lemma seen_run: "k \<in> set (mSeenExecutionKeys (ap_blotter a)) \<Longrightarrow> k \<in> set (mSeenExecutionKeys (ap_blotter (fold on_client_out evs a)))"
  by (induction evs arbitrary: a) (simp_all add: seen_grows)

text \<open>
  A report counts once. When a report with an execution id has reached the blotter, the same
  report again changes nothing, neither the open orders nor the history, whatever has
  happened in between.
\<close>

theorem repeated_report_counts_once:
  assumes "mExecutionId r \<noteq> []"
  shows "processExecution r (ap_blotter (fold on_client_out evs (on_client_out (MessageOut (ParsedReport r)) a))) =
     ap_blotter (fold on_client_out evs (on_client_out (MessageOut (ParsedReport r)) a))"
proof -
  have "executionKey r \<in> set (mSeenExecutionKeys (ap_blotter (on_client_out (MessageOut (ParsedReport r)) a)))"
    using assms by (simp add: processExecution_def)
  from seen_run [OF this] show ?thesis using assms by (simp add: processExecution_def)
qed

definition demo_app :: client_app where
  "demo_app = \<lparr>ap_blotter = empty_blotter, ap_ladder = new_ladder ''EURUSD'', ap_marketData = new_market_data\<rparr>"

definition demo_fill :: execution_report where
  "demo_fill = (execution_of demo_low ''TRADE'')\<lparr>mStatus := Filled\<rparr>"

theorem repeated_report_counts_once_demo:
  "processExecution demo_fill (ap_blotter (on_client_out (MessageOut (ParsedReport demo_fill)) demo_app)) =
     ap_blotter (on_client_out (MessageOut (ParsedReport demo_fill)) demo_app)"
proof -
  have "mExecutionId demo_fill \<noteq> []" by (simp add: demo_fill_def execution_of_def Let_def)
  from repeated_report_counts_once [OF this, of "[]" demo_app] show ?thesis by simp
qed

subsection \<open>Reports over the wire\<close>

definition readable :: "execution_report \<Rightarrow> bool" where
  "readable r \<longleftrightarrow> SOH \<notin> set (mRClientOrderId r) \<and> SOH \<notin> set (mExecutionId r) \<and> SOH \<notin> set (mText r) \<and>
     quotable 4 (mLastPrice r) \<and> 0 \<le> mTransactionTime r \<and> mTransactionTime r < 2 ^ 63"

text \<open>A report of the exchange as the application gets it.\<close>

definition deliver_report :: "(int \<Rightarrow> int) \<Rightarrow> timestamp \<Rightarrow> u32 \<Rightarrow> execution_report \<Rightarrow> client_app \<Rightarrow> client_app" where
  "deliver_report tz now n r a = on_message (parse_message tz (ExecutionReportToBinary now r n)) a"

lemma deliver_readable:
  assumes "readable r"
  obtains r' where "ap_blotter (deliver_report tz now n r a) = processExecution r' (ap_blotter a)"
    "executionKey r' = executionKey r" "mExecutionId r' = mExecutionId r" "mRClientOrderId r' = mRClientOrderId r"
    "mStatus r' = mStatus r" "mLeavesQuantity r' = mLeavesQuantity r" "mExchangeOrderId r' = mExchangeOrderId r"
    "mText r' = mText r" "mLastPrice r' = mLastPrice r" "mLastQuantity r' = mLastQuantity r"
proof -
  have four: "4 = Suc 3" by simp
  have price: "stod (print_fixed 4 (mLastPrice r)) = Inr (mLastPrice r)"
    using assms unfolding readable_def four by (intro stod_quotable) simp
  have time: "\<exists>t. parseTimestamp tz (timestampToString (mTransactionTime r)) = Inr t"
    using assms parse_printed_time by (auto simp: readable_def)
  then obtain t where t: "parseTimestamp tz (timestampToString (mTransactionTime r)) = Inr t" ..
  show thesis
    by (rule that [of "r\<lparr>mRSenderCompId := 0, mRTargetCompId := 0, mMessageSequenceNumber := ucast n, mTransactionTime := t\<rparr>"])
      (use parse_report [OF _ _ _ price t] assms in \<open>simp_all add: deliver_report_def readable_def executionKey_def\<close>)
qed

text \<open>
  C15: a report of the exchange updates its order in the client. A readable report with an
  execution id that the blotter has not seen travels over the wire. Behind it, the row of the client
  order id it carries has the report's status, remaining quantity, exchange order id and text,
  or is gone when the status is final; no other row changes; and the history has one
  entry more, with the last price and quantity.
\<close>

theorem report_updates_its_order:
  assumes "readable r" "mExecutionId r \<noteq> []" "blotter_ok (ap_blotter a)"
    and new: "executionKey r \<notin> set (mSeenExecutionKeys (ap_blotter a))"
  shows "\<exists>row h. map_of (mOrders (ap_blotter (deliver_report tz now n r a))) =
       (map_of (mOrders (ap_blotter a)))(mRClientOrderId r := if terminal (mStatus r) then None else Some row) \<and>
     br_status row = mStatus r \<and> br_remainingQuantity row = mLeavesQuantity r \<and>
     br_exchangeOrderId row = mExchangeOrderId r \<and> br_reason row = mText r \<and>
     mHistory (ap_blotter (deliver_report tz now n r a)) = mHistory (ap_blotter a) @ [h] \<and>
     hr_clientOrderId h = mRClientOrderId r \<and> hr_status h = mStatus r \<and>
     hr_lastPrice h = mLastPrice r \<and> hr_lastQuantity h = mLastQuantity r"
proof -
  obtain r' where r': "ap_blotter (deliver_report tz now n r a) = processExecution r' (ap_blotter a)"
    "executionKey r' = executionKey r" "mExecutionId r' = mExecutionId r" "mRClientOrderId r' = mRClientOrderId r"
    "mStatus r' = mStatus r" "mLeavesQuantity r' = mLeavesQuantity r" "mExchangeOrderId r' = mExchangeOrderId r"
    "mText r' = mText r" "mLastPrice r' = mLastPrice r" "mLastQuantity r' = mLastQuantity r"
    using deliver_readable [OF assms(1)] by blast
  let ?row = "update_open_row r' (case map_of (mOrders (ap_blotter a)) (mRClientOrderId r) of None \<Rightarrow> fresh_row r' | Some row \<Rightarrow> row)"
  have "keys_sorted str_less (mOrders (ap_blotter a))" using assms(3) by (simp add: blotter_ok_def)
  then show ?thesis
    using assms(2) new r'
    by (intro exI [of _ ?row] exI [of _ "history_of r'"])
      (simp add: processExecution_def apply_execution_orders history_of_def)
qed

lemma demo_app_ok: "blotter_ok (ap_blotter demo_app)" "mSeenExecutionKeys (ap_blotter demo_app) = []"
  "mOrders (ap_blotter demo_app) = []"
  by (simp_all add: demo_app_def blotter_ok_def empty_blotter_def)

lemma demo_new_report: "readable (execution_of demo_low ''NEW'')" "mExecutionId (execution_of demo_low ''NEW'') \<noteq> []"
  "mStatus (execution_of demo_low ''NEW'') = New" "mRClientOrderId (execution_of demo_low ''NEW'') = ''c''"
proof -
  let ?r = "execution_of demo_low ''NEW''"
  have clean: "SOH \<notin> set (mRClientOrderId ?r)" "SOH \<notin> set (mExecutionId ?r)" "SOH \<notin> set (mText ?r)"
    by code_simp+
  have vals: "mLastPrice ?r = Fin 99" "mTransactionTime ?r = 0"
    by (simp_all add: execution_of_def Let_def demo_low_def demo_order_def mk_order_def)
  have "decimal 4 99 = 99" by (simp add: decimal_def round_half_even_def)
  moreover have "rnd64 99 = Fin 99" "\<not> underflows 99" by code_simp+
  ultimately show "readable ?r" using clean by (simp add: readable_def vals)
qed (simp_all add: execution_of_def Let_def demo_low_def demo_order_def mk_order_def)

theorem report_updates_its_order_demo:
  "\<exists>row. map_of (mOrders (ap_blotter (deliver_report (\<lambda>_. 0) 0 2 (execution_of demo_low ''NEW'') demo_app))) = [''c'' \<mapsto> row] \<and>
     br_status row = New"
  using report_updates_its_order [OF demo_new_report(1,2) demo_app_ok(1), of "\<lambda>_. 0" 0 2]
  by (auto simp: demo_app_ok demo_new_report)

text \<open>
  C40: an order the risk check refuses stays open in the client. The engine answers a refused order
  with one report, which carries the exchange's order number in the place of the
  client order id. Over the wire that report leaves the client's row for the order as it was:
  the blotter goes on showing a refused order as open. (The number's text differs from the
  client order id, which is the client's clock in microseconds.)
\<close>

theorem refused_order_stays_open:
  assumes refused: "preCheck ord (w_heap s) (w_book s) = Some False"
    and ids: "mClientOrderId ord \<noteq> to_string_u (mCoreOrderId ord)"
    and open_row: "blotter_ok (ap_blotter a)" "map_of (mOrders (ap_blotter a)) (mClientOrderId ord) = Some row"
    and clock: "0 \<le> clk e (w_ticks s)" "clk e (w_ticks s) < 2 ^ 63"
  shows "\<exists>s'. processNewOrder e ord s = Some s' \<and>
     map_of (mOrders (ap_blotter (fold (deliver_report tz now n) (drop (length (reports_of (w_log s))) (reports_of (w_log s'))) a)))
       (mClientOrderId ord) = Some row"
proof -
  let ?r = "rejection_of (mCoreOrderId ord) (mClientId ord) (mSymbol ord) (mOrderSide ord) ''Risk check failed'' (clk e (w_ticks s))"
  have zero: "quotable 4 (Fin 0)" by (simp add: decimal_def round_half_even_def rnd64_def) code_simp
  have plain: "SOH \<notin> set ''exec_reject_''" "SOH \<notin> set ''Risk check failed''" by (simp_all add: SOH_eq)
  have readable: "readable ?r"
    using clock zero plain unfolding readable_def rejection_of_def by (simp del: quotable.simps)
  obtain r' where r': "ap_blotter (deliver_report tz now n ?r a) = processExecution r' (ap_blotter a)" "mRClientOrderId r' = mRClientOrderId ?r"
    using deliver_readable [OF readable] by blast
  have "map_of (mOrders (processExecution r' (ap_blotter a))) (mClientOrderId ord) = Some row"
    using open_row ids r'(2)
    by (simp add: processExecution_def apply_execution_orders blotter_ok_def rejection_of_def)
  then show ?thesis
    using processNewOrder_rejected [OF refused, of e] r'(1) open_row(2)
    by (simp add: publishRejection_def)
qed

text \<open>An order of quantity 0, entered in the client under the id \<open>c\<close>.\<close>

definition demo_zero :: order where
  "demo_zero = demo_order 3 ''carol'' Buy Limit 0 101"

definition demo_entered :: client_app where
  "demo_entered = demo_app\<lparr>ap_blotter := recordOrderIntent
     \<lparr>bi_clientOrderId = ''c'', bi_symbol = EURUSD, bi_side = Buy, bi_orderType = Limit, bi_price = Fin 101,
      bi_originalQuantity = 0\<rparr> empty_blotter\<rparr>"

theorem refused_order_stays_open_demo:
  "\<exists>s' row. processNewOrder demo_env demo_zero (init_worker EURUSD) = Some s' \<and>
     map_of (mOrders (ap_blotter (fold (deliver_report (\<lambda>_. 0) 0 2) (reports_of (w_log s')) demo_entered))) ''c'' = Some row"
proof -
  have refused: "preCheck demo_zero (w_heap (init_worker EURUSD)) (w_book (init_worker EURUSD)) = Some False"
    by code_simp
  have ids: "mClientOrderId demo_zero = ''c''" "mClientOrderId demo_zero \<noteq> to_string_u (mCoreOrderId demo_zero)"
    by code_simp+
  have ok: "blotter_ok (ap_blotter demo_entered)"
    by (simp add: demo_entered_def blotter_ok_intent) (rule blotter_ok_intent, simp add: blotter_ok_def empty_blotter_def)
  have "\<exists>row. map_of (mOrders (ap_blotter demo_entered)) (mClientOrderId demo_zero) = Some row"
    by (simp add: demo_entered_def recordOrderIntent_def empty_blotter_def ids(1))
  then obtain row where row: "map_of (mOrders (ap_blotter demo_entered)) (mClientOrderId demo_zero) = Some row" ..
  have clock: "0 \<le> clk demo_env (w_ticks (init_worker EURUSD))" "clk demo_env (w_ticks (init_worker EURUSD)) < 2 ^ 63"
    and log: "reports_of (w_log (init_worker EURUSD)) = []"
    by (simp_all add: demo_env_def init_worker_def)
  from refused_order_stays_open [OF refused ids(2) ok row clock, of "\<lambda>_. 0" 0 2] show ?thesis
    by (auto simp: log ids(1))
qed

end
