(* ===== verification/ClientLadder.thy ===== *)
theory ClientLadder
  imports ClientMarketData
begin

text \<open>
  The ladder of a client against the book of the exchange while orders come in: refreshes on
  the wire, and what a new order does to what a subscriber sees.
\<close>

subsection \<open>Refreshes on the wire\<close>

definition refresh_group :: "instrument \<Rightarrow> (nat \<Rightarrow> timestamp) \<Rightarrow> nat \<times> md_incremental_entry \<Rightarrow> group_entry" where
  "refresh_group symbol now = (\<lambda>(k, x). (md_update_action_char (i_updateAction x),
     [(MDEntryType, [md_entry_type_char (i_entryType x)]), (SymbolTag, instrument_to_string symbol),
      (MDEntryPx, print_fixed 4 (i_price x)), (MDEntrySize, to_string_u (i_size x)),
      (MDEntryTime, time_text put_clock (now k))]))"

definition refresh_head :: "(nat \<Rightarrow> timestamp) \<Rightarrow> u32 \<Rightarrow> md_incremental_refresh \<Rightarrow> u32 \<Rightarrow> fields" where
  "refresh_head now target r n =
     [(MsgType, ''X''), (SenderCompID, ''TRADING_CORE''), (TargetCompID, to_string_u target),
      (MsgSeqNum, to_string_u n), (SendingTime, timestampToString (now (length (i_entries r))))]
     @ (if i_mdReqID r = [] then [] else [(MDReqID, i_mdReqID r)])"

lemma refresh_head_map:
  assumes "m 262 = None"
  shows "fields_map (refresh_head now target r n) m 35 = Some ''X''"
    "(case fields_map (refresh_head now target r n) m 262 of None \<Rightarrow> [] | Some v \<Rightarrow> v) = i_mdReqID r"
  using assms by (simp_all add: refresh_head_def)

abbreviation indexed :: "md_incremental_refresh \<Rightarrow> (nat \<times> md_incremental_entry) list" where
  "indexed r \<equiv> zip [0..<length (i_entries r)] (i_entries r)"

lemma refresh_as_fields:
  "MarketDataIncrementalRefreshToBinary now target r n =
     seal ''FIXT.1.1'' (fields_text (group_message (refresh_head now target r n) MDUpdateAction
       (map (refresh_group (i_symbol r) now) (indexed r))))"
proof -
  have "concat (map (\<lambda>(k, x). incremental_entry_text (i_symbol r) (now k) x) kxs) =
      group_text MDUpdateAction (map (refresh_group (i_symbol r) now) kxs)" for kxs
    by (induction kxs) (auto simp: incremental_entry_text_def refresh_group_def)
  then show ?thesis
    by (simp add: MarketDataIncrementalRefreshToBinary_def group_message_def refresh_head_def group_fields_text Let_def)
qed

text \<open>What the client makes of an entry.\<close>

definition client_increment :: "md_incremental_entry \<Rightarrow> client_entry" where
  "client_increment x = new_entry\<lparr>ce_updateAction := md_update_action_char (i_updateAction x),
     ce_entryType := md_entry_type_char (i_entryType x), ce_price := i_price x, ce_size := i_size x\<rparr>"

lemma refresh_block:
  assumes "quotable 4 (i_price x)"
  shows "refresh_entry (Some (fst (refresh_group symbol now (k, x)))) (block_map (snd (refresh_group symbol now (k, x))) final cs) acc =
     Inr (acc\<lparr>cr_symbol := Some symbol, cr_entries := cr_entries acc @ [client_increment x]\<rparr>)"
  using stod_four [OF assms]
  by (cases final)
    (simp_all add: refresh_entry_def block_map_def refresh_group_def common_fields_def opt_field_def set_price_def
      set_size_def new_entry_def client_increment_def instrument_round_trip)

lemma fold_increments:
  "fold (\<lambda>kx msg. msg\<lparr>cr_symbol := Some sy, cr_entries := cr_entries msg @ [h (snd kx)]\<rparr>) kxs msg =
     (if kxs = [] then msg else msg\<lparr>cr_symbol := Some sy, cr_entries := cr_entries msg @ map (h \<circ> snd) kxs\<rparr>)"
  by (induction kxs arbitrary: msg) simp_all

text \<open>The client reads a refresh as the exchange built it.\<close>

lemma parse_refresh:
  assumes id: "plain (i_mdReqID r)"
    and entries: "list_all (\<lambda>x. quotable 4 (i_price x)) (i_entries r)" "length (i_entries r) < 2 ^ 31" "i_entries r \<noteq> []"
  shows "parse_message tz (MarketDataIncrementalRefreshToBinary now target r n) =
     ParsedRefresh \<lparr>cr_mdReqID = i_mdReqID r, cr_symbol = Some (i_symbol r), cr_entries = map client_increment (i_entries r)\<rparr>"
proof -
  let ?hs = "refresh_head now target r n" and ?h = "refresh_group (i_symbol r) now"
  let ?start = "\<lparr>cr_mdReqID = i_mdReqID r, cr_symbol = None, cr_entries = []\<rparr>"
  have hs: "plain ''FIXT.1.1''" "plain_fields ?hs" "list_all (\<lambda>(t, v). \<not> tag_ends ''268'' t) ?hs"
    using id by (simp_all add: refresh_head_def SOH_eq tag_ends_iff)
  have good: "good_entry ''279'' (?h kx) \<and> plain [fst (?h kx)]" for kx
    by (cases kx) (simp add: good_entry_def refresh_group_def tag_ends_iff)
  have tt: "''279'' = to_string_i (tag_no MDUpdateAction)" "length ''279'' = 3" "\<not> tag_ends ''279'' CheckSum"
    by (simp_all add: tag_texts tag_ends_iff)
  have tags: "tag_no MDUpdateAction \<in> {279, 269, 55, 270, 271, 273}" "(268 :: int) \<notin> {279, 269, 55, 270, 271, 273}"
    "tag_no ` fst ` set (snd (?h kx)) \<subseteq> {279, 269, 55, 270, 271, 273}" for kx
    by (auto simp: refresh_group_def split: prod.splits)
  have count: "length (indexed r) < 2 ^ 31" using entries(2) by simp
  note wire = sealed_group [where h = ?h, OF hs tt count good tags, folded refresh_as_fields]
  let ?m = "sealed_map ''FIXT.1.1'' (group_message ?hs MDUpdateAction (map ?h (indexed r)))"
  have "?m 35 = Some ''X''" "get_str ?m MDReqID = i_mdReqID r"
    by (simp_all add: wire(3) get_str_def refresh_head_map)
  moreover have "parse_group (''279'' @ ''='') refresh_entry ?m (MarketDataIncrementalRefreshToBinary now target r n) ?start =
      Inr (fold (\<lambda>kx msg. msg\<lparr>cr_symbol := Some (i_symbol r), cr_entries := cr_entries msg @ [client_increment (snd kx)]\<rparr>)
        (indexed r) ?start)"
  proof (rule wire(4))
    fix kx final cs and acc :: client_refresh assume "kx \<in> set (indexed r)"
    then have "snd kx \<in> set (i_entries r)" by (metis prod.collapse set_zip_rightD)
    then have "quotable 4 (i_price (snd kx))" using entries(1) by (simp add: list_all_iff)
    from refresh_block [OF this, of "i_symbol r" now "fst kx" final cs acc]
    show "refresh_entry (Some (fst (?h kx))) (block_map (snd (?h kx)) final cs) acc =
        Inr (acc\<lparr>cr_symbol := Some (i_symbol r), cr_entries := cr_entries acc @ [client_increment (snd kx)]\<rparr>)"
      by simp
  qed
  moreover have "map (client_increment \<circ> snd) (indexed r) = map client_increment (i_entries r)"
    unfolding map_map [symmetric] by simp
  ultimately show ?thesis
    using wire(1,2) entries(3)
    by (simp add: parse_message_def catch_null_def parseMarketDataIncremental_def get_str_def fold_increments)
qed

text \<open>A subscriber gets a refresh of the publisher under the id of its request.\<close>

definition client_sees ::
  "(int \<Rightarrow> int) \<Rightarrow> (nat \<Rightarrow> timestamp) \<Rightarrow> u32 \<Rightarrow> u32 \<Rightarrow> string \<Rightarrow> string \<Rightarrow> md_incremental_refresh \<Rightarrow> ladder \<Rightarrow> ladder" where
  "client_sees tz now target n reqId selected m l =
     route_market_data selected (parse_message tz (MarketDataIncrementalRefreshToBinary now target (m\<lparr>i_mdReqID := reqId\<rparr>) n)) l"

lemma client_sees_order:
  assumes "plain reqId" "quotable 4 (mPrice ord)"
  shows "client_sees tz now target n reqId selected (book_refresh sy action ord ts) l =
     (if instrument_to_string sy \<noteq> selected then l
      else updateLevel (md_entry_type_char (if mOrderSide ord = Buy then Bid else Offer)) (mPrice ord) (mRemainingQuantity ord)
        (md_update_action_char action) l)"
  using parse_refresh [of "(book_refresh sy action ord ts)\<lparr>i_mdReqID := reqId\<rparr>"] assms
  by (simp add: client_sees_def book_refresh_def client_increment_def handleIncremental_def new_entry_def)

subsection \<open>The refreshes of a new order\<close>

definition refreshes_of :: "event list \<Rightarrow> md_incremental_refresh list" where
  "refreshes_of evs = concat (map (\<lambda>v. case v of EvIncremental m \<Rightarrow> [m] | _ \<Rightarrow> []) evs)"

lemma refreshes_simps [simp]:
  "refreshes_of [] = []" "refreshes_of (xs @ ys) = refreshes_of xs @ refreshes_of ys"
  "refreshes_of (EvIncremental m # xs) = m # refreshes_of xs" "refreshes_of (EvDb d # xs) = refreshes_of xs"
  "refreshes_of (EvReport r # xs) = refreshes_of xs"
  by (simp_all add: refreshes_of_def)

lemma refreshes_maps [simp]: "refreshes_of (map EvDb ds) = []" "refreshes_of (map EvReport rs) = []"
  by (induct ds; simp) (induct rs; simp)

lemma refreshes_concat: "(\<And>x. x \<in> set xs \<Longrightarrow> refreshes_of (f x) = []) \<Longrightarrow> refreshes_of (concat (map f xs)) = []"
  by (induction xs) simp_all

lemma refreshes_trades [simp]: "refreshes_of (trade_loop_log e post h inc ts fs) = []"
proof -
  have "refreshes_of (stored post t) = []" for t by (simp add: stored_def)
  moreover have "refreshes_of (settle_log e post t b a) = []" for t b a
    by (simp add: settle_log_def stored_def drop_log_def)
  ultimately show ?thesis
    by (simp add: trade_loop_log_def matched_log_def) (auto intro!: refreshes_concat)
qed

definition new_refreshes :: "worker \<Rightarrow> worker \<Rightarrow> md_incremental_refresh list" where
  "new_refreshes s s' = drop (length (refreshes_of (w_log s))) (refreshes_of (w_log s'))"

text \<open>A new order publishes at most itself, with the quantity its trades left.\<close>

lemma new_order_refreshes:
  assumes inv: "worker_inv s" and fresh: "w_own s (mCoreOrderId ord) = None"
    and run: "processNewOrder e ord s = Some s'"
  shows "new_refreshes s s' = [] \<or>
     new_refreshes s s' = [book_refresh (mBookSymbol (w_book s)) MDNew (limit_final ord s) (mTimestamp ord)]"
  using inv fresh run
proof (cases rule: new_order_cases)
  case rejected
  then show ?thesis by (simp add: new_refreshes_def reject_def)
next
  case accepted
  have "mTimestamp (limit_final ord s) = mTimestamp ord"
    by (simp add: limit_final_def taker_final_def final_status_def taker_after_def setStatus_def)
  then show ?thesis
    unfolding accepted(2) new_refreshes_def new_order_state_def Let_def
    by (simp add: w_log_matched limit_final_def)
qed

text \<open>The side of the book, and of the ladder, an order trades against.\<close>

definition opposite_ladder :: "order \<Rightarrow> ladder \<Rightarrow> (dbl \<times> u64) list" where
  "opposite_ladder ord l = (if mOrderSide ord = Buy then mAsks l else mBids l)"

definition own_ladder :: "order \<Rightarrow> ladder \<Rightarrow> (dbl \<times> u64) list" where
  "own_ladder ord l = (if mOrderSide ord = Buy then mBids l else mAsks l)"

text \<open>
  C23: clients never learn of a trade. Take a subscriber whose ladder shows, on the side a new
  order trades against, the levels of the book. However much the order trades, the exchange sends
  no refresh that touches that side: the ladder still shows the levels the book had before the
  order, with the quantities it has consumed. (The price of the order is one the wire carries.)
\<close>

theorem trades_are_never_published:
  assumes "worker_inv s" "w_own s (mCoreOrderId ord) = None" "processNewOrder e ord s = Some s'"
    and "quotable 4 (mPrice ord)" "plain reqId"
    and shown: "opposite_ladder ord l = level_totals (w_heap s) (opposite ord (w_book s))"
  shows "opposite_ladder ord (fold (client_sees tz now target n reqId selected) (new_refreshes s s') l) =
     level_totals (w_heap s) (opposite ord (w_book s))"
proof -
  have "quotable 4 (mPrice (limit_final ord s))" using assms(4) by simp
  note sees = client_sees_order [OF assms(5) this]
  show ?thesis
    using new_order_refreshes [OF assms(1-3)] shown
    by (auto simp: sees opposite_ladder_def updateLevel_def simp del: quotable.simps)
qed

lemma demo_bought_book:
  "level_totals (w_heap demo_bought) (mAskMap (w_book demo_bought)) = [(Fin 101, 5)]"
  "mOrderSide demo_buy = Buy" "mPrice demo_buy = Fin 101"
  by code_simp+

theorem trades_are_never_published_demo:
  "mAsks (fold (client_sees (\<lambda>_. 0) int 1 3 ''r1'' ''EURUSD'') (new_refreshes demo_resting demo_bought)
       (new_ladder ''EURUSD''\<lparr>mAsks := [(Fin 100, 10), (Fin 101, 10)]\<rparr>)) = [(Fin 100, 10), (Fin 101, 10)] \<and>
   level_totals (w_heap demo_bought) (mAskMap (w_book demo_bought)) = [(Fin 101, 5)]"
proof -
  have "opposite demo_buy (w_book demo_resting) = mAskMap (w_book demo_resting)" "plain ''r1''"
    by (simp_all add: opposite_def demo_bought_book(2) SOH_eq)
  then show ?thesis
    using trades_are_never_published [OF demo_resting_ok(1) demo_buy_fresh demo_bought_run, of "''r1''"
        "new_ladder ''EURUSD''\<lparr>mAsks := [(Fin 100, 10), (Fin 101, 10)]\<rparr>" "\<lambda>_. 0" int 1 3 "''EURUSD''"]
    by (simp add: opposite_ladder_def demo_bought_book demo_resting_book quotable_100_101 del: quotable.simps)
qed

subsection \<open>A second order at a price\<close>

definition own_levels :: "order \<Rightarrow> order_book \<Rightarrow> levels" where
  "own_levels ord b = (if mOrderSide ord = Buy then mBidMap b else mAskMap b)"

text \<open>An order that crosses nothing changes the book only by standing behind its level.\<close>

lemma own_levels_insert:
  assumes "book_ok h own b" "uncrossed b" "mPrice ord \<noteq> NaN"
  shows "map_of (own_levels ord (book_insert a ord b)) =
     (map_of (own_levels ord b))(mPrice ord \<mapsto> (case map_of (own_levels ord b) (mPrice ord) of None \<Rightarrow> [] | Some l \<Rightarrow> l) @ [a])"
proof -
  have sorted: "keys_sorted dgt (mBidMap b)" "keys_sorted dlt (mAskMap b)"
    using book_ok_sides [OF assms(1)] by (simp_all add: side_ok_def)
  have keys: "\<forall>k\<in>fst ` set (mBidMap b). k \<noteq> NaN" "\<forall>k\<in>fst ` set (mAskMap b). k \<noteq> NaN"
    using assms(2) unfolding uncrossed_def keys_apart_def by blast+
  show ?thesis
    using bid_map.map_of_map_upd [OF sorted(1) assms(3) keys(1)] ask_map.map_of_map_upd [OF sorted(2) assms(3) keys(2)]
    by (simp add: own_levels_def book_insert_def)
qed

lemma level_totals_at: "map_of (level_totals h m) p = map_option (level_quantity h) (map_of m p)"
  by (induction m) (auto simp: level_totals_def)

lemma level_quantity_cong: "\<forall>x\<in>set l. h x = h' x \<Longrightarrow> level_quantity h l = level_quantity h' l"
  by (simp add: level_quantity_def order_at_def cong: map_cong)

text \<open>The state behind a limit order that crosses nothing.\<close>

lemma resting_order_state:
  assumes inv: "worker_inv s" and fresh: "w_own s (mCoreOrderId ord) = None"
    and pass: "preCheck ord (w_heap s) (w_book s) = Some True"
    and limit: "mOrderType ord = Limit" "mRemainingQuantity ord \<noteq> 0"
    and no_cross: "\<forall>(p, l)\<in>set (opposite ord (w_book s)). \<not> crosses ord p"
    and run: "processNewOrder e ord s = Some s'"
  defines "a \<equiv> next_addr (w_mgr s)"
  shows "w_book s' = book_insert a ord (w_book s)" "w_heap s' a = Some (limit_final ord s)" "limit_left ord s = mRemainingQuantity ord"
    and "x \<noteq> a \<Longrightarrow> w_heap s' x = w_heap s x"
    and "new_refreshes s s' = [book_refresh (mBookSymbol (w_book s)) MDNew (limit_final ord s) (mTimestamp (limit_final ord s))]"
proof -
  let ?h = "(w_heap s)(a \<mapsto> ord)" and ?s4 = "limit_matched e ord s"
  have fills: "book_fills ?h ord (w_book s) = []" and left: "limit_left ord s = mRemainingQuantity ord"
    using no_cross_no_fills [OF no_cross] by (simp_all add: limit_left_def a_def)
  then have "limit_left ord s \<noteq> 0" using limit(2) by simp
  note kept = open_taker_kept [OF inv fresh this, of e]
  have s': "s' = rest_state a (limit_final ord s) ?s4"
    using new_limit_order [OF inv fresh pass limit(1) run] kept left limit(2) by (simp add: domIff a_def)
  have ok: "book_ok ?h ((w_own s)(mCoreOrderId ord \<mapsto> a)) (w_book s)"
    using admitted_ok(1) [OF inv fresh, of e] by (simp add: worker_inv_def a_def)
  have book: "w_book ?s4 = w_book s"
    using book_after_no_fills [OF ok fills] by (simp add: limit_matched_book(1) a_def)
  show "w_book s' = book_insert a ord (w_book s)" by (simp add: s' book)
  show "w_heap s' a = Some (limit_final ord s)" using kept(2) by (simp add: s' a_def)
  show "limit_left ord s = mRemainingQuantity ord" by (rule left)
  show "w_heap s' x = w_heap s x" if "x \<noteq> a"
    using that fills by (simp add: s' limit_matched_def a_def dropped_ids_def emptied_ids_def settled_def heap_after_other)
  show "new_refreshes s s' = [book_refresh (mBookSymbol (w_book s)) MDNew (limit_final ord s) (mTimestamp (limit_final ord s))]"
    by (simp add: new_refreshes_def s' book) (simp add: limit_matched_def w_log_matched)
qed

text \<open>
  C24: a second order at a price hides the first. Take a subscriber whose ladder shows the levels
  of the book with their totals, and a limit order that crosses nothing and joins a level the
  book has. The refresh the exchange sends for it carries the order's own quantity, and the
  client takes that for the quantity of the level: behind it the book's level holds the old total and
  the order, the ladder shows the order alone.
\<close>

theorem second_order_hides_the_first:
  assumes inv: "worker_inv s" and fresh: "w_own s (mCoreOrderId ord) = None"
    and pass: "preCheck ord (w_heap s) (w_book s) = Some True"
    and limit: "mOrderType ord = Limit" "mRemainingQuantity ord \<noteq> 0"
    and no_cross: "\<forall>(p, l)\<in>set (opposite ord (w_book s)). \<not> crosses ord p"
    and run: "processNewOrder e ord s = Some s'"
    and wire: "quotable 4 (mPrice ord)" "plain reqId" "selected = instrument_to_string (mBookSymbol (w_book s))"
    and shown: "own_ladder ord l = level_totals (w_heap s) (own_levels ord (w_book s))" "uncrossed (w_book s)"
    and level: "map_of (own_levels ord (w_book s)) (mPrice ord) = Some queue"
  shows "map_of (own_ladder ord (fold (client_sees tz now target n reqId selected) (new_refreshes s s') l)) (mPrice ord) =
      Some (mRemainingQuantity ord) \<and>
    map_of (level_totals (w_heap s') (own_levels ord (w_book s'))) (mPrice ord) =
      Some (level_quantity (w_heap s) queue + mRemainingQuantity ord)"
proof
  note state = resting_order_state [OF inv fresh pass limit no_cross run]
  have ok: "book_ok (w_heap s) (w_own s) (w_book s)" using inv by (simp add: worker_inv_def)
  have price: "mPrice ord \<noteq> NaN" "quotable 4 (mPrice (limit_final ord s))" using wire(1) by auto
  show "map_of (level_totals (w_heap s') (own_levels ord (w_book s'))) (mPrice ord) =
      Some (level_quantity (w_heap s) queue + mRemainingQuantity ord)"
  proof -
    have "set queue \<subseteq> book_addrs (w_book s)"
      using map_of_SomeD [OF level] by (auto simp: own_levels_def book_addrs_def addrs_def split: if_splits)
    then have "\<forall>x\<in>set queue. w_heap s' x = w_heap s x"
      using admitted_ok(2) [OF inv fresh] by (intro ballI state(4)) blast
    then have "level_quantity (w_heap s') queue = level_quantity (w_heap s) queue" by (rule level_quantity_cong)
    then show ?thesis
      using own_levels_insert [OF ok shown(2) price(1)] level state(1,2,3)
      by (simp add: level_totals_at level_quantity_def order_at_def)
  qed
  have sorted: "keys_sorted dgt (mBidMap (w_book s))" "keys_sorted dlt (mAskMap (w_book s))"
    using book_ok_sides [OF ok] by (simp_all add: side_ok_def)
  have keys: "\<forall>k\<in>fst ` set (level_totals h (mBidMap (w_book s))). k \<noteq> NaN" "\<forall>k\<in>fst ` set (level_totals h (mAskMap (w_book s))). k \<noteq> NaN" for h
    using shown(2) level_totals_keys [of h] unfolding uncrossed_def keys_apart_def by (metis list.set_map)+
  show "map_of (own_ladder ord (fold (client_sees tz now target n reqId selected) (new_refreshes s s') l)) (mPrice ord) =
      Some (mRemainingQuantity ord)"
    using shown(1) limit(2) state(3) sorted keys
      bid_map.map_of_map_upd [OF _ price(1), of "level_totals (w_heap s) (mBidMap (w_book s))"]
      ask_map.map_of_map_upd [OF _ price(1), of "level_totals (w_heap s) (mAskMap (w_book s))"]
    by (simp add: state(5) client_sees_order [OF wire(2) price(2)] wire(3) updateLevel_def update_side_def own_ladder_def
        own_levels_def level_totals_keys del: quotable.simps split: if_splits)
qed

definition demo_join :: order where
  "demo_join = demo_order 3 ''dave'' Sell Limit 3 101"

lemma demo_join_facts:
  "w_own demo_resting (mCoreOrderId demo_join) = None" "mOrderType demo_join = Limit" "mRemainingQuantity demo_join = 3"
  "mOrderSide demo_join = Sell" "mPrice demo_join = Fin 101"
  "preCheck demo_join (w_heap demo_resting) (w_book demo_resting) = Some True"
proof -
  show "w_own demo_resting (mCoreOrderId demo_join) = None" "mOrderType demo_join = Limit" "mRemainingQuantity demo_join = 3"
    "mOrderSide demo_join = Sell" "mPrice demo_join = Fin 101"
    using demo_resting_ok(3) by (simp_all add: demo_join_def demo_order_def mk_order_def)
  show "preCheck demo_join (w_heap demo_resting) (w_book demo_resting) = Some True" by code_simp
qed

theorem second_order_hides_the_first_demo:
  "\<exists>s'. processNewOrder demo_env demo_join demo_resting = Some s' \<and>
     map_of (mAsks (fold (client_sees (\<lambda>_. 0) int 1 3 ''r1'' ''EURUSD'') (new_refreshes demo_resting s')
       (new_ladder ''EURUSD''\<lparr>mAsks := [(Fin 100, 10), (Fin 101, 10)]\<rparr>))) (Fin 101) = Some 3 \<and>
     map_of (level_totals (w_heap s') (mAskMap (w_book s'))) (Fin 101) = Some 13"
proof -
  note o = demo_resting_ok(1) demo_join_facts(1,6,2)
  have own: "own_levels demo_join b = mAskMap b" "own_ladder demo_join l = mAsks l" "opposite demo_join b = mBidMap b" for b l
    by (simp_all add: own_levels_def own_ladder_def opposite_def demo_join_facts(4))
  obtain s' where s': "processNewOrder demo_env demo_join demo_resting = Some s'"
    using processNewOrder_ok [OF o(1,2), of demo_env] by blast
  have "map_option (level_quantity (w_heap demo_resting)) (map_of (mAskMap (w_book demo_resting)) (Fin 101)) = Some 10"
    using demo_resting_book(3) by (simp add: level_totals_at [symmetric])
  then obtain queue where queue: "map_of (own_levels demo_join (w_book demo_resting)) (mPrice demo_join) = Some queue"
    "level_quantity (w_heap demo_resting) queue = 10"
    by (auto simp: own(1) demo_join_facts(5))
  have no_cross: "\<forall>(p, l)\<in>set (opposite demo_join (w_book demo_resting)). \<not> crosses demo_join p"
    by (simp add: own(3) demo_resting_book(1))
  have wire: "quotable 4 (mPrice demo_join)" "plain ''r1''" "mRemainingQuantity demo_join \<noteq> 0"
    by (simp_all add: demo_join_facts quotable_100_101 SOH_eq del: quotable.simps)
  show ?thesis
    using second_order_hides_the_first [OF o wire(3) no_cross s' wire(1,2) _ _ demo_resting_ok(2) queue(1),
        of "''EURUSD''" "new_ladder ''EURUSD''\<lparr>mAsks := [(Fin 100, 10), (Fin 101, 10)]\<rparr>" "\<lambda>_. 0" int 1 3] s' queue(2)
    by (simp add: own demo_resting_book demo_join_facts)
qed

end
