(* ===== verification/CandleAggregator.thy ===== *)
theory CandleAggregator
  imports Persistence CppFormat FixMessages
begin

text \<open>
  \<open>client_ohlc/CandleAggregator\<close>: the candles of one and five minutes of every symbol, the feed
  \<open>App::initLogic\<close> connects to them, and the list the chart keeps. An aggregate is \<open>None\<close>
  until its first trade. The calls of the candle callback are recorded in order.
\<close>

subsection \<open>Aggregation\<close>

record aggregator =
  mAggregates :: "string \<Rightarrow> int \<Rightarrow> candle option"
  a_tasks :: "db_task list"
  a_calls :: "(int \<times> candle) list"

definition new_aggregator :: aggregator where
  "new_aggregator = \<lparr>mAggregates = (\<lambda>_ _. None), a_tasks = [], a_calls = []\<rparr>"

text \<open>\<open>std::max\<close> and \<open>std::min\<close> on \<open>double\<close>: the first argument when neither is less.\<close>

definition dmax :: "dbl \<Rightarrow> dbl \<Rightarrow> dbl" where
  "dmax a b = (if dlt a b then b else a)"

definition dmin :: "dbl \<Rightarrow> dbl \<Rightarrow> dbl" where
  "dmin a b = (if dlt b a then b else a)"

definition bucket_start :: "int \<Rightarrow> int \<Rightarrow> int" where
  "bucket_start interval timestampNs =
     tdiv (tdiv timestampNs 1000000000) (interval * 60) * (interval * 60)"

definition open_candle :: "string \<Rightarrow> int \<Rightarrow> dbl \<Rightarrow> u64 \<Rightarrow> candle" where
  "open_candle symbol start price qty =
     \<lparr>c_symbol = symbol, c_timestamp = start, c_open = price, c_high = price, c_low = price,
      c_close = price, c_volume = qty\<rparr>"

definition add_to_candle :: "dbl \<Rightarrow> u64 \<Rightarrow> candle \<Rightarrow> candle" where
  "add_to_candle price qty c =
     c\<lparr>c_high := dmax (c_high c) price, c_low := dmin (c_low c) price, c_close := price,
       c_volume := c_volume c + qty\<rparr>"

text \<open>The new candle, and the old one when it is final.\<close>

definition updateAggregate ::
  "int \<Rightarrow> string \<Rightarrow> dbl \<Rightarrow> u64 \<Rightarrow> int \<Rightarrow> candle option \<Rightarrow> candle \<times> candle option" where
  "updateAggregate interval symbol price qty timestampNs agg =
     (let start = bucket_start interval timestampNs
      in case agg of
           None \<Rightarrow> (open_candle symbol start price qty, None)
         | Some c \<Rightarrow> if start > c_timestamp c then (open_candle symbol start price qty, Some c)
                     else (add_to_candle price qty c, None))"

definition on_interval :: "int \<Rightarrow> string \<Rightarrow> dbl \<Rightarrow> u64 \<Rightarrow> int \<Rightarrow> aggregator \<Rightarrow> aggregator" where
  "on_interval interval symbol price qty timestampNs s =
     (let (c, final) = updateAggregate interval symbol price qty timestampNs (mAggregates s symbol interval)
      in s\<lparr>mAggregates := (mAggregates s)(symbol := (mAggregates s symbol)(interval := Some c)),
           a_tasks := a_tasks s @ (case final of None \<Rightarrow> [] | Some o1 \<Rightarrow> [AddCandle interval o1]),
           a_calls := a_calls s @ [(interval, c)]\<rparr>)"

definition onTrade :: "string \<Rightarrow> dbl \<Rightarrow> u64 \<Rightarrow> int \<Rightarrow> aggregator \<Rightarrow> aggregator" where
  "onTrade symbol price qty timestampNs s =
     on_interval 5 symbol price qty timestampNs (on_interval 1 symbol price qty timestampNs s)"

subsection \<open>The feed\<close>

text \<open>
  The subscriber of \<open>App::initLogic\<close>: every entry of every refresh of the exchange that is not a
  deletion is taken for a trade, at the time of the clock.
\<close>

definition feed_entry :: "string \<Rightarrow> (nat \<Rightarrow> int) \<Rightarrow> nat \<times> md_incremental_entry \<Rightarrow> aggregator \<Rightarrow> aggregator" where
  "feed_entry symbol now kx s =
     (case kx of (k, x) \<Rightarrow> if i_updateAction x = MDDelete then s
        else onTrade symbol (i_price x) (i_size x) (now k) s)"

definition feed_candles :: "(nat \<Rightarrow> int) \<Rightarrow> md_incremental_refresh \<Rightarrow> aggregator \<Rightarrow> aggregator" where
  "feed_candles now refresh s =
     fold (feed_entry (instrument_to_string (i_symbol refresh)) now)
       (zip [0..<length (i_entries refresh)] (i_entries refresh)) s"

subsection \<open>The chart\<close>

text \<open>\<open>ChartPanel::onCandleUpdate\<close> on the candles of one interval.\<close>

definition onCandleUpdate :: "candle \<Rightarrow> candle list \<Rightarrow> candle list" where
  "onCandleUpdate c candles =
     (if candles \<noteq> [] \<and> c_timestamp (last candles) = c_timestamp c
      then butlast candles @ [c]
      else let candles' = candles @ [c]
           in if length candles' > 500 then tl candles' else candles')"

definition chart_update ::
  "string \<Rightarrow> int \<times> candle \<Rightarrow> (int \<Rightarrow> candle list) \<Rightarrow> int \<Rightarrow> candle list" where
  "chart_update selected ic chart =
     (case ic of (interval, c) \<Rightarrow> if c_symbol c \<noteq> selected then chart
        else chart(interval := onCandleUpdate c (chart interval)))"

end
