(* ===== verification/CppRounding.thy ===== *)
theory CppRounding
  imports CppDouble
begin

text \<open>
  More of the arithmetic of \<open>double\<close> (multiplication, square root, conversions from and to
  integers), and how far rounding can move a value: never past an integer below \<open>2 ^ 53\<close>.
\<close>

subsection \<open>Operations\<close>

fun dmul :: "dbl \<Rightarrow> dbl \<Rightarrow> dbl" where
  "dmul (Fin a) (Fin b) = rnd64 (a * b)"
| "dmul NaN _ = NaN"
| "dmul _ NaN = NaN"
| "dmul (Fin a) y = (if a = 0 then NaN else if (0 < a) = (y = PInf) then PInf else NInf)"
| "dmul x (Fin b) = (if b = 0 then NaN else if (0 < b) = (x = PInf) then PInf else NInf)"
| "dmul x y = (if x = y then PInf else NInf)"

text \<open>The integer square root, two bits at a time.\<close>

function isqrt :: "int \<Rightarrow> int" where
  "isqrt n = (if n \<le> 0 then 0
     else let r = 2 * isqrt (n div 4) in if (r + 1) * (r + 1) \<le> n then r + 1 else r)"
  by auto
termination by (relation "measure nat") auto

declare isqrt.simps [simp del]

text \<open>
  \<open>std::sqrt\<close>: the nearest value with 53 bits. The root of a binary64 value is never half way
  between two of them.
\<close>

fun dsqrt :: "dbl \<Rightarrow> dbl" where
  "dsqrt (Fin q) =
     (if q = 0 then Fin 0 else if q < 0 then NaN
      else let e = ilog2 q div 2 - 52; x = q / pow2 (2 * e); f = isqrt \<lfloor>x\<rfloor>
           in Fin (of_int (if of_int (4 * f * f + 4 * f + 1) < 4 * x then f + 1 else f) * pow2 e))"
| "dsqrt PInf = PInf"
| "dsqrt _ = NaN"

definition dbl_of_int :: "int \<Rightarrow> dbl" where
  "dbl_of_int n = rnd64 (of_int n)"

text \<open>The conversion to \<open>uint64_t\<close> drops the fraction; out of range it is undefined.\<close>

fun to_u64 :: "dbl \<Rightarrow> u64 option" where
  "to_u64 (Fin q) = (if - 1 < q \<and> q < 2 ^ 64 then Some (if q < 0 then 0 else word_of_int \<lfloor>q\<rfloor>) else None)"
| "to_u64 _ = None"

subsection \<open>Powers of two and leading bits\<close>

lemma pow2_powi: "pow2 k = 2 powi k"
  by (simp add: pow2_def power_int_def inverse_eq_divide power_divide)

lemma pow2_pos [simp]: "0 < pow2 k"
  by (simp add: pow2_powi)

lemma pow2_add: "pow2 (a + b) = pow2 a * pow2 b"
  by (simp add: pow2_powi power_int_add)

lemma pow2_mono: "a \<le> b \<Longrightarrow> pow2 a \<le> pow2 b"
  by (simp add: pow2_powi power_int_increasing)

lemma pow2_less: "pow2 a < pow2 b \<Longrightarrow> a < b"
  using pow2_mono [of b a] by (meson leD linorder_le_less_linear)

lemma pow2_nat: "0 \<le> k \<Longrightarrow> pow2 k = of_int (2 ^ nat k)"
  by (simp add: pow2_def)

lemma ilog_nonneg [simp]: "0 \<le> ilog n"
  by (induction n rule: ilog.induct) (subst ilog.simps, simp)

lemma ilog_bounds: "0 < n \<Longrightarrow> pow2 (ilog n) \<le> of_int n \<and> of_int n < pow2 (ilog n + 1)"
proof (induction n rule: ilog.induct)
  case (1 n)
  show ?case
  proof (cases "n < 2")
    case True
    with 1 have "n = 1" by simp
    then show ?thesis by (simp add: ilog.simps pow2_def)
  next
    case False
    let ?h = "n div 2"
    have IH: "pow2 (ilog ?h) \<le> of_int ?h" "of_int ?h < pow2 (ilog ?h + 1)" using 1 False by simp_all
    have n: "ilog n = ilog ?h + 1" using False by (simp add: ilog.simps [of n])
    have "2 * ?h \<le> n" "n < 2 * (?h + 1)" by simp_all
    then have "(of_int (2 * ?h) :: rat) \<le> of_int n" "(of_int n :: rat) < of_int (2 * (?h + 1))"
      by (simp_all only: of_int_le_iff of_int_less_iff)
    then have n2: "2 * of_int ?h \<le> (of_int n :: rat)" "(of_int n :: rat) < 2 * (of_int ?h + 1)"
      by (simp_all only: of_int_mult of_int_add of_int_numeral of_int_1)
    have "?h < 2 ^ nat (ilog ?h + 1)" using IH(2) pow2_nat [of "ilog ?h + 1"] by simp
    then have "?h + 1 \<le> 2 ^ nat (ilog ?h + 1)" by simp
    then have "(of_int (?h + 1) :: rat) \<le> of_int (2 ^ nat (ilog ?h + 1))" by (simp only: of_int_le_iff)
    then have "(of_int ?h :: rat) + 1 \<le> pow2 (ilog ?h + 1)" using pow2_nat [of "ilog ?h + 1"] by simp
    moreover have "pow2 (ilog n) = 2 * pow2 (ilog ?h)" "pow2 (ilog n + 1) = 2 * pow2 (ilog ?h + 1)"
      by (simp_all add: n pow2_powi power_int_add)
    ultimately show ?thesis using IH(1) n2 by linarith
  qed
qed

lemma ilog2_le:
  assumes "0 < q"
  shows "pow2 (ilog2 q) \<le> q"
proof -
  obtain n d where nd: "quotient_of q = (n, d)" by (rule prod.exhaust)
  have d: "0 < d" using quotient_of_denom_pos [OF nd] .
  have q: "q = of_int n / of_int d" by (rule quotient_of_div [OF nd])
  have n: "0 < n" using assms d by (simp add: q zero_less_divide_iff)
  let ?k = "ilog n - ilog d"
  have "pow2 (?k - 1) * of_int d \<le> pow2 (?k - 1) * pow2 (ilog d + 1)"
    using ilog_bounds [OF d] by simp
  also have "\<dots> = pow2 (ilog n)" by (simp add: pow2_add [symmetric])
  also have "\<dots> \<le> of_int n" using ilog_bounds [OF n] by simp
  finally have "pow2 (?k - 1) \<le> q" using d by (simp add: q pos_le_divide_eq)
  then show ?thesis by (auto simp: ilog2_def nd Let_def)
qed

subsection \<open>Rounding stays between integers\<close>

lemma round_le: "x \<le> of_int n \<Longrightarrow> round_half_even x \<le> n"
  by (cases "x = of_int n")
    (auto simp: round_half_even_def Let_def floor_le_iff le_floor_iff floor_less_iff intro: order_trans)

lemma round_ge: "of_int n \<le> x \<Longrightarrow> n \<le> round_half_even x"
proof -
  assume "of_int n \<le> x"
  then have "n \<le> \<lfloor>x\<rfloor>" by (simp add: le_floor_iff)
  then show ?thesis by (simp add: round_half_even_def Let_def)
qed

lemma rnd64_between:
  assumes "of_nat j \<le> q" "q \<le> of_nat k" "k < 2 ^ 53"
  obtains v where "rnd64 q = Fin v" "of_nat j \<le> v" "v \<le> of_nat k"
proof (cases "q = 0")
  case True
  then show ?thesis using assms that [of 0] by (simp add: rnd64_def)
next
  case False
  then have q: "0 < q" using assms(1) by (metis of_nat_0_le_iff order_le_less order_trans)
  have k: "(of_nat k :: rat) < pow2 53" using assms(3) by (simp add: pow2_def of_nat_less_iff [symmetric] del: of_nat_less_iff)
  let ?e = "max (ilog2 q - 52) (- 1074)"
  have "pow2 (ilog2 q) < pow2 53" using ilog2_le [OF q] assms(2) k by linarith
  then have e: "?e \<le> 0" using pow2_less by fastforce
  let ?d = "2 ^ nat (- ?e) :: int"
  have d: "pow2 ?e = 1 / of_int ?d" using e by (auto simp: pow2_def)
  let ?m = "round_half_even (q / pow2 ?e)"
  have bounds: "of_int (int j * ?d) \<le> q / pow2 ?e" "q / pow2 ?e \<le> of_int (int k * ?d)"
    unfolding d using assms(1,2) by (simp_all add: mult_right_mono)
  have m: "int j * ?d \<le> ?m" "?m \<le> int k * ?d" using round_ge [OF bounds(1)] round_le [OF bounds(2)] .
  let ?r = "of_int ?m * pow2 ?e"
  have "(of_int (int j * ?d) :: rat) \<le> of_int ?m" "(of_int ?m :: rat) \<le> of_int (int k * ?d)"
    using m by (simp_all only: of_int_le_iff)
  then have r: "of_nat j \<le> ?r" "?r \<le> of_nat k" unfolding d by (simp_all add: field_simps)
  have "ilog ?m + ?e < 1024"
  proof (cases "0 < ?m")
    case True
    have "pow2 (ilog ?m + ?e) \<le> ?r" using ilog_bounds [OF True] by (simp add: pow2_add mult_right_mono)
    then have "pow2 (ilog ?m + ?e) < pow2 53" using r(2) k by linarith
    then show ?thesis using pow2_less by fastforce
  next
    case False
    then have "ilog ?m = 0" by (simp add: ilog.simps [of ?m])
    then show ?thesis using e by simp
  qed
  then have "rnd64 q = Fin ?r" using q by (simp add: rnd64_def Let_def)
  then show ?thesis using r that by blast
qed

subsection \<open>Upper bounds that NaN satisfies\<close>

text \<open>\<open>at_most x k\<close>: a comparison \<open>x > k\<close> fails.\<close>

definition at_most :: "dbl \<Rightarrow> nat \<Rightarrow> bool" where
  "at_most x k \<longleftrightarrow> \<not> dlt (Fin (of_nat k)) x"

lemma at_most_simps [simp]:
  "at_most (Fin v) k \<longleftrightarrow> v \<le> of_nat k" "at_most NaN k" "at_most NInf k" "\<not> at_most PInf k"
  by (auto simp: at_most_def)

lemma rnd64_negative: "q < 0 \<Longrightarrow> rnd64 q = NInf \<or> (\<exists>v\<le>0. rnd64 q = Fin v)"
proof -
  assume q: "q < 0"
  have "0 \<le> - (q / pow2 e)" for e using q by (simp add: divide_le_0_iff less_imp_le)
  then have "0 \<le> round_half_even (- (q / pow2 e))" for e using round_ge [of 0] by simp
  then show ?thesis using q
    by (auto simp: rnd64_def Let_def intro!: mult_nonneg_nonneg less_imp_le [OF pow2_pos])
qed

lemma at_most_rnd64: "q \<le> of_nat k \<Longrightarrow> k < 2 ^ 53 \<Longrightarrow> at_most (rnd64 q) k"
proof (cases "q < 0")
  case True
  then show ?thesis using rnd64_negative [of q] by (auto intro: order_trans)
next
  case False
  assume "q \<le> of_nat k" "k < 2 ^ 53"
  then show ?thesis using False rnd64_between [of 0 q k] by force
qed

lemma at_most_dmul:
  assumes "0 \<le> v" "v \<le> of_nat j" "at_most y k" "j * k < 2 ^ 53"
  shows "at_most (dmul (Fin v) y) (j * k)"
proof (cases y)
  case (Fin b)
  have "v * b \<le> of_nat (j * k)"
  proof (cases "0 \<le> b")
    case True
    then show ?thesis using assms Fin mult_mono [of v "of_nat j" b "of_nat k"] by simp
  next
    case False
    then have "v * b \<le> 0" using assms(1) by (simp add: mult_nonneg_nonpos)
    then show ?thesis by (rule order_trans) simp
  qed
  then show ?thesis using assms(4) Fin at_most_rnd64 by simp
qed (use assms in auto)

lemma at_most_dsub: "at_most x (Suc k) \<Longrightarrow> k < 2 ^ 53 \<Longrightarrow> at_most (dsub x (Fin 1)) k"
  by (cases x) (auto simp: dsub_def intro!: at_most_rnd64)

end
