(* ===== verification/CandleHistory.thy ===== *)
theory CandleHistory
  imports CandleAggregator CppRounding
begin

text \<open>
  The candles the client makes up for the time before the exchange started
  (\<open>CandleAggregator::seedHistoricalData\<close>, called by \<open>App::initLogic\<close>), and the chart they are
  shown in. The draws of the random distributions are an argument: the returns are numbered two
  to a candle, the wicks and the volumes one to a candle.
\<close>

record seed_draws =
  sd_return :: "dbl \<Rightarrow> nat \<Rightarrow> dbl"
  sd_wick :: "nat \<Rightarrow> dbl"
  sd_volume :: "nat \<Rightarrow> u64"

definition seed_volatility :: "dbl \<Rightarrow> dbl" where
  "seed_volatility startingPrice = dmax (dmul startingPrice (rnd64 (18 / 100000))) (rnd64 (1 / 100000))"

definition seed_candle :: "seed_draws \<Rightarrow> dbl \<Rightarrow> string \<Rightarrow> int \<Rightarrow> nat \<Rightarrow> dbl \<Rightarrow> candle" where
  "seed_candle D volatility symbol timestamp index price =
     (let close = dmax (rnd64 (1 / 10000)) (dadd price (sd_return D volatility (2 * index)));
          wick = dmul (dabs (sd_return D volatility (2 * index + 1))) (sd_wick D index)
      in \<lparr>c_symbol = symbol, c_timestamp = timestamp, c_open = price,
          c_high = dadd (dmax price close) wick,
          c_low = dmax (rnd64 (1 / 10000)) (dsub (dmin price close) wick),
          c_close = close, c_volume = sd_volume D index\<rparr>)"

text \<open>The loop, from \<open>index\<close> for \<open>n\<close> more candles.\<close>

fun seed_loop :: "seed_draws \<Rightarrow> dbl \<Rightarrow> string \<Rightarrow> int \<Rightarrow> int \<Rightarrow> nat \<Rightarrow> nat \<Rightarrow> dbl \<Rightarrow> candle list" where
  "seed_loop D volatility symbol firstBucket stepSeconds index 0 price = []"
| "seed_loop D volatility symbol firstBucket stepSeconds index (Suc n) price =
     (let c = seed_candle D volatility symbol (firstBucket + int index * stepSeconds) index price
      in c # seed_loop D volatility symbol firstBucket stepSeconds (Suc index) n (c_close c))"

definition seed_first :: "int \<Rightarrow> nat \<Rightarrow> int \<Rightarrow> int" where
  "seed_first interval candleCount nowNs =
     (let nowSec = tdiv nowNs 1000000000; stepSeconds = interval * 60;
          currentBucket = tdiv nowSec stepSeconds * stepSeconds
      in currentBucket - int candleCount * stepSeconds)"

definition seedHistoricalData ::
  "seed_draws \<Rightarrow> string \<Rightarrow> int \<Rightarrow> nat \<Rightarrow> int \<Rightarrow> dbl \<Rightarrow> aggregator \<Rightarrow> aggregator" where
  "seedHistoricalData D symbol interval candleCount nowNs startingPrice s =
     (if candleCount = 0 \<or> interval \<le> 0 \<or> dle startingPrice (Fin 0) then s
      else s\<lparr>a_calls := a_calls s @ map (Pair interval)
        (seed_loop D (seed_volatility startingPrice) symbol (seed_first interval candleCount nowNs)
           (interval * 60) 0 candleCount startingPrice)\<rparr>)"

text \<open>The part of \<open>App::initLogic\<close> that makes the aggregator and seeds it.\<close>

fun seed_price :: "instrument \<Rightarrow> rat" where
  "seed_price EURUSD = 11085 / 10000"
| "seed_price USDJPY = 15420 / 100"
| "seed_price GBPUSD = 12450 / 10000"
| "seed_price USDCAD = 13720 / 10000"
| "seed_price USDINR = 8330 / 100"
| "seed_price EURINR = 9020 / 100"
| "seed_price GBPINR = 10450 / 100"
| "seed_price AUDUSD = 6450 / 10000"
| "seed_price USDMXN = 1650 / 100"

definition init_candles :: "seed_draws \<Rightarrow> seed_draws \<Rightarrow> string \<Rightarrow> int \<Rightarrow> aggregator" where
  "init_candles D1 D5 selectedSymbol nowNs =
     (let startingPrice = (case catch_exn (instrument_from_string selectedSymbol) of
            None \<Rightarrow> rnd64 (11085 / 10000) | Some i \<Rightarrow> rnd64 (seed_price i))
      in seedHistoricalData D5 selectedSymbol 5 36 nowNs startingPrice
           (seedHistoricalData D1 selectedSymbol 1 60 nowNs startingPrice new_aggregator))"

text \<open>
  The chart: its candles by interval, and the symbol it shows. \<open>render\<close> clears it when another
  symbol is selected.
\<close>

definition chart_select :: "string \<Rightarrow> string \<times> (int \<Rightarrow> candle list) \<Rightarrow> string \<times> (int \<Rightarrow> candle list)" where
  "chart_select selectedSymbol chart =
     (if selectedSymbol \<noteq> fst chart then (selectedSymbol, \<lambda>_. []) else chart)"

definition chart_calls :: "string \<Rightarrow> (int \<times> candle) list \<Rightarrow> (int \<Rightarrow> candle list) \<Rightarrow> int \<Rightarrow> candle list" where
  "chart_calls selected calls chart = fold (chart_update selected) calls chart"

end
