(* ===== verification/CandleProperties.thy ===== *)
theory CandleProperties
  imports CandleAggregator CalendarText
begin

text \<open>
  The candles of a symbol against a reference: the trades sorted into buckets, and one candle
  read off each bucket.
\<close>

record tick =
  tk_price :: dbl
  tk_qty :: u64
  tk_time :: int

subsection \<open>The reference\<close>

definition candle_of :: "string \<Rightarrow> int \<Rightarrow> tick list \<Rightarrow> candle" where
  "candle_of symbol start ts =
     \<lparr>c_symbol = symbol, c_timestamp = start, c_open = tk_price (hd ts),
      c_high = foldl dmax (tk_price (hd ts)) (map tk_price (tl ts)),
      c_low = foldl dmin (tk_price (hd ts)) (map tk_price (tl ts)),
      c_close = tk_price (last ts), c_volume = sum_list (map tk_qty ts)\<rparr>"

text \<open>The buckets that have trades, in order, and their trades.\<close>

definition starts_of :: "int \<Rightarrow> tick list \<Rightarrow> int list" where
  "starts_of interval ts = remdups_adj (map (\<lambda>t. bucket_start interval (tk_time t)) ts)"

definition in_bucket :: "int \<Rightarrow> int \<Rightarrow> tick list \<Rightarrow> tick list" where
  "in_bucket interval start ts = filter (\<lambda>t. bucket_start interval (tk_time t) = start) ts"

definition reference_candles :: "int \<Rightarrow> string \<Rightarrow> tick list \<Rightarrow> candle list" where
  "reference_candles interval symbol ts =
     map (\<lambda>start. candle_of symbol start (in_bucket interval start ts)) (starts_of interval ts)"

definition in_time :: "tick list \<Rightarrow> bool" where
  "in_time ts \<longleftrightarrow> sorted (map tk_time ts) \<and> (\<forall>t\<in>set ts. 0 \<le> tk_time t)"

subsection \<open>One more trade\<close>

lemma bucket_start_mono:
  assumes "0 \<le> a" "a \<le> b" "0 < interval"
  shows "bucket_start interval a \<le> bucket_start interval b"
proof -
  have "a div 1000000000 div (interval * 60) \<le> b div 1000000000 div (interval * 60)"
    using assms by (intro zdiv_mono1) simp_all
  moreover have "bucket_start interval x = x div 1000000000 div (interval * 60) * (interval * 60)" if "0 \<le> x" for x
    using that assms(3) by (simp add: bucket_start_def tdiv_nonneg pos_imp_zdiv_nonneg_iff)
  ultimately show ?thesis using assms by (simp add: mult_right_mono)
qed

lemma remdups_adj_snoc: "remdups_adj (xs @ [x]) = (if xs \<noteq> [] \<and> last xs = x then remdups_adj xs else remdups_adj xs @ [x])"
proof (cases xs rule: rev_cases)
  case (snoc ys y)
  then show ?thesis using remdups_adj_append_two [of ys y x] by auto
qed simp

lemma candle_of_snoc:
  assumes "ts \<noteq> []"
  shows "candle_of symbol start (ts @ [t]) = add_to_candle (tk_price t) (tk_qty t) (candle_of symbol start ts)"
  using assms by (simp add: candle_of_def add_to_candle_def)

lemma candle_of_one: "candle_of symbol start [t] = open_candle symbol start (tk_price t) (tk_qty t)"
  by (simp add: candle_of_def open_candle_def)

lemma distinct_remdups_adj: "sorted (xs :: int list) \<Longrightarrow> distinct (remdups_adj xs)"
  by (induction xs rule: remdups_adj.induct) auto

lemma starts_ok:
  assumes "in_time ts" "0 < interval"
  shows "distinct (starts_of interval ts)" "\<forall>k\<in>set (starts_of interval ts). ts \<noteq> [] \<and> k \<le> bucket_start interval (tk_time (last ts))"
proof -
  have "sorted (map (\<lambda>t. bucket_start interval (tk_time t)) ts)"
    unfolding sorted_map
  proof (rule sorted_wrt_mono_rel)
    show "sorted_wrt (\<lambda>x y. tk_time x \<le> tk_time y) ts" using assms(1) by (simp add: in_time_def sorted_map)
  qed (use assms in \<open>simp add: in_time_def bucket_start_mono\<close>)
  then show "distinct (starts_of interval ts)" by (simp add: starts_of_def distinct_remdups_adj)
  have "tk_time t \<le> tk_time (last ts)" if "t \<in> set ts" for t
    using that assms(1) by (cases ts rule: rev_cases) (auto simp: in_time_def sorted_append)
  then show "\<forall>k\<in>set (starts_of interval ts). ts \<noteq> [] \<and> k \<le> bucket_start interval (tk_time (last ts))"
    using assms bucket_start_mono by (auto simp: starts_of_def in_time_def)
qed

text \<open>A trade that is not earlier goes into the last bucket or opens a new one behind it.\<close>

lemma reference_snoc:
  fixes symbol :: string
  assumes time: "in_time (ts @ [t])" and interval: "0 < interval"
  defines "start \<equiv> bucket_start interval (tk_time t)"
  defines "ref \<equiv> reference_candles interval symbol ts"
  shows "ts \<noteq> [] \<Longrightarrow> c_timestamp (last ref) \<le> start"
    and "reference_candles interval symbol (ts @ [t]) =
     (if ts \<noteq> [] \<and> c_timestamp (last ref) = start
      then butlast ref @ [add_to_candle (tk_price t) (tk_qty t) (last ref)]
      else ref @ [open_candle symbol start (tk_price t) (tk_qty t)])"
proof -
  let ?S = "starts_of interval ts"
  have before: "in_time ts" using time by (simp add: in_time_def sorted_append)
  note S = starts_ok [OF before interval]
  have S_Nil: "?S = [] \<longleftrightarrow> ts = []" by (simp add: starts_of_def)
  have last_S: "ts \<noteq> [] \<Longrightarrow> last ?S = bucket_start interval (tk_time (last ts))" by (simp add: starts_of_def last_map)
  have last_ref: "ts \<noteq> [] \<Longrightarrow> last ref = candle_of symbol (last ?S) (in_bucket interval (last ?S) ts)"
    using S_Nil by (simp add: ref_def reference_candles_def last_map)
  then have stamp: "ts \<noteq> [] \<Longrightarrow> c_timestamp (last ref) = last ?S" by (simp add: candle_of_def)
  have later: "ts \<noteq> [] \<Longrightarrow> last ?S \<le> start"
    using time interval bucket_start_mono [of "tk_time (last ts)" "tk_time t" interval]
    by (auto simp: last_S start_def in_time_def sorted_append)
  then show "ts \<noteq> [] \<Longrightarrow> c_timestamp (last ref) \<le> start" using stamp by simp
  have starts: "starts_of interval (ts @ [t]) = (if ts \<noteq> [] \<and> last ?S = start then ?S else ?S @ [start])"
    by (simp add: starts_of_def remdups_adj_snoc start_def)
  have other: "in_bucket interval k (ts @ [t]) = in_bucket interval k ts" if "k \<noteq> start" for k
    using that by (simp add: in_bucket_def start_def)
  have same: "in_bucket interval start (ts @ [t]) = in_bucket interval start ts @ [t]" by (simp add: in_bucket_def start_def)
  show "reference_candles interval symbol (ts @ [t]) =
     (if ts \<noteq> [] \<and> c_timestamp (last ref) = start
      then butlast ref @ [add_to_candle (tk_price t) (tk_qty t) (last ref)]
      else ref @ [open_candle symbol start (tk_price t) (tk_qty t)])"
  proof (cases "ts \<noteq> [] \<and> last ?S = start")
    case True
    then have split: "?S = butlast ?S @ [start]" using S_Nil by (metis append_butlast_last_id)
    then have notin: "start \<notin> set (butlast ?S)" using S(1) by (metis distinct_append disjoint_iff list.set_intros(1))
    have "in_bucket interval start ts \<noteq> []"
      using True last_S by (auto simp: in_bucket_def filter_empty_conv)
    then have "candle_of symbol start (in_bucket interval start (ts @ [t])) = add_to_candle (tk_price t) (tk_qty t) (last ref)"
      using True last_ref by (simp add: same candle_of_snoc)
    moreover have "map (\<lambda>k. candle_of symbol k (in_bucket interval k (ts @ [t]))) (butlast ?S) = butlast ref"
      unfolding ref_def reference_candles_def map_butlast [symmetric]
      by (rule map_cong [OF refl]) (use notin other in metis)
    ultimately have "map (\<lambda>k. candle_of symbol k (in_bucket interval k (ts @ [t]))) (butlast ?S @ [start]) =
        butlast ref @ [add_to_candle (tk_price t) (tk_qty t) (last ref)]" by simp
    then show ?thesis using True stamp starts split by (simp add: reference_candles_def)
  next
    case False
    have "start \<notin> set ?S" using False S(2) later last_S by fastforce
    then have "in_bucket interval start ts = []"
      by (auto simp: in_bucket_def filter_empty_conv starts_of_def)
    moreover have "map (\<lambda>k. candle_of symbol k (in_bucket interval k (ts @ [t]))) ?S = ref"
      unfolding ref_def reference_candles_def
      by (rule map_cong [OF refl]) (use \<open>start \<notin> set ?S\<close> other in metis)
    ultimately have "reference_candles interval symbol (ts @ [t]) = ref @ [candle_of symbol start ([] @ [t])]"
      using starts False same unfolding reference_candles_def by (simp only: if_False map_append list.map)
    moreover have "\<not> (ts \<noteq> [] \<and> c_timestamp (last ref) = start)" using False stamp by metis
    ultimately show ?thesis by (simp only: if_False append_Nil candle_of_one)
  qed
qed

subsection \<open>The aggregator\<close>

definition run_trades :: "string \<Rightarrow> tick list \<Rightarrow> aggregator \<Rightarrow> aggregator" where
  "run_trades symbol ts s = fold (\<lambda>t. onTrade symbol (tk_price t) (tk_qty t) (tk_time t)) ts s"

definition stored_candles :: "int \<Rightarrow> db_task list \<Rightarrow> candle list" where
  "stored_candles interval tasks =
     concat (map (\<lambda>x. case x of AddCandle i c \<Rightarrow> if i = interval then [c] else [] | _ \<Rightarrow> []) tasks)"

lemma stored_candles_simps [simp]:
  "stored_candles i [] = []" "stored_candles i (xs @ ys) = stored_candles i xs @ stored_candles i ys"
  "stored_candles i [AddCandle j c] = (if j = i then [c] else [])"
  by (simp_all add: stored_candles_def)

lemma onTrade_interval:
  assumes "interval = 1 \<or> interval = 5"
    and "updateAggregate interval symbol p q t (mAggregates s symbol interval) = (c, final)"
  shows "mAggregates (onTrade symbol p q t s) symbol interval = Some c"
    and "stored_candles interval (a_tasks (onTrade symbol p q t s)) =
      stored_candles interval (a_tasks s) @ (case final of None \<Rightarrow> [] | Some o1 \<Rightarrow> [o1])"
  using assms by (auto simp: onTrade_def on_interval_def Let_def split: prod.splits option.splits)

text \<open>
  C20: the aggregator against the reference. After any sequence of trades of a symbol in the order
  of their (non-negative) times, from an empty aggregator, and for both intervals: the candles
  it has queued for the database are those of all buckets but the last, in order and each once, and the
  candle it holds is that of the last bucket. A bucket's candle has the price of
  its first trade as the open, of its last as the close, the maximum and the minimum over
  all of them, and the sum of their quantities (modulo 2^64).
\<close>

theorem candles_match_the_reference:
  assumes "in_time ts" "interval = 1 \<or> interval = 5"
  shows "let s = run_trades symbol ts new_aggregator; ref = reference_candles interval symbol ts in
     mAggregates s symbol interval = (if ts = [] then None else Some (last ref)) \<and>
     stored_candles interval (a_tasks s) = butlast ref"
  using assms(1)
proof (induction ts rule: rev_induct)
  case Nil
  then show ?case by (simp add: run_trades_def new_aggregator_def reference_candles_def starts_of_def)
next
  case (snoc t ts)
  let ?s = "run_trades symbol ts new_aggregator" and ?ref = "reference_candles interval symbol ts"
  have "in_time ts" using snoc.prems by (simp add: in_time_def sorted_append)
  note IH = snoc.IH [OF this, unfolded Let_def]
  have interval: "0 < interval" using assms(2) by auto
  have nil: "?ref = [] \<longleftrightarrow> ts = []" by (simp add: reference_candles_def starts_of_def)
  have run: "run_trades symbol (ts @ [t]) new_aggregator = onTrade symbol (tk_price t) (tk_qty t) (tk_time t) ?s"
    by (simp add: run_trades_def)
  note ref = reference_snoc [OF snoc.prems interval, of symbol]
  note step = onTrade_interval [OF assms(2), of symbol "tk_price t" "tk_qty t" "tk_time t" ?s]
  show ?case
    unfolding run Let_def using IH ref nil step
    by (cases "ts = []"; cases "c_timestamp (last ?ref) = bucket_start interval (tk_time t)")
      (auto simp: Let_def updateAggregate_def append_butlast_last_id)
qed

theorem candles_match_the_reference_demo:
  "let ts = [\<lparr>tk_price = Fin 2, tk_qty = 5, tk_time = 10000000000\<rparr>, \<lparr>tk_price = Fin 3, tk_qty = 1, tk_time = 20000000000\<rparr>,
       \<lparr>tk_price = Fin 1, tk_qty = 4, tk_time = 70000000000\<rparr>];
     s = run_trades ''EURUSD'' ts new_aggregator
   in stored_candles 1 (a_tasks s) = [\<lparr>c_symbol = ''EURUSD'', c_timestamp = 0, c_open = Fin 2, c_high = Fin 3,
        c_low = Fin 2, c_close = Fin 3, c_volume = 6\<rparr>] \<and>
      mAggregates s ''EURUSD'' 1 = Some \<lparr>c_symbol = ''EURUSD'', c_timestamp = 60, c_open = Fin 1, c_high = Fin 1,
        c_low = Fin 1, c_close = Fin 1, c_volume = 4\<rparr>"
proof -
  let ?ts = "[\<lparr>tk_price = Fin 2, tk_qty = 5, tk_time = 10000000000\<rparr>, \<lparr>tk_price = Fin 3, tk_qty = 1, tk_time = 20000000000\<rparr>,
       \<lparr>tk_price = Fin 1, tk_qty = 4, tk_time = 70000000000\<rparr>] :: tick list"
  have "in_time ?ts" by (simp add: in_time_def)
  moreover have "reference_candles 1 ''EURUSD'' ?ts = [\<lparr>c_symbol = ''EURUSD'', c_timestamp = 0, c_open = Fin 2, c_high = Fin 3,
        c_low = Fin 2, c_close = Fin 3, c_volume = 6\<rparr>, \<lparr>c_symbol = ''EURUSD'', c_timestamp = 60, c_open = Fin 1, c_high = Fin 1,
        c_low = Fin 1, c_close = Fin 1, c_volume = 4\<rparr>]"
    by code_simp
  ultimately show ?thesis
    using candles_match_the_reference [of ?ts 1 "''EURUSD''"] by (simp add: Let_def)
qed

subsection \<open>What every candle satisfies\<close>

definition sane :: "candle \<Rightarrow> bool" where
  "sane c \<longleftrightarrow> dle (c_low c) (c_open c) \<and> dle (c_open c) (c_high c) \<and> dle (c_low c) (c_close c) \<and> dle (c_close c) (c_high c)"

definition sane_task :: "db_task \<Rightarrow> bool" where
  "sane_task task = (case task of AddCandle _ c \<Rightarrow> sane c | _ \<Rightarrow> True)"

definition all_sane :: "aggregator \<Rightarrow> bool" where
  "all_sane s \<longleftrightarrow> (\<forall>symbol i. pred_option sane (mAggregates s symbol i)) \<and>
     list_all sane_task (a_tasks s) \<and> list_all (\<lambda>(_, c). sane c) (a_calls s)"

lemma dmax_dmin:
  "dle a b \<Longrightarrow> dle a (dmax b p)" "b \<noteq> NaN \<Longrightarrow> p \<noteq> NaN \<Longrightarrow> dle p (dmax b p)"
  "dle b a \<Longrightarrow> dle (dmin b p) a" "b \<noteq> NaN \<Longrightarrow> p \<noteq> NaN \<Longrightarrow> dle (dmin b p) p"
  by (auto simp: dmax_def dmin_def not_dlt_iff intro: dle_trans dlt_imp_dle dle_refl)

lemma sane_open: "p \<noteq> NaN \<Longrightarrow> sane (open_candle symbol start p q)"
  by (simp add: sane_def open_candle_def dle_refl)

lemma sane_add:
  assumes "sane c" "p \<noteq> NaN"
  shows "sane (add_to_candle p q c)"
proof -
  have "c_high c \<noteq> NaN" "c_low c \<noteq> NaN" using assms(1) by (auto simp: sane_def)
  then show ?thesis using assms dmax_dmin by (simp add: sane_def add_to_candle_def)
qed

lemma sane_update:
  assumes "pred_option sane agg" "p \<noteq> NaN"
  shows "sane (fst (updateAggregate i symbol p q t agg))" "pred_option sane (snd (updateAggregate i symbol p q t agg))"
  using assms by (auto simp: updateAggregate_def Let_def sane_open sane_add split: option.split)

lemma sane_interval:
  assumes "all_sane s" "p \<noteq> NaN"
  shows "all_sane (on_interval i symbol p q t s)"
proof -
  have before: "pred_option sane (mAggregates s symbol i)"
    using assms(1) by (simp add: all_sane_def)
  obtain c final where u: "updateAggregate i symbol p q t (mAggregates s symbol i) = (c, final)"
    by (rule prod.exhaust)
  have new: "sane c" "pred_option sane final" using sane_update [OF before assms(2), of i symbol q t] u by simp_all
  have run: "on_interval i symbol p q t s =
      s\<lparr>mAggregates := (mAggregates s)(symbol := (mAggregates s symbol)(i := Some c)),
        a_tasks := a_tasks s @ (case final of None \<Rightarrow> [] | Some c' \<Rightarrow> [AddCandle i c']),
        a_calls := a_calls s @ [(i, c)]\<rparr>"
    by (simp add: on_interval_def u)
  have "list_all sane_task (case final of None \<Rightarrow> [] | Some c' \<Rightarrow> [AddCandle i c'])"
    using new(2) by (cases final) (simp_all add: sane_task_def)
  then show ?thesis using assms(1) new(1) unfolding run all_sane_def by simp
qed

text \<open>
  Every candle contains its prices. Whatever symbols and times a sequence of trades has, in
  any order, as long as no price is NaN: in every candle the aggregator holds, queues for the
  database or hands to the chart, the open and the close lie between the low and the high.
\<close>

theorem candles_are_sane:
  assumes "\<forall>(symbol, t)\<in>set ts. tk_price t \<noteq> NaN"
  shows "all_sane (fold (\<lambda>(symbol, t). onTrade symbol (tk_price t) (tk_qty t) (tk_time t)) ts new_aggregator)"
proof -
  have "all_sane s \<Longrightarrow> all_sane (fold (\<lambda>(symbol, t). onTrade symbol (tk_price t) (tk_qty t) (tk_time t)) ts s)" for s
    using assms by (induction ts arbitrary: s) (auto simp: onTrade_def sane_interval)
  then show ?thesis by (simp add: all_sane_def new_aggregator_def)
qed

theorem candles_are_sane_demo:
  "all_sane (fold (\<lambda>(symbol, t). onTrade symbol (tk_price t) (tk_qty t) (tk_time t))
     [(''EURUSD'', \<lparr>tk_price = Fin 2, tk_qty = 5, tk_time = 70000000000\<rparr>), (''EURUSD'', \<lparr>tk_price = PInf, tk_qty = 1, tk_time = - 5\<rparr>)]
     new_aggregator)"
  by (rule candles_are_sane) simp

end
