(* ===== verification/ChartProperties.thy ===== *)
theory ChartProperties
  imports CandleHistory CandleProperties
begin

text \<open>
  The candles the chart ends up with, from the seeds and the live trades.
\<close>

subsection \<open>The list of one interval\<close>

definition of_chart :: "int \<Rightarrow> string \<Rightarrow> (int \<times> candle) list \<Rightarrow> candle list" where
  "of_chart i selected calls = map snd (filter (\<lambda>(j, c). j = i \<and> c_symbol c = selected) calls)"

lemma of_chart_append [simp]: "of_chart i selected (xs @ ys) = of_chart i selected xs @ of_chart i selected ys"
  by (simp add: of_chart_def)

lemma chart_calls_at:
  "chart_calls selected calls chart i = fold onCandleUpdate (of_chart i selected calls) (chart i)"
proof (induction calls arbitrary: chart)
  case (Cons jc calls)
  have "chart_update selected jc chart i =
      (if fst jc = i \<and> c_symbol (snd jc) = selected then onCandleUpdate (snd jc) (chart i) else chart i)"
    by (simp add: chart_update_def split: prod.split)
  then show ?case using Cons by (simp add: chart_calls_def of_chart_def case_prod_unfold)
qed (simp add: chart_calls_def of_chart_def)

definition candles_ok :: "candle list \<Rightarrow> bool" where
  "candles_ok l \<longleftrightarrow> sorted_wrt (<) (map c_timestamp l) \<and> length l \<le> 500"

lemma butlast_snoc_cases: "l \<noteq> [] \<Longrightarrow> \<exists>xs x. l = xs @ [x]"
  by (metis append_butlast_last_id)

lemma onCandleUpdate_ok:
  assumes "candles_ok l" "l = [] \<or> c_timestamp (last l) \<le> c_timestamp c"
  shows "candles_ok (onCandleUpdate c l)" "onCandleUpdate c l \<noteq> []" "last (onCandleUpdate c l) = c"
    "set (onCandleUpdate c l) \<subseteq> insert c (set l)"
proof -
  have "candles_ok (onCandleUpdate c l) \<and> onCandleUpdate c l \<noteq> [] \<and> last (onCandleUpdate c l) = c \<and>
      set (onCandleUpdate c l) \<subseteq> insert c (set l)"
  proof (cases "l = []")
    case False
    then obtain xs x where l: "l = xs @ [x]" using butlast_snoc_cases by blast
    have sorted: "sorted_wrt (<) (map c_timestamp xs)" "\<forall>y\<in>set xs. c_timestamp y < c_timestamp x"
      and len: "length xs < 500" and le: "c_timestamp x \<le> c_timestamp c"
      using assms by (auto simp: candles_ok_def l sorted_wrt_append)
    then have new: "sorted_wrt (<) (map c_timestamp (xs @ [c]))" by (fastforce simp: sorted_wrt_append)
    show ?thesis
    proof (cases "c_timestamp x = c_timestamp c")
      case True
      then show ?thesis using new len by (auto simp: onCandleUpdate_def l candles_ok_def)
    next
      case False
      then have all: "sorted_wrt (<) (map c_timestamp (xs @ [x, c]))"
        using sorted le by (fastforce simp: sorted_wrt_append)
      then have "sorted_wrt (<) (map c_timestamp (tl (xs @ [x, c])))"
        by (cases xs) (auto simp: sorted_wrt_append)
      then show ?thesis using all len False
        by (cases xs) (auto simp: onCandleUpdate_def l candles_ok_def Let_def)
    qed
  qed (simp add: onCandleUpdate_def candles_ok_def)
  then show "candles_ok (onCandleUpdate c l)" "onCandleUpdate c l \<noteq> []" "last (onCandleUpdate c l) = c"
    "set (onCandleUpdate c l) \<subseteq> insert c (set l)" by simp_all
qed

lemma updates_ok:
  "sorted (map c_timestamp cs) \<Longrightarrow> candles_ok l \<Longrightarrow>
   l = [] \<or> cs = [] \<or> c_timestamp (last l) \<le> c_timestamp (hd cs) \<Longrightarrow>
   candles_ok (fold onCandleUpdate cs l) \<and> set (fold onCandleUpdate cs l) \<subseteq> set cs \<union> set l"
proof (induction cs arbitrary: l)
  case (Cons c cs)
  have step: "l = [] \<or> c_timestamp (last l) \<le> c_timestamp c" using Cons.prems(3) by simp
  note new = onCandleUpdate_ok [OF Cons.prems(2) step]
  have "cs = [] \<or> c_timestamp c \<le> c_timestamp (hd cs)" using Cons.prems(1) by (cases cs) auto
  then have "candles_ok (fold onCandleUpdate cs (onCandleUpdate c l)) \<and>
      set (fold onCandleUpdate cs (onCandleUpdate c l)) \<subseteq> set cs \<union> set (onCandleUpdate c l)"
    using Cons.prems(1) new by (intro Cons.IH) auto
  then show ?case using new(4) by auto
qed simp

lemma push_all:
  "sorted_wrt (<) (map c_timestamp cs) \<Longrightarrow> l = [] \<or> cs = [] \<or> c_timestamp (last l) \<noteq> c_timestamp (hd cs) \<Longrightarrow>
   length l + length cs \<le> 500 \<Longrightarrow> fold onCandleUpdate cs l = l @ cs"
proof (induction cs arbitrary: l)
  case (Cons c cs)
  have "onCandleUpdate c l = l @ [c]" using Cons.prems by (auto simp: onCandleUpdate_def)
  moreover have "cs = [] \<or> c_timestamp c \<noteq> c_timestamp (hd cs)" using Cons.prems(1) by (cases cs) auto
  then have "fold onCandleUpdate cs (l @ [c]) = (l @ [c]) @ cs" using Cons.prems by (intro Cons.IH) auto
  ultimately show ?case by simp
qed simp

subsection \<open>The seeds\<close>

lemma seed_loop_times:
  "map c_timestamp (seed_loop D v symbol start stepSeconds index n price) =
     map (\<lambda>k. start + int k * stepSeconds) [index..<index + n]"
  by (induction n arbitrary: index price)
    (simp_all add: Let_def seed_candle_def upt_conv_Cons del: upt_Suc)

lemma seed_loop_symbols: "c \<in> set (seed_loop D v symbol start stepSeconds index n price) \<Longrightarrow> c_symbol c = symbol"
  by (induction n arbitrary: index price) (auto simp: Let_def seed_candle_def)

lemma seed_loop_length: "length (seed_loop D v symbol start stepSeconds index n price) = n"
  by (induction n arbitrary: index price) (simp_all add: Let_def)

lemma seed_loop_hd: "0 < n \<Longrightarrow> c_timestamp (hd (seed_loop D v symbol start stepSeconds 0 n price)) = start"
  by (cases n) (simp_all add: Let_def seed_candle_def)

lemma seed_loop_sorted:
  "0 < stepSeconds \<Longrightarrow> sorted_wrt (<) (map c_timestamp (seed_loop D v symbol start stepSeconds index n price))"
  by (simp add: seed_loop_times sorted_wrt_map sorted_wrt_iff_nth_less)

text \<open>Every seed lies before the bucket of \<open>nowNs\<close>.\<close>

lemma seed_before:
  assumes "c \<in> set (seed_loop D v symbol (seed_first i n nowNs) (i * 60) 0 n price)" "0 < i"
  shows "c_timestamp c < bucket_start i nowNs"
proof -
  have "c_timestamp c \<in> set (map c_timestamp (seed_loop D v symbol (seed_first i n nowNs) (i * 60) 0 n price))"
    using assms(1) by simp
  then obtain k where "k < n" "c_timestamp c = seed_first i n nowNs + int k * (i * 60)"
    unfolding seed_loop_times by auto
  moreover have "int k * (i * 60) < int n * (i * 60)" using calculation(1) assms(2) by simp
  ultimately show ?thesis by (simp add: seed_first_def bucket_start_def Let_def)
qed

lemma of_chart_seeds:
  assumes "\<forall>c\<in>set cs. c_symbol c = symbol"
  shows "of_chart i selected (map (Pair j) cs) = (if j = i \<and> symbol = selected then cs else [])"
  using assms by (induction cs) (auto simp: of_chart_def)

subsection \<open>The live candles\<close>

text \<open>No candle of the aggregator starts behind \<open>t\<close>.\<close>

definition agg_behind :: "int \<Rightarrow> aggregator \<Rightarrow> bool" where
  "agg_behind t s \<longleftrightarrow> (\<forall>i\<in>{1, 5}. \<forall>symbol.
     pred_option (\<lambda>c. c_timestamp c \<le> bucket_start i t \<and> c_symbol c = symbol) (mAggregates s symbol i))"

lemma agg_behind_mono:
  assumes "agg_behind t s" "0 \<le> t" "t \<le> u"
  shows "agg_behind u s"
  unfolding agg_behind_def
proof (intro ballI allI)
  fix i symbol assume i: "i \<in> {1, 5 :: int}"
  then have "bucket_start i t \<le> bucket_start i u" using assms(2,3) by (intro bucket_start_mono) auto
  moreover have "pred_option (\<lambda>c. c_timestamp c \<le> bucket_start i t \<and> c_symbol c = symbol) (mAggregates s symbol i)"
    using assms(1) i unfolding agg_behind_def by blast
  ultimately show "pred_option (\<lambda>c. c_timestamp c \<le> bucket_start i u \<and> c_symbol c = symbol) (mAggregates s symbol i)"
    by (auto elim: option.pred_mono_strong)
qed

lemma update_live:
  assumes "pred_option (\<lambda>c. c_timestamp c \<le> bucket_start i t \<and> c_symbol c = symbol) agg"
  obtains c final where "updateAggregate i symbol p q t agg = (c, final)" "c_timestamp c = bucket_start i t" "c_symbol c = symbol"
proof (rule that [of "fst (updateAggregate i symbol p q t agg)" "snd (updateAggregate i symbol p q t agg)"])
qed (use assms in \<open>auto simp: updateAggregate_def Let_def open_candle_def add_to_candle_def split: option.split\<close>)

lemma interval_live:
  assumes "agg_behind t s" "i \<in> {1, 5}"
  obtains c where "a_calls (on_interval i symbol p q t s) = a_calls s @ [(i, c)]" "c_timestamp c = bucket_start i t"
    "c_symbol c = symbol" "agg_behind t (on_interval i symbol p q t s)"
proof -
  obtain c final where c: "updateAggregate i symbol p q t (mAggregates s symbol i) = (c, final)"
    "c_timestamp c = bucket_start i t" "c_symbol c = symbol"
    by (rule update_live [of i t symbol "mAggregates s symbol i" p q]) (use assms in \<open>auto simp: agg_behind_def\<close>)
  have "agg_behind t (on_interval i symbol p q t s)"
    using assms(1) c by (auto simp: agg_behind_def on_interval_def)
  then show ?thesis using that [of c] c by (simp add: on_interval_def)
qed

definition run_ticks :: "(string \<times> tick) list \<Rightarrow> aggregator \<Rightarrow> aggregator" where
  "run_ticks = fold (\<lambda>(symbol, t). onTrade symbol (tk_price t) (tk_qty t) (tk_time t))"

lemma trade_live:
  assumes "agg_behind (tk_time t) s"
  obtains c1 c5 where "a_calls (onTrade symbol (tk_price t) (tk_qty t) (tk_time t) s) = a_calls s @ [(1, c1), (5, c5)]"
    "c_timestamp c1 = bucket_start 1 (tk_time t)" "c_timestamp c5 = bucket_start 5 (tk_time t)"
    "agg_behind (tk_time t) (onTrade symbol (tk_price t) (tk_qty t) (tk_time t) s)"
proof -
  let ?s1 = "on_interval 1 symbol (tk_price t) (tk_qty t) (tk_time t) s"
  obtain c1 where c1: "a_calls ?s1 = a_calls s @ [(1, c1)]" "c_timestamp c1 = bucket_start 1 (tk_time t)"
    "agg_behind (tk_time t) ?s1"
    by (rule interval_live [OF assms, of 1 symbol "tk_price t" "tk_qty t"]) auto
  obtain c5 where "a_calls (on_interval 5 symbol (tk_price t) (tk_qty t) (tk_time t) ?s1) = a_calls ?s1 @ [(5, c5)]"
    "c_timestamp c5 = bucket_start 5 (tk_time t)"
    "agg_behind (tk_time t) (on_interval 5 symbol (tk_price t) (tk_qty t) (tk_time t) ?s1)"
    by (rule interval_live [OF c1(3), of 5 symbol "tk_price t" "tk_qty t"]) auto
  then show ?thesis using that c1 by (simp add: onTrade_def)
qed

lemma trades_live:
  "sorted (map (tk_time \<circ> snd) ts) \<Longrightarrow> \<forall>x\<in>set ts. now \<le> tk_time (snd x) \<Longrightarrow> 0 \<le> now \<Longrightarrow> agg_behind now s \<Longrightarrow>
   \<exists>live. a_calls (run_ticks ts s) = a_calls s @ live \<and>
     (\<forall>i\<in>{1, 5}. sorted (map c_timestamp (of_chart i selected live)) \<and>
        (\<forall>c\<in>set (of_chart i selected live). bucket_start i now \<le> c_timestamp c))"
proof (induction ts arbitrary: s now)
  case Nil
  then show ?case by (simp add: run_ticks_def of_chart_def)
next
  case (Cons x ts)
  obtain symbol t where x: "x = (symbol, t)" by (rule prod.exhaust)
  have now: "now \<le> tk_time t" "0 \<le> tk_time t" using Cons.prems(2,3) by (auto simp: x)
  let ?s1 = "onTrade symbol (tk_price t) (tk_qty t) (tk_time t) s"
  obtain c1 c5 where one: "a_calls ?s1 = a_calls s @ [(1, c1), (5, c5)]"
    "c_timestamp c1 = bucket_start 1 (tk_time t)" "c_timestamp c5 = bucket_start 5 (tk_time t)"
    "agg_behind (tk_time t) ?s1"
    using trade_live [OF agg_behind_mono [OF Cons.prems(4,3) now(1)]] .
  obtain live where live: "a_calls (run_ticks ts ?s1) = a_calls ?s1 @ live"
    "\<forall>i\<in>{1, 5}. sorted (map c_timestamp (of_chart i selected live)) \<and>
        (\<forall>c\<in>set (of_chart i selected live). bucket_start i (tk_time t) \<le> c_timestamp c)"
    using Cons.IH [OF _ _ now(2) one(4)] Cons.prems(1) by (auto simp: x)
  have "bucket_start 1 now \<le> bucket_start 1 (tk_time t)" "bucket_start 5 now \<le> bucket_start 5 (tk_time t)"
    using bucket_start_mono [OF Cons.prems(3) now(1)] by simp_all
  then have "\<forall>i\<in>{1, 5}. sorted (map c_timestamp (of_chart i selected ([(1, c1), (5, c5)] @ live))) \<and>
      (\<forall>c\<in>set (of_chart i selected ([(1, c1), (5, c5)] @ live)). bucket_start i now \<le> c_timestamp c)"
    using live(2) one(2,3) by (auto simp: of_chart_def)
  moreover have "a_calls (run_ticks (x # ts) s) = a_calls s @ ([(1, c1), (5, c5)] @ live)"
    using live(1) one(1) by (simp add: run_ticks_def x)
  ultimately show ?case by blast
qed

subsection \<open>The chart\<close>

lemma init_candles_calls:
  assumes "i \<in> {1, 5}"
  obtains cs where "of_chart i selected (a_calls (init_candles D1 D5 selected nowNs)) = cs"
    "sorted_wrt (<) (map c_timestamp cs)" "\<forall>c\<in>set cs. c_timestamp c < bucket_start i nowNs \<and> c_symbol c = selected"
    "length cs = (if i = 1 then 60 else 36)" "c_timestamp (hd cs) = bucket_start i nowNs - int (length cs) * (i * 60)"
    "agg_behind nowNs (init_candles D1 D5 selected nowNs)"
proof -
  let ?price = "case catch_exn (instrument_from_string selected) of
      None \<Rightarrow> rnd64 (11085 / 10000) | Some i \<Rightarrow> rnd64 (seed_price i)"
  let ?seeds = "\<lambda>D i n. seed_loop D (seed_volatility ?price) selected (seed_first i n nowNs) (i * 60) 0 n ?price"
  have "\<not> dle (rnd64 (11085 / 10000)) (Fin 0)" by code_simp
  moreover have "\<forall>x\<in>set instruments. \<not> dle (rnd64 (seed_price x)) (Fin 0)" by code_simp
  then have "\<not> dle (rnd64 (seed_price x)) (Fin 0)" for x by (cases x) (simp_all add: instruments_def)
  ultimately have pos: "\<not> dle ?price (Fin 0)" by (simp split: option.split)
  define s1 where "s1 = ?seeds D1 1 60"
  define s5 where "s5 = ?seeds D5 5 36"
  have agg: "init_candles D1 D5 selected nowNs = new_aggregator\<lparr>a_calls := map (Pair 1) s1 @ map (Pair 5) s5\<rparr>"
    using pos by (simp add: init_candles_def Let_def seedHistoricalData_def new_aggregator_def s1_def s5_def)
  let ?cs = "if i = 1 then s1 else s5"
  have symbols: "\<forall>c\<in>set s1. c_symbol c = selected" "\<forall>c\<in>set s5. c_symbol c = selected"
    unfolding s1_def s5_def using seed_loop_symbols by blast+
  have "\<forall>c\<in>set s1. c_timestamp c < bucket_start 1 nowNs" "\<forall>c\<in>set s5. c_timestamp c < bucket_start 5 nowNs"
    unfolding s1_def s5_def by (blast intro: seed_before zero_less_one zero_less_numeral)+
  then have "\<forall>c\<in>set ?cs. c_timestamp c < bucket_start i nowNs \<and> c_symbol c = selected"
    using assms symbols by auto
  moreover have "of_chart i selected (a_calls (init_candles D1 D5 selected nowNs)) = ?cs"
    using assms by (auto simp: agg of_chart_seeds [OF symbols(1)] of_chart_seeds [OF symbols(2)])
  moreover have "sorted_wrt (<) (map c_timestamp ?cs)" by (simp add: s1_def s5_def seed_loop_sorted)
  moreover have "length ?cs = (if i = 1 then 60 else 36)" by (simp add: s1_def s5_def seed_loop_length)
  moreover have "c_timestamp (hd ?cs) = bucket_start i nowNs - int (length ?cs) * (i * 60)"
    using assms by (auto simp: s1_def s5_def seed_loop_length seed_loop_hd seed_first_def bucket_start_def Let_def)
  moreover have "agg_behind nowNs (init_candles D1 D5 selected nowNs)"
    by (simp add: agg agg_behind_def new_aggregator_def)
  ultimately show ?thesis using that by blast
qed

text \<open>
  C37: the chart stays in time order. The client starts its logic for the selected symbol at a time
  \<open>now\<close>, with the made-up history of one-minute and five-minute candles, on an empty chart; then
  come trades of any symbols at times that do not go back. Then the candles the chart holds for
  either interval have strictly increasing times, are at most 500, and are all of the selected
  symbol.
\<close>

theorem chart_stays_in_order:
  assumes "0 \<le> now" and "sorted (map (tk_time \<circ> snd) ts)" and "\<forall>x\<in>set ts. now \<le> tk_time (snd x)" and "i \<in> {1, 5}"
  shows "let l = chart_calls selected (a_calls (run_ticks ts (init_candles D1 D5 selected now))) (\<lambda>_. []) i
    in sorted_wrt (<) (map c_timestamp l) \<and> length l \<le> 500 \<and> (\<forall>c\<in>set l. c_symbol c = selected)"
proof -
  let ?s = "init_candles D1 D5 selected now"
  obtain seeds where seeds: "of_chart i selected (a_calls ?s) = seeds" "sorted_wrt (<) (map c_timestamp seeds)"
    "\<forall>c\<in>set seeds. c_timestamp c < bucket_start i now \<and> c_symbol c = selected" "agg_behind now ?s"
    using init_candles_calls [OF assms(4), of selected D1 D5 now] by metis
  obtain live where live: "a_calls (run_ticks ts ?s) = a_calls ?s @ live" "sorted (map c_timestamp (of_chart i selected live))"
    "\<forall>c\<in>set (of_chart i selected live). bucket_start i now \<le> c_timestamp c"
    using trades_live [OF assms(2,3,1) seeds(4), of selected] assms(4) by blast
  let ?cs = "of_chart i selected (a_calls (run_ticks ts ?s))"
  have "sorted (map c_timestamp seeds)" using seeds(2) by (rule strict_sorted_imp_sorted)
  then have "sorted (map c_timestamp ?cs)"
    using live seeds(1,3) by (fastforce simp: sorted_append)
  then have "candles_ok (fold onCandleUpdate ?cs []) \<and> set (fold onCandleUpdate ?cs []) \<subseteq> set ?cs \<union> set []"
    by (rule updates_ok) (simp_all add: candles_ok_def)
  moreover have "\<forall>c\<in>set ?cs. c_symbol c = selected" by (auto simp: of_chart_def)
  ultimately show ?thesis by (auto simp: chart_calls_at candles_ok_def Let_def)
qed

definition demo_draws :: seed_draws where
  "demo_draws = \<lparr>sd_return = (\<lambda>_ _. Fin 0), sd_wick = (\<lambda>_. Fin (1 / 2)), sd_volume = (\<lambda>_. 100)\<rparr>"

theorem chart_stays_in_order_demo:
  "let l = chart_calls ''EURUSD'' (a_calls (run_ticks
        [(''EURUSD'', \<lparr>tk_price = Fin 2, tk_qty = 5, tk_time = 10000000000000\<rparr>),
         (''USDJPY'', \<lparr>tk_price = Fin 3, tk_qty = 1, tk_time = 20000000000000\<rparr>)]
        (init_candles demo_draws demo_draws ''EURUSD'' 9000000000000))) (\<lambda>_. []) 1
   in sorted_wrt (<) (map c_timestamp l) \<and> length l \<le> 500 \<and> (\<forall>c\<in>set l. c_symbol c = ''EURUSD'')"
  by (rule chart_stays_in_order) simp_all

text \<open>
  A restarted exchange breaks the order of the chart. The client seeds its chart again each
  time a local exchange comes up, and nothing clears the chart of a symbol that stays selected. If
  the last one-minute candle it shows starts later than an hour before the present minute, and it
  shows at most 440, the hour of made-up candles is appended behind the candles shown: the times
  of the chart go back.
\<close>

theorem restart_breaks_the_chart:
  assumes "chart 1 \<noteq> []" and "length (chart 1) \<le> 440" and "bucket_start 1 now - 3600 < c_timestamp (last (chart 1))"
  shows "let l = chart_calls selected (a_calls (init_candles D1 D5 selected now)) (snd (chart_select selected (selected, chart))) 1
    in length l = length (chart 1) + 60 \<and> \<not> sorted (map c_timestamp l)"
proof -
  obtain seeds where seeds: "of_chart 1 selected (a_calls (init_candles D1 D5 selected now)) = seeds"
    "sorted_wrt (<) (map c_timestamp seeds)" "length seeds = 60" "c_timestamp (hd seeds) = bucket_start 1 now - 3600"
    by (rule init_candles_calls [of 1 selected D1 D5 now]) auto
  let ?l = "chart 1 @ seeds"
  have "fold onCandleUpdate seeds (chart 1) = ?l" using assms seeds by (intro push_all) auto
  then have l: "chart_calls selected (a_calls (init_candles D1 D5 selected now)) (snd (chart_select selected (selected, chart))) 1 = ?l"
    by (simp add: chart_calls_at chart_select_def seeds(1))
  have "last (chart 1) \<in> set (chart 1)" "hd seeds \<in> set seeds" using assms(1) seeds(3) by (auto intro: hd_in_set)
  then have "\<not> sorted (map c_timestamp ?l)" using assms(3) seeds(4) by (force simp: sorted_append)
  then show ?thesis unfolding l using seeds(3) by simp
qed

theorem restart_breaks_the_chart_demo:
  "let l = chart_calls ''EURUSD'' (a_calls (init_candles demo_draws demo_draws ''EURUSD'' 9000000000000))
      (snd (chart_select ''EURUSD'' (''EURUSD'', \<lambda>_. [open_candle ''EURUSD'' 8940 (Fin 1) 5]))) 1
   in length l = length [open_candle ''EURUSD'' 8940 (Fin 1) 5] + 60 \<and> \<not> sorted (map c_timestamp l)"
  by (rule restart_breaks_the_chart) (simp_all add: open_candle_def bucket_start_def tdiv_def)

end
