(* ===== verification/Simulator.thy ===== *)
theory Simulator
  imports TradingCore CppRounding CandleAggregator
begin

text \<open>
  \<open>client_simulator/StochasticSimulator\<close>: bots that submit limit orders around a random walk
  straight to the trading core, and \<open>client_ui/SimulatorPanel\<close>, which starts and stops it. The
  draws of the random distributions and the readings of the clock are an argument, numbered in
  the order they are made. The loop over \<open>tradeProb\<close> is a partial function: \<open>None\<close> is a loop that
  does not end, or the undefined conversion of a quantity.
\<close>

subsection \<open>State\<close>

record sym_state =
  sy_currentPrice :: dbl
  sy_meanPrice :: dbl
  sy_volatility :: dbl
  sy_meanReversion :: dbl

record simulator =
  sm_running :: bool
  sm_numBots :: int
  sm_intensity :: dbl
  sm_target :: string
  sm_symbols :: "instrument \<Rightarrow> sym_state"
  sm_botOrderId :: u64
  sm_draws :: nat

record sim_env =
  se_normal :: "nat \<Rightarrow> dbl"
  se_uniform :: "nat \<Rightarrow> dbl"
  se_bot :: "nat \<Rightarrow> int \<Rightarrow> int"
  se_clock :: "nat \<Rightarrow> timestamp"

fun start_price :: "instrument \<Rightarrow> rat" where
  "start_price EURUSD = 110850 / 100000"
| "start_price USDJPY = 15420 / 100"
| "start_price GBPUSD = 12450 / 10000"
| "start_price USDCAD = 13720 / 10000"
| "start_price USDINR = 8330 / 100"
| "start_price EURINR = 9020 / 100"
| "start_price GBPINR = 10450 / 100"
| "start_price AUDUSD = 6450 / 10000"
| "start_price USDMXN = 1650 / 100"

definition new_simulator :: simulator where
  "new_simulator = \<lparr>sm_running = False, sm_numBots = 0, sm_intensity = Fin 1, sm_target = ''ALL'',
     sm_symbols = (\<lambda>i. \<lparr>sy_currentPrice = rnd64 (start_price i), sy_meanPrice = rnd64 (start_price i),
       sy_volatility = rnd64 (5 / 10000), sy_meanReversion = rnd64 (1 / 10)\<rparr>),
     sm_botOrderId = 0, sm_draws = 0\<rparr>"

text \<open>The thread that \<open>start\<close> creates numbers its orders from 0.\<close>

definition start_simulator :: "int \<Rightarrow> dbl \<Rightarrow> simulator \<Rightarrow> simulator" where
  "start_simulator numBots intensity s =
     (if sm_running s then s
      else s\<lparr>sm_numBots := numBots, sm_intensity := intensity, sm_running := True, sm_botOrderId := 0\<rparr>)"

definition stop_simulator :: "simulator \<Rightarrow> simulator" where
  "stop_simulator s = s\<lparr>sm_running := False\<rparr>"

subsection \<open>One tick\<close>

text \<open>The random walk of a price.\<close>

definition walk :: "dbl \<Rightarrow> dbl \<Rightarrow> sym_state \<Rightarrow> sym_state" where
  "walk draw dt y =
     (let dw = dmul draw (dsqrt dt);
          dx = dadd (dmul (dmul (sy_meanReversion y) (dsub (sy_meanPrice y) (sy_currentPrice y))) dt)
                 (dmul (sy_volatility y) dw)
      in y\<lparr>sy_currentPrice := dadd (sy_currentPrice y) dx\<rparr>)"

definition trade_prob :: "dbl \<Rightarrow> simulator \<Rightarrow> dbl" where
  "trade_prob dt s =
     dmul (dmul (sm_intensity s) dt) (ddiv (dbl_of_int (sm_numBots s)) (dbl_of_int (int instrument_COUNT)))"

text \<open>
  One order; its draws stand behind the one that decided to place it: the side, the offset from
  the price, the quantity, the bot, and two readings of the clock.
\<close>

definition bot_qty :: "dbl \<Rightarrow> u64 option" where
  "bot_qty draw = to_u64 (dadd (dmul (dabs draw) (Fin 10)) (Fin 1))"

definition bot_order :: "sim_env \<Rightarrow> instrument \<Rightarrow> simulator \<Rightarrow> u64 \<Rightarrow> u64 \<Rightarrow> order" where
  "bot_order E i s coreId qty =
     (let k = sm_draws s;
          isBuy = dgt (se_uniform E k) (Fin (1 / 2));
          offset = dadd (dmul (se_normal E (k + 1)) (rnd64 (1 / 10000)))
            (if isBuy then rnd64 (- 2 / 10000) else rnd64 (2 / 10000));
          price = dadd (sy_currentPrice (sm_symbols s i)) offset;
          botId = ''BOT_'' @ to_string_i (se_bot E (k + 3) (sm_numBots s))
      in mk_order (to_string_u (sm_botOrderId s)) coreId i ''SIMULATOR'' botId
           (if isBuy then Buy else Sell) Limit DAY qty price (se_clock E (k + 4)))"

definition place_bot_order ::
  "'q spsc \<Rightarrow> sim_env \<Rightarrow> instrument \<Rightarrow> simulator \<times> 'q core \<Rightarrow> (simulator \<times> 'q core) option" where
  "place_bot_order Q E i sc = (case sc of (s, c) \<Rightarrow> do {
     qty \<leftarrow> bot_qty (se_normal E (sm_draws s + 2));
     let (coreId, g) = nextId (mOrderIDGenerator c);
     c' \<leftarrow> submitCommand Q (NewOrder ''SIMULATOR'' (se_clock E (sm_draws s + 5)) (bot_order E i s coreId qty))
            (c\<lparr>mOrderIDGenerator := g\<rparr>);
     Some (s\<lparr>sm_botOrderId := sm_botOrderId s + 1, sm_draws := sm_draws s + 6\<rparr>, c')
   })"

text \<open>The loop \<open>while (tradeProb > 0)\<close>.\<close>

partial_function (option) bot_orders ::
  "'q spsc \<Rightarrow> sim_env \<Rightarrow> instrument \<Rightarrow> dbl \<Rightarrow> simulator \<times> 'q core \<Rightarrow> (simulator \<times> 'q core) option" where
  "bot_orders Q E i tradeProb sc =
     (if \<not> dgt tradeProb (Fin 0) then Some sc
      else do {
        sc1 \<leftarrow> (let (s, c) = sc; s1 = s\<lparr>sm_draws := sm_draws s + 1\<rparr>
               in if dlt (se_uniform E (sm_draws s)) (dmin (Fin 1) tradeProb)
                  then place_bot_order Q E i (s1, c) else Some (s1, c));
        bot_orders Q E i (dsub tradeProb (Fin 1)) sc1
      })"

definition sim_symbol ::
  "'q spsc \<Rightarrow> sim_env \<Rightarrow> dbl \<Rightarrow> instrument \<Rightarrow> simulator \<times> 'q core \<Rightarrow> (simulator \<times> 'q core) option" where
  "sim_symbol Q E dt i sc = (case sc of (s, c) \<Rightarrow>
     if sm_target s \<noteq> ''ALL'' \<and> instrument_to_string i \<noteq> sm_target s then Some (s, c)
     else let y = walk (se_normal E (sm_draws s)) dt (sm_symbols s i);
              s1 = s\<lparr>sm_symbols := (sm_symbols s)(i := y), sm_draws := sm_draws s + 1\<rparr>
          in bot_orders Q E i (trade_prob dt s1) (s1, c))"

fun sim_symbols ::
  "'q spsc \<Rightarrow> sim_env \<Rightarrow> dbl \<Rightarrow> instrument list \<Rightarrow> simulator \<times> 'q core \<Rightarrow> (simulator \<times> 'q core) option" where
  "sim_symbols Q E dt [] sc = Some sc"
| "sim_symbols Q E dt (i # is) sc = do { sc1 \<leftarrow> sim_symbol Q E dt i sc; sim_symbols Q E dt is sc1 }"

text \<open>One pass of \<open>run\<close>, \<open>dt\<close> seconds behind the last.\<close>

definition sim_tick ::
  "'q spsc \<Rightarrow> sim_env \<Rightarrow> dbl \<Rightarrow> simulator \<times> 'q core \<Rightarrow> (simulator \<times> 'q core) option" where
  "sim_tick Q E dt sc =
     (if \<not> sm_running (fst sc) \<or> dle dt (Fin 0) then Some sc else sim_symbols Q E dt instruments sc)"

subsection \<open>The panel\<close>

text \<open>The inputs of one frame; the numbers are what the widgets hold after it.\<close>

record sim_input =
  si_stop :: bool
  si_start :: bool
  si_bots :: int
  si_intensity :: dbl
  si_symbol :: nat

definition sim_panel :: "sim_input \<Rightarrow> simulator option \<Rightarrow> simulator option" where
  "sim_panel input = map_option (\<lambda>s.
     if sm_running s then (if si_stop input then stop_simulator s else s)
     else if si_start input
     then let s1 = s\<lparr>sm_numBots := si_bots input, sm_intensity := si_intensity input,
                sm_target := (if si_symbol input = 0 then ''ALL'' else symbol_names ! (si_symbol input - 1))\<rparr>
          in start_simulator (sm_numBots s1) (sm_intensity s1) s1
     else s)"

end
