(* ===== verification/SimulatorProperties.thy ===== *)
theory SimulatorProperties
  imports Simulator CoreProperties
begin

text \<open>
  The simulator as a client of the core: a tick ends, and what it does to the core is a run of
  order placements.
\<close>

subsection \<open>Runs of order placements\<close>

fun bot_step :: "core_step \<Rightarrow> bool" where
  "bot_step (Place client ts ord) \<longleftrightarrow>
     client = ''SIMULATOR'' \<and> mClientId ord = ''SIMULATOR'' \<and> take 4 (mSenderCompID ord) = ''BOT_'' \<and>
     mOrderType ord = Limit \<and> mTimeInForce ord = DAY \<and> 0 < mOriginalQuantity ord"
| "bot_step _ \<longleftrightarrow> False"

definition plain_draws :: "sim_env \<Rightarrow> bool" where
  "plain_draws E \<longleftrightarrow> (\<forall>k. \<exists>q. se_normal E k = Fin q \<and> \<bar>q\<bar> \<le> 1000)"

definition all_partitions :: "'q core \<Rightarrow> bool" where
  "all_partitions c \<longleftrightarrow> (\<forall>i. mPartitions c i \<noteq> None)"

definition same_settings :: "simulator \<Rightarrow> simulator \<Rightarrow> bool" where
  "same_settings s s' \<longleftrightarrow> sm_numBots s' = sm_numBots s \<and> sm_intensity s' = sm_intensity s \<and>
     sm_target s' = sm_target s \<and> sm_running s' = sm_running s"

definition bot_run ::
  "'q spsc \<Rightarrow> env \<Rightarrow> core_step list \<Rightarrow> simulator \<times> 'q core \<Rightarrow> simulator \<times> 'q core \<Rightarrow> bool" where
  "bot_run Q e steps sc sc' = (case (sc, sc') of ((s, c), (s', c')) \<Rightarrow>
     core_run Q e steps c = Some c' \<and> list_all bot_step steps \<and>
     sm_botOrderId s' = sm_botOrderId s + of_nat (length steps) \<and>
     mOrderIDGenerator c' = mOrderIDGenerator c + of_nat (length steps) \<and>
     same_settings s s' \<and> all_partitions c')"

lemma core_run_append:
  "core_run Q e (xs @ ys) c = Option.bind (core_run Q e xs c) (core_run Q e ys)"
proof (induction xs arbitrary: c)
  case (Cons x xs)
  then show ?case by (cases "step_core Q e x c") simp_all
qed simp

lemma bot_run_trans:
  "bot_run Q e xs sc sc1 \<Longrightarrow> bot_run Q e ys sc1 sc2 \<Longrightarrow> bot_run Q e (xs @ ys) sc sc2"
  by (auto simp: bot_run_def core_run_append same_settings_def split: prod.splits)

lemma bot_run_Nil: "all_partitions c \<Longrightarrow> same_settings s s' \<Longrightarrow> sm_botOrderId s' = sm_botOrderId s \<Longrightarrow>
    bot_run Q e [] (s, c) (s', c)"
  by (simp add: bot_run_def)

lemma bot_run_refl: "all_partitions (snd sc) \<Longrightarrow> bot_run Q e [] sc sc"
  by (cases sc) (simp add: bot_run_Nil same_settings_def)

subsection \<open>One order\<close>

lemma bot_qty_positive:
  assumes "\<bar>q\<bar> \<le> 1000"
  obtains n where "bot_qty (Fin q) = Some n" "0 < n"
proof -
  obtain v where v: "rnd64 (\<bar>q\<bar> * 10) = Fin v" "0 \<le> v" "v \<le> 10000"
    by (rule rnd64_between [of 0 "\<bar>q\<bar> * 10" 10000]) (use assms in auto)
  obtain w where w: "rnd64 (v + 1) = Fin w" "1 \<le> w" "w \<le> 10001"
    by (rule rnd64_between [of 1 "v + 1" 10001]) (use v in auto)
  have "1 \<le> \<lfloor>w\<rfloor>" "\<lfloor>w\<rfloor> \<le> 10001" using w by linarith+
  then have "0 < (word_of_int \<lfloor>w\<rfloor> :: u64)"
    by (auto simp: word_pos_iff word_of_int_eq_0_iff dest: zdvd_imp_le)
  then show ?thesis using that [of "word_of_int \<lfloor>w\<rfloor>"] v w by (simp add: bot_qty_def)
qed

lemma bot_order_simps:
  "mSymbol (bot_order E i s k n) = i" "mClientId (bot_order E i s k n) = ''SIMULATOR''"
  "take 4 (mSenderCompID (bot_order E i s k n)) = ''BOT_''" "mOrderType (bot_order E i s k n) = Limit"
  "mTimeInForce (bot_order E i s k n) = DAY" "mOriginalQuantity (bot_order E i s k n) = n"
  "bot_order E i s 0 n\<lparr>mCoreOrderId := k\<rparr> = bot_order E i s k n"
  by (simp_all add: bot_order_def mk_order_def Let_def)

lemma place_runs:
  assumes "plain_draws E" "all_partitions c"
  obtains step s' c' where "place_bot_order Q E i (s, c) = Some (s', c')" "bot_run Q e [step] (s, c) (s', c')"
proof -
  obtain q where q: "se_normal E (sm_draws s + 2) = Fin q" "\<bar>q\<bar> \<le> 1000"
    using assms(1) unfolding plain_draws_def by blast
  obtain n where n: "bot_qty (Fin q) = Some n" "0 < n" using bot_qty_positive [OF q(2)] .
  obtain p where p: "mPartitions c i = Some p" using assms(2) unfolding all_partitions_def by blast
  let ?step = "Place ''SIMULATOR'' (se_clock E (sm_draws s + 5)) (bot_order E i s 0 n)"
  let ?s = "s\<lparr>sm_botOrderId := sm_botOrderId s + 1, sm_draws := sm_draws s + 6\<rparr>"
  obtain c' where c': "step_core Q e ?step c = Some c'" and g: "mOrderIDGenerator c' = mOrderIDGenerator c + 1"
    and parts: "all_partitions c'"
    using p assms(2)
    by (simp add: nextId_def enqueue_at_def bot_order_simps set_partition_def all_partitions_def Let_def)
  have "place_bot_order Q E i (s, c) = Some (?s, c')"
    using c' unfolding place_bot_order_def prod.case q(1) n(1)
    by (simp add: nextId_def Let_def bot_order_simps)
  moreover have "bot_run Q e [?step] (s, c) (?s, c')"
    using c' g parts n(2) by (simp add: bot_run_def same_settings_def bot_order_simps)
  ultimately show ?thesis by (rule that)
qed

subsection \<open>The loop\<close>

text \<open>Every round takes one from an upper bound of the probability.\<close>

lemma bot_orders_run:
  assumes "plain_draws E"
  shows "at_most p n \<Longrightarrow> n < 2 ^ 53 \<Longrightarrow> all_partitions (snd sc) \<Longrightarrow>
     \<exists>steps sc'. bot_orders Q E i p sc = Some sc' \<and> bot_run Q e steps sc sc' \<and> length steps \<le> n"
proof (induction n arbitrary: p sc)
  case 0
  then have "\<not> dgt p (Fin 0)" by (simp add: at_most_def dgt_def)
  then have "bot_orders Q E i p sc = Some sc" by (simp add: bot_orders.simps)
  then show ?case using 0 bot_run_refl by fastforce
next
  case (Suc n)
  show ?case
  proof (cases "dgt p (Fin 0)")
    case False
    then have "bot_orders Q E i p sc = Some sc" by (simp add: bot_orders.simps)
    then show ?thesis using Suc.prems bot_run_refl by fastforce
  next
    case True
    obtain s c where sc: "sc = (s, c)" by (rule prod.exhaust)
    let ?s = "s\<lparr>sm_draws := sm_draws s + 1\<rparr>"
    have parts: "all_partitions c" using Suc.prems(3) by (simp add: sc)
    have tick: "bot_run Q e [] (s, c) (?s, c)"
      using parts by (intro bot_run_Nil) (simp_all add: same_settings_def)
    obtain steps sc1 where one: "(if dlt (se_uniform E (sm_draws s)) (dmin (Fin 1) p)
        then place_bot_order Q E i (?s, c) else Some (?s, c)) = Some sc1"
      "bot_run Q e steps sc sc1" "length steps \<le> 1"
    proof (cases "dlt (se_uniform E (sm_draws s)) (dmin (Fin 1) p)")
      case True
      obtain step s' c' where st: "place_bot_order Q E i (?s, c) = Some (s', c')"
        "bot_run Q e [step] (?s, c) (s', c')"
        by (rule place_runs [OF assms parts, of Q i ?s e])
      show ?thesis using True st bot_run_trans [OF tick st(2)] that [of "(s', c')" "[step]"] by (simp add: sc)
    next
      case False
      then show ?thesis using tick that [of "(?s, c)" "[]"] by (simp add: sc)
    qed
    have "at_most (dsub p (Fin 1)) n" using Suc.prems by (intro at_most_dsub) simp_all
    moreover have "all_partitions (snd sc1)" using one(2) by (auto simp: bot_run_def sc split: prod.splits)
    ultimately obtain steps2 sc2 where rest: "bot_orders Q E i (dsub p (Fin 1)) sc1 = Some sc2"
      "bot_run Q e steps2 sc1 sc2" "length steps2 \<le> n"
      using Suc.IH [of "dsub p (Fin 1)" sc1] Suc.prems(2) by auto
    have "bot_orders Q E i p sc = Option.bind
        (if dlt (se_uniform E (sm_draws s)) (dmin (Fin 1) p)
         then place_bot_order Q E i (?s, c) else Some (?s, c)) (bot_orders Q E i (dsub p (Fin 1)))"
      using True by (subst bot_orders.simps) (simp add: sc Let_def)
    then have "bot_orders Q E i p sc = Some sc2" unfolding one(1) using rest(1) by simp
    moreover have "bot_run Q e (steps @ steps2) sc sc2" using bot_run_trans [OF one(2) rest(2)] .
    moreover have "length (steps @ steps2) \<le> Suc n" using one(3) rest(3) by simp
    ultimately show ?thesis by blast
  qed
qed

subsection \<open>The tick\<close>

lemma same_trade_prob: "same_settings s s' \<Longrightarrow> trade_prob dt s' = trade_prob dt s"
  by (simp add: same_settings_def trade_prob_def)

lemma sim_symbol_run:
  assumes "plain_draws E" "at_most (trade_prob dt (fst sc)) n" "n < 2 ^ 53" "all_partitions (snd sc)"
  shows "\<exists>steps sc'. sim_symbol Q E dt i sc = Some sc' \<and> bot_run Q e steps sc sc' \<and> length steps \<le> n"
proof (cases "sm_target (fst sc) \<noteq> ''ALL'' \<and> instrument_to_string i \<noteq> sm_target (fst sc)")
  case True
  then have "sim_symbol Q E dt i sc = Some sc" by (cases sc) (simp add: sim_symbol_def)
  then show ?thesis using assms(4) bot_run_refl by fastforce
next
  case False
  obtain s c where sc: "sc = (s, c)" by (rule prod.exhaust)
  let ?s = "s\<lparr>sm_symbols := (sm_symbols s)(i := walk (se_normal E (sm_draws s)) dt (sm_symbols s i)),
              sm_draws := sm_draws s + 1\<rparr>"
  have eq: "sim_symbol Q E dt i sc = bot_orders Q E i (trade_prob dt ?s) (?s, c)"
    using False by (auto simp: sim_symbol_def sc Let_def)
  have settings: "same_settings s ?s" by (simp add: same_settings_def)
  have walked: "bot_run Q e [] sc (?s, c)"
    unfolding sc using assms(4) by (intro bot_run_Nil settings) (simp_all add: sc)
  obtain steps sc' where "bot_orders Q E i (trade_prob dt ?s) (?s, c) = Some sc'"
    "bot_run Q e steps (?s, c) sc'" "length steps \<le> n"
    using bot_orders_run [OF assms(1), of "trade_prob dt ?s" n "(?s, c)" Q i e] assms(2-4)
      same_trade_prob [OF settings, of dt] by (auto simp: sc)
  then show ?thesis using bot_run_trans [OF walked] eq by fastforce
qed

lemma sim_symbols_run:
  assumes "plain_draws E" "n < 2 ^ 53"
  shows "at_most (trade_prob dt (fst sc)) n \<Longrightarrow> all_partitions (snd sc) \<Longrightarrow>
     \<exists>steps sc'. sim_symbols Q E dt is sc = Some sc' \<and> bot_run Q e steps sc sc' \<and> length steps \<le> length is * n"
proof (induction "is" arbitrary: sc)
  case Nil
  then show ?case using bot_run_refl by fastforce
next
  case (Cons i "is")
  obtain steps sc1 where one: "sim_symbol Q E dt i sc = Some sc1" "bot_run Q e steps sc sc1" "length steps \<le> n"
    using sim_symbol_run [OF assms(1) Cons.prems(1) assms(2) Cons.prems(2)] by blast
  have "same_settings (fst sc) (fst sc1)" "all_partitions (snd sc1)"
    using one(2) by (auto simp: bot_run_def split: prod.splits)
  then obtain steps2 sc2 where two: "sim_symbols Q E dt is sc1 = Some sc2" "bot_run Q e steps2 sc1 sc2"
    "length steps2 \<le> length is * n"
    using Cons.IH [of sc1] Cons.prems(1) same_trade_prob by fastforce
  then show ?case
    using one bot_run_trans [OF one(2) two(2)] by (intro exI [of _ "steps @ steps2"] exI [of _ sc2]) simp
qed

text \<open>
  C19: the simulator ends each tick, and only places orders. Let the probability of a trade in this
  tick not exceed \<open>n\<close>, for an \<open>n\<close> below \<open>2 ^ 53\<close>, every instrument have its partition, and the
  normal draws be finite and at most 1000 in size. Then the tick returns, with the loop over the
  probability run to its end for every instrument; what it did to the trading core is a run of at
  most \<open>9 * n\<close> order placements, each a day limit order of a bot for the client \<open>SIMULATOR\<close> with a
  positive quantity, under order ids the core's generator gave out; and the settings of the
  simulator stay what they were.
\<close>

theorem simulator_tick_ends:
  assumes "plain_draws E" and "all_partitions c" and "at_most (trade_prob dt s) n" and "n < 2 ^ 53"
  shows "\<exists>steps s' c'. sim_tick Q E dt (s, c) = Some (s', c') \<and> core_run Q e steps c = Some c' \<and>
     list_all bot_step steps \<and> length steps \<le> 9 * n \<and>
     sm_botOrderId s' = sm_botOrderId s + of_nat (length steps) \<and>
     mOrderIDGenerator c' = mOrderIDGenerator c + of_nat (length steps) \<and> same_settings s s'"
proof -
  have nine: "length instruments = 9" by (simp add: instruments_def)
  have "\<exists>steps sc'. sim_tick Q E dt (s, c) = Some sc' \<and> bot_run Q e steps (s, c) sc' \<and> length steps \<le> 9 * n"
  proof (cases "\<not> sm_running s \<or> dle dt (Fin 0)")
    case True
    then show ?thesis using assms(2) bot_run_refl [of "(s, c)"] by (fastforce simp: sim_tick_def)
  next
    case False
    then show ?thesis
      using sim_symbols_run [OF assms(1,4), of dt "(s, c)" Q instruments e] assms(2,3) by (simp add: sim_tick_def nine)
  qed
  then show ?thesis by (fastforce simp: bot_run_def)
qed

definition demo_sim_env :: sim_env where
  "demo_sim_env = \<lparr>se_normal = (\<lambda>_. Fin 0), se_uniform = (\<lambda>_. Fin 0), se_bot = (\<lambda>_ _. 1), se_clock = (\<lambda>_. 0)\<rparr>"

theorem simulator_tick_ends_demo:
  "\<exists>steps s' c'. sim_tick list_queue demo_sim_env (Fin (1 / 64))
       (start_simulator 9 (Fin 1) new_simulator, demo_core) = Some (s', c') \<and>
     core_run list_queue demo_env steps demo_core = Some c' \<and> list_all bot_step steps \<and> length steps \<le> 9 * 1 \<and>
     sm_botOrderId s' = sm_botOrderId (start_simulator 9 (Fin 1) new_simulator) + of_nat (length steps) \<and>
     mOrderIDGenerator c' = mOrderIDGenerator demo_core + of_nat (length steps) \<and>
     same_settings (start_simulator 9 (Fin 1) new_simulator) s'"
proof (rule simulator_tick_ends)
  show "plain_draws demo_sim_env" by (simp add: plain_draws_def demo_sim_env_def)
  show "all_partitions demo_core" by (simp add: all_partitions_def demo_core_def)
  have "rnd64 9 = Fin 9" "rnd64 1 = Fin 1" "rnd64 (1 / 64) = Fin (1 / 64)" by code_simp+
  then show "at_most (trade_prob (Fin (1 / 64)) (start_simulator 9 (Fin 1) new_simulator)) 1"
    by (simp add: trade_prob_def start_simulator_def new_simulator_def dbl_of_int_def instrument_COUNT_def
        instruments_def)
qed simp

subsection \<open>The settings of the panel\<close>

text \<open>
  The intensity slider ends at 10; a pass of the loop less than twelve days behind the last ends
  with any number of bots.
\<close>

lemma panel_probability:
  assumes "sm_intensity s = Fin v" "0 \<le> v" "v \<le> 10" "dt = Fin t" "0 \<le> t" "t \<le> 2 ^ 20" "sm_numBots s < 2 ^ 31"
  shows "at_most (trade_prob dt s) (10 * 2 ^ 20 * 238609295)"
proof -
  obtain x where x: "rnd64 (v * t) = Fin x" "0 \<le> x" "x \<le> of_nat (10 * 2 ^ 20)"
    by (rule rnd64_between [of 0 "v * t" "10 * 2 ^ 20"])
      (use assms mult_mono [of v 10 t "2 ^ 20"] in auto)
  have nine: "dbl_of_int (int instrument_COUNT) = Fin 9"
    by (simp add: dbl_of_int_def instrument_COUNT_def instruments_def) code_simp
  have "at_most (dbl_of_int (sm_numBots s)) (2 ^ 31)"
    unfolding dbl_of_int_def using assms(7) by (intro at_most_rnd64) (simp_all add: of_int_less_iff [symmetric] del: of_int_less_iff)
  then have "at_most (ddiv (dbl_of_int (sm_numBots s)) (Fin 9)) 238609295"
    by (cases "dbl_of_int (sm_numBots s)") (auto intro!: at_most_rnd64)
  then show ?thesis
    using at_most_dmul [OF x(2,3), of _ 238609295] x(1) assms by (simp add: trade_prob_def nine)
qed

end
