(* ===== verification/ConnectionPanel.thy ===== *)
theory ConnectionPanel
  imports ClientApp
begin

text \<open>
  \<open>client_ui/ConnectionPanel\<close>: what one frame of the panel does to the session and to the market
  data state. ImGui is not part of the repository: what its widgets report in a frame is an
  argument, and a button between \<open>BeginDisabled\<close> and \<open>EndDisabled\<close> reports no press. The state of
  the session is read without a change by the network thread in between.
\<close>

subsection \<open>The log\<close>

fun state_name :: "client_state \<Rightarrow> string" where
  "state_name Disconnected = ''DISCONNECTED''"
| "state_name Connecting = ''CONNECTING''"
| "state_name Connected = ''CONNECTED''"
| "state_name LogonSent = ''LOGON SENT''"
| "state_name Active = ''ACTIVE''"
| "state_name LoggingOut = ''LOGGING OUT''"

definition recordState :: "string \<Rightarrow> client_state \<Rightarrow> event_log \<Rightarrow> event_log" where
  "recordState time state = append_event time SessionEvent (''Connection state: '' @ state_name state)"

text \<open>The callbacks of \<open>configureSession\<close>, for what the session reports.\<close>

fun panel_event :: "string \<Rightarrow> client_out \<Rightarrow> event_log \<Rightarrow> event_log" where
  "panel_event time (EventOut type message) l = append_event time type message l"
| "panel_event time (StateChanged state) l = recordState time state l"
| "panel_event time _ l = l"

subsection \<open>The inputs of a frame\<close>

text \<open>
  The buttons pressed, the new entry of the symbol list, the settings; and the file of sequence
  numbers a new session finds.
\<close>

record panel_input =
  pi_connect :: bool
  pi_logon :: bool
  pi_logout :: bool
  pi_disconnect :: bool
  pi_symbol :: "nat option"
  pi_subscribe :: bool
  pi_unsubscribe :: bool
  pi_sender :: string
  pi_target :: string
  pi_heartbeat :: int
  pi_reset :: bool
  pi_file :: "string option"
  pi_writable :: bool

definition session_state :: "client_session option \<Rightarrow> client_state" where
  "session_state session = (case session of None \<Rightarrow> Disconnected | Some s \<Rightarrow> cState s)"

subsection \<open>The buttons of the session\<close>

definition panel_session ::
  "client_env \<Rightarrow> panel_input \<Rightarrow> client_session option \<Rightarrow> client_session option" where
  "panel_session E input session =
     (let isDisconnected = (session_state session = Disconnected);
          isConnected = (session_state session = Connected);
          isActive = (session_state session = Active);
          s1 = (if isDisconnected \<and> pi_connect input
            then Some (client_connect (init_client (pi_sender input) (pi_target input) (pi_file input) (pi_writable input)))
            else session);
          s2 = (if (isConnected \<or> isActive) \<and> pi_logon input
            then map_option (sendLogon E (pi_heartbeat input) (pi_reset input)) s1 else s1);
          s3 = (if isActive \<and> pi_logout input then map_option (sendLogout E ''User requested logout'') s2 else s2)
      in if \<not> isDisconnected \<and> pi_disconnect input then map_option disconnect s3 else s3)"

subsection \<open>The market data controls\<close>

definition panel_status :: "client_state \<Rightarrow> market_data_state \<Rightarrow> market_data_state" where
  "panel_status sessionState m =
     (if sessionState = Disconnected \<or> sessionState = Connecting then markDisconnected m else markSessionReady m)"

definition panel_symbol ::
  "client_env \<Rightarrow> panel_input \<Rightarrow> client_session option \<times> market_data_state \<Rightarrow> client_session option \<times> market_data_state" where
  "panel_symbol E input sm = (case sm of (session, m) \<Rightarrow> case pi_symbol input of
      None \<Rightarrow> (session, m)
    | Some k \<Rightarrow>
        (if md_status m = MdSubscribed \<and> session_state session = Active
         then map_option (sendMarketDataRequest E (md_symbol m) (CHR ''2'')) session else session,
         snd (selectSymbol (symbol_names ! k) m)))"

definition panel_subscription ::
  "client_env \<Rightarrow> panel_input \<Rightarrow> client_session option \<times> market_data_state \<Rightarrow> client_session option \<times> market_data_state" where
  "panel_subscription E input sm = (case sm of (session, m) \<Rightarrow>
     if md_status m = MdSubscribed
     then if pi_unsubscribe input
          then (if session_state session = Active
                then map_option (sendMarketDataRequest E (md_symbol m) (CHR ''2'')) session else session,
                markSessionReady m)
          else (session, m)
     else if session \<noteq> None \<and> canSubscribe (session_state session) m \<and> pi_subscribe input
     then (map_option (sendMarketDataRequest E (md_symbol m) (CHR ''1'')) session, markSubscribed m)
     else (session, m))"

definition panel_frame ::
  "client_env \<Rightarrow> panel_input \<Rightarrow> client_session option \<times> market_data_state \<Rightarrow> client_session option \<times> market_data_state" where
  "panel_frame E input sm =
     (let session = panel_session E input (fst sm)
      in panel_subscription E input (panel_symbol E input (session, panel_status (session_state session) (snd sm))))"

subsection \<open>The client runs\<close>

text \<open>
  Frames of the panel and, between them, what the network thread does to the session. \<open>None\<close> is
  undefined behaviour of the session; a session whose handler throws is left as it was.
\<close>

datatype panel_step = Frame panel_input | Network client_step

fun step_panel ::
  "client_env \<Rightarrow> panel_step \<Rightarrow> client_session option \<times> market_data_state \<Rightarrow>
   (client_session option \<times> market_data_state) option" where
  "step_panel E (Frame input) sm = Some (panel_frame E input sm)"
| "step_panel E (Network x) sm = (case sm of
     (None, m) \<Rightarrow> Some (None, m)
   | (Some s, m) \<Rightarrow> map_option (\<lambda>r. case r of Inl e \<Rightarrow> (Some s, m) | Inr s' \<Rightarrow> (Some s', m)) (step_client E x s))"

fun panel_run ::
  "client_env \<Rightarrow> panel_step list \<Rightarrow> client_session option \<times> market_data_state \<Rightarrow>
   (client_session option \<times> market_data_state) option" where
  "panel_run E [] sm = Some sm"
| "panel_run E (x # xs) sm = do { sm1 \<leftarrow> step_panel E x sm; panel_run E xs sm1 }"

end
