(* ===== verification/ClientSubscription.thy ===== *)
theory ClientSubscription
  imports ConnectionPanel ClientOrders ClientMarketData
begin

text \<open>
  A market data request on its way from the panel to the exchange: the searches of the converter
  in the message \<open>FixClientSession::sendMarketDataRequest\<close> writes, and what the buttons of the
  panel do to the subscription.
\<close>

subsection \<open>Finding a field\<close>

lemma find_value_at:
  assumes s: "s = numbered_text (before @ ns @ (n, v) # ms)" and t: "to_string_i (tag_no t) = dec n"
    and "list_all (\<lambda>(n', v). plain v \<and> \<not> ends_in (dec n) (dec n')) ns" "plain v"
  shows "\<exists>i. find_value s t (length (numbered_text before)) = Some (i, Some (i + length v)) \<and>
     value_between s i (i + length v) = v \<and> drop i s = v @ SOH # numbered_text ms \<and>
     i + length v + 1 = length (numbered_text (before @ ns @ [(n, v)]))"
proof -
  let ?pre = "numbered_text (before @ ns)" and ?tt = "dec n"
  have clean: "SOH \<notin> set ?tt" "CHR ''='' \<notin> set ?tt" "SOH \<notin> set v" using plain_numbers(1) [of n] assms(4) by (simp_all add: plain_def)
  have s': "s = ?pre @ (?tt @ CHR ''='' # v) @ SOH # numbered_text ms" by (simp add: s)
  have "find_from_start (?tt @ ''='') (numbered_text ns @ ?tt @ CHR ''='' # v @ SOH # numbered_text ms) =
      Some (length (numbered_text ns))"
    using find_behind_numbers(1) [of "[]" ?tt ns "[]" "v @ SOH # numbered_text ms"] assms(3) clean by simp
  then have pos: "find s (?tt @ ''='') (length (numbered_text before)) = Some (length ?pre)"
    by (simp add: s find_def)
  have "find_from_start [SOH] ((?tt @ CHR ''='' # v) @ SOH # numbered_text ms) = Some (length (?tt @ CHR ''='' # v))"
    by (rule find_char_app) (use clean in \<open>auto simp: SOH_eq\<close>)
  then have "find_char s SOH (length ?pre) = Some (length ?pre + length (?tt @ CHR ''='' # v))"
    unfolding s' by (simp add: find_char_def find_def)
  then show ?thesis
    using pos by (intro exI [of _ "length ?pre + length ?tt + 1"])
      (simp add: find_value_def find_text_def t value_between_def s)
qed

subsection \<open>The request\<close>

definition md_request_id :: "client_env \<Rightarrow> string \<Rightarrow> client_session \<Rightarrow> string" where
  "md_request_id E symbol s = ''req_'' @ symbol @ ''_'' @ to_string_i (c_wall E (cReadings s))"

definition request_numbers :: "string \<Rightarrow> char \<Rightarrow> string \<Rightarrow> numbered" where
  "request_numbers reqId c symbol = [(262, reqId), (263, [c]), (264, ''0''), (267, ''2''), (269, ''0''), (269, ''1''),
     (146, ''1''), (55, symbol)]"

definition request_message :: "client_env \<Rightarrow> string \<Rightarrow> char \<Rightarrow> client_session \<Rightarrow> string" where
  "request_message E symbol c s =
     buildMessage (c_wall E (cReadings s + 1)) (cSenderCompId s) (cTargetCompId s) (next_out s) ''V''
       (numbered_text (request_numbers (md_request_id E symbol s) c symbol))"

lemma request_decs:
  "dec 8 = ''8''" "dec 9 = ''9''" "dec 35 = ''35''" "dec 49 = ''49''" "dec 56 = ''56''" "dec 34 = ''34''"
  "dec 52 = ''52''" "dec 10 = ''10''" "dec 262 = ''262''" "dec 263 = ''263''" "dec 264 = ''264''" "dec 267 = ''267''"
  "dec 269 = ''269''" "dec 146 = ''146''" "dec 55 = ''55''"
  by code_simp+

lemma sendMarketDataRequest_writes:
  assumes "cState s = Active" "cSocketOpen s"
  shows "cOut (sendMarketDataRequest E symbol c s) = cOut s @ [Wrote (request_message E symbol c s)]"
    and "cState (sendMarketDataRequest E symbol c s) = Active"
  using assms
  by (simp_all add: sendMarketDataRequest_def sendMessage_def write_numbered_def client_write_def store_next_def
      next_out_def request_message_def request_numbers_def request_decs md_request_id_def getNextSenderSeqNum_def Let_def)

lemma plain_time: "plain (generateTimestamp now)"
  by (cases "gmtime (tdiv now 1000000000)")
    (simp add: generateTimestamp_def time_text_def put_time_def put_clock_def two_digits_def SOH_eq)

text \<open>The converter reads the request back, behind a head without the tags it looks for.\<close>

definition head_ok :: "numbered \<Rightarrow> bool" where
  "head_ok ns \<longleftrightarrow> list_all (\<lambda>(n, v). plain v \<and> list_all (\<lambda>k. \<not> ends_in (dec k) (dec n)) [262, 263, 264, 146]) ns"

lemma request_fields_read:
  assumes m: "m = numbered_text (head @ request_numbers reqId c symbol @ [(10, cs)])" and head: "head_ok head"
    and vals: "plain reqId" "plain [c]" "plain symbol" "instrument_from_string symbol = Inr i"
  shows "BinaryToMarketDataRequest m = Some \<lparr>md_mdReqID = reqId, md_subscriptionRequestType = Some c,
     md_marketDepth = Some 0, md_symbols = [i]\<rparr>"
proof -
  let ?d = "[(264, ''0''), (267, ''2''), (269, ''0''), (269, ''1'')] :: numbered"
  have ends: "list_all (\<lambda>(n, v). plain v \<and> \<not> ends_in (dec 262) (dec n)) head"
    "list_all (\<lambda>(n, v). plain v \<and> \<not> ends_in (dec 263) (dec n)) (head @ [(262, reqId)])"
    "list_all (\<lambda>(n, v). plain v \<and> \<not> ends_in (dec 264) (dec n)) (head @ [(262, reqId), (263, [c])])"
    "list_all (\<lambda>(n, v). plain v \<and> \<not> ends_in (dec 146) (dec n)) (head @ [(262, reqId), (263, [c])] @ ?d)"
    using head vals by (auto simp: head_ok_def list_all_iff ends_in_def request_decs SOH_eq)
  have tags: "to_string_i (tag_no MDReqID) = dec 262" "to_string_i (tag_no SubscriptionRequestType) = dec 263"
    "to_string_i (tag_no MarketDepth) = dec 264" "to_string_i (tag_no NoRelatedSym) = dec 146"
    "to_string_i (tag_no SymbolTag) = dec 55"
    by (simp_all add: tag_texts request_decs)
  have digits: "plain ''0''" "plain ''1''" by (simp_all add: SOH_eq)
  let ?rest = "[(146, ''1''), (55, symbol), (10, cs)] :: numbered"
  obtain i1 where i1: "find_value m MDReqID 0 = Some (i1, Some (i1 + length reqId))" "value_between m i1 (i1 + length reqId) = reqId"
    using find_value_at [where before = "[]" and ns = head and ms = "(263, [c]) # ?d @ ?rest", OF _ tags(1) ends(1) vals(1), of m]
    by (auto simp: m request_numbers_def)
  obtain i2 where i2: "find_value m SubscriptionRequestType 0 = Some (i2, Some (i2 + length [c]))" "m ! i2 = c"
    using find_value_at [where before = "[]" and ns = "head @ [(262, reqId)]" and ms = "?d @ ?rest", OF _ tags(2) ends(2) vals(2), of m]
    by (auto simp: m request_numbers_def nth_via_drop)
  obtain i3 where i3: "find_value m MarketDepth 0 = Some (i3, Some (i3 + length ''0''))" "value_between m i3 (i3 + length ''0'') = ''0''"
    using find_value_at [where before = "[]" and ns = "head @ [(262, reqId), (263, [c])]" and ms = "tl ?d @ ?rest",
        OF _ tags(3) ends(3) digits(1), of m]
    by (auto simp: m request_numbers_def)
  let ?before = "head @ [(262, reqId), (263, [c])] @ ?d @ [(146, ''1'')]"
  obtain i4 where i4: "find_value m NoRelatedSym 0 = Some (i4, Some (i4 + length ''1''))" "value_between m i4 (i4 + length ''1'') = ''1''"
    "i4 + length ''1'' + 1 = length (numbered_text ?before)"
    using find_value_at [where before = "[]" and ns = "head @ [(262, reqId), (263, [c])] @ ?d" and ms = "tl ?rest",
        OF _ tags(4) ends(4) digits(2), of m]
    by (auto simp: m request_numbers_def)
  obtain i5 where i5: "find_value m SymbolTag (length (numbered_text ?before)) = Some (i5, Some (i5 + length symbol))"
    "value_between m i5 (i5 + length symbol) = symbol"
    using find_value_at [where before = ?before and ns = "[]" and ms = "[(10, cs)]", OF _ tags(5) _ vals(3), of m]
    by (auto simp: m request_numbers_def)
  have "from_chars_int ''0'' = Some 0" "from_chars_int ''1'' = Some 1" by code_simp+
  moreover have "md_symbol_loop (Suc 0) m (i4 + length ''1'' + 1) = Inr (Some [i])"
    using i5 vals(4) unfolding i4(3) by simp
  ultimately show ?thesis
    using i1 i2 i3 i4(1,2) by (simp add: BinaryToMarketDataRequest_def catch_null_def Let_def)
qed

lemma request_read:
  assumes "good_names s" "plain [c]"
  shows "BinaryToMarketDataRequest (request_message E (instrument_to_string i) c s) =
     Some \<lparr>md_mdReqID = md_request_id E (instrument_to_string i) s, md_subscriptionRequestType = Some c,
       md_marketDepth = Some 0, md_symbols = [i]\<rparr>"
proof -
  let ?id = "md_request_id E (instrument_to_string i) s"
  define body where "body = numbered_text (request_numbers ?id c (instrument_to_string i))"
  define len where "len = dec (length (built_payload (c_wall E (cReadings s + 1)) (cSenderCompId s) (cTargetCompId s) (next_out s) ''V'' body))"
  define cs where "cs = pad0 3 (to_string_i (builder_checksum (built_text (c_wall E (cReadings s + 1)) (cSenderCompId s)
      (cTargetCompId s) (next_out s) ''V'' body)))"
  let ?head = "[(8, ''FIX.4.4''), (9, len), (35, ''V''), (49, cSenderCompId s), (56, cTargetCompId s),
      (34, to_string_u (next_out s)), (52, generateTimestamp (c_wall E (cReadings s + 1)))] :: numbered"
  have "request_message E (instrument_to_string i) c s = numbered_text ?head @ body @ numbered_text [(10, cs)]"
    unfolding request_message_def body_def [symmetric] buildMessage_fields
    by (simp add: field_def tag_texts request_decs len_def cs_def)
  then have whole: "request_message E (instrument_to_string i) c s =
      numbered_text (?head @ request_numbers ?id c (instrument_to_string i) @ [(10, cs)])"
    by (simp only: numbered_simps body_def)
  have "plain len" by (simp add: len_def)
  then have ok: "head_ok ?head"
    using assms(1) by (simp add: head_ok_def good_names_def plain_time ends_in_def request_decs SOH_eq)
  have id: "plain ?id" by (simp add: md_request_id_def plain_instrument SOH_eq)
  show ?thesis by (rule request_fields_read [OF whole ok id assms(2) plain_instrument]) simp
qed

subsection \<open>The state of the panel\<close>

lemma panel_symbol_keeps_status:
  "md_status (panel_status st m) = MdDisconnected \<longleftrightarrow> st = Disconnected \<or> st = Connecting"
  by (simp add: panel_status_def markDisconnected_def markSessionReady_def)

lemma session_state_simps [simp]: "session_state None = Disconnected" "session_state (Some s) = cState s"
  by (simp_all add: session_state_def)

lemma request_keeps_state: "cState (sendMarketDataRequest E symbol c s) = cState s"
  by (simp add: sendMarketDataRequest_def sendMessage_def write_numbered_def client_write_def store_next_def Let_def)

lemma session_state_request:
  "session_state (map_option (sendMarketDataRequest E symbol c) session) = session_state session"
  by (cases session) (simp_all add: request_keeps_state)

lemma selectSymbol_status: "md_status (snd (selectSymbol symbol m)) = MdDisconnected \<longleftrightarrow> md_status m = MdDisconnected"
  by (simp add: selectSymbol_def)

text \<open>
  The panel's market data state follows the session. After any frame, whatever was pressed, the
  market data state is disconnected exactly when there is no session, or it is disconnected or
  still connecting: no subscription outlives the connection it was made on, and a session that
  is up can subscribe.
\<close>

theorem panel_follows_the_session:
  "let (session', m') = panel_frame E input (session, m)
   in md_status m' = MdDisconnected \<longleftrightarrow> session_state session' \<in> {Disconnected, Connecting}"
proof -
  let ?s = "panel_session E input session"
  let ?m = "panel_status (session_state ?s) m"
  obtain s1 m1 where one: "panel_symbol E input (?s, ?m) = (s1, m1)" by (rule prod.exhaust)
  have m1: "session_state s1 = session_state ?s" "md_status m1 = MdDisconnected \<longleftrightarrow> md_status ?m = MdDisconnected"
    using one by (auto simp: panel_symbol_def session_state_request selectSymbol_status split: option.splits if_splits)
  obtain s2 m2 where two: "panel_subscription E input (s1, m1) = (s2, m2)" by (rule prod.exhaust)
  have "session_state s2 = session_state s1" "md_status m2 = MdDisconnected \<longleftrightarrow> md_status m1 = MdDisconnected"
    using two m1 panel_symbol_keeps_status [of "session_state ?s" m]
    by (auto simp: panel_subscription_def session_state_request request_keeps_state markSessionReady_def markSubscribed_def canSubscribe_def
        split: if_splits)
  then show ?thesis using m1 panel_symbol_keeps_status [of "session_state ?s" m] one two by (auto simp: panel_frame_def)
qed

text \<open>Input that touches neither the session nor the symbol.\<close>

definition quiet :: "panel_input \<Rightarrow> bool" where
  "quiet input \<longleftrightarrow> \<not> pi_logout input \<and> \<not> pi_disconnect input \<and> pi_symbol input = None"

lemma quiet_session:
  "quiet input \<Longrightarrow> cState s = Active \<Longrightarrow> panel_session E input (Some s) = Some s"
  by (simp add: panel_session_def quiet_def sendLogon_def Let_def)

lemma quiet_frame:
  assumes "quiet input" "cState s = Active"
  shows "panel_frame E input (Some s, m) = panel_subscription E input (Some s, markSessionReady m)"
  using assms(1) quiet_session [OF assms]
  by (simp add: panel_frame_def panel_symbol_def panel_status_def quiet_def assms(2))

subsection \<open>The buttons\<close>


text \<open>
  The Unsubscribe button leaves the client subscribed. Pressed on an active session with a
  subscription, it writes one message, and the exchange takes the step of unsubscribing the
  session; but the market data state stays \<open>Subscribed\<close>, since \<open>markSessionReady\<close> only leaves
  \<open>Disconnected\<close>. In every later frame that neither ends the session nor selects another symbol
  it still is, so the panel offers to unsubscribe again and never to subscribe.
\<close>

theorem unsubscribe_leaves_subscribed:
  assumes "quiet input" "pi_unsubscribe input" and session: "cState s = Active" "cSocketOpen s" "good_names s"
    and m: "md_status m = MdSubscribed" "md_symbol m = instrument_to_string i"
  shows "\<exists>s' msg. panel_frame E input (Some s, m) = (Some s', m) \<and> cOut s' = cOut s @ [Wrote msg] \<and>
     handleMarketDataRequest F sid msg srv = core_step_of F (Unsubscribe i (ucast sid)) (set_request_id sid i None srv) \<and>
     (\<forall>later. quiet later \<longrightarrow> snd (panel_frame E later (Some s', m)) = m)"
proof -
  let ?s = "sendMarketDataRequest E (md_symbol m) (CHR ''2'') s"
  have same: "markSessionReady m = m" by (simp add: markSessionReady_def m(1))
  have "panel_frame E input (Some s, m) = (Some ?s, m)"
    using assms(2) by (simp add: quiet_frame [OF assms(1) session(1)] panel_subscription_def same m(1) session(1))
  moreover have "snd (panel_frame E later (Some ?s, m)) = m" if "quiet later" for later
    using that request_keeps_state [of E "md_symbol m" "CHR ''2''" s] session(1)
    by (simp add: quiet_frame panel_subscription_def same m(1))
  moreover have "plain (''2'')" by (simp add: SOH_eq)
  note read = request_read [OF session(3) this, of E i]
  have "handleMarketDataRequest F sid (request_message E (md_symbol m) (CHR ''2'') s) srv =
      core_step_of F (Unsubscribe i (ucast sid)) (set_request_id sid i None srv)"
    by (simp add: m(2) handleMarketDataRequest_def read Let_def)
  ultimately show ?thesis
    using sendMarketDataRequest_writes(1) [OF session(1,2), of E "md_symbol m" "CHR ''2''"] by blast
qed

definition demo_input :: panel_input where
  "demo_input = \<lparr>pi_connect = False, pi_logon = False, pi_logout = False, pi_disconnect = False, pi_symbol = None,
     pi_subscribe = True, pi_unsubscribe = True, pi_sender = ''CLIENT1'', pi_target = ''BETA_EXCHANGE'',
     pi_heartbeat = 30, pi_reset = False, pi_file = None, pi_writable = True\<rparr>"

lemma demo_panel: "quiet demo_input" "pi_subscribe demo_input" "pi_unsubscribe demo_input"
  "md_status (new_market_data\<lparr>md_status := st\<rparr>) = st"
  "md_symbol (new_market_data\<lparr>md_status := st\<rparr>) = instrument_to_string EURUSD"
  by (simp_all add: quiet_def demo_input_def new_market_data_def) code_simp


theorem unsubscribe_leaves_subscribed_demo:
  "\<exists>s' msg. panel_frame demo_client_env demo_input (Some demo_client, new_market_data\<lparr>md_status := MdSubscribed\<rparr>) =
       (Some s', new_market_data\<lparr>md_status := MdSubscribed\<rparr>) \<and> cOut s' = cOut demo_client @ [Wrote msg] \<and>
     handleMarketDataRequest demo_fix_env 1 msg (demo_server demo_core) =
       core_step_of demo_fix_env (Unsubscribe EURUSD (ucast (1 :: u32))) (set_request_id 1 EURUSD None (demo_server demo_core)) \<and>
     (\<forall>later. quiet later \<longrightarrow>
        snd (panel_frame demo_client_env later (Some s', new_market_data\<lparr>md_status := MdSubscribed\<rparr>)) =
        new_market_data\<lparr>md_status := MdSubscribed\<rparr>)"
  by (rule unsubscribe_leaves_subscribed) (simp_all add: demo_panel demo_client_session)

end
