(* ===== verification/StressTest.thy ===== *)
theory StressTest
  imports TradingCore CppRounding
begin

text \<open>
  \<open>exchange_app/Main.cpp\<close>, the stress test of the core: the orders \<open>create_order\<close> makes up and the
  loop that submits them. The draws of the random distributions, \<open>std::exp\<close> and the clock are
  arguments, numbered by the order they are made for.
\<close>

record stress =
  last_price :: "instrument \<Rightarrow> dbl option"
  inst_vol :: "instrument \<Rightarrow> dbl"

record stress_env =
  sx_instrument :: "nat \<Rightarrow> instrument"
  sx_news :: "nat \<Rightarrow> bool"
  sx_step :: "nat \<Rightarrow> dbl \<Rightarrow> dbl"
  sx_qty :: "nat \<Rightarrow> dbl"
  sx_exp :: "dbl \<Rightarrow> dbl"
  sx_clock :: "nat \<Rightarrow> timestamp"

definition new_stress :: stress where
  "new_stress = \<lparr>last_price = (\<lambda>_. None), inst_vol = (\<lambda>_. Fin 0)\<rparr>"

text \<open>The volatility after an update, and three times that after news.\<close>

definition stress_vol :: "bool \<Rightarrow> dbl \<Rightarrow> dbl" where
  "stress_vol news v =
     (let v1 = dadd (dmul v (dsub (Fin 1) (rnd64 (3 / 10)))) (dmul (rnd64 (2 / 1000)) (rnd64 (3 / 10)))
      in if news then dmul v1 (Fin 3) else v1)"

definition stress_price :: "stress_env \<Rightarrow> nat \<Rightarrow> dbl \<Rightarrow> dbl \<Rightarrow> dbl" where
  "stress_price E k vol p =
     (let shock = sx_step E k vol;
          reversion = dmul (rnd64 (5 / 100)) (dsub (rnd64 (12 / 10)) p);
          new_price = dadd (dmul p (sx_exp E shock)) reversion
      in if dlt new_price (rnd64 (1 / 10000)) then rnd64 (1 / 10000) else new_price)"

text \<open>The conversion to \<open>int\<close> drops the fraction; out of range it is undefined.\<close>

fun stress_qty :: "dbl \<Rightarrow> int option" where
  "stress_qty (Fin q) =
     (if - (2 ^ 31) - 1 < q \<and> q < 2 ^ 31
      then Some (min 5000 (max 1 (if q < 0 then - \<lfloor>- q\<rfloor> else \<lfloor>q\<rfloor>))) else None)"
| "stress_qty _ = None"

text \<open>One order; \<open>g\<close> is the order id generator.\<close>

definition create_order :: "stress_env \<Rightarrow> nat \<Rightarrow> u64 \<times> stress \<Rightarrow> (order \<times> u64 \<times> stress) option" where
  "create_order E k gst = (case gst of (g, st) \<Rightarrow>
     let inst = sx_instrument E k;
         (orderId, g') = nextId g;
         st1 = (case last_price st inst of
             None \<Rightarrow> st\<lparr>last_price := (last_price st)(inst \<mapsto> rnd64 (12 / 10)),
                        inst_vol := (inst_vol st)(inst := rnd64 (2 / 1000))\<rparr>
           | Some _ \<Rightarrow> st);
         vol = stress_vol (sx_news E k) (inst_vol st1 inst);
         new_price = stress_price E k vol (the (last_price st1 inst))
     in map_option
          (\<lambda>qty. (mk_order (to_string_u orderId) orderId inst (''STRESS_CLIENT_'' @ to_string_u orderId)
               ''STRESS_CLIENT'' (if orderId mod 2 = 0 then Buy else Sell) Limit DAY (word_of_int qty) new_price
               (sx_clock E k),
             g', st1\<lparr>last_price := (last_price st1)(inst \<mapsto> new_price), inst_vol := (inst_vol st1)(inst := vol)\<rparr>))
          (stress_qty (sx_qty E k)))"

fun create_orders :: "stress_env \<Rightarrow> nat \<Rightarrow> nat \<Rightarrow> u64 \<times> stress \<Rightarrow> (order list \<times> u64 \<times> stress) option" where
  "create_orders E k 0 gst = Some ([], gst)"
| "create_orders E k (Suc n) gst = do {
     (ord, gst1) \<leftarrow> create_order E k gst;
     (ords, gst2) \<leftarrow> create_orders E (Suc k) n gst1;
     Some (ord # ords, gst2)
   }"

definition stress_command :: "order \<Rightarrow> command" where
  "stress_command ord = NewOrder (mClientId ord) (mTimestamp ord) ord"

text \<open>The loop of \<open>main\<close>: each order is submitted as soon as it is made.\<close>

fun submit_orders :: "'q spsc \<Rightarrow> stress_env \<Rightarrow> nat \<Rightarrow> nat \<Rightarrow> stress \<times> 'q core \<Rightarrow> (stress \<times> 'q core) option" where
  "submit_orders Q E k 0 sc = Some sc"
| "submit_orders Q E k (Suc n) sc = do {
     (ord, g, st) \<leftarrow> create_order E k (mOrderIDGenerator (snd sc), fst sc);
     c \<leftarrow> submitCommand Q (stress_command ord) ((snd sc)\<lparr>mOrderIDGenerator := g\<rparr>);
     submit_orders Q E (Suc k) n (st, c)
   }"

definition stress_phase :: "'q spsc \<Rightarrow> stress_env \<Rightarrow> stress \<times> 'q core \<Rightarrow> 'q core option" where
  "stress_phase Q E sc = map_option (\<lambda>(st, c). stopAcceptingCommands c) (submit_orders Q E 0 10000 sc)"

end
