(* ===== verification/StressProperties.thy ===== *)
theory StressProperties
  imports StressTest EngineProperties
begin

text \<open>
  The stress test never makes the core match: all its orders carry the same \<open>SenderCompID\<close>, and the
  risk check refuses an order that could trade with one of its own sender.
\<close>

subsection \<open>A book of one sender\<close>

definition one_sender :: "string \<Rightarrow> worker \<Rightarrow> bool" where
  "one_sender X s \<longleftrightarrow> (\<forall>a\<in>book_addrs (w_book s). mSenderCompID (order_at (w_heap s) a) = X)"

lemma one_sender_no_trade:
  assumes "worker_inv s" "w_own s (mCoreOrderId ord) = None" "uncrossed (w_book s)"
    and "mOrderType ord = Limit \<longrightarrow> mPrice ord \<noteq> NaN" "processNewOrder e ord s = Some s'"
    and "one_sender X s" "mSenderCompID ord = X"
  shows "AddTrade t \<notin> set (new_tasks s s')"
proof
  assume t: "AddTrade t \<in> set (new_tasks s s')"
  obtain x where "x \<in> book_addrs (w_book s)" "mSenderCompID (order_at (w_heap s) x) \<noteq> mSenderCompID ord"
    by (rule maker_has_other_sender [OF assms(1-5) t])
  then show False using assms(6,7) by (simp add: one_sender_def)
qed

lemma one_sender_new_order:
  assumes inv: "worker_inv s" and fresh: "w_own s (mCoreOrderId ord) = None"
    and run: "processNewOrder e ord s = Some s'" and one: "one_sender X s" "mSenderCompID ord = X"
  shows "one_sender X s'"
  using inv fresh run
proof (cases rule: new_order_cases)
  case rejected
  then show ?thesis using one(1) by (simp add: one_sender_def)
next
  case accepted
  have inv': "worker_inv s'" using processNewOrder_ok [OF inv fresh, of e] run by auto
  show ?thesis
    unfolding one_sender_def
  proof
    fix x assume x: "x \<in> book_addrs (w_book s')"
    obtain ord' where ord': "w_heap s' x = Some ord'"
      using book_okD [of "w_heap s'" "w_own s'" "w_book s'" x] x inv' unfolding worker_inv_def by blast
    obtain o1 where o1: "((w_heap s)(next_addr (w_mgr s) \<mapsto> ord)) x = Some o1" "mSenderCompID ord' = mSenderCompID o1"
      using new_order_fixed ord' accepted(2) by blast
    show "mSenderCompID (order_at (w_heap s') x) = X"
    proof (cases "x = next_addr (w_mgr s)")
      case True
      then show ?thesis using o1 ord' one(2) by (simp add: order_at_def)
    next
      case False
      then have "x \<in> book_addrs (w_book s)" using x new_order_addrs(1) accepted(2) by blast
      then have "mSenderCompID (order_at (w_heap s) x) = X" using one(1) by (simp add: one_sender_def)
      then show ?thesis using False o1 ord' by (simp add: order_at_def)
    qed
  qed
qed

text \<open>The log only grows.\<close>

lemma new_order_log:
  assumes "worker_inv s" "w_own s (mCoreOrderId ord) = None" "processNewOrder e ord s = Some s'"
  shows "tasks_of (w_log s') = tasks_of (w_log s) @ new_tasks s s'"
proof -
  have "\<exists>evs. w_log s' = w_log s @ evs"
    using assms
  proof (cases rule: new_order_cases)
    case rejected
    then show ?thesis by (simp add: reject_def)
  next
    case accepted
    then show ?thesis
      by (auto simp: new_order_state_def Let_def w_log_matched simp del: matched_state_simps split del: if_split split: if_splits)
  qed
  then show ?thesis by (auto simp: new_tasks_def)
qed

lemma disjoint_insert_mono: "x \<notin> A \<Longrightarrow> A \<inter> B = {} \<Longrightarrow> C \<subseteq> insert x B \<Longrightarrow> A \<inter> C = {}"
  by blast

lemma one_sender_batch:
  "worker_inv s \<Longrightarrow> distinct (map mCoreOrderId ords) \<Longrightarrow> mCoreOrderId ` set ords \<inter> dom (w_own s) = {} \<Longrightarrow>
   uncrossed (w_book s) \<Longrightarrow> one_sender X s \<Longrightarrow> \<forall>ord\<in>set ords. mPrice ord \<noteq> NaN \<and> mSenderCompID ord = X \<Longrightarrow>
   \<exists>s'. processBatch e (map stress_command ords) s = Some s' \<and>
     (\<forall>t. AddTrade t \<in> set (tasks_of (w_log s')) \<longrightarrow> AddTrade t \<in> set (tasks_of (w_log s)))"
proof (induction ords arbitrary: s)
  case (Cons ord ords)
  have fresh: "w_own s (mCoreOrderId ord) = None" using Cons.prems(3) by auto
  have price: "mOrderType ord = Limit \<longrightarrow> mPrice ord \<noteq> NaN" "mSenderCompID ord = X" using Cons.prems(6) by auto
  obtain s1 where s1: "processNewOrder e ord s = Some s1" "worker_inv s1"
    "dom (w_own s1) \<subseteq> insert (mCoreOrderId ord) (dom (w_own s))"
    using processNewOrder_ok [OF Cons.prems(1) fresh, of e] by auto
  have distinct: "distinct (map mCoreOrderId ords)" and rest: "\<forall>ord\<in>set ords. mPrice ord \<noteq> NaN \<and> mSenderCompID ord = X"
    using Cons.prems(2,6) by simp_all
  have new: "mCoreOrderId ord \<notin> mCoreOrderId ` set ords" using Cons.prems(2) by simp
  have old: "mCoreOrderId ` set ords \<inter> dom (w_own s) = {}" using Cons.prems(3) by auto
  have apart: "mCoreOrderId ` set ords \<inter> dom (w_own s1) = {}"
    by (rule disjoint_insert_mono [OF new old s1(3)])
  obtain s' where s': "processBatch e (map stress_command ords) s1 = Some s'"
    "\<forall>t. AddTrade t \<in> set (tasks_of (w_log s')) \<longrightarrow> AddTrade t \<in> set (tasks_of (w_log s1))"
    using Cons.IH [OF s1(2) distinct apart uncrossed_new_order [OF Cons.prems(1) fresh Cons.prems(4) price(1) s1(1)]
        one_sender_new_order [OF Cons.prems(1) fresh s1(1) Cons.prems(5) price(2)] rest] by blast
  have "AddTrade t \<in> set (tasks_of (w_log s1)) \<Longrightarrow> AddTrade t \<in> set (tasks_of (w_log s))" for t
    using one_sender_no_trade [OF Cons.prems(1) fresh Cons.prems(4) price(1) s1(1) Cons.prems(5) price(2)]
    by (auto simp: new_order_log [OF Cons.prems(1) fresh s1(1)])
  moreover have "processBatch e (map stress_command (ord # ords)) s = Some s'"
    using s1(1) s'(1) by (simp add: stress_command_def [of ord])
  ultimately show ?case using s'(2) by blast
qed simp

subsection \<open>The orders of the stress test\<close>

lemma create_order_facts:
  assumes "create_order E k (g, st) = Some (ord, g', st')"
  shows "mCoreOrderId ord = g + 1" "g' = g + 1" "mSenderCompID ord = ''STRESS_CLIENT''"
    "mSymbol ord = sx_instrument E k" "1 \<le> mOriginalQuantity ord" "mOriginalQuantity ord \<le> 5000"
proof -
  have "n = word_of_int (min 5000 (max 1 m)) \<Longrightarrow> 1 \<le> n \<and> n \<le> (5000 :: u64)" for n m
    by (auto simp: min_def max_def word_le_def uint_word_of_int)
  then show "mCoreOrderId ord = g + 1" "g' = g + 1" "mSenderCompID ord = ''STRESS_CLIENT''"
    "mSymbol ord = sx_instrument E k" "1 \<le> mOriginalQuantity ord" "mOriginalQuantity ord \<le> 5000"
    using assms
    by (auto simp: create_order_def nextId_def mk_order_def Let_def elim!: stress_qty.elims split: option.splits if_splits)
qed

lemma create_orders_facts:
  "create_orders E k n (g, st) = Some (ords, gst') \<Longrightarrow>
     map mCoreOrderId ords = fst (take_ids n g) \<and> (\<forall>ord\<in>set ords. mSenderCompID ord = ''STRESS_CLIENT'')"
proof (induction n arbitrary: k g st ords)
  case (Suc n)
  obtain ord g1 st1 rest where one: "create_order E k (g, st) = Some (ord, g1, st1)"
    "create_orders E (Suc k) n (g1, st1) = Some (rest, gst')" "ords = ord # rest"
    using Suc.prems by (auto simp: bind_Some_iff split: prod.splits)
  then show ?case using create_order_facts [OF one(1)] Suc.IH [OF one(2)]
    by (auto simp: nextId_def Let_def split: prod.splits)
qed simp

text \<open>
  C34: the stress test of the core matches nothing. Take the orders its generator makes in \<open>n\<close> rounds,
  at most \<open>2 ^ 64\<close>, from any state of the generator, with any draws that do not lead to a price NaN.
  When a fresh partition processes those of its instrument, in order, it processes all of them, and
  no trade is ever stored: every order that could trade is refused, because all orders carry the
  same \<open>SenderCompID\<close>.
\<close>

theorem stress_test_never_trades:
  assumes "create_orders E 0 n (g, st) = Some (ords, gst')" and "n \<le> 2 ^ 64" and "\<forall>ord\<in>set ords. mPrice ord \<noteq> NaN"
  shows "\<exists>s'. processBatch e (map stress_command (filter (\<lambda>ord. mSymbol ord = i) ords)) (init_worker i) = Some s' \<and>
     (\<forall>t. AddTrade t \<notin> set (tasks_of (w_log s')))"
proof -
  note facts = create_orders_facts [OF assms(1)]
  let ?ords = "filter (\<lambda>ord. mSymbol ord = i) ords"
  have "distinct (map mCoreOrderId ords)" using facts take_ids_distinct [OF assms(2)] by simp
  then have "distinct (map mCoreOrderId ?ords)" by (rule distinct_map_filter)
  moreover have "one_sender ''STRESS_CLIENT'' (init_worker i)" "w_log (init_worker i) = []" "dom (w_own (init_worker i)) = {}"
    by (simp_all add: one_sender_def init_worker_def empty_book_def book_addrs_def empty_manager_def)
  ultimately show ?thesis
    using one_sender_batch [OF worker_inv_init _ _ uncrossed_init, of ?ords i "''STRESS_CLIENT''" e] facts assms(3) by simp
qed

text \<open>Two rounds with the same instrument, no news and no shock.\<close>

definition demo_stress :: stress_env where
  "demo_stress = \<lparr>sx_instrument = (\<lambda>_. EURUSD), sx_news = (\<lambda>_. False), sx_step = (\<lambda>_ _. Fin 0),
     sx_qty = (\<lambda>_. Fin (109 / 2)), sx_exp = (\<lambda>_. Fin 1), sx_clock = (\<lambda>_. 0)\<rparr>"

lemma stress_constants:
  "rnd64 (6 / 5) = Fin (5404319552844595 / 4503599627370496)"
  "rnd64 (5404319552844595 / 4503599627370496) = Fin (5404319552844595 / 4503599627370496)"
  "rnd64 (1 / 20) = Fin (3602879701896397 / 72057594037927936)"
  "rnd64 (1 / 10000) = Fin (7378697629483821 / 73786976294838206464)"
  "rnd64 0 = Fin 0"
  by code_simp+

lemma demo_stress_price: "stress_price demo_stress k vol (rnd64 (6 / 5)) = rnd64 (6 / 5)"
  by (simp add: stress_price_def demo_stress_def stress_constants dsub_def)

lemma demo_stress_order:
  assumes "last_price st EURUSD = None \<or> last_price st EURUSD = Some (rnd64 (6 / 5))"
  shows "\<exists>ord st'. create_order demo_stress k (g, st) = Some (ord, g + 1, st') \<and>
      last_price st' EURUSD = Some (rnd64 (6 / 5)) \<and> mPrice ord = rnd64 (6 / 5) \<and> mSymbol ord = EURUSD \<and>
      mOrderSide ord = (if (g + 1) mod 2 = 0 then Buy else Sell)"
proof -
  have qty: "stress_qty (Fin (109 / 2)) = Some 54" by code_simp
  have env: "sx_instrument demo_stress k = EURUSD" "sx_qty demo_stress k = Fin (109 / 2)" by (simp_all add: demo_stress_def)
  show ?thesis
    using assms
    by (elim disjE)
      (simp_all add: create_order_def env qty demo_stress_price nextId_def mk_order_def Let_def del: stress_qty.simps)
qed

lemma demo_stress_orders:
  obtains ords gst where "create_orders demo_stress 0 2 (0, new_stress) = Some (ords, gst)"
    "map mSymbol ords = [EURUSD, EURUSD]" "map mOrderSide ords = [Sell, Buy]"
    "map mPrice ords = [rnd64 (6 / 5), rnd64 (6 / 5)]"
proof -
  have "last_price new_stress EURUSD = None \<or> last_price new_stress EURUSD = Some (rnd64 (6 / 5))"
    by (simp add: new_stress_def)
  from demo_stress_order [OF this, of 0 0] obtain ord1 st1
    where one: "create_order demo_stress 0 (0, new_stress) = Some (ord1, 1, st1)"
      "last_price st1 EURUSD = Some (rnd64 (6 / 5))" "mPrice ord1 = rnd64 (6 / 5)" "mSymbol ord1 = EURUSD" "mOrderSide ord1 = Sell"
    by auto
  from demo_stress_order [OF disjI2, OF one(2), of 1 1] obtain ord2 st2
    where two: "create_order demo_stress 1 (1, st1) = Some (ord2, 2, st2)"
      "mPrice ord2 = rnd64 (6 / 5)" "mSymbol ord2 = EURUSD" "mOrderSide ord2 = Buy"
    by auto
  show thesis
    by (rule that [of "[ord1, ord2]" "(2, st2)"]) (use one two in \<open>simp_all add: numeral_2_eq_2\<close>)
qed

theorem stress_test_never_trades_demo:
  "\<exists>ords gst s'. create_orders demo_stress 0 2 (0, new_stress) = Some (ords, gst) \<and>
     map mOrderSide ords = [Sell, Buy] \<and> map mPrice ords = [rnd64 (6 / 5), rnd64 (6 / 5)] \<and>
     processBatch demo_env (map stress_command (filter (\<lambda>ord. mSymbol ord = EURUSD) ords)) (init_worker EURUSD) = Some s' \<and>
     (\<forall>t. AddTrade t \<notin> set (tasks_of (w_log s')))"
proof -
  obtain ords gst where ords: "create_orders demo_stress 0 2 (0, new_stress) = Some (ords, gst)"
    "map mSymbol ords = [EURUSD, EURUSD]" "map mOrderSide ords = [Sell, Buy]"
    "map mPrice ords = [rnd64 (6 / 5), rnd64 (6 / 5)]"
    by (rule demo_stress_orders)
  have priced: "\<forall>ord\<in>set ords. mPrice ord \<noteq> NaN" using ords(4) by (auto simp: map_eq_Cons_conv stress_constants)
  show ?thesis
    using stress_test_never_trades [OF ords(1) _ priced, of demo_env EURUSD] ords by auto
qed

end
