(* ===== verification/LocalExchange.thy ===== *)
theory LocalExchange
  imports FixServer Simulator
begin

text \<open>
  The exchange inside the client: \<open>client_admin/ExchangeManager\<close>, which builds and drops a core with a
  FIX server on its port, the buttons and the session table of \<open>client_admin/ExchangePanel\<close>,
  \<open>FixServer::stop\<close>, and the test of \<open>App::run\<close> that gives each new core its bots. A core lives at
  an address, counted up with every construction; two addresses are compared, never followed.
\<close>

subsection \<open>State\<close>

text \<open>
  The server holds the core once there is one (\<open>em_core\<close> is the core without a server). \<open>em_dir\<close> is
  the directory \<open>seq_store\<close> with the clients' files, \<open>em_wires\<close> what dropped servers had written.
\<close>

record 'q exchange_manager =
  em_core :: "'q core option"
  em_server :: "'q fix_server option"
  em_seqRepo :: bool
  mIsRunning :: bool
  em_address :: nat
  em_dir :: "(string \<rightharpoonup> string) option"
  em_wires :: "wire list"

definition new_exchange_manager :: "(string \<rightharpoonup> string) option \<Rightarrow> 'q exchange_manager" where
  "new_exchange_manager dir = \<lparr>em_core = None, em_server = None, em_seqRepo = False, mIsRunning = False,
     em_address = 0, em_dir = dir, em_wires = []\<rparr>"

definition getCore :: "'q exchange_manager \<Rightarrow> 'q core option" where
  "getCore m = (case em_server m of Some s \<Rightarrow> Some (mTradingCore s) | None \<Rightarrow> em_core m)"

definition core_address :: "'q exchange_manager \<Rightarrow> nat option" where
  "core_address m = map_option (\<lambda>_. em_address m) (getCore m)"

text \<open>
  What the system answers: what \<open>remove_all\<close> leaves when it throws (\<open>None\<close> when it does not), and
  whether the acceptor gets the port.
\<close>

record exchange_host =
  eh_removal :: "(string \<rightharpoonup> string) option"
  eh_binds :: "16 word \<Rightarrow> bool"

subsection \<open>Stop\<close>

text \<open>\<open>FixServer::stop\<close>: every session closes its socket. The numbers start at 1.\<close>

definition stop_server :: "'q fix_server \<Rightarrow> 'q fix_server" where
  "stop_server s =
     (fold close_socket (map of_nat [1..<unat (mNextSessionId s)]) s)\<lparr>mSessions := Map.empty\<rparr>"

text \<open>The server goes first, then the core is stopped and goes.\<close>

definition drop_server :: "'q exchange_manager \<Rightarrow> 'q exchange_manager" where
  "drop_server m = (case em_server m of
      None \<Rightarrow> m\<lparr>em_seqRepo := False\<rparr>
    | Some s \<Rightarrow> let s' = stop_server s
        in m\<lparr>em_core := Some (mTradingCore s'), em_server := None, em_seqRepo := False,
             em_wires := em_wires m @ wire_log s'\<rparr>)"

definition drop_core :: "'q exchange_manager \<Rightarrow> 'q exchange_manager" where
  "drop_core m = m\<lparr>em_core := None, mIsRunning := False\<rparr>"

definition exchange_stop :: "'q exchange_manager \<Rightarrow> 'q exchange_manager" where
  "exchange_stop m = (if mIsRunning m then drop_core (drop_server m) else m)"

text \<open>
  Between the two, the workers still run. Their reports and refreshes are calls of the callbacks the
  server had registered: with the server gone, any such call is undefined.
\<close>

definition orphan_turn :: "'q fix_env \<Rightarrow> instrument \<Rightarrow> 'q exchange_manager \<Rightarrow> 'q exchange_manager option" where
  "orphan_turn E i m = do {
     c \<leftarrow> em_core m;
     c' \<leftarrow> step_core (queue_ops E) (core_env E) (Turn i) (c\<lparr>outs := []\<rparr>);
     if outs c' = [] then Some (m\<lparr>em_core := Some c'\<rparr>) else None
   }"

subsection \<open>Start\<close>

text \<open>
  The data base is in memory, so a new core finds it empty. Any exception leads to \<open>stop\<close>; the result
  tells whether the exchange runs. \<open>None\<close> is a wait that never ends.
\<close>

definition exchange_start ::
  "'q fix_env \<Rightarrow> exchange_host \<Rightarrow> 16 word \<Rightarrow> 'q exchange_manager \<Rightarrow> (bool \<times> 'q exchange_manager) option" where
  "exchange_start E host port m =
     (if mIsRunning m then Some (True, m)
      else if em_dir m \<noteq> None \<and> eh_removal host \<noteq> None
      then Some (False, exchange_stop (m\<lparr>em_dir := eh_removal host\<rparr>))
      else do {
        let m1 = m\<lparr>em_dir := None, em_address := em_address m + 1\<rparr>;
        c \<leftarrow> init_core (queue_ops E) empty_db;
        let c1 = c\<lparr>mDatabaseWorker :=
              enqueue_task (InsertClient ''CLIENT1'' True) (enqueue_task InitClients (mDatabaseWorker c))\<rparr>;
        c2 \<leftarrow> start_core (iteration E) c1;
        Some (if eh_binds host port
          then (True, m1\<lparr>em_core := None, em_server := Some (init_server True c2), em_seqRepo := True,
                         mIsRunning := True\<rparr>)
          else (False, exchange_stop (m1\<lparr>em_seqRepo := True,
                  em_core := Some (c2\<lparr>mDatabaseWorker := enqueue_task InitSequences (mDatabaseWorker c2)\<rparr>)\<rparr>)))
      })"

subsection \<open>The panel\<close>

text \<open>One button is shown; \<open>pressed\<close> says whether it is pressed. The port of the input field is cast.\<close>

definition renderControlSection ::
  "'q fix_env \<Rightarrow> exchange_host \<Rightarrow> bool \<Rightarrow> int \<Rightarrow> 'q exchange_manager \<Rightarrow> 'q exchange_manager option" where
  "renderControlSection E host pressed port m =
     (if mIsRunning m then Some (if pressed then exchange_stop m else m)
      else if pressed then map_option snd (exchange_start E host (word_of_int port) m)
      else Some m)"

text \<open>The row of a client: its status and the numbers under ``Next In Seq'' and ``Next Out Seq''.\<close>

definition renderSessionSection :: "'q exchange_manager \<Rightarrow> string \<Rightarrow> (string \<times> string \<times> string) option" where
  "renderSessionSection m compId = do {
     s \<leftarrow> em_server m;
     st \<leftarrow> getAllSessionStates (mSessionManager s) compId;
     Some (if isLoggedOn st then ''LOGGED ON'' else ''OFFLINE'', to_string_u (inSeqNum st), to_string_u (outSeqNum st))
   }"

subsection \<open>The loop of the application\<close>

text \<open>The bots hold the address of the core they were made for.\<close>

record 'q app_loop =
  al_manager :: "'q exchange_manager"
  mCurrentCore :: "nat option"
  mSimulator :: "(nat \<times> simulator) option"

definition check_core :: "'q app_loop \<Rightarrow> 'q app_loop" where
  "check_core a =
     (let p = core_address (al_manager a)
      in if p = mCurrentCore a then a
         else a\<lparr>mCurrentCore := p, mSimulator := map_option (\<lambda>x. (x, new_simulator)) p\<rparr>)"

text \<open>One frame: the check, the exchange panel, the simulator panel.\<close>

record frame_input =
  fi_pressed :: bool
  fi_port :: int
  fi_sim :: sim_input

definition app_frame ::
  "'q fix_env \<Rightarrow> exchange_host \<Rightarrow> frame_input \<Rightarrow> 'q app_loop \<Rightarrow> 'q app_loop option" where
  "app_frame E host input a =
     (let a1 = check_core a
      in map_option (\<lambda>m. a1\<lparr>al_manager := m,
             mSimulator := map_option (\<lambda>(x, s). (x, the (sim_panel (fi_sim input) (Some s)))) (mSimulator a1)\<rparr>)
           (renderControlSection E host (fi_pressed input) (fi_port input) (al_manager a1)))"

end
