(* ===== verification/LocalExchangeProperties.thy ===== *)
theory LocalExchangeProperties
  imports LocalExchange EngineProperties CoreProperties FixServerSafety SeqNumStore
begin

text \<open>
  The exchange inside the client: what a start gives, what a failed start leaves, and who still holds
  the core and the server while they are dropped.
\<close>

subsection \<open>Starting\<close>

lemma initPartitions_tables:
  "initPartitions Q is d = Some (ps, d') \<Longrightarrow> tbl_clients d' = tbl_clients d \<and> tbl_sequences d' = tbl_sequences d"
proof (induction "is" arbitrary: d ps)
  case (Cons i "is")
  then show ?case by (fastforce simp: bind_eq_Some_conv split: prod.splits)
qed simp

lemma init_core_empty:
  obtains c where "init_core Q empty_db = Some c" "mPartitions c = (\<lambda>i. Some (fresh_partition Q i False))"
    "mTradeIDGenerator c = 0" "mTasks (mDatabaseWorker c) = []"
    "tbl_clients (mDatabase (mDatabaseWorker c)) = Some []" "tbl_sequences (mDatabase (mDatabaseWorker c)) = None"
proof -
  obtain d1 where d1: "exec_tasks [InitClients, InitTradeID] empty_db = Some d1"
      "tbl_orders d1 = None" "tbl_trade_id d1 = Some []" "tbl_clients d1 = Some []" "tbl_sequences d1 = None"
    by (simp add: empty_db_def create_if_missing_def)
  obtain ps d2 where ps: "initPartitions Q instruments d1 = Some (ps, d2)"
      "map_of ps = (\<lambda>i. Some (init_partition Q i []))"
    using initPartitions_empty [OF instruments_all(1), of d1 Q] d1(2) by (auto simp: instruments_all(2))
  have ids: "init_trade_ids d1 = Some 0"
    using d1 by (simp add: init_trade_ids_def exec_getCurrentTradeID_def)
  have fresh: "init_partition Q i [] = fresh_partition Q i False" for i
    by (simp add: fresh_partition_def init_partition_def)
  show thesis
    using that d1(1,4,5) ps ids initPartitions_tables [OF ps(1)]
    by (simp add: init_core_def fresh Let_def del: exec_tasks.simps)
qed

definition fresh_tasks :: "db_task list" where
  "fresh_tasks = [InitClients, InsertClient ''CLIENT1'' True]"

text \<open>The core a start makes: all partitions empty and running, two tasks of the manager queued.\<close>

lemma started_core:
  assumes "iterates iter"
  obtains c c2 where "init_core Q empty_db = Some c"
    "start_core iter (c\<lparr>mDatabaseWorker :=
       enqueue_task (InsertClient ''CLIENT1'' True) (enqueue_task InitClients (mDatabaseWorker c))\<rparr>) = Some c2"
    "mPartitions c2 = (\<lambda>i. Some (fresh_partition Q i True))" "mTasks (mDatabaseWorker c2) = fresh_tasks"
    "tbl_clients (mDatabase (mDatabaseWorker c2)) = Some []" "tbl_sequences (mDatabase (mDatabaseWorker c2)) = None"
proof -
  obtain c where c: "init_core Q empty_db = Some c" "mPartitions c = (\<lambda>i. Some (fresh_partition Q i False))"
    "mTradeIDGenerator c = 0" "mTasks (mDatabaseWorker c) = []"
    "tbl_clients (mDatabase (mDatabaseWorker c)) = Some []" "tbl_sequences (mDatabase (mDatabaseWorker c)) = None"
    by (rule init_core_empty)
  let ?c1 = "c\<lparr>mDatabaseWorker := enqueue_task (InsertClient ''CLIENT1'' True) (enqueue_task InitClients (mDatabaseWorker c))\<rparr>"
  have "\<forall>i\<in>set instruments. mPartitions ?c1 i = Some (fresh_partition Q i False)" "mTradeIDGenerator ?c1 = 0"
    using c by simp_all
  from start_all_fresh [OF assms instruments_all(1) this(2,1)]
  obtain c2 where "start_core iter ?c1 = Some c2" "mDatabaseWorker c2 = mDatabaseWorker ?c1"
      "mPartitions c2 = (\<lambda>i. Some (fresh_partition Q i True))"
    by (auto simp: start_core_def instruments_all(2))
  then show thesis using that [OF c(1)] c(4-6) by (simp add: fresh_tasks_def enqueue_task_def)
qed

text \<open>
  C39: a local exchange lets its client in. Started from the panel of an exchange that does not run,
  with the port free and the old files removable, the exchange runs; once the database worker has
  taken its four tasks, \<open>CLIENT1\<close> can log on over any connection, and the numbers the exchange keeps
  for it are those of a client that starts without a file, as every client then does.
\<close>

theorem local_exchange_admits_its_client:
  assumes "iterates (iteration E)" and "\<not> mIsRunning m"
    and "em_dir m = None \<or> eh_removal host = None" and "eh_binds host (word_of_int port)"
  shows "\<exists>m' s s' sm w st. renderControlSection E host True port m = Some m' \<and> mIsRunning m' \<and>
     em_dir m' = None \<and> em_server m' = Some s \<and>
     server_run E (replicate 4 DatabaseTurn) s = Some (Inr s') \<and>
     authenticate sid ''CLIENT1'' (mSessionManager s') (mDatabaseWorker (mTradingCore s')) = Some (True, sm, w) \<and>
     getSessionState sid sm = Some st \<and> isLoggedOn st \<and>
     inSeqNum st + 1 = mOutSeqNum (open_store None writable) \<and> outSeqNum st = mInSeqNum (open_store None writable)"
proof -
  obtain c c2 where c: "init_core (queue_ops E) empty_db = Some c"
    "start_core (iteration E) (c\<lparr>mDatabaseWorker :=
       enqueue_task (InsertClient ''CLIENT1'' True) (enqueue_task InitClients (mDatabaseWorker c))\<rparr>) = Some c2"
    "mTasks (mDatabaseWorker c2) = fresh_tasks"
    "tbl_clients (mDatabase (mDatabaseWorker c2)) = Some []" "tbl_sequences (mDatabase (mDatabaseWorker c2)) = None"
    by (rule started_core [OF assms(1)])
  have read: "getText ''CLIENT1'' = ''CLIENT1''" by code_simp
  let ?s = "init_server True c2"
  have started: "\<exists>m'. renderControlSection E host True port m = Some m' \<and> mIsRunning m' \<and> em_dir m' = None \<and> em_server m' = Some ?s"
    using assms(2-4) c(1,2) by (auto simp: renderControlSection_def exchange_start_def)
  have "mDatabaseWorker (mTradingCore ?s) = enqueue_task LoadClients (enqueue_task InitSequences (mDatabaseWorker c2))"
    "mSessionManager ?s = init_manager True"
    by (simp_all add: init_server_def subscribeToExecutions_def)
  then have "\<exists>s'. server_run E (replicate 4 DatabaseTurn) ?s = Some (Inr s') \<and>
      mSessionManager s' = loadConfig [''CLIENT1''] (init_manager True) \<and>
      mTasks (mDatabaseWorker (mTradingCore s')) = [] \<and>
      tbl_sequences (mDatabase (mDatabaseWorker (mTradingCore s'))) = Some []"
    using c(3-5) read
    by (simp add: eval_nat_numeral database_turn_def worker_turn_def fresh_tasks_def enqueue_task_def
        create_if_missing_def exec_insertNewClient_def exec_loadValidClients_def)
  then obtain s' where s': "server_run E (replicate 4 DatabaseTurn) ?s = Some (Inr s')"
      "mSessionManager s' = loadConfig [''CLIENT1''] (init_manager True)"
      "mTasks (mDatabaseWorker (mTradingCore s')) = []"
      "tbl_sequences (mDatabase (mDatabaseWorker (mTradingCore s'))) = Some []" by blast
  have "\<exists>sm w st. authenticate sid ''CLIENT1'' (mSessionManager s') (mDatabaseWorker (mTradingCore s')) = Some (True, sm, w) \<and>
      getSessionState sid sm = Some st \<and> isLoggedOn st \<and> inSeqNum st = 0 \<and> outSeqNum st = 1"
    using s'(2-4)
    by (simp add: authenticate_def loadConfig_def init_manager_def wait_sequences_def exec_getSequenceNumbers_def
        seq_defaultValues_def set_state_def getSessionState_def)
  moreover have "mInSeqNum (open_store None writable) = 1" "mOutSeqNum (open_store None writable) = 1"
    by (simp_all add: open_store_def load_def read_numbers_def save_def)
  ultimately show ?thesis using started s'(1) by fastforce
qed

theorem local_exchange_admits_its_client_demo:
  "\<exists>m' s s'. renderControlSection live_env \<lparr>eh_removal = None, eh_binds = (\<lambda>p. p = 8088)\<rparr> True (8088 + 2 ^ 16)
       (new_exchange_manager (Some [''CLIENT1.seq'' \<mapsto> ''7 9''])) = Some m' \<and>
     em_dir m' = None \<and> em_server m' = Some s \<and> server_run live_env (replicate 4 DatabaseTurn) s = Some (Inr s') \<and>
     (\<exists>sm w. authenticate 3 ''CLIENT1'' (mSessionManager s') (mDatabaseWorker (mTradingCore s')) = Some (True, sm, w))"
proof -
  have "iterates (iteration live_env)" "word_of_int (8088 + 2 ^ 16) = (8088 :: 16 word)"
    using iterates_by_id by (simp_all add: live_env_def)
  then show ?thesis
    using local_exchange_admits_its_client [of live_env "new_exchange_manager (Some [''CLIENT1.seq'' \<mapsto> ''7 9''])"
        "\<lparr>eh_removal = None, eh_binds = (\<lambda>p. p = 8088)\<rparr>" "8088 + 2 ^ 16" 3 True]
    by (fastforce simp: new_exchange_manager_def)
qed

text \<open>
  A start that fails leaves its core running. With the port in use the panel shows the exchange as
  offline, but the core stays, its nine partitions run, and stopping does nothing.
\<close>

theorem failed_start_keeps_its_core:
  assumes "iterates (iteration E)" and "\<not> mIsRunning m" and "em_server m = None"
    and "em_dir m = None \<or> eh_removal host = None" and "\<not> eh_binds host (word_of_int port)"
  shows "\<exists>m' c. renderControlSection E host True port m = Some m' \<and> \<not> mIsRunning m' \<and> getCore m' = Some c \<and>
     (\<forall>i. \<exists>p. mPartitions c i = Some p \<and> mWorker p) \<and> exchange_stop m' = m'"
proof -
  obtain c c2 where c: "init_core (queue_ops E) empty_db = Some c"
    "start_core (iteration E) (c\<lparr>mDatabaseWorker :=
       enqueue_task (InsertClient ''CLIENT1'' True) (enqueue_task InitClients (mDatabaseWorker c))\<rparr>) = Some c2"
    "mPartitions c2 = (\<lambda>i. Some (fresh_partition (queue_ops E) i True))"
    by (rule started_core [OF assms(1)])
  then show ?thesis
    using assms(2-5)
    by (auto simp: renderControlSection_def exchange_start_def exchange_stop_def getCore_def fresh_partition_def)
qed

subsection \<open>Stopping\<close>

lemma stop_server_core: "mTradingCore (stop_server s) = mTradingCore s"
proof -
  have "mTradingCore (close_socket x t) = mTradingCore t" for x and t :: "'a fix_server"
    by (simp add: close_socket_def split: option.split)
  then have "mTradingCore (fold close_socket xs t) = mTradingCore t" for xs and t :: "'a fix_server"
    by (induction xs arbitrary: t) simp_all
  then show ?thesis by (simp add: stop_server_def)
qed

text \<open>With a callback set, every new order is answered by a report.\<close>

lemma new_order_reports:
  assumes "worker_inv s" "w_own s (mCoreOrderId ord) = None" "processNewOrder e ord s = Some s'" "has_callback e"
  shows "\<exists>r. EvReport r \<in> set (w_log s')"
  using assms(1-3)
proof (cases rule: new_order_cases)
  case rejected
  then show ?thesis using assms(4) by (auto simp: reject_def publishRejection_def)
next
  case accepted
  have "\<exists>evs. w_log (new_order_state e ord s) =
      w_log s @ (EvDb (SaveOrder ord) # map EvReport (publishExecution (has_callback e) ord ''NEW'')) @ evs"
    by (auto simp: new_order_state_def Let_def w_log_matched simp del: matched_state_simps split del: if_split split: if_splits)
  then show ?thesis using assms(4) accepted(2) by (auto simp: publishExecution_def)
qed

lemma deliver_out:
  "set (outs c) \<subseteq> set (outs (fold deliver vs c))"
  "EvReport r \<in> set vs \<Longrightarrow> mExecutionReportCallback c \<Longrightarrow> OutReport r \<in> set (outs (fold deliver vs c))"
proof -
  have one: "set (outs c) \<subseteq> set (outs (deliver v c))" "mExecutionReportCallback (deliver v c) = mExecutionReportCallback c" for v and c :: "'a core"
    by (cases v; auto)+
  show keeps: "set (outs c) \<subseteq> set (outs (fold deliver vs c))" for vs and c :: "'a core"
    by (induction vs arbitrary: c) (auto dest: subsetD [OF one(1)])
  show "EvReport r \<in> set vs \<Longrightarrow> mExecutionReportCallback c \<Longrightarrow> OutReport r \<in> set (outs (fold deliver vs c))"
  proof (induction vs arbitrary: c)
    case (Cons v vs)
    show ?case
    proof (cases "v = EvReport r")
      case True
      then have "OutReport r \<in> set (outs (deliver v c))" using Cons.prems(2) by simp
      then show ?thesis using keeps [of "deliver v c" vs] by auto
    next
      case False
      then show ?thesis using Cons.IH [of "deliver v c"] Cons.prems one(2) by simp
    qed
  qed simp
qed


text \<open>A running exchange with one order queued for EURUSD.\<close>

definition queued_partition :: "(nat \<times> command list) partition" where
  "queued_partition = (fresh_partition list_queue EURUSD True)\<lparr>mCommandQueue := (262144, [demo_new demo_low])\<rparr>"

definition queued_exchange :: "(nat \<times> command list) exchange_manager" where
  "queued_exchange = (new_exchange_manager None)\<lparr>mIsRunning := True, em_seqRepo := True,
     em_server := Some (init_server True (set_partition EURUSD queued_partition demo_core))\<rparr>"


subsection \<open>The bots\<close>

definition bots_current :: "'q app_loop \<Rightarrow> bool" where
  "bots_current a \<longleftrightarrow> map_option fst (mSimulator a) = mCurrentCore a"

lemma check_core_current: "bots_current a \<Longrightarrow> bots_current (check_core a) \<and> mCurrentCore (check_core a) = core_address (al_manager a)"
  by (auto simp: bots_current_def check_core_def Let_def option.map_comp comp_def option.map_ident)

text \<open>
  The bots outlive the core they trade on. A frame in which the exchange is stopped while bots run
  ends with the bots still running on the core that is gone; only the next frame drops them. A
  frame in which the button is not pressed never leaves bots without their core.
\<close>

theorem stop_leaves_the_bots_behind:
  assumes ok: "bots_current a" and "mIsRunning (al_manager a)" and "mSimulator (check_core a) = Some (x, s)"
  shows "\<exists>a' s'. app_frame E host input a = Some a' \<and> mSimulator a' = Some (x, s') \<and> bots_current a' \<and>
     (fi_pressed input \<longrightarrow> core_address (al_manager a') = None \<and> mSimulator (check_core a') = None) \<and>
     (\<not> fi_pressed input \<longrightarrow> core_address (al_manager a') = Some x) \<and>
     (sm_running s \<and> \<not> si_stop (fi_sim input) \<longrightarrow> sm_running s')"
proof -
  have m: "al_manager (check_core a) = al_manager a" by (simp add: check_core_def Let_def)
  have cur: "bots_current (check_core a)" "mCurrentCore (check_core a) = Some x" "core_address (al_manager a) = Some x"
    using check_core_current [OF ok] assms(3) by (auto simp: bots_current_def)
  obtain s' where s': "sim_panel (fi_sim input) (Some s) = Some s'" "sm_running s \<and> \<not> si_stop (fi_sim input) \<longrightarrow> sm_running s'"
    by (simp add: sim_panel_def)
  have gone: "core_address (exchange_stop (al_manager a)) = None"
    using assms(2) by (simp add: core_address_def getCore_def exchange_stop_def drop_core_def drop_server_def Let_def split: option.split)
  show ?thesis
    using assms(2,3) cur s' gone
    by (auto simp: app_frame_def Let_def m renderControlSection_def bots_current_def check_core_def)
qed

end
