(* ===== verification/Spec2Isabelle.thy ===== *)
theory Spec2Isabelle
  imports EngineProperties PartitionProperties CoreProperties FixWireProperties FixSequenceProperties
    FixServerProperties FixServerSafety FixOrderProperties
    ClientWire ClientOrders ClientStream ClientNumbers ClientMarketData ClientHandshake BlotterProperties
    ClientLadder ChartProperties SimulatorProperties ClientSubscription
    StressProperties LocalExchangeProperties
begin

text \<open>
  BetaTrader is a foreign-exchange trading system in C++: an exchange (a matching core with one
  partition per instrument, a SQLite store behind a database thread, a FIX 4.4 gateway) and a
  client (a FIX session, a blotter, a ladder, a candle chart, panels, and a simulator of bots that
  feeds a local exchange). This development models both sides function by function and proves
  what they do alone and to each other. Source paths are below \<open>src/\<close>.

  \<^bold>\<open>Conventions.\<close> A class is a record with the names of its members; an enum is a datatype;
  \<open>uint64_t\<close> and \<open>uint32_t\<close> are words of that width, other integers \<open>int\<close>; \<open>double\<close> is \<open>dbl\<close>, the
  finite values as rationals with rounding to nearest (\<open>CppDouble\<close>, \<open>CppRounding\<close>); a string is a
  list of bytes. \<open>std::map\<close> is the list of its nodes in order (\<open>CppMap\<close>). Result \<open>None\<close> is
  undefined behaviour (a dangling pointer, a null dereference) or a loop that does not end;
  \<open>exn + 'a\<close> is a C++ exception or a value. Orders live in a heap of addresses, because the book
  holds raw pointers into the order manager. Effects that leave a component (database tasks,
  execution reports, refreshes, written bytes, callbacks) are logged in the order they are made.
  Threads are interleaved at the granularity of a handler: a batch of a worker, a read callback,
  a database task, a frame of a panel.

  \<^bold>\<open>The library.\<close>
  \<^item> \<open>Prelude\<close>, \<open>CppDouble\<close>, \<open>CppRounding\<close>, \<open>CppMap\<close>, \<open>CppText\<close>, \<open>CppFormat\<close>, \<open>DecimalText\<close>,
    \<open>CalendarText\<close>: the parts of the language and the standard library the code uses, with what
    printing and parsing of numbers, prices and times do to each other.
  \<^item> \<open>CommonTypes\<close>, \<open>FixMessages\<close>: \<open>common/include/common\<close> and the message structs of
    \<open>common/include/common_fix\<close>.

  \<^bold>\<open>The exchange.\<close>
  \<^item> \<open>OrderManager\<close>, \<open>OrderBook\<close>, \<open>Matcher\<close>, \<open>RiskManager\<close>, \<open>ExecutionPublisher\<close>, \<open>Worker\<close>: one
    partition (\<open>exchange_state\<close>, \<open>exchange_matching\<close>, \<open>exchange_risk\<close>, \<open>exchange_publishers\<close>,
    \<open>exchange_routing/WorkerThread\<close>). \<open>WorkerSafety\<close> holds its invariant (the manager owns live
    orders under their ids, the book points to exactly such orders) and that every handler keeps
    it; \<open>WorkerBehaviour\<close> the closed form of every handler; \<open>WorkerProperties\<close> and \<open>WorkerStore\<close>
    price-time priority, conservation of quantity, the uncrossed book, self-trade prevention and
    the agreement with the database; \<open>EngineProperties\<close> the properties drawn from them.
  \<^item> \<open>Partition\<close>, \<open>PartitionProperties\<close>: the bounded command queue (a third-party queue, given by its
    laws), the worker loop, restart from the database.
  \<^item> \<open>Persistence\<close>, \<open>IdGenerators\<close>, \<open>MarketDataPublisher\<close>, \<open>TradingCore\<close>, \<open>EngineTasks\<close>,
    \<open>CoreProperties\<close>: the tables and repositories of \<open>exchange_persistence\<close>, the task queue of
    \<open>DatabaseWorker\<close>, id counters, subscriptions, and the core that routes commands to partitions,
    with its invariant over every step of the system. \<open>StressTest\<close> and \<open>StressProperties\<close>: the order
    generator of the stress test in \<open>exchange_app/Main.cpp\<close>, and that its orders never trade.
  \<^item> \<open>FixText\<close>, \<open>FixFields\<close>, \<open>FixSearch\<close>, \<open>FixFramer\<close>, \<open>FixConverters\<close>: tag=value text, framing with
    the wrap-around of \<open>size_t\<close>, and the converters between text and structs.
  \<^item> \<open>FixSessionManager\<close>, \<open>FixServer\<close>: sessions, sequence numbers, every message handler of
    \<open>exchange_fix\<close>. \<open>FixWireProperties\<close>, \<open>FixSequenceProperties\<close>, \<open>FixServerProperties\<close>,
    \<open>FixOrderProperties\<close> and \<open>FixServerSafety\<close> show what reaches the engine and under which name,
    where reports go, how numbers count and survive a restart, and that the whole exchange is never
    undefined; the only way its process ends is an exception out of the read callback.

  \<^bold>\<open>The client.\<close>
  \<^item> \<open>SeqNumStore\<close>, \<open>ClientParser\<close>, \<open>ClientSession\<close>: \<open>client_fix\<close>, with the state machine of the
    session, its timer, and the loop that cuts messages out of the stream. \<open>ClientStream\<close> shows that
    it does not matter how the bytes are cut into reads, \<open>ClientNumbers\<close> that the file of sequence
    numbers always holds those of the session.
  \<^item> \<open>BlotterModel\<close>, \<open>ClientOrderBook\<close>, \<open>CandleAggregator\<close>, \<open>CandleHistory\<close>, \<open>ClientApp\<close>,
    \<open>ConnectionPanel\<close>, \<open>Simulator\<close>: the blotter, the ladder, the candles and their chart, order
    tickets, the market data state, the event log, authentication, the callbacks of \<open>App\<close>, what the
    panels decide, and the bots.
  \<^item> \<open>BlotterProperties\<close>, \<open>CandleProperties\<close>, \<open>ChartProperties\<close>, \<open>SimulatorProperties\<close>: their
    invariants, the candles against a reference, the order of the chart, the end of each tick of the
    simulator and its effect on the core as a run of order placements.
  \<^item> \<open>LocalExchange\<close>, \<open>LocalExchangeProperties\<close>: the exchange inside the client (\<open>client_admin\<close>, the check
    of the core in \<open>App::run\<close>): a start lets the default client in; a failed start, a stop with orders
    queued and a stop with bots running each leave something running that should not be.

  \<^bold>\<open>Both sides together.\<close> \<open>ClientWire\<close>, \<open>ClientOrders\<close>, \<open>ClientMarketData\<close>, \<open>ClientLadder\<close>,
  \<open>ClientHandshake\<close> and \<open>ClientSubscription\<close> compose the client's printing with the exchange's
  parsing and the other way round: a report, an order, a snapshot, a refresh, a logon and a
  subscription, from the state of one side to the state of the other. They also show where the
  two sides disagree: market orders, trades and levels in market data, resets, rejections.

  \<^bold>\<open>Interfaces.\<close> The contracts between components are locales. \<open>key_order\<close> is what \<open>std::map\<close> asks
  of its comparison, interpreted for bids, asks, strings and numbers; \<open>keyed_store\<close> is what the
  worker relies on of a store of orders by id, interpreted for the order manager and for the
  \<open>orders\<close> table; \<open>subscription_registry\<close> is the contract of the market data publisher.

  \<^bold>\<open>Bounds.\<close> Loops end by a measure, except two that are partial functions: the matching loop,
  whose end is proved from the invariant of the book, and the loop of the bots, proved from a bound
  on the trade probability below \<open>2 ^ 53\<close>, where subtracting one still changes a double. Lengths of
  buffers are assumed below \<open>2 ^ 64\<close> where the code computes with \<open>size_t\<close>. The worker loop is given
  a number of turns, and \<open>PartitionProperties\<close> shows how many are enough.

  \<^bold>\<open>Not modelled.\<close> the completions of asynchronous writes, which only log; \<open>MarketHistoryRepository::getHistory\<close>,
  which nothing calls; the process entry points of the executables and the timing report of the
  stress test; the engine tab of the exchange panel, which shows constants; \<open>App::runSmoke\<close>, a test;
  the random generators, whose draws are arguments; logging; and drawing with ImGui, whose widgets
  are arguments.
\<close>

end
